(* ===== verification/Prelude.thy ===== *)
theory Prelude
  imports Complex_Main "HOL-Library.AList" "HOL-Library.Char_ord" "HOL-Library.List_Lexorder"
    "HOL-Library.Product_Lexorder" "HOL-Library.Sublist"
begin

text \<open>
  Shared vocabulary of the development: Python's exceptions as values, insertion-ordered
  dictionaries as association lists, decimal printing and reading of integers, string helpers,
  and the generic list lemmas the component theories use.

  Conventions. A Python \<open>float\<close> is an exact rational (\<open>pyfloat\<close>): comparisons, sums and
  products are exact, rounding, NaN and infinities are not modelled. A Python \<open>int\<close> is \<open>int\<close> (or
  \<open>nat\<close> for lengths and counters that only grow). A \<open>str\<close> is a list of characters with code points
  below 256, ordered by code point as Python orders it. \<open>sorted(xs, key=f)\<close> is the stable
  \<open>sort_key f xs\<close>.
\<close>

section \<open>Types\<close>

type_synonym pyfloat = rat
type_synonym ('k, 'v) dict = "('k \<times> 'v) list"

datatype exn =
    KeyError string
  | IndexError
  | ValueError string
  | TypeError string
  | AssertionError
  | StopIteration
  | ZeroDivisionError
  | RuntimeError string
  | TimeoutExpired
  | PrecheckError string
  | AuditUnavailable string
  | SideDoorRejected string
  | BudgetExhausted string
  | IntegrityError string
  | DataError string
  | OperationalError
  | NoResultFound
  | MultipleResultsFound
  | HTTPException nat string

type_synonym 'a res = "exn + 'a"

named_theorems ledger_simps \<open>equations of the replayed ledger\<close>
named_theorems table_defs \<open>definitions of the table insertions and queries\<close>
named_theorems table_intros \<open>preservation of the table invariants\<close>
named_theorems causal_simps \<open>equations of the streaming detectors\<close>

section \<open>Results\<close>

definition bindr :: "'a res \<Rightarrow> ('a \<Rightarrow> 'b res) \<Rightarrow> 'b res" where
  "bindr m f = (case m of Inl e \<Rightarrow> Inl e | Inr a \<Rightarrow> f a)"

lemma bindr_simps [simp]:
  "bindr (Inl e) f = Inl e"
  "bindr (Inr a) f = f a"
  by (simp_all add: bindr_def)

lemma bindr_Inr_iff: "bindr m f = Inr y \<longleftrightarrow> (\<exists>x. m = Inr x \<and> f x = Inr y)"
  by (cases m) auto

lemma bindr_Inl_iff: "bindr m f = Inl e \<longleftrightarrow> m = Inl e \<or> (\<exists>x. m = Inr x \<and> f x = Inl e)"
  by (cases m) auto

text \<open>\<open>[f(x) for x in xs]\<close> where \<open>f\<close> may raise: the first exception wins.\<close>

fun map_res :: "('a \<Rightarrow> 'b res) \<Rightarrow> 'a list \<Rightarrow> 'b list res" where
  "map_res f [] = Inr []"
| "map_res f (x # xs) = bindr (f x) (\<lambda>y. bindr (map_res f xs) (\<lambda>ys. Inr (y # ys)))"

text \<open>A loop whose body may raise.\<close>

fun fold_res :: "('a \<Rightarrow> 's \<Rightarrow> 's res) \<Rightarrow> 'a list \<Rightarrow> 's \<Rightarrow> 's res" where
  "fold_res f [] s = Inr s"
| "fold_res f (x # xs) s = bindr (f x s) (fold_res f xs)"

lemma fold_res_append: "fold_res f (xs @ ys) s = bindr (fold_res f xs s) (fold_res f ys)"
proof (induction xs arbitrary: s)
  case (Cons x xs)
  then show ?case by (cases "f x s") simp_all
qed simp

lemma map_res_Inr_iff: "map_res f xs = Inr ys \<longleftrightarrow> list_all2 (\<lambda>x y. f x = Inr y) xs ys"
  by (induction xs arbitrary: ys) (auto simp: bindr_Inr_iff list_all2_Cons1)

lemma map_res_total: "(\<And>x. x \<in> set xs \<Longrightarrow> f x = Inr (g x)) \<Longrightarrow> map_res f xs = Inr (map g xs)"
  by (induction xs) auto

lemma map_res_nth: "map_res f xs = Inr ys \<Longrightarrow> i < length xs \<Longrightarrow> f (xs ! i) = Inr (ys ! i)"
  by (simp add: map_res_Inr_iff list_all2_conv_all_nth)

lemma map_res_length: "map_res f xs = Inr ys \<Longrightarrow> length ys = length xs"
  by (simp add: map_res_Inr_iff list_all2_lengthD)

lemma map_res_in: "map_res f xs = Inr ys \<Longrightarrow> x \<in> set xs \<Longrightarrow> \<exists>y. f x = Inr y"
  by (auto simp: map_res_Inr_iff list_all2_conv_all_nth in_set_conv_nth)

lemma map_res_all: "map_res f xs = Inr ys \<Longrightarrow> y \<in> set ys \<Longrightarrow> (\<And>x. x \<in> set xs \<Longrightarrow> f x = Inr y \<Longrightarrow> P y) \<Longrightarrow> P y"
  by (auto simp: map_res_Inr_iff list_all2_conv_all_nth in_set_conv_nth) blast

text \<open>A step on a state \<open>'s\<close> that may raise keeps what it did to the state; the next step runs only when it returned.\<close>

definition andthen :: "('s \<Rightarrow> 'a res \<times> 's) \<Rightarrow> ('a \<Rightarrow> 's \<Rightarrow> 'b res \<times> 's) \<Rightarrow> 's \<Rightarrow> 'b res \<times> 's" where
  "andthen m f w = (case m w of (Inl e, w1) \<Rightarrow> (Inl e, w1) | (Inr a, w1) \<Rightarrow> f a w1)"

lemma andthen_Inr: "m w = (Inr a, w1) \<Longrightarrow> andthen m f w = f a w1"
  by (simp add: andthen_def)

lemma andthen_Inr_iff: "andthen m f w = (Inr b, w') \<longleftrightarrow> (\<exists>a w1. m w = (Inr a, w1) \<and> f a w1 = (Inr b, w'))"
  by (auto simp: andthen_def split: prod.splits sum.splits)

section \<open>Dictionaries\<close>

text \<open>
  \<open>d[k] = v\<close> replaces in place or appends at the end (insertion order), \<open>d.get(k)\<close> is \<open>map_of\<close>,
  \<open>d.keys()\<close> is \<open>map fst\<close>.
\<close>

abbreviation dict_set :: "'k \<Rightarrow> 'v \<Rightarrow> ('k, 'v) dict \<Rightarrow> ('k, 'v) dict" where
  "dict_set \<equiv> AList.update"

abbreviation dict_get :: "('k, 'v) dict \<Rightarrow> 'k \<Rightarrow> 'v option" where
  "dict_get \<equiv> map_of"

abbreviation dict_keys :: "('k, 'v) dict \<Rightarrow> 'k list" where
  "dict_keys d \<equiv> map fst d"

definition dict_index :: "(string, 'v) dict \<Rightarrow> string \<Rightarrow> 'v res" where
  "dict_index d k = (case dict_get d k of None \<Rightarrow> Inl (KeyError k) | Some v \<Rightarrow> Inr v)"

lemma dict_index_Inr [simp]: "dict_index d k = Inr v \<longleftrightarrow> dict_get d k = Some v"
  by (simp add: dict_index_def split: option.splits)

lemma dict_get_set [simp]: "dict_get (dict_set k v d) k' = (if k' = k then Some v else dict_get d k')"
  by (simp add: update_conv')

lemma dict_keys_set: "set (dict_keys (dict_set k v d)) = insert k (set (dict_keys d))"
  by (simp add: update_keys) auto

lemma distinct_dict_set [simp]: "distinct (dict_keys d) \<Longrightarrow> distinct (dict_keys (dict_set k v d))"
  by (rule distinct_update)

lemma dict_set_fresh: "k \<notin> fst ` set d \<Longrightarrow> dict_set k v d = d @ [(k, v)]"
  by (induction d) auto

lemma dict_get_filter:
  "distinct (dict_keys d) \<Longrightarrow>
    dict_get (filter (\<lambda>p. P (snd p)) d) k = (case dict_get d k of None \<Rightarrow> None | Some v \<Rightarrow> if P v then Some v else None)"
  by (induction d) (auto split: option.splits simp: map_of_eq_None_iff)

text \<open>A dictionary comprehension \<open>{k(x): v(x) for x in xs}\<close>: the last binding of a key wins.\<close>

definition dict_comp :: "('a \<Rightarrow> 'k) \<Rightarrow> ('a \<Rightarrow> 'v) \<Rightarrow> 'a list \<Rightarrow> ('k, 'v) dict" where
  "dict_comp k v xs = fold (\<lambda>x. dict_set (k x) (v x)) xs []"

lemma find_snoc: "find P (xs @ [x]) = (case find P xs of Some y \<Rightarrow> Some y | None \<Rightarrow> if P x then Some x else None)"
  by (induction xs) auto

lemma fold_dict_set_get:
  "dict_get (fold (\<lambda>x. dict_set (k x) (v x)) xs d) q =
     (case find (\<lambda>x. k x = q) (rev xs) of Some x \<Rightarrow> Some (v x) | None \<Rightarrow> dict_get d q)"
proof (induction xs arbitrary: d)
  case (Cons x xs)
  then show ?case
    by (auto simp: find_snoc split: option.splits)
qed simp

lemma fold_dict_set_keys:
  "set (dict_keys (fold (\<lambda>x. dict_set (k x) (v x)) xs d)) = k ` set xs \<union> set (dict_keys d)"
  by (induction xs arbitrary: d) (auto simp: dict_keys_set simp del: set_map)

lemma fold_dict_set_distinct:
  "distinct (dict_keys d) \<Longrightarrow> distinct (dict_keys (fold (\<lambda>x. dict_set (k x) (v x)) xs d))"
  by (induction xs arbitrary: d) auto

lemma fold_dict_set_fresh:
  "distinct (map k xs) \<Longrightarrow> set (map k xs) \<inter> set (dict_keys d) = {} \<Longrightarrow>
    fold (\<lambda>x. dict_set (k x) (v x)) xs d = d @ map (\<lambda>x. (k x, v x)) xs"
  by (induction xs arbitrary: d) (auto simp: dict_set_fresh)

section \<open>Strings\<close>

definition startswith :: "string \<Rightarrow> string \<Rightarrow> bool" where
  "startswith s p \<longleftrightarrow> take (length p) s = p"

lemma startswith_prefix: "startswith s p \<longleftrightarrow> prefix p s"
  by (auto simp: startswith_def prefix_def intro: append_take_drop_id[symmetric])
    (metis append_take_drop_id)

fun join :: "string \<Rightarrow> string list \<Rightarrow> string" where
  "join sep [] = []"
| "join sep [x] = x"
| "join sep (x # y # xs) = x @ sep @ join sep (y # xs)"

lemma join_Cons: "join sep (x # xs) = x @ concat (map (\<lambda>y. sep @ y) xs)"
  by (induction xs arbitrary: x) auto

text \<open>\<open>s.split(c)[0]\<close> and \<open>s.split(c, 1)\<close> for a one-character separator.\<close>

definition text_before :: "char \<Rightarrow> string \<Rightarrow> string" where
  "text_before c s = takeWhile (\<lambda>x. x \<noteq> c) s"

lemma text_before_append: "c \<notin> set s \<Longrightarrow> text_before c (s @ c # t) = s"
  by (induction s) (auto simp: text_before_def)

text \<open>Substring test \<open>p in s\<close>.\<close>

fun contains :: "string \<Rightarrow> string \<Rightarrow> bool" where
  "contains [] p = (p = [])"
| "contains (c # s) p = (startswith (c # s) p \<or> contains s p)"

section \<open>Decimal numerals\<close>

definition is_digit :: "char \<Rightarrow> bool" where
  "is_digit c \<longleftrightarrow> 48 \<le> (of_char c :: nat) \<and> (of_char c :: nat) \<le> 57"

definition digit_char :: "nat \<Rightarrow> char" where
  "digit_char d = char_of (48 + d)"

definition digit_val :: "char \<Rightarrow> nat" where
  "digit_val c = of_char c - 48"

lemma digit_char_props:
  assumes "d < 10"
  shows "is_digit (digit_char d)" "digit_val (digit_char d) = d"
  using assms by (simp_all add: is_digit_def digit_char_def digit_val_def)

lemma digit_char_inj: "d < 10 \<Longrightarrow> e < 10 \<Longrightarrow> digit_char d = digit_char e \<Longrightarrow> d = e"
  by (metis digit_char_props(2))

fun show_nat :: "nat \<Rightarrow> string" where
  "show_nat n = (if n < 10 then [digit_char n] else show_nat (n div 10) @ [digit_char (n mod 10)])"

declare show_nat.simps [simp del]

definition show_int :: "int \<Rightarrow> string" where
  "show_int i = (if i < 0 then CHR ''-'' # show_nat (nat (- i)) else show_nat (nat i))"

definition read_nat :: "string \<Rightarrow> nat" where
  "read_nat s = foldl (\<lambda>a c. 10 * a + digit_val c) 0 s"

lemma read_nat_snoc: "read_nat (s @ [c]) = 10 * read_nat s + digit_val c"
  by (simp add: read_nat_def)

lemma read_show_nat [simp]: "read_nat (show_nat n) = n"
proof (induction n rule: show_nat.induct)
  case (1 n)
  then show ?case
    by (subst show_nat.simps) (auto simp: read_nat_snoc digit_char_props read_nat_def)
qed

lemma show_nat_inj: "show_nat m = show_nat n \<longleftrightarrow> m = n"
  by (metis read_show_nat)

lemma show_nat_digits: "\<forall>c \<in> set (show_nat n). is_digit c"
proof (induction n rule: show_nat.induct)
  case (1 n)
  then show ?case
    by (subst show_nat.simps) (auto simp: digit_char_props)
qed

lemma show_nat_nonempty [simp]: "show_nat n \<noteq> []"
  by (subst show_nat.simps) auto

lemma show_nat_no_leading_zero: "0 < n \<Longrightarrow> hd (show_nat n) \<noteq> CHR ''0''"
proof (induction n rule: show_nat.induct)
  case (1 n)
  have z: "CHR ''0'' = digit_char 0"
    by code_simp
  show ?case
  proof (cases "n < 10")
    case True
    with "1.prems" digit_char_inj [of n 0] show ?thesis
      by (subst show_nat.simps) (auto simp: z)
  next
    case False
    with "1.IH" show ?thesis
      by (subst show_nat.simps) auto
  qed
qed

lemma show_nat_0 [simp]: "show_nat 0 = ''0''"
  by code_simp

lemma minus_not_digit [simp]: "\<not> is_digit (CHR ''-'')"
  by (simp add: is_digit_def)

lemma show_nat_no_char: "\<not> is_digit c \<Longrightarrow> c \<notin> set (show_nat n)"
  using show_nat_digits by blast

lemma show_int_inj: "show_int i = show_int j \<longleftrightarrow> i = j"
proof -
  have "hd (show_nat n) \<noteq> CHR ''-''" for n
    using show_nat_digits [of n] by (metis hd_in_set minus_not_digit show_nat_nonempty)
  then show ?thesis
    by (auto simp: show_int_def show_nat_inj split: if_splits) (metis list.sel(1))+
qed

section \<open>Lists\<close>

lemma find_Some_in: "find P xs = Some x \<Longrightarrow> x \<in> set xs \<and> P x"
  by (induction xs) (auto split: if_splits)

lemma filter_single_in: "filter P xs = [x] \<Longrightarrow> x \<in> set xs \<and> P x"
proof -
  assume "filter P xs = [x]"
  then have "x \<in> set (filter P xs)" by simp
  then show ?thesis by simp
qed

lemma sorted_sort_key': "sorted (map f (sort_key f xs))"
  by (rule sorted_sort_key)

text \<open>\<open>seen\<close>-set scan: the elements of a list that already occurred, in order of their repetition.\<close>

fun dupes :: "'a set \<Rightarrow> 'a list \<Rightarrow> 'a list" where
  "dupes S [] = []"
| "dupes S (x # xs) = (if x \<in> S then [x] else []) @ dupes (insert x S) xs"

lemma dupes_empty_iff: "dupes S xs = [] \<longleftrightarrow> distinct xs \<and> set xs \<inter> S = {}"
  by (induction xs arbitrary: S) auto

lemma set_dupes_subset: "set (dupes S xs) \<subseteq> set xs"
  by (induction xs arbitrary: S) auto

lemma map_sort_key: "map f (sort_key f xs) = sort (map f xs)"
proof -
  have "map f (insort_key f x ys) = insort (f x) (map f ys)" for x ys by (induction ys) auto
  then show ?thesis by (induction xs) simp_all
qed

end
