(* ===== verification/PyJson.thy ===== *)
theory PyJson
  imports Prelude
begin

text \<open>
  The part of Python's \<open>json\<close> module the program relies on: \<open>json.dumps\<close> (default separators,
  \<open>ensure_ascii\<close>), its \<open>sort_keys=True\<close> variant, and \<open>json.loads\<close>. Digests of plans, manifests and
  graphs are taken over \<open>dumps (canon v)\<close>; the chaos ledger and the language model adapter read
  text back with \<open>loads\<close>.

  \<open>float.__repr__\<close> and \<open>float()\<close> are the parameters \<open>fr\<close> and \<open>fp\<close>; \<open>float_law\<close> states what Python
  documents of them (the printed form is a float literal and reads back as the same number).
  \<open>NaN\<close>, \<open>Infinity\<close> and code points from 256 on are outside the model.

  The main results: \<open>loads\<close> inverts \<open>dumps\<close> on every value whose objects have distinct keys
  (\<open>loads_dumps\<close>), so \<open>dumps\<close> is injective there (\<open>dumps_inj\<close>), and the fuel of the reader is
  always enough on printed text (\<open>parse_dumps\<close>).
\<close>

datatype json =
    JNull
  | JBool bool
  | JInt int
  | JFloat pyfloat
  | JStr string
  | JArr "json list"
  | JObj "(string \<times> json) list"

abbreviation quote_c :: char where "quote_c \<equiv> CHR 0x22"
abbreviation bslash_c :: char where "bslash_c \<equiv> CHR 0x5C"
abbreviation newline_c :: char where "newline_c \<equiv> CHR 0x0A"

section \<open>Printing\<close>

definition hex_digit :: "nat \<Rightarrow> char" where
  "hex_digit d = (if d < 10 then char_of (48 + d) else char_of (87 + d))"

definition escape_char :: "char \<Rightarrow> string" where
  "escape_char c =
     (if c = quote_c then [bslash_c, quote_c]
      else if c = bslash_c then [bslash_c, bslash_c]
      else if c = CHR 0x0A then [bslash_c, CHR ''n'']
      else if c = CHR 0x0D then [bslash_c, CHR ''r'']
      else if c = CHR 0x09 then [bslash_c, CHR ''t'']
      else if c = CHR 0x08 then [bslash_c, CHR ''b'']
      else if c = CHR 0x0C then [bslash_c, CHR ''f'']
      else if 32 \<le> (of_char c :: nat) \<and> (of_char c :: nat) \<le> 126 then [c]
      else [bslash_c, CHR ''u'', CHR ''0'', CHR ''0'',
            hex_digit (of_char c div 16), hex_digit (of_char c mod 16)])"

definition dump_str :: "string \<Rightarrow> string" where
  "dump_str s = quote_c # concat (map escape_char s) @ [quote_c]"

fun dumps :: "(pyfloat \<Rightarrow> string) \<Rightarrow> json \<Rightarrow> string" where
  "dumps fr JNull = ''null''"
| "dumps fr (JBool b) = (if b then ''true'' else ''false'')"
| "dumps fr (JInt i) = show_int i"
| "dumps fr (JFloat x) = fr x"
| "dumps fr (JStr s) = dump_str s"
| "dumps fr (JArr xs) = ''['' @ join '', '' (map (dumps fr) xs) @ '']''"
| "dumps fr (JObj ps) =
     ''{'' @ join '', '' (map (\<lambda>(k, v). dump_str k @ '': '' @ dumps fr v) ps) @ ''}''"

text \<open>\<open>sort_keys=True\<close>: every object's items are sorted by key before printing.\<close>

fun canon :: "json \<Rightarrow> json" where
  "canon (JArr xs) = JArr (map canon xs)"
| "canon (JObj ps) = JObj (sort_key fst (map (\<lambda>(k, v). (k, canon v)) ps))"
| "canon v = v"

definition dumps_sorted :: "(pyfloat \<Rightarrow> string) \<Rightarrow> json \<Rightarrow> string" where
  "dumps_sorted fr v = dumps fr (canon v)"

section \<open>Reading\<close>

definition is_ws :: "char \<Rightarrow> bool" where
  "is_ws c \<longleftrightarrow> c \<in> {CHR 0x20, CHR 0x09, CHR 0x0A, CHR 0x0D}"

definition skip_ws :: "string \<Rightarrow> string" where
  "skip_ws s = dropWhile is_ws s"

definition hex_val :: "char \<Rightarrow> nat option" where
  "hex_val c =
     (let n = of_char c in
      if 48 \<le> n \<and> n \<le> 57 then Some (n - 48)
      else if 97 \<le> n \<and> n \<le> 102 then Some (n - 87)
      else if 65 \<le> n \<and> n \<le> 70 then Some (n - 55)
      else None)"

definition hex4 :: "char \<Rightarrow> char \<Rightarrow> char \<Rightarrow> char \<Rightarrow> nat option" where
  "hex4 a b c d =
     (case (hex_val a, hex_val b, hex_val c, hex_val d) of
        (Some w, Some x, Some y, Some z) \<Rightarrow> Some (((w * 16 + x) * 16 + y) * 16 + z)
      | _ \<Rightarrow> None)"

definition simple_unescape :: "char \<Rightarrow> char option" where
  "simple_unescape e =
     (if e = quote_c then Some quote_c
      else if e = bslash_c then Some bslash_c
      else if e = CHR ''/'' then Some (CHR ''/'')
      else if e = CHR ''n'' then Some (CHR 0x0A)
      else if e = CHR ''r'' then Some (CHR 0x0D)
      else if e = CHR ''t'' then Some (CHR 0x09)
      else if e = CHR ''b'' then Some (CHR 0x08)
      else if e = CHR ''f'' then Some (CHR 0x0C)
      else None)"

text \<open>The body of a string literal, after its opening quote.\<close>

fun parse_str :: "string \<Rightarrow> (string \<times> string) option" where
  "parse_str [] = None"
| "parse_str (c # s) =
     (if c = quote_c then Some ([], s)
      else if c = bslash_c then
        (case s of
           [] \<Rightarrow> None
         | e # s1 \<Rightarrow>
             (case simple_unescape e of
                Some d \<Rightarrow> map_option (apfst (Cons d)) (parse_str s1)
              | None \<Rightarrow>
                  if e = CHR ''u'' then
                    (case s1 of
                       h1 # h2 # h3 # h4 # s2 \<Rightarrow>
                         (case hex4 h1 h2 h3 h4 of
                            Some n \<Rightarrow>
                              if n < 256 then map_option (apfst (Cons (char_of n))) (parse_str s2)
                              else None
                          | None \<Rightarrow> None)
                     | _ \<Rightarrow> None)
                  else None))
      else if (of_char c :: nat) < 32 then None
      else map_option (apfst (Cons c)) (parse_str s))"

text \<open>Number tokens: an integer part, an optional fraction, an optional exponent.\<close>

definition take_int :: "string \<Rightarrow> (string \<times> string) option" where
  "take_int s =
     (let neg = (s \<noteq> [] \<and> hd s = CHR ''-'');
          s1 = (if neg then tl s else s);
          ds = takeWhile is_digit s1;
          ip = (if ds \<noteq> [] \<and> hd ds = CHR ''0'' then [CHR ''0''] else ds)
      in if ds = [] then None
         else Some ((if neg then ''-'' else []) @ ip, drop (length ip) s1))"

definition take_frac :: "string \<Rightarrow> string \<times> string" where
  "take_frac s =
     (if s \<noteq> [] \<and> hd s = CHR ''.'' \<and> takeWhile is_digit (tl s) \<noteq> []
      then (CHR ''.'' # takeWhile is_digit (tl s), dropWhile is_digit (tl s))
      else ([], s))"

definition take_exp :: "string \<Rightarrow> string \<times> string" where
  "take_exp s =
     (if s \<noteq> [] \<and> (hd s = CHR ''e'' \<or> hd s = CHR ''E'') then
        (let s1 = tl s;
             sg = (s1 \<noteq> [] \<and> (hd s1 = CHR ''+'' \<or> hd s1 = CHR ''-''));
             s2 = (if sg then tl s1 else s1);
             ds = takeWhile is_digit s2
         in if ds = [] then ([], s)
            else (hd s # (if sg then [hd s1] else []) @ ds, dropWhile is_digit s2))
      else ([], s))"

definition read_int :: "string \<Rightarrow> int" where
  "read_int t =
     (if t \<noteq> [] \<and> hd t = CHR ''-'' then - int (read_nat (tl t)) else int (read_nat t))"

definition parse_num :: "(string \<Rightarrow> pyfloat) \<Rightarrow> string \<Rightarrow> (json \<times> string) option" where
  "parse_num fp s =
     (case take_int s of
        None \<Rightarrow> None
      | Some (ip, s1) \<Rightarrow>
          (let (fr, s2) = take_frac s1; (ex, s3) = take_exp s2 in
           if fr = [] \<and> ex = [] then Some (JInt (read_int ip), s3)
           else Some (JFloat (fp (ip @ fr @ ex)), s3)))"

fun parse_val :: "(string \<Rightarrow> pyfloat) \<Rightarrow> nat \<Rightarrow> string \<Rightarrow> (json \<times> string) option"
  and parse_elems :: "(string \<Rightarrow> pyfloat) \<Rightarrow> nat \<Rightarrow> string \<Rightarrow> (json list \<times> string) option"
  and parse_members :: "(string \<Rightarrow> pyfloat) \<Rightarrow> nat \<Rightarrow> string \<Rightarrow>
        ((string \<times> json) list \<times> string) option" where
  "parse_val fp 0 s = None"
| "parse_val fp (Suc n) s =
     (case s of
        [] \<Rightarrow> None
      | c # t \<Rightarrow>
          if c = quote_c then map_option (apfst JStr) (parse_str t)
          else if c = CHR ''['' then
            (case skip_ws t of
               [] \<Rightarrow> None
             | d # u \<Rightarrow> if d = CHR '']'' then Some (JArr [], u)
                        else map_option (apfst JArr) (parse_elems fp n (d # u)))
          else if c = CHR ''{'' then
            (case skip_ws t of
               [] \<Rightarrow> None
             | d # u \<Rightarrow> if d = CHR ''}'' then Some (JObj [], u)
                        else map_option (apfst (\<lambda>ps. JObj (dict_comp fst snd ps)))
                               (parse_members fp n (d # u)))
          else if startswith s ''null'' then Some (JNull, drop 4 s)
          else if startswith s ''true'' then Some (JBool True, drop 4 s)
          else if startswith s ''false'' then Some (JBool False, drop 5 s)
          else parse_num fp s)"
| "parse_elems fp 0 s = None"
| "parse_elems fp (Suc n) s =
     (case parse_val fp n s of
        None \<Rightarrow> None
      | Some (v, r) \<Rightarrow>
          (case skip_ws r of
             [] \<Rightarrow> None
           | c # r1 \<Rightarrow>
               if c = CHR '']'' then Some ([v], r1)
               else if c = CHR '','' then map_option (apfst (Cons v)) (parse_elems fp n (skip_ws r1))
               else None))"
| "parse_members fp 0 s = None"
| "parse_members fp (Suc n) s =
     (case s of
        [] \<Rightarrow> None
      | q # t \<Rightarrow>
          if q \<noteq> quote_c then None
          else
            (case parse_str t of
               None \<Rightarrow> None
             | Some (k, r) \<Rightarrow>
                 (case skip_ws r of
                    [] \<Rightarrow> None
                  | c # r1 \<Rightarrow>
                      if c \<noteq> CHR '':'' then None
                      else
                        (case parse_val fp n (skip_ws r1) of
                           None \<Rightarrow> None
                         | Some (v, r2) \<Rightarrow>
                             (case skip_ws r2 of
                                [] \<Rightarrow> None
                              | c2 # r3 \<Rightarrow>
                                  if c2 = CHR ''}'' then Some ([(k, v)], r3)
                                  else if c2 = CHR '','' then
                                    map_option (apfst (Cons (k, v)))
                                      (parse_members fp n (skip_ws r3))
                                  else None)))))"

text \<open>\<open>json.loads\<close>: one value and nothing after it; \<open>JSONDecodeError\<close> is a \<open>ValueError\<close>.\<close>

definition loads :: "(string \<Rightarrow> pyfloat) \<Rightarrow> string \<Rightarrow> json res" where
  "loads fp s =
     (case parse_val fp (Suc (length s)) (skip_ws s) of
        Some (v, r) \<Rightarrow> if skip_ws r = [] then Inr v else Inl (ValueError ''JSONDecodeError'')
      | None \<Rightarrow> Inl (ValueError ''JSONDecodeError''))"

section \<open>Well-formed values\<close>

fun wf_json :: "json \<Rightarrow> bool" where
  "wf_json (JArr xs) \<longleftrightarrow> (\<forall>x \<in> set xs. wf_json x)"
| "wf_json (JObj ps) \<longleftrightarrow> distinct (map fst ps) \<and> (\<forall>p \<in> set ps. wf_json (snd p))"
| "wf_json _ \<longleftrightarrow> True"

section \<open>Strings and numbers read back\<close>

lemma hex_val_digit: "d < 16 \<Longrightarrow> hex_val (hex_digit d) = Some d"
  by (auto simp: hex_val_def hex_digit_def)

lemma of_char_less_256: "(of_char c :: nat) < 256"
  using of_char_mod_256 [of c, where 'a = nat] by (metis mod_less_divisor zero_less_numeral)

lemma hex4_char:
  "hex4 (CHR ''0'') (CHR ''0'') (hex_digit (of_char c div 16)) (hex_digit (of_char c mod 16)) = Some (of_char c)"
proof -
  have "hex_val (CHR ''0'') = Some 0" by (simp add: hex_val_def)
  moreover have "(of_char c :: nat) div 16 < 16"
    using of_char_less_256 [of c] by (simp add: div_less_iff_less_mult)
  ultimately show ?thesis
    by (simp add: hex4_def hex_val_digit)
qed

lemma simple_unescape_simps [simp]:
  "simple_unescape quote_c = Some quote_c"
  "simple_unescape bslash_c = Some bslash_c"
  "simple_unescape (CHR ''n'') = Some (CHR 0x0A)"
  "simple_unescape (CHR ''r'') = Some (CHR 0x0D)"
  "simple_unescape (CHR ''t'') = Some (CHR 0x09)"
  "simple_unescape (CHR ''b'') = Some (CHR 0x08)"
  "simple_unescape (CHR ''f'') = Some (CHR 0x0C)"
  "simple_unescape (CHR ''u'') = None"
  by (simp_all add: simple_unescape_def)

lemma parse_escape_char:
  "parse_str (escape_char c @ t) = map_option (apfst (Cons c)) (parse_str t)"
  by (auto simp: escape_char_def hex4_char of_char_less_256)

lemma parse_dump_str: "parse_str (concat (map escape_char s) @ quote_c # r) = Some (s, r)"
  by (induction s) (simp_all add: parse_escape_char del: parse_str.simps(2), simp)

section \<open>Numbers\<close>

definition delim :: "string \<Rightarrow> bool" where
  "delim r \<longleftrightarrow> r = [] \<or> hd r \<in> {CHR '','', CHR '']'', CHR ''}'', newline_c}"

lemma delim_simps [simp]:
  "delim []" "delim (CHR '','' # r)" "delim (CHR '']'' # r)" "delim (CHR ''}'' # r)" "delim (newline_c # r)"
  by (simp_all add: delim_def)

lemma delim_no_digit: "delim r \<Longrightarrow> r = [] \<or> \<not> is_digit (hd r)"
  by (auto simp: delim_def is_digit_def)

lemma takeWhile_digits: "\<forall>c \<in> set ds. is_digit c \<Longrightarrow> r = [] \<or> \<not> is_digit (hd r) \<Longrightarrow> takeWhile is_digit (ds @ r) = ds"
  by (induction ds) (auto simp: takeWhile_eq_Nil_iff)

lemma takeWhile_app: "r = [] \<or> \<not> P (hd r) \<Longrightarrow> takeWhile P (s @ r) = takeWhile P s"
  by (induction s) (auto simp: takeWhile_eq_Nil_iff)

lemma dropWhile_app: "r = [] \<or> \<not> P (hd r) \<Longrightarrow> dropWhile P (s @ r) = dropWhile P s @ r"
  by (induction s) (auto, (metis dropWhile_eq_self_iff)+)

lemma take_frac_delim [simp]: "delim r \<Longrightarrow> take_frac r = ([], r)"
  by (auto simp: take_frac_def delim_def)

lemma take_exp_delim [simp]: "delim r \<Longrightarrow> take_exp r = ([], r)"
  by (auto simp: take_exp_def delim_def)

lemma show_nat_zero_cases: "hd (show_nat n) = CHR ''0'' \<Longrightarrow> show_nat n = ''0''"
  using show_nat_no_leading_zero [of n] by (cases n) auto

lemma take_int_show_nat:
  assumes "delim r"
  shows "take_int (show_nat n @ r) = Some (show_nat n, r)"
proof -
  have tw: "takeWhile is_digit (show_nat n @ r) = show_nat n"
    by (rule takeWhile_digits [OF show_nat_digits delim_no_digit [OF assms]])
  have "hd (show_nat n) \<noteq> CHR ''-''"
    using show_nat_digits [of n] by (metis hd_in_set minus_not_digit show_nat_nonempty)
  then show ?thesis
    using show_nat_zero_cases [of n] by (auto simp: take_int_def tw Let_def)
qed

lemma take_int_show_int:
  assumes "delim r"
  shows "take_int (show_int i @ r) = Some (show_int i, r)"
proof (cases "i < 0")
  case True
  let ?n = "nat (- i)"
  have tw: "takeWhile is_digit (show_nat ?n @ r) = show_nat ?n"
    by (rule takeWhile_digits [OF show_nat_digits delim_no_digit [OF assms]])
  show ?thesis
    using True show_nat_zero_cases [of ?n] by (auto simp: take_int_def show_int_def tw Let_def)
qed (simp add: show_int_def take_int_show_nat assms)

lemma read_int_show_int: "read_int (show_int i) = i"
proof (cases "i < 0")
  case False
  have "hd (show_nat (nat i)) \<noteq> CHR ''-''"
    using show_nat_digits by (metis hd_in_set minus_not_digit show_nat_nonempty)
  with False show ?thesis by (simp add: read_int_def show_int_def)
qed (simp add: read_int_def show_int_def)

lemma parse_num_int: "delim r \<Longrightarrow> parse_num fp (show_int i @ r) = Some (JInt i, r)"
  by (simp add: parse_num_def take_int_show_int read_int_show_int)

text \<open>A float literal: a number token with a fraction or an exponent and nothing after it.\<close>

definition is_float_token :: "string \<Rightarrow> bool" where
  "is_float_token t =
     (case take_int t of
        None \<Rightarrow> False
      | Some (ip, s1) \<Rightarrow>
          (let (f, s2) = take_frac s1; (ex, s3) = take_exp s2
           in (f \<noteq> [] \<or> ex \<noteq> []) \<and> s3 = []))"

definition float_law :: "(pyfloat \<Rightarrow> string) \<Rightarrow> (string \<Rightarrow> pyfloat) \<Rightarrow> bool" where
  "float_law fr fp \<longleftrightarrow> (\<forall>x. is_float_token (fr x) \<and> fp (fr x) = x)"


lemma take_int_append:
  assumes "take_int t = Some (ip, s1)" and "r = [] \<or> \<not> is_digit (hd r)"
  shows "take_int (t @ r) = Some (ip, s1 @ r)"
proof -
  from assms(1) obtain c t' where t: "t = c # t'"
    by (cases t) (auto simp: take_int_def)
  have tw: "takeWhile is_digit (s @ r) = takeWhile is_digit s" for s
    by (rule takeWhile_app) (rule assms(2))
  have len: "length (takeWhile is_digit s) \<le> length s" for s
    by (rule length_takeWhile_le)
  show ?thesis
    using assms(1) len [of t] len [of t'] tw [of t] tw [of t']
    by (cases t') (auto simp: take_int_def t Let_def split: if_splits)
qed

lemma float_token_take_int: "is_float_token t \<Longrightarrow> \<exists>p. take_int t = Some p"
  by (auto simp: is_float_token_def split: option.splits)

lemma take_int_parts:
  assumes "take_int t = Some (ip, s1)"
  shows "t = ip @ s1"
proof -
  from assms obtain c t' where t: "t = c # t'"
    by (cases t) (auto simp: take_int_def)
  have d: "takeWhile is_digit s @ drop (length (takeWhile is_digit s)) s = s" for s
    by (metis append_take_drop_id takeWhile_eq_take)
  have z: "takeWhile is_digit s \<noteq> [] \<Longrightarrow> hd (takeWhile is_digit s) = x \<Longrightarrow> x # drop (Suc 0) s = s" for s x
    by (cases s) (auto split: if_splits)
  show ?thesis
    using assms d z by (auto simp: take_int_def t Let_def split: if_splits)
qed

lemma take_frac_append:
  assumes "take_frac s = (f, s1)" and "delim r"
  shows "take_frac (s @ r) = (f, s1 @ r) \<and> f @ s1 = s"
proof (cases s)
  case Nil
  with assms show ?thesis by (simp add: take_frac_def [of "[]"])
next
  case (Cons c t)
  have "takeWhile is_digit (t @ r) = takeWhile is_digit t"
    and "dropWhile is_digit (t @ r) = dropWhile is_digit t @ r"
    by (rule takeWhile_app dropWhile_app, rule delim_no_digit [OF assms(2)])+
  with assms Cons show ?thesis
    by (auto simp: take_frac_def split: if_splits)
qed

lemma take_exp_append:
  assumes "take_exp s = (f, s1)" and "delim r"
  shows "take_exp (s @ r) = (f, s1 @ r) \<and> f @ s1 = s"
proof (cases s)
  case Nil
  with assms show ?thesis by (simp add: take_exp_def [of "[]"])
next
  case (Cons c t)
  have tw: "takeWhile is_digit (t @ r) = takeWhile is_digit t"
    and dw: "dropWhile is_digit (t @ r) = dropWhile is_digit t @ r" for t
    by (rule takeWhile_app dropWhile_app, rule delim_no_digit [OF assms(2)])+
  show ?thesis
  proof (cases t)
    case Nil
    with assms \<open>s = c # t\<close> tw [of "[]"] show ?thesis
      by (auto simp: take_exp_def delim_def Let_def is_digit_def split: if_splits)
  next
    case t: (Cons d u)
    show ?thesis
      using assms \<open>s = c # t\<close> t tw [of u] dw [of u] tw [of t] dw [of t]
      by (auto simp: take_exp_def Let_def split: if_splits)
  qed
qed

lemma parse_num_float:
  assumes "is_float_token t" and "delim r"
  shows "parse_num fp (t @ r) = Some (JFloat (fp t), r)"
proof -
  from assms(1) obtain ip s1 f s2 ex where
    1: "take_int t = Some (ip, s1)" and 2: "take_frac s1 = (f, s2)"
    and 3: "take_exp s2 = (ex, [])" and ne: "f \<noteq> [] \<or> ex \<noteq> []"
    by (auto simp: is_float_token_def Let_def split: option.splits prod.splits)
  have "ip @ f @ ex = t"
    using take_int_parts [OF 1] take_frac_append [OF 2 assms(2)] take_exp_append [OF 3 assms(2)]
    by simp
  with ne show ?thesis
    using take_int_append [OF 1 delim_no_digit [OF assms(2)]]
      take_frac_append [OF 2 assms(2)] take_exp_append [OF 3 assms(2)]
    by (simp add: parse_num_def)
qed

section \<open>Round trip\<close>

fun jsize :: "json \<Rightarrow> nat" where
  "jsize (JArr xs) = Suc (sum_list (map (\<lambda>x. Suc (jsize x)) xs))"
| "jsize (JObj ps) = Suc (sum_list (map (\<lambda>p. Suc (jsize (snd p))) ps))"
| "jsize _ = 1"

lemma skip_ws_non_ws [simp]: "\<not> is_ws c \<Longrightarrow> skip_ws (c # s) = c # s"
  by (simp add: skip_ws_def)

lemma skip_ws_space [simp]: "skip_ws (CHR '' '' # s) = skip_ws s"
  by (simp add: skip_ws_def is_ws_def)

lemma skip_ws_Nil [simp]: "skip_ws [] = []"
  by (simp add: skip_ws_def)

lemma digit_or_minus_not_ws:
  "is_digit c \<or> c = CHR ''-'' \<Longrightarrow> \<not> is_ws c \<and> c \<notin> set ''[]{}ntf'' \<and> c \<noteq> quote_c"
  by (auto simp: is_digit_def is_ws_def)

lemma number_first:
  assumes "take_int t = Some p"
  shows "\<exists>c u. t = c # u \<and> \<not> is_ws c \<and> c \<noteq> CHR '']'' \<and> c \<noteq> CHR ''}''"
proof -
  obtain c u where t: "t = c # u" and c: "is_digit c \<or> c = CHR ''-''"
    using assms by (cases t) (auto simp: take_int_def Let_def split: if_splits)
  with digit_or_minus_not_ws [OF c] show ?thesis by auto
qed

lemma take_int_hd: "take_int t = Some p \<Longrightarrow> \<exists>c u. t = c # u \<and> (is_digit c \<or> c = CHR ''-'')"
  by (cases t) (auto simp: take_int_def Let_def split: if_splits)

text \<open>Every printed value starts with a character that decides its reader.\<close>

lemma dumps_first:
  assumes "float_law fr fp"
  shows "\<exists>c u. dumps fr v = c # u \<and> \<not> is_ws c \<and> c \<noteq> CHR '']'' \<and> c \<noteq> CHR ''}''"
proof (cases v)
  case (JInt i)
  obtain p where "take_int (show_int i) = Some p"
    using take_int_show_int [of "[]" i] by auto
  then show ?thesis
    unfolding JInt dumps.simps by (rule number_first)
next
  case (JFloat x)
  have "is_float_token (fr x)" using assms by (simp add: float_law_def)
  then obtain p where "take_int (fr x) = Some p"
    using float_token_take_int by blast
  then show ?thesis
    unfolding JFloat dumps.simps by (rule number_first)
qed (auto simp: dump_str_def is_ws_def)

lemma skip_ws_dumps: "float_law fr fp \<Longrightarrow> skip_ws (dumps fr v @ r) = dumps fr v @ r"
  using dumps_first [of fr fp v] by auto

lemma parse_val_number:
  assumes "take_int t = Some p"
  shows "parse_val fp (Suc n) (t @ r) = parse_num fp (t @ r)"
proof -
  obtain c u where t: "t = c # u" and c: "is_digit c \<or> c = CHR ''-''"
    using take_int_hd [OF assms] by auto
  with digit_or_minus_not_ws [OF c] show ?thesis
    by (simp add: startswith_def)
qed

lemma dict_comp_fresh: "distinct (map fst ps) \<Longrightarrow> dict_comp fst snd ps = ps"
  using fold_dict_set_fresh [of fst ps "[]" snd] by (simp add: dict_comp_def)

lemma parse_elems_dumps:
  assumes "\<And>v n r. v \<in> set xs \<Longrightarrow> delim r \<Longrightarrow> jsize v \<le> n \<Longrightarrow> parse_val fp n (dumps fr v @ r) = Some (v, r)"
    and "float_law fr fp" and "xs \<noteq> []" and "sum_list (map (\<lambda>x. Suc (jsize x)) xs) \<le> n"
  shows "parse_elems fp n (join '', '' (map (dumps fr) xs) @ CHR '']'' # r) = Some (xs, r)"
  using assms(1,3,4)
proof (induction xs arbitrary: n)
  case (Cons x xs)
  then obtain m where n: "n = Suc m" by (cases n) auto
  show ?case
  proof (cases xs)
    case Nil
    with Cons.prems n show ?thesis by (simp add: is_ws_def)
  next
    case (Cons y ys)
    have "parse_elems fp m (join '', '' (map (dumps fr) xs) @ CHR '']'' # r) = Some (xs, r)"
      using Cons.prems n Cons by (intro Cons.IH) auto
    moreover have "skip_ws (join '', '' (map (dumps fr) xs) @ CHR '']'' # r) = join '', '' (map (dumps fr) xs) @ CHR '']'' # r"
      using Cons skip_ws_dumps [OF assms(2)] by (cases ys) auto
    ultimately show ?thesis
      using Cons.prems n Cons by (simp add: is_ws_def)
  qed
qed simp

abbreviation dump_member :: "(pyfloat \<Rightarrow> string) \<Rightarrow> string \<times> json \<Rightarrow> string" where
  "dump_member fr \<equiv> \<lambda>(k, v). dump_str k @ '': '' @ dumps fr v"

lemma parse_members_dumps:
  assumes "\<And>p n r. p \<in> set ps \<Longrightarrow> delim r \<Longrightarrow> jsize (snd p) \<le> n \<Longrightarrow>
      parse_val fp n (dumps fr (snd p) @ r) = Some (snd p, r)"
    and "float_law fr fp" and "ps \<noteq> []" and "sum_list (map (\<lambda>p. Suc (jsize (snd p))) ps) \<le> n"
  shows "parse_members fp n (join '', '' (map (dump_member fr) ps) @ CHR ''}'' # r) = Some (ps, r)"
  using assms(1,3,4)
proof (induction ps arbitrary: n)
  case (Cons p ps)
  obtain k v where p: "p = (k, v)" by (cases p)
  from Cons.prems obtain m where n: "n = Suc m" by (cases n) auto
  have v: "parse_val fp m (dumps fr v @ r) = Some (v, r)" if "delim r" for r
    using Cons.prems(1) [of p r m] Cons.prems(3) n p that by simp
  have ws: "skip_ws (dumps fr v @ r) = dumps fr v @ r" for r
    by (rule skip_ws_dumps [OF assms(2)])
  show ?case
  proof (cases ps)
    case Nil
    with p n v ws show ?thesis
      by (simp add: is_ws_def dump_str_def parse_dump_str)
  next
    case (Cons q qs)
    have "parse_members fp m (join '', '' (map (dump_member fr) ps) @ CHR ''}'' # r) = Some (ps, r)"
      using Cons.prems n Cons by (intro Cons.IH) auto
    moreover have "skip_ws (join '', '' (map (dump_member fr) ps) @ CHR ''}'' # r) = join '', '' (map (dump_member fr) ps) @ CHR ''}'' # r"
      using Cons by (cases q; cases qs) (auto simp: dump_str_def is_ws_def)
    ultimately show ?thesis
      using p n v ws Cons by (simp add: is_ws_def dump_str_def parse_dump_str)
  qed
qed simp

theorem parse_dumps:
  assumes "float_law fr fp"
  shows "wf_json v \<Longrightarrow> delim r \<Longrightarrow> jsize v \<le> n \<Longrightarrow> parse_val fp n (dumps fr v @ r) = Some (v, r)"
proof (induction v arbitrary: n r)
  case (JInt i)
  then show ?case
    using parse_val_number [OF take_int_show_int [of "[]" i], of fp "n - 1" r]
    by (cases n) (simp_all add: parse_num_int)
next
  case (JFloat x)
  from assms have tok: "is_float_token (fr x)" and "fp (fr x) = x"
    by (auto simp: float_law_def)
  moreover from tok obtain p where "take_int (fr x) = Some p"
    using float_token_take_int by blast
  ultimately show ?case
    using JFloat parse_val_number [of "fr x" p fp "n - 1" r] by (cases n) (simp_all add: parse_num_float)
next
  case (JArr xs)
  then obtain m where n: "n = Suc m" by (cases n) auto
  show ?case
  proof (cases "xs = []")
    case True
    with n show ?thesis by (simp add: is_ws_def startswith_def)
  next
    case False
    have el: "parse_elems fp m (join '', '' (map (dumps fr) xs) @ CHR '']'' # r) = Some (xs, r)"
      using JArr n False by (intro parse_elems_dumps [OF _ assms]) auto
    obtain x ys where xs: "xs = x # ys" using False by (cases xs) auto
    obtain c u where "dumps fr x = c # u" "\<not> is_ws c" "c \<noteq> CHR '']''"
      using dumps_first [OF assms] by blast
    then have "\<exists>d w. join '', '' (map (dumps fr) xs) @ CHR '']'' # r = d # w \<and> \<not> is_ws d \<and> d \<noteq> CHR '']''"
      by (simp add: xs join_Cons)
    with el n show ?thesis
      by (auto simp: startswith_def)
  qed
next
  case (JObj ps)
  then obtain m where n: "n = Suc m" by (cases n) auto
  show ?case
  proof (cases "ps = []")
    case True
    with n show ?thesis by (simp add: is_ws_def startswith_def)
  next
    case False
    have el: "parse_members fp m (join '', '' (map (dump_member fr) ps) @ CHR ''}'' # r) = Some (ps, r)"
      using JObj n False by (intro parse_members_dumps [OF _ assms]) auto
    obtain p qs where ps: "ps = p # qs" using False by (cases ps) auto
    have "\<exists>w. join '', '' (map (dump_member fr) ps) @ CHR ''}'' # r = quote_c # w"
      by (cases p) (simp add: ps join_Cons dump_str_def)
    with el n JObj.prems show ?thesis
      by (auto simp: startswith_def is_ws_def dict_comp_fresh)
  qed
qed (case_tac n; simp add: startswith_def dump_str_def parse_dump_str)+

lemma jsize_le_length: "float_law fr fp \<Longrightarrow> jsize v \<le> Suc (length (dumps fr v))"
proof (induction v)
  case (JArr xs)
  have "(\<Sum>x\<leftarrow>ys. Suc (jsize x)) \<le> length (join '', '' (map (dumps fr) ys)) + 2" if "set ys \<subseteq> set xs" for ys
    using that
  proof (induction ys)
    case (Cons y ys)
    with JArr have "jsize y \<le> Suc (length (dumps fr y))" by simp
    with Cons show ?case by (cases ys) auto
  qed simp
  from this [of xs] show ?case by simp
next
  case (JObj ps)
  have "(\<Sum>p\<leftarrow>qs. Suc (jsize (snd p))) \<le> length (join '', '' (map (dump_member fr) qs)) + 2"
    if "set qs \<subseteq> set ps" for qs
    using that
  proof (induction qs)
    case (Cons q qs)
    obtain k v where q: "q = (k, v)" by (cases q)
    with Cons JObj have "jsize v \<le> Suc (length (dumps fr v))" by fastforce
    with Cons q show ?case by (cases qs) auto
  qed simp
  from this [of ps] show ?case by simp
qed auto

theorem loads_dumps:
  assumes "float_law fr fp" and "wf_json v"
  shows "loads fp (dumps fr v) = Inr v"
proof -
  have "skip_ws (dumps fr v) = dumps fr v"
    using skip_ws_dumps [OF assms(1), of v "[]"] by simp
  moreover have "parse_val fp (Suc (length (dumps fr v))) (dumps fr v) = Some (v, [])"
    using parse_dumps [OF assms(1,2) delim_simps(1) jsize_le_length [OF assms(1)]]
    by (simp del: parse_val.simps)
  ultimately show ?thesis by (simp add: loads_def del: parse_val.simps)
qed

corollary dumps_inj:
  assumes "float_law fr fp" and "wf_json v" and "wf_json w" and "dumps fr v = dumps fr w"
  shows "v = w"
proof -
  have "loads fp (dumps fr v) = Inr v" and "loads fp (dumps fr w) = Inr w"
    by (rule loads_dumps [OF assms(1,2)], rule loads_dumps [OF assms(1,3)])
  with assms(4) show ?thesis by (metis sum.inject(2))
qed

lemma wf_json_canon: "wf_json v \<Longrightarrow> wf_json (canon v)"
proof (induction v)
  case (JObj ps)
  have "map fst (map (\<lambda>(k, v). (k, canon v)) ps) = map fst ps" by auto
  then have "distinct (map fst (map (\<lambda>(k, v). (k, canon v)) ps))"
    using JObj.prems by (simp only: wf_json.simps)
  then have "distinct (map fst (sort_key fst (map (\<lambda>(k, v). (k, canon v)) ps)))"
    by (simp only: distinct_map distinct_sort set_sort)
  with JObj show ?case by auto
qed auto

theorem dumps_sorted_inj:
  assumes "float_law fr fp" and "wf_json v" and "wf_json w" and "dumps_sorted fr v = dumps_sorted fr w"
  shows "canon v = canon w"
  using assms dumps_inj wf_json_canon unfolding dumps_sorted_def by blast

section \<open>An instance of the float law\<close>

text \<open>
  Floats printed as numerator, dot, denominator and read back as the quotient: an injective
  printing that satisfies \<open>float_law\<close>, used where a witness needs concrete \<open>fr\<close> and \<open>fp\<close>.
\<close>

definition frac_repr :: "pyfloat \<Rightarrow> string" where
  "frac_repr x = (case quotient_of x of (p, q) \<Rightarrow> show_int p @ ''.'' @ show_nat (nat q))"

definition frac_read :: "string \<Rightarrow> pyfloat" where
  "frac_read s = of_int (read_int (text_before (CHR ''.'') s)) /
     of_nat (read_nat (tl (dropWhile (\<lambda>c. c \<noteq> CHR ''.'') s)))"

lemma dot_not_in_show_int: "CHR ''.'' \<notin> set (show_int i)"
  using show_nat_no_char [of "CHR ''.''"] by (simp add: show_int_def is_digit_def)

lemma frac_law: "float_law frac_repr frac_read"
  unfolding float_law_def
proof (intro allI conjI)
  fix x :: pyfloat
  obtain p q where pq: "quotient_of x = (p, q)" by (cases "quotient_of x")
  have q: "0 < q" using quotient_of_denom_pos [OF pq] .
  let ?d = "show_nat (nat q)"
  have dg: "\<forall>c \<in> set ?d. is_digit c" by (rule show_nat_digits)
  have tw: "takeWhile is_digit ?d = ?d" and dw: "dropWhile is_digit ?d = []"
    using dg by (auto simp: takeWhile_eq_all_conv)
  have ti: "take_int (show_int p @ CHR ''.'' # ?d) = Some (show_int p, CHR ''.'' # ?d)"
    using take_int_append [OF take_int_show_int [of "[]" p], of "CHR ''.'' # ?d"]
    by (simp add: is_digit_def)
  show "is_float_token (frac_repr x)"
    by (simp add: is_float_token_def frac_repr_def pq ti take_frac_def take_exp_def tw dw)
  have "dropWhile (\<lambda>c. c \<noteq> CHR ''.'') (show_int p @ CHR ''.'' # ?d) = CHR ''.'' # ?d"
    using dot_not_in_show_int [of p] by (subst dropWhile_append2) auto
  moreover have "text_before (CHR ''.'') (show_int p @ CHR ''.'' # ?d) = show_int p"
    using dot_not_in_show_int [of p] by (rule text_before_append)
  ultimately show "frac_read (frac_repr x) = x"
    using q by (simp add: frac_repr_def frac_read_def pq read_int_show_int quotient_of_div [OF pq, symmetric])
qed

section \<open>Values without floats\<close>

text \<open>Values without floats print the same whatever \<open>fr\<close> is, so their injectivity needs no law.\<close>

fun no_float :: "json \<Rightarrow> bool" where
  "no_float (JFloat x) \<longleftrightarrow> False"
| "no_float (JArr xs) \<longleftrightarrow> (\<forall>x \<in> set xs. no_float x)"
| "no_float (JObj ps) \<longleftrightarrow> (\<forall>p \<in> set ps. no_float (snd p))"
| "no_float _ \<longleftrightarrow> True"

lemma dumps_no_float: "no_float v \<Longrightarrow> dumps fr v = dumps fr' v"
proof (induction v)
  case (JArr xs)
  then have "map (dumps fr) xs = map (dumps fr') xs" by auto
  then show ?case by (simp only: dumps.simps)
next
  case (JObj ps)
  then have "map (\<lambda>(k, v). dump_str k @ '': '' @ dumps fr v) ps = map (\<lambda>(k, v). dump_str k @ '': '' @ dumps fr' v) ps"
    by fastforce
  then show ?case by (simp only: dumps.simps)
qed auto

lemma no_float_canon: "no_float v \<Longrightarrow> no_float (canon v)"
  by (induction v) auto

text \<open>Equal sorted objects bind the same keys to the same (sorted) values.\<close>

lemma canon_JObj_get:
  assumes "canon (JObj ps) = canon (JObj qs)"
    and "distinct (map fst ps)" and "distinct (map fst qs)"
  shows "map_option canon (map_of ps k) = map_option canon (map_of qs k)"
proof -
  let ?f = "map (\<lambda>(k, v). (k, canon v))"
  have keys: "map fst (?f xs) = map fst xs" for xs :: "(string \<times> json) list" by auto
  have "set (sort_key fst (?f ps)) = set (sort_key fst (?f qs))"
    using assms(1) by simp
  then have eq: "map_of (?f ps) = map_of (?f qs)"
    using assms(2,3) keys by (intro map_of_inject_set [THEN iffD2]) (simp_all only: set_sort)
  have "map_of (?f xs) k = map_option canon (map_of xs k)" for xs
    by (simp add: map_of_map)
  with fun_cong [OF eq, of k] show ?thesis by simp
qed

theorem dumps_sorted_inj_no_float:
  assumes "no_float v" and "no_float w" and "wf_json v" and "wf_json w"
    and "dumps_sorted fr v = dumps_sorted fr w"
  shows "canon v = canon w"
proof -
  have "dumps_sorted frac_repr v = dumps_sorted frac_repr w"
    using assms(5) dumps_no_float [OF no_float_canon [OF assms(1)], of fr frac_repr]
      dumps_no_float [OF no_float_canon [OF assms(2)], of fr frac_repr]
    by (simp add: dumps_sorted_def)
  then show ?thesis
    by (rule dumps_sorted_inj [OF frac_law assms(3,4)])
qed

section \<open>Printed text is one line of printable ASCII\<close>

definition printable :: "char \<Rightarrow> bool" where
  "printable c \<longleftrightarrow> 32 \<le> (of_char c :: nat) \<and> (of_char c :: nat) \<le> 126"

lemma printable_hex: "d < 16 \<Longrightarrow> printable (hex_digit d)"
  by (auto simp: printable_def hex_digit_def)

lemma printable_escape: "c' \<in> set (escape_char c) \<Longrightarrow> printable c'"
proof -
  have "(of_char c :: nat) div 16 < 16"
    using of_char_less_256 [of c] by (simp add: div_less_iff_less_mult)
  then have "printable (hex_digit (of_char c div 16))" "printable (hex_digit (of_char c mod 16))"
    by (simp_all add: printable_hex)
  then show "c' \<in> set (escape_char c) \<Longrightarrow> printable c'"
    by (auto simp: escape_char_def split: if_splits) (auto simp: printable_def)
qed

lemma printable_dump_str: "c \<in> set (dump_str s) \<Longrightarrow> printable c"
  using printable_escape by (auto simp: dump_str_def printable_def)

lemma printable_digit: "is_digit c \<Longrightarrow> printable c"
  by (simp add: is_digit_def printable_def)

lemma printable_show_int: "c \<in> set (show_int i) \<Longrightarrow> printable c"
  using show_nat_digits by (auto simp: show_int_def printable_def is_digit_def split: if_splits) fastforce+

lemma printable_float_token:
  assumes "is_float_token t" and "c \<in> set t"
  shows "printable c"
proof -
  from assms(1) obtain ip s1 f s2 ex where
    1: "take_int t = Some (ip, s1)" and 2: "take_frac s1 = (f, s2)" and 3: "take_exp s2 = (ex, [])"
    by (auto simp: is_float_token_def Let_def split: option.splits prod.splits)
  have t: "t = ip @ f @ ex"
    using take_int_parts [OF 1] take_frac_append [OF 2, of "[]"] take_exp_append [OF 3, of "[]"] by simp
  have tw: "x \<in> set (takeWhile is_digit u) \<Longrightarrow> printable x" for x u
    by (auto dest: set_takeWhileD intro: printable_digit)
  have "c \<in> set ip \<Longrightarrow> printable c"
    using 1 tw by (auto simp: take_int_def Let_def printable_def split: if_splits)
  moreover have "c \<in> set f \<Longrightarrow> printable c"
    using 2 tw by (auto simp: take_frac_def printable_def split: if_splits)
  moreover have "c \<in> set ex \<Longrightarrow> printable c"
    using 3 tw by (auto simp: take_exp_def Let_def printable_def split: if_splits)
  ultimately show ?thesis
    using assms(2) t by auto
qed

lemma set_join: "set (join sep xs) \<subseteq> set sep \<union> (\<Union>x \<in> set xs. set x)"
  by (induction sep xs rule: join.induct) auto

theorem printable_dumps:
  assumes "float_law fr fp"
  shows "c \<in> set (dumps fr v) \<Longrightarrow> printable c"
proof (induction v)
  case (JFloat x)
  with assms show ?case
    using printable_float_token by (auto simp: float_law_def)
next
  case (JInt i)
  then show ?case by (simp add: printable_show_int)
next
  case (JStr s)
  then show ?case by (simp add: printable_dump_str)
next
  case (JArr xs)
  then show ?case
    using set_join [of "'', ''" "map (dumps fr) xs"] by (auto simp: printable_def)
next
  case (JObj ps)
  have "printable c" if "(k, v) \<in> set ps" and "c \<in> set (dump_member fr (k, v))" for k v
    using that JObj.IH [of "(k, v)" v] printable_dump_str by (auto simp: printable_def)
  moreover have "c \<in> {CHR ''{'', CHR ''}'', CHR '','', CHR '' ''} \<or> (\<exists>p \<in> set ps. c \<in> set (dump_member fr p))"
    using JObj.prems set_join [of "'', ''" "map (dump_member fr) ps"] by auto
  ultimately show ?case
    by (auto simp: printable_def)
qed (auto simp: printable_def split: if_splits)

lemmas json_reader_simps = parse_val.simps parse_elems.simps parse_members.simps

declare parse_str.simps(2) [simp del]
declare json_reader_simps [simp del]

end
