(* ===== verification/Db.thy ===== *)
theory Db
  imports PyJson
begin

text \<open>
  The PostgreSQL state of \<open>src/src/closcall/db/models.py\<close>: one record per table the workflow
  touches, one record \<open>db\<close> holding the tables, and the insertions with the constraints the models
  declare (primary keys, \<open>UniqueConstraint\<close>, \<open>ForeignKey\<close>, \<open>String(n)\<close> widths of caller-supplied
  text). A violated constraint is the exception SQLAlchemy raises. A session is the table state it
  sees; a transaction that raises is dropped by its caller, one that returns is committed.

  A UUID drawn by \<open>uuid4\<close> and a \<open>BIGSERIAL\<close> value are numbers taken from \<open>db_next\<close>, which stands for
  their freshness. \<open>db_now\<close> is \<open>now()\<close> of the running transaction. Rows keep insertion order; where
  the code orders by a column, ties keep that order.

  The interface \<open>keyed_table\<close> collects what every unique-keyed table promises to the operations
  above it; it is interpreted for each table of the approval protocol.
\<close>

section \<open>Rows\<close>

record incident_row =
  inc_id :: nat
  incident_key :: string
  inc_status :: string
  severity :: string
  opened_at :: int
  detected_at :: "int option"
  resolved_at :: "int option"
  inc_created_at :: int
  inc_updated_at :: int
  inc_version :: int

record signal_row =
  sig_id :: nat
  sig_incident_id :: nat
  sig_source :: string
  source_event_id :: string
  observed_at :: int
  sig_payload :: json
  sig_created_at :: int

record event_row =
  ev_id :: nat
  ev_incident_id :: nat
  sequence_no :: nat
  event_type :: string
  ev_actor_type :: string
  ev_payload :: json
  occurred_at :: int

record version_row =
  rv_id :: nat
  rv_incident_id :: nat
  plan_version :: int
  plan_json :: "(string, json) dict"
  plan_digest_col :: string
  rv_topology_hash :: string
  rv_risk_class :: string
  rv_created_at :: int

record approval_row =
  ap_id :: nat
  ap_version_id :: nat
  ap_plan_digest :: string
  ap_user_id :: string
  decision :: string
  ap_created_at :: int

record job_row =
  job_id :: nat
  job_version_id :: nat
  idempotency_key :: string
  job_status :: string
  attempts :: int
  job_created_at :: int
  job_updated_at :: int
  job_version :: int

record execution_row =
  ex_id :: nat
  ex_job_id :: nat
  ex_status :: string
  config_before :: "json option"
  config_after :: "json option"
  failure_class :: "string option"
  ex_created_at :: int

record check_row =
  rc_id :: nat
  rc_execution_id :: nat
  check_type :: string
  rc_result :: string
  observed_json :: json
  rc_created_at :: int

record audit_row =
  au_id :: nat
  au_occurred_at :: int
  au_actor_type :: string
  au_actor_id :: string
  au_action :: string
  entity_type :: string
  entity_id :: nat
  before_json :: "json option"
  after_json :: "json option"

record app_user_row =
  app_user_id :: string
  app_role :: string
  password_hash_col :: string
  app_created_at :: int

record db =
  db_now :: int
  db_next :: nat
  incidents :: "incident_row list"
  signals :: "signal_row list"
  events :: "event_row list"
  versions :: "version_row list"
  approvals :: "approval_row list"
  jobs :: "job_row list"
  executions :: "execution_row list"
  recovery_checks :: "check_row list"
  audit :: "audit_row list"
  app_users :: "app_user_row list"

definition empty_db :: "int \<Rightarrow> db" where
  "empty_db t = \<lparr>db_now = t, db_next = 0, incidents = [], signals = [], events = [], versions = [],
     approvals = [], jobs = [], executions = [], recovery_checks = [], audit = [], app_users = []\<rparr>"

section \<open>Constraints\<close>

definition taken :: "('r \<Rightarrow> 'k) \<Rightarrow> 'k \<Rightarrow> 'r list \<Rightarrow> bool" where
  "taken key k rows \<longleftrightarrow> k \<in> set (map key rows)"

definition varchar :: "nat \<Rightarrow> string \<Rightarrow> bool" where
  "varchar n s \<longleftrightarrow> length s \<le> n"

definition guard :: "bool \<Rightarrow> exn \<Rightarrow> 'a res \<Rightarrow> 'a res" where
  "guard ok e m = (if ok then m else Inl e)"

lemma guard_Inr [simp]: "guard ok e m = Inr x \<longleftrightarrow> ok \<and> m = Inr x"
  by (simp add: guard_def)

section \<open>Insertions\<close>

definition insert_incident :: "incident_row \<Rightarrow> db \<Rightarrow> db res" where
  "insert_incident r d =
     guard (varchar 128 (incident_key r) \<and> varchar 32 (inc_status r) \<and> varchar 16 (severity r))
       (DataError ''core.incidents'')
     (guard (\<not> taken inc_id (inc_id r) (incidents d)) (IntegrityError ''incidents_pkey'')
     (guard (\<not> taken incident_key (incident_key r) (incidents d)) (IntegrityError ''incidents_incident_key_key'')
        (Inr (d\<lparr>incidents := incidents d @ [r], db_next := Suc (db_next d)\<rparr>))))"

definition signal_key :: "signal_row \<Rightarrow> string \<times> string" where
  "signal_key r = (sig_source r, source_event_id r)"

definition insert_signal :: "signal_row \<Rightarrow> db \<Rightarrow> db res" where
  "insert_signal r d =
     guard (varchar 64 (sig_source r) \<and> varchar 128 (source_event_id r)) (DataError ''core.incident_signals'')
     (guard (taken inc_id (sig_incident_id r) (incidents d)) (IntegrityError ''incident_signals_incident_id_fkey'')
     (guard (\<not> taken sig_id (sig_id r) (signals d)) (IntegrityError ''incident_signals_pkey'')
     (guard (\<not> taken signal_key (signal_key r) (signals d)) (IntegrityError ''uq_signal_source_event'')
        (Inr (d\<lparr>signals := signals d @ [r], db_next := Suc (db_next d)\<rparr>)))))"

definition event_key :: "event_row \<Rightarrow> nat \<times> nat" where
  "event_key r = (ev_incident_id r, sequence_no r)"

definition insert_event :: "event_row \<Rightarrow> db \<Rightarrow> db res" where
  "insert_event r d =
     guard (taken inc_id (ev_incident_id r) (incidents d)) (IntegrityError ''incident_events_incident_id_fkey'')
     (guard (\<not> taken ev_id (ev_id r) (events d)) (IntegrityError ''incident_events_pkey'')
     (guard (\<not> taken event_key (event_key r) (events d)) (IntegrityError ''uq_event_incident_seq'')
        (Inr (d\<lparr>events := events d @ [r], db_next := Suc (db_next d)\<rparr>))))"

definition version_key :: "version_row \<Rightarrow> nat \<times> int" where
  "version_key r = (rv_incident_id r, plan_version r)"

definition insert_version :: "version_row \<Rightarrow> db \<Rightarrow> db res" where
  "insert_version r d =
     guard (varchar 64 (plan_digest_col r) \<and> varchar 64 (rv_topology_hash r) \<and> varchar 16 (rv_risk_class r))
       (DataError ''core.remediation_versions'')
     (guard (taken inc_id (rv_incident_id r) (incidents d)) (IntegrityError ''remediation_versions_incident_id_fkey'')
     (guard (\<not> taken rv_id (rv_id r) (versions d)) (IntegrityError ''remediation_versions_pkey'')
     (guard (\<not> taken version_key (version_key r) (versions d)) (IntegrityError ''uq_remv_incident_version'')
     (guard (\<not> taken plan_digest_col (plan_digest_col r) (versions d)) (IntegrityError ''uq_remv_digest'')
        (Inr (d\<lparr>versions := versions d @ [r], db_next := Suc (db_next d)\<rparr>))))))"

definition approval_key :: "approval_row \<Rightarrow> nat \<times> string" where
  "approval_key r = (ap_version_id r, ap_user_id r)"

definition insert_approval :: "approval_row \<Rightarrow> db \<Rightarrow> db res" where
  "insert_approval r d =
     guard (varchar 64 (ap_plan_digest r) \<and> varchar 64 (ap_user_id r) \<and> varchar 16 (decision r))
       (DataError ''core.approval_decisions'')
     (guard (taken rv_id (ap_version_id r) (versions d)) (IntegrityError ''approval_decisions_remediation_version_id_fkey'')
     (guard (\<not> taken ap_id (ap_id r) (approvals d)) (IntegrityError ''approval_decisions_pkey'')
     (guard (\<not> taken approval_key (approval_key r) (approvals d)) (IntegrityError ''uq_decision_remv_user'')
        (Inr (d\<lparr>approvals := approvals d @ [r], db_next := Suc (db_next d)\<rparr>)))))"

definition insert_job :: "job_row \<Rightarrow> db \<Rightarrow> db res" where
  "insert_job r d =
     guard (varchar 128 (idempotency_key r) \<and> varchar 24 (job_status r)) (DataError ''core.execution_jobs'')
     (guard (taken rv_id (job_version_id r) (versions d)) (IntegrityError ''execution_jobs_remediation_version_id_fkey'')
     (guard (\<not> taken job_id (job_id r) (jobs d)) (IntegrityError ''execution_jobs_pkey'')
     (guard (\<not> taken job_version_id (job_version_id r) (jobs d)) (IntegrityError ''uq_job_remv'')
     (guard (\<not> taken idempotency_key (idempotency_key r) (jobs d)) (IntegrityError ''uq_job_idem'')
        (Inr (d\<lparr>jobs := jobs d @ [r], db_next := Suc (db_next d)\<rparr>))))))"

definition insert_execution :: "execution_row \<Rightarrow> db \<Rightarrow> db res" where
  "insert_execution r d =
     guard (taken job_id (ex_job_id r) (jobs d)) (IntegrityError ''executions_execution_job_id_fkey'')
     (guard (\<not> taken ex_id (ex_id r) (executions d)) (IntegrityError ''executions_pkey'')
     (guard (\<not> taken ex_job_id (ex_job_id r) (executions d)) (IntegrityError ''uq_exec_job'')
        (Inr (d\<lparr>executions := executions d @ [r], db_next := Suc (db_next d)\<rparr>))))"

definition insert_check :: "check_row \<Rightarrow> db \<Rightarrow> db res" where
  "insert_check r d =
     guard (taken ex_id (rc_execution_id r) (executions d)) (IntegrityError ''recovery_checks_execution_id_fkey'')
     (guard (\<not> taken rc_id (rc_id r) (recovery_checks d)) (IntegrityError ''recovery_checks_pkey'')
        (Inr (d\<lparr>recovery_checks := recovery_checks d @ [r], db_next := Suc (db_next d)\<rparr>)))"

text \<open>The audit log is append-only and references nothing.\<close>

definition insert_audit :: "audit_row \<Rightarrow> db \<Rightarrow> db" where
  "insert_audit r d = d\<lparr>audit := audit d @ [r], db_next := Suc (db_next d)\<rparr>"

definition audit_event ::
    "db \<Rightarrow> string \<Rightarrow> string \<Rightarrow> string \<Rightarrow> string \<Rightarrow> nat \<Rightarrow> json option \<Rightarrow> json option \<Rightarrow> audit_row" where
  "audit_event d actor_type actor_id action etype eid bj aj =
     \<lparr>au_id = db_next d, au_occurred_at = db_now d, au_actor_type = actor_type, au_actor_id = actor_id,
      au_action = action, entity_type = etype, entity_id = eid, before_json = bj, after_json = aj\<rparr>"

lemmas insert_defs [table_defs] =
  insert_incident_def insert_signal_def insert_event_def insert_version_def insert_approval_def
  insert_job_def insert_execution_def insert_check_def insert_audit_def

section \<open>Queries\<close>

text \<open>\<open>scalar_one_or_none\<close>, \<open>scalar_one\<close> and \<open>order_by(key.desc()).first()\<close>.\<close>

definition one_or_none :: "'r list \<Rightarrow> 'r option res" where
  "one_or_none rows = (case rows of [] \<Rightarrow> Inr None | [r] \<Rightarrow> Inr (Some r) | _ \<Rightarrow> Inl MultipleResultsFound)"

definition scalar_one :: "'r list \<Rightarrow> 'r res" where
  "scalar_one rows = (case rows of [] \<Rightarrow> Inl NoResultFound | [r] \<Rightarrow> Inr r | _ \<Rightarrow> Inl MultipleResultsFound)"

definition first_desc :: "('r \<Rightarrow> int) \<Rightarrow> 'r list \<Rightarrow> 'r option" where
  "first_desc key rows = (case sort_key (\<lambda>r. - key r) rows of [] \<Rightarrow> None | r # _ \<Rightarrow> Some r)"

definition first_row :: "'r list \<Rightarrow> 'r option" where
  "first_row rows = (case rows of [] \<Rightarrow> None | r # _ \<Rightarrow> Some r)"

definition incident_by_key :: "db \<Rightarrow> string \<Rightarrow> incident_row option res" where
  "incident_by_key d k = one_or_none (filter (\<lambda>r. incident_key r = k) (incidents d))"

definition job_by_id :: "db \<Rightarrow> nat \<Rightarrow> job_row res" where
  "job_by_id d j = scalar_one (filter (\<lambda>r. job_id r = j) (jobs d))"

definition version_by_id :: "db \<Rightarrow> nat \<Rightarrow> version_row res" where
  "version_by_id d v = scalar_one (filter (\<lambda>r. rv_id r = v) (versions d))"

definition execution_of_job :: "db \<Rightarrow> nat \<Rightarrow> execution_row option res" where
  "execution_of_job d j = one_or_none (filter (\<lambda>r. ex_job_id r = j) (executions d))"

text \<open>\<open>select(RemediationVersion).where(incident_id == i).order_by(plan_version.desc()).first()\<close>\<close>

definition latest_version :: "db \<Rightarrow> nat \<Rightarrow> version_row option" where
  "latest_version d i = first_desc plan_version (filter (\<lambda>r. rv_incident_id r = i) (versions d))"

text \<open>\<open>select(ApprovalDecision).where(version == v, decision == "approve").order_by(created_at.desc()).first()\<close>\<close>

definition latest_approval :: "db \<Rightarrow> nat \<Rightarrow> approval_row option" where
  "latest_approval d v =
     first_desc ap_created_at (filter (\<lambda>r. ap_version_id r = v \<and> decision r = ''approve'') (approvals d))"

definition set_job_status :: "nat \<Rightarrow> string \<Rightarrow> db \<Rightarrow> db" where
  "set_job_status j s d =
     d\<lparr>jobs := map (\<lambda>r. if job_id r = j then r\<lparr>job_status := s, job_updated_at := db_now d\<rparr> else r) (jobs d)\<rparr>"

definition set_execution_status :: "nat \<Rightarrow> string \<Rightarrow> db \<Rightarrow> db" where
  "set_execution_status e s d =
     d\<lparr>executions := map (\<lambda>r. if ex_id r = e then r\<lparr>ex_status := s\<rparr> else r) (executions d)\<rparr>"

lemma one_or_none_simps [simp]:
  "one_or_none xs = Inr None \<longleftrightarrow> xs = []"
  "one_or_none xs = Inr (Some x) \<longleftrightarrow> xs = [x]"
  by (auto simp: one_or_none_def split: list.splits)

lemma scalar_one_simps [simp]: "scalar_one xs = Inr x \<longleftrightarrow> xs = [x]"
  by (auto simp: scalar_one_def split: list.splits)

lemma first_desc_None: "first_desc key rows = None \<longleftrightarrow> rows = []"
  by (auto simp: first_desc_def split: list.splits dest: arg_cong [of _ _ set])

lemma first_desc_Some:
  assumes "first_desc key rows = Some r"
  shows "r \<in> set rows \<and> (\<forall>r' \<in> set rows. key r' \<le> key r)"
proof -
  from assms obtain rs where s: "sort_key (\<lambda>r. - key r) rows = r # rs"
    by (auto simp: first_desc_def split: list.splits)
  have "set (r # rs) = set rows" using s by (metis set_sort)
  moreover have "sorted (map (\<lambda>r. - key r) (r # rs))" using s by (metis sorted_sort_key)
  ultimately show ?thesis by auto
qed

lemma filter_unique:
  assumes "distinct (map key xs)" and "x \<in> set xs"
  shows "filter (\<lambda>r. key r = key x) xs = [x]"
  using assms
proof (induction xs)
  case (Cons y ys)
  have "filter (\<lambda>r. key r = key y) ys = []" using Cons.prems(1) by (auto simp: filter_empty_conv image_iff)
  with Cons show ?case by auto
qed simp

lemma filter_at_most_one:
  assumes "distinct (map key xs)"
  shows "filter (\<lambda>r. key r = k) xs = [] \<or> (\<exists>x. filter (\<lambda>r. key r = k) xs = [x])"
  using assms filter_unique [of key xs] by (cases "\<exists>x \<in> set xs. key x = k") (auto simp: filter_empty_conv)

section \<open>The interface of a unique-keyed table\<close>

text \<open>
  \<open>put\<close> is a plain insertion, \<open>rows\<close> the table it writes, \<open>key\<close> one of its unique constraints.
  \<open>upsert\<close> is PostgreSQL's \<open>INSERT ... ON CONFLICT (key) DO NOTHING\<close>: it reports whether a row
  was written.
\<close>

definition upsert :: "('r \<Rightarrow> 'k) \<Rightarrow> ('t \<Rightarrow> 'r list) \<Rightarrow> ('r \<Rightarrow> 't \<Rightarrow> 't res) \<Rightarrow> 'r \<Rightarrow> 't \<Rightarrow> (bool \<times> 't) res" where
  "upsert key rows put r t =
     (if taken key (key r) (rows t) then Inr (False, t) else bindr (put r t) (\<lambda>t'. Inr (True, t')))"

locale keyed_table =
  fixes key :: "'r \<Rightarrow> 'k"
    and rows :: "'t \<Rightarrow> 'r list"
    and put :: "'r \<Rightarrow> 't \<Rightarrow> 't res"
  assumes put_rows: "put r t = Inr t' \<Longrightarrow> rows t' = rows t @ [r]"
    and put_fresh: "put r t = Inr t' \<Longrightarrow> \<not> taken key (key r) (rows t)"
begin

definition keys_distinct :: "'t \<Rightarrow> bool" where
  "keys_distinct t \<longleftrightarrow> distinct (map key (rows t))"

lemma put_keys_distinct: "keys_distinct t \<Longrightarrow> put r t = Inr t' \<Longrightarrow> keys_distinct t'"
  using put_rows put_fresh by (fastforce simp: keys_distinct_def taken_def)

lemma put_twice: "put r t = Inr t' \<Longrightarrow> key r' = key r \<Longrightarrow> \<exists>e. put r' t' = Inl e"
  using put_rows put_fresh by (cases "put r' t'") (fastforce simp: taken_def)+

lemma upsert_rows:
  assumes "upsert key rows put r t = Inr (b, t')"
  shows "rows t' = rows t @ (if b then [r] else []) \<and> taken key (key r) (rows t')"
  using assms put_rows by (auto simp: upsert_def bindr_Inr_iff taken_def split: if_splits)

lemma upsert_keys_distinct:
  assumes "keys_distinct t" and "upsert key rows put r t = Inr (b, t')"
  shows "keys_distinct t'"
  using assms put_keys_distinct by (auto simp: upsert_def bindr_Inr_iff split: if_splits)

lemma upsert_again:
  assumes "upsert key rows put r t = Inr (b, t')" and "key r' = key r"
  shows "upsert key rows put r' t' = Inr (False, t')"
proof -
  have "taken key (key r') (rows t')"
    using upsert_rows [OF assms(1)] assms(2) by metis
  then show ?thesis by (simp only: upsert_def if_True)
qed

end

interpretation signal_tab: keyed_table signal_key signals insert_signal
  by unfold_locales (auto simp: insert_signal_def)

interpretation event_tab: keyed_table event_key events insert_event
  by unfold_locales (auto simp: insert_event_def)

interpretation incident_tab: keyed_table incident_key incidents insert_incident
  by unfold_locales (auto simp: insert_incident_def)

interpretation digest_tab: keyed_table plan_digest_col versions insert_version
  by unfold_locales (auto simp: insert_version_def)

interpretation approval_tab: keyed_table approval_key approvals insert_approval
  by unfold_locales (auto simp: insert_approval_def)

interpretation job_tab: keyed_table job_version_id jobs insert_job
  by unfold_locales (auto simp: insert_job_def)

interpretation idem_tab: keyed_table idempotency_key jobs insert_job
  by unfold_locales (auto simp: insert_job_def)

interpretation execution_tab: keyed_table ex_job_id executions insert_execution
  by unfold_locales (auto simp: insert_execution_def)

end
