(* ===== verification/DbInv.thy ===== *)
theory DbInv
  imports Db
begin

text \<open>
  The integrity invariant of the tables, which the constraints of \<open>db/models.py\<close> promise: unique keys,
  foreign keys, and identifiers below the counter that hands out the next one. Every insertion and
  status update preserves it (collection \<open>table_intros\<close>).
\<close>

definition unique_keys :: "db \<Rightarrow> bool" where
  "unique_keys d \<longleftrightarrow>
     distinct (map inc_id (incidents d)) \<and> distinct (map incident_key (incidents d)) \<and>
     distinct (map sig_id (signals d)) \<and> distinct (map signal_key (signals d)) \<and>
     distinct (map ev_id (events d)) \<and> distinct (map event_key (events d)) \<and>
     distinct (map rv_id (versions d)) \<and> distinct (map version_key (versions d)) \<and>
     distinct (map plan_digest_col (versions d)) \<and>
     distinct (map ap_id (approvals d)) \<and> distinct (map approval_key (approvals d)) \<and>
     distinct (map job_id (jobs d)) \<and> distinct (map job_version_id (jobs d)) \<and>
     distinct (map idempotency_key (jobs d)) \<and>
     distinct (map ex_id (executions d)) \<and> distinct (map ex_job_id (executions d)) \<and>
     distinct (map rc_id (recovery_checks d))"

definition foreign_keys :: "db \<Rightarrow> bool" where
  "foreign_keys d \<longleftrightarrow>
     set (map sig_incident_id (signals d)) \<subseteq> set (map inc_id (incidents d)) \<and>
     set (map ev_incident_id (events d)) \<subseteq> set (map inc_id (incidents d)) \<and>
     set (map rv_incident_id (versions d)) \<subseteq> set (map inc_id (incidents d)) \<and>
     set (map ap_version_id (approvals d)) \<subseteq> set (map rv_id (versions d)) \<and>
     set (map job_version_id (jobs d)) \<subseteq> set (map rv_id (versions d)) \<and>
     set (map ex_job_id (executions d)) \<subseteq> set (map job_id (jobs d)) \<and>
     set (map rc_execution_id (recovery_checks d)) \<subseteq> set (map ex_id (executions d))"

definition below :: "('r \<Rightarrow> nat) \<Rightarrow> nat \<Rightarrow> 'r list \<Rightarrow> bool" where
  "below key n rows \<longleftrightarrow> (\<forall>r \<in> set rows. key r < n)"

lemma below_simps [simp]:
  "below key n []" "below key n (xs @ ys) \<longleftrightarrow> below key n xs \<and> below key n ys"
  "below key n (r # xs) \<longleftrightarrow> key r < n \<and> below key n xs"
  by (auto simp: below_def)

lemma below_Suc [simp]: "below key n xs \<Longrightarrow> below key (Suc n) xs"
  by (auto simp: below_def)

lemma below_not_taken: "below key n xs \<Longrightarrow> \<not> taken key n xs"
  by (auto simp: below_def taken_def)

definition fresh_ids :: "db \<Rightarrow> bool" where
  "fresh_ids d \<longleftrightarrow>
     below inc_id (db_next d) (incidents d) \<and> below sig_id (db_next d) (signals d) \<and>
     below ev_id (db_next d) (events d) \<and> below rv_id (db_next d) (versions d) \<and>
     below ap_id (db_next d) (approvals d) \<and> below job_id (db_next d) (jobs d) \<and>
     below ex_id (db_next d) (executions d) \<and> below rc_id (db_next d) (recovery_checks d)"

definition db_ok :: "db \<Rightarrow> bool" where
  "db_ok d \<longleftrightarrow> unique_keys d \<and> foreign_keys d \<and> fresh_ids d"

lemma db_ok_empty [simp]: "db_ok (empty_db t)"
  by (simp add: db_ok_def unique_keys_def foreign_keys_def fresh_ids_def empty_db_def)

lemmas db_ok_defs = db_ok_def unique_keys_def foreign_keys_def fresh_ids_def taken_def

lemma db_ok_insert_incident [table_intros]: "db_ok d \<Longrightarrow> inc_id i = db_next d \<Longrightarrow> insert_incident i d = Inr d' \<Longrightarrow> db_ok d'"
  by (simp add: insert_incident_def, elim conjE, drule sym [of _ d'], simp add: db_ok_defs subset_insertI2)

lemma db_ok_insert_signal [table_intros]: "db_ok d \<Longrightarrow> sig_id s = db_next d \<Longrightarrow> insert_signal s d = Inr d' \<Longrightarrow> db_ok d'"
  by (simp add: insert_signal_def, elim conjE, drule sym [of _ d'], simp add: db_ok_defs subset_insertI2)

lemma db_ok_insert_event [table_intros]: "db_ok d \<Longrightarrow> ev_id e = db_next d \<Longrightarrow> insert_event e d = Inr d' \<Longrightarrow> db_ok d'"
  by (simp add: insert_event_def, elim conjE, drule sym [of _ d'], simp add: db_ok_defs subset_insertI2)

lemma db_ok_insert_version [table_intros]: "db_ok d \<Longrightarrow> rv_id v = db_next d \<Longrightarrow> insert_version v d = Inr d' \<Longrightarrow> db_ok d'"
  by (simp add: insert_version_def, elim conjE, drule sym [of _ d'], simp add: db_ok_defs subset_insertI2)

lemma db_ok_insert_approval [table_intros]: "db_ok d \<Longrightarrow> ap_id a = db_next d \<Longrightarrow> insert_approval a d = Inr d' \<Longrightarrow> db_ok d'"
  by (simp add: insert_approval_def, elim conjE, drule sym [of _ d'], simp add: db_ok_defs subset_insertI2)

lemma db_ok_insert_job [table_intros]: "db_ok d \<Longrightarrow> job_id j = db_next d \<Longrightarrow> insert_job j d = Inr d' \<Longrightarrow> db_ok d'"
  by (simp add: insert_job_def, elim conjE, drule sym [of _ d'], simp add: db_ok_defs subset_insertI2)

lemma db_ok_insert_execution [table_intros]: "db_ok d \<Longrightarrow> ex_id x = db_next d \<Longrightarrow> insert_execution x d = Inr d' \<Longrightarrow> db_ok d'"
  by (simp add: insert_execution_def, elim conjE, drule sym [of _ d'], simp add: db_ok_defs subset_insertI2)

lemma db_ok_insert_check [table_intros]: "db_ok d \<Longrightarrow> rc_id c = db_next d \<Longrightarrow> insert_check c d = Inr d' \<Longrightarrow> db_ok d'"
  by (simp add: insert_check_def, elim conjE, drule sym [of _ d'], simp add: db_ok_defs subset_insertI2)

lemma db_ok_audit [table_intros]: "db_ok d \<Longrightarrow> db_ok (insert_audit a d)"
  by (simp add: db_ok_defs insert_audit_def)

lemma map_if_field: "(\<And>r. f (g r) = f r) \<Longrightarrow> map f (map (\<lambda>r. if P r then g r else r) xs) = map f xs"
  by simp

lemma below_map: "(\<And>r. key (f r) = key r) \<Longrightarrow> below key n (map f xs) = below key n xs"
  by (simp add: below_def)

lemma db_ok_set_job_status [table_intros]: "db_ok d \<Longrightarrow> db_ok (set_job_status j s d)"
  by (simp add: db_ok_def unique_keys_def foreign_keys_def fresh_ids_def set_job_status_def below_map o_def if_distrib
      cong: if_cong)

lemma db_ok_set_execution_status [table_intros]: "db_ok d \<Longrightarrow> db_ok (set_execution_status x s d)"
  by (simp add: db_ok_def unique_keys_def foreign_keys_def fresh_ids_def set_execution_status_def below_map o_def if_distrib
      cong: if_cong)

lemma db_ok_now [simp]: "db_ok (d\<lparr>db_now := t\<rparr>) = db_ok d"
  by (simp add: db_ok_def unique_keys_def foreign_keys_def fresh_ids_def)

end
