(* ===== verification/Correlator.thy ===== *)
theory Correlator
  imports DbInv
begin

text \<open>
  The idempotent incident correlator of \<open>incidents/correlator.py\<close>: \<open>correlate_signal\<close> and
  \<open>_append_event\<close>, with the two invariants of the incident tables they keep: every incident's events
  are numbered 1, 2, ... without a gap, and every incident has its \<open>opened\<close> event.
\<close>

definition append_event :: "int \<Rightarrow> nat \<Rightarrow> string \<Rightarrow> json \<Rightarrow> db \<Rightarrow> db res" where
  "append_event utc_now i etype payload d =
     (let seq = (case first_desc (\<lambda>e. int (sequence_no e)) (filter (\<lambda>e. ev_incident_id e = i) (events d)) of
                   None \<Rightarrow> 0 | Some e \<Rightarrow> sequence_no e)
      in insert_event \<lparr>ev_id = db_next d, ev_incident_id = i, sequence_no = seq + 1, event_type = etype,
           ev_actor_type = ''correlator'', ev_payload = payload, occurred_at = utc_now\<rparr> d)"

definition new_incident :: "string \<Rightarrow> string \<Rightarrow> int \<Rightarrow> db \<Rightarrow> incident_row" where
  "new_incident key sev observed d =
     \<lparr>inc_id = db_next d, incident_key = key, inc_status = ''open'', severity = sev,
      opened_at = db_now d, detected_at = Some observed, resolved_at = None, inc_created_at = db_now d,
      inc_updated_at = db_now d, inc_version = 1\<rparr>"

lemma new_incident_keys [simp]: "inc_id (new_incident key sev t d) = db_next d" "incident_key (new_incident key sev t d) = key"
  by (simp_all add: new_incident_def)

definition find_or_create :: "string \<Rightarrow> string \<Rightarrow> int \<Rightarrow> db \<Rightarrow> (nat \<times> bool \<times> db) res" where
  "find_or_create key sev observed d =
     bindr (incident_by_key d key) (\<lambda>existing.
       case existing of
         Some r \<Rightarrow> Inr (inc_id r, False, d)
       | None \<Rightarrow>
           bindr (insert_incident (new_incident key sev observed d) d) (\<lambda>d1. Inr (db_next d, True, d1)))"

definition correlate_signal ::
    "int \<Rightarrow> string \<Rightarrow> string \<Rightarrow> string \<Rightarrow> int \<Rightarrow> json \<Rightarrow> string \<Rightarrow> db \<Rightarrow> ((nat \<times> bool) \<times> db) res" where
  "correlate_signal utc_now key source event_id observed payload sev d =
     bindr (find_or_create key sev observed d) (\<lambda>(i, created, d1).
     bindr (upsert signal_key signals insert_signal
        \<lparr>sig_id = db_next d1, sig_incident_id = i, sig_source = source, source_event_id = event_id,
         observed_at = observed, sig_payload = payload, sig_created_at = db_now d1\<rparr> d1) (\<lambda>(signal_inserted, d2).
     if created then
       bindr (append_event utc_now i ''opened'' (JObj [(''source'', JStr source)]) d2) (\<lambda>d3.
         Inr ((i, created), insert_audit (audit_event d3 ''correlator'' ''rules'' ''incident.open'' ''incident'' i
           None (Some (JObj [(''key'', JStr key)]))) d3))
     else if signal_inserted then
       bindr (append_event utc_now i ''signal_attached'' (JObj [(''source_event_id'', JStr event_id)]) d2) (\<lambda>d3.
         Inr ((i, created), d3))
     else Inr ((i, created), d2)))"

section \<open>Invariants\<close>

definition seq_of :: "nat \<Rightarrow> db \<Rightarrow> nat list" where
  "seq_of i d = map sequence_no (filter (\<lambda>e. ev_incident_id e = i) (events d))"

definition contiguous :: "db \<Rightarrow> bool" where
  "contiguous d \<longleftrightarrow> (\<forall>i. seq_of i d = [1..<Suc (length (seq_of i d))])"

lemma run_snoc: "xs = [1..<Suc (length xs)] \<Longrightarrow> xs @ [Suc (length xs)] = [1..<Suc (length (xs @ [k]))]"
  by simp

definition incidents_ok :: "db \<Rightarrow> bool" where
  "incidents_ok d \<longleftrightarrow> db_ok d \<and> contiguous d"

lemma next_seq:
  assumes "contiguous d"
  shows "(case first_desc (\<lambda>e. int (sequence_no e)) (filter (\<lambda>e. ev_incident_id e = i) (events d)) of
            None \<Rightarrow> 0 | Some e \<Rightarrow> sequence_no e) = length (seq_of i d)"
proof -
  let ?es = "filter (\<lambda>e. ev_incident_id e = i) (events d)"
  let ?n = "length (seq_of i d)"
  have s: "map sequence_no ?es = [1..<Suc ?n]"
    using assms unfolding contiguous_def seq_of_def by blast
  show ?thesis
  proof (cases "first_desc (\<lambda>e. int (sequence_no e)) ?es")
    case None
    then have "?es = []" by (simp add: first_desc_None)
    with None show ?thesis by (simp add: seq_of_def)
  next
    case (Some e)
    from first_desc_Some [OF Some] have e: "e \<in> set ?es"
      and m: "\<forall>e' \<in> set ?es. sequence_no e' \<le> sequence_no e" by auto
    have set: "sequence_no ` set ?es = {1..?n}"
      using arg_cong [OF s, of set] by (simp add: atLeastLessThanSuc_atLeastAtMost del: upt_Suc)
    with e have "sequence_no e \<le> ?n" "0 < ?n"
      by (auto simp: seq_of_def length_pos_if_in_set)
    moreover have "?n \<in> sequence_no ` set ?es" unfolding set using \<open>0 < ?n\<close> by (simp add: Suc_le_eq)
    then obtain e' where "?n = sequence_no e'" "e' \<in> set ?es" by (rule imageE)
    ultimately have "sequence_no e = ?n" using m by (metis le_antisym)
    then show ?thesis using Some by simp
  qed
qed

lemma append_event_ok:
  assumes "incidents_ok d" and "append_event t i ty p d = Inr d'"
  shows "incidents_ok d'" and "seq_of i d' = seq_of i d @ [Suc (length (seq_of i d))]"
    and "signals d' = signals d" and "incidents d' = incidents d" and "audit d' = audit d"
proof -
  from assms obtain e where e: "insert_event e d = Inr d'" "ev_id e = db_next d" "ev_incident_id e = i"
    "sequence_no e = Suc (length (seq_of i d))"
    by (simp add: append_event_def next_seq incidents_ok_def)
  then have ev: "events d' = events d @ [e]" and f: "signals d' = signals d" "incidents d' = incidents d" "audit d' = audit d"
    by (auto simp: insert_event_def)
  then show "signals d' = signals d" "incidents d' = incidents d" "audit d' = audit d" by auto
  show sq: "seq_of i d' = seq_of i d @ [Suc (length (seq_of i d))]"
    using ev e by (simp add: seq_of_def)
  have other: "seq_of k d' = seq_of k d" if "k \<noteq> i" for k
    using ev e that by (simp add: seq_of_def)
  have run: "seq_of k d = [1..<Suc (length (seq_of k d))]" for k
    using assms(1) unfolding incidents_ok_def contiguous_def by blast
  have "seq_of k d' = [1..<Suc (length (seq_of k d'))]" for k
  proof (cases "k = i")
    case True
    show ?thesis unfolding True sq by (rule run_snoc [OF run])
  next
    case False
    show ?thesis unfolding other [OF False] by (rule run)
  qed
  then have "contiguous d'" unfolding contiguous_def by blast
  then show "incidents_ok d'"
    using assms(1) db_ok_insert_event [OF _ e(2,1)] by (simp add: incidents_ok_def)
qed

text \<open>Appending an event of a known incident never fails.\<close>

lemma append_event_total:
  assumes "incidents_ok d" and "taken inc_id i (incidents d)"
  shows "\<exists>d'. append_event t i ty p d = Inr d'"
proof -
  have "\<not> taken event_key (i, Suc (length (seq_of i d))) (events d)"
  proof
    assume "taken event_key (i, Suc (length (seq_of i d))) (events d)"
    then have "Suc (length (seq_of i d)) \<in> set (seq_of i d)"
      by (auto simp: taken_def event_key_def seq_of_def)
    moreover have "set (seq_of i d) = {1..<Suc (length (seq_of i d))}"
      using assms(1) unfolding incidents_ok_def contiguous_def by (metis set_upt)
    ultimately show False by simp
  qed
  moreover have "\<not> taken ev_id (db_next d) (events d)"
    using assms(1) by (simp add: incidents_ok_def db_ok_def fresh_ids_def below_not_taken)
  ultimately show ?thesis
    using assms by (simp add: append_event_def next_seq incidents_ok_def insert_event_def guard_def event_key_def Let_def)
qed

lemma find_or_create_cases:
  assumes "incidents_ok d" and "find_or_create key sev observed d = Inr (i, c, d1)"
  obtains (old) r where "r \<in> set (incidents d)" "incident_key r = key" "inc_id r = i" "\<not> c" "d1 = d"
  | (new) "c" "i = db_next d" "\<not> taken incident_key key (incidents d)"
      "insert_incident (new_incident key sev observed d) d = Inr d1" "seq_of i d = []"
proof -
  from assms(2) obtain ex where ex: "incident_by_key d key = Inr ex"
    by (auto simp: find_or_create_def bindr_Inr_iff)
  show ?thesis
  proof (cases ex)
    case None
    with ex have "\<not> taken incident_key key (incidents d)"
      by (auto simp: incident_by_key_def taken_def filter_empty_conv)
    moreover have "seq_of (db_next d) d = []"
    proof -
      have "set (map ev_incident_id (events d)) \<subseteq> set (map inc_id (incidents d))"
        "below inc_id (db_next d) (incidents d)"
        using assms(1) by (simp_all add: incidents_ok_def db_ok_def foreign_keys_def fresh_ids_def)
      then show ?thesis by (force simp: seq_of_def below_def filter_empty_conv)
    qed
    moreover from None ex assms(2) have "c" "i = db_next d" "insert_incident (new_incident key sev observed d) d = Inr d1"
      by (auto simp: find_or_create_def bindr_Inr_iff)
    ultimately show ?thesis using new by simp
  next
    case (Some r)
    with ex have "filter (\<lambda>r. incident_key r = key) (incidents d) = [r]" by (simp add: incident_by_key_def)
    then have "r \<in> set (incidents d)" "incident_key r = key"
      using filter_single_in by force+
    moreover from Some ex assms(2) have "inc_id r = i" "\<not> c" "d1 = d" by (auto simp: find_or_create_def)
    ultimately show ?thesis by (rule old)
  qed
qed

text \<open>Steps that leave the events alone keep the numbering.\<close>

lemma contiguous_cong: "events d' = events d \<Longrightarrow> contiguous d' = contiguous d"
  by (simp only: contiguous_def seq_of_def)

lemma incidents_ok_frame: "incidents_ok d \<Longrightarrow> db_ok d' \<Longrightarrow> events d' = events d \<Longrightarrow> incidents_ok d'"
  unfolding incidents_ok_def using contiguous_cong [of d' d] by simp

lemma find_or_create_ok:
  assumes "incidents_ok d" and "find_or_create key sev observed d = Inr (i, c, d1)"
  shows "incidents_ok d1 \<and> taken inc_id i (incidents d1) \<and> audit d1 = audit d \<and> signals d1 = signals d \<and>
    seq_of i d1 = seq_of i d \<and> incidents d1 = incidents d @ (if c then [new_incident key sev observed d] else []) \<and>
    (c \<longleftrightarrow> \<not> taken incident_key key (incidents d))"
  using assms
proof (cases rule: find_or_create_cases)
  case new
  then have "db_ok d1" using assms(1) db_ok_insert_incident new_incident_keys by (metis incidents_ok_def)
  moreover from new(4) have d1: "incidents d1 = incidents d @ [new_incident key sev observed d]"
    "events d1 = events d" "audit d1 = audit d" "signals d1 = signals d"
    by (auto simp: insert_incident_def)
  ultimately show ?thesis using new(1,2,3) incidents_ok_frame [OF assms(1) _ d1(2)]
    by (simp add: taken_def seq_of_def)
qed (use assms in \<open>auto simp: taken_def\<close>)

lemma signal_upsert_ok:
  assumes "incidents_ok d" and "sig_id s = db_next d" and "upsert signal_key signals insert_signal s d = Inr (b, d')"
  shows "incidents_ok d'" and "incidents d' = incidents d" and "audit d' = audit d"
    and "signals d' = signals d @ (if b then [s] else [])" and "seq_of k d' = seq_of k d"
    and "b \<longleftrightarrow> \<not> taken signal_key (signal_key s) (signals d)"
proof -
  have f: "incidents d' = incidents d \<and> audit d' = audit d \<and> events d' = events d \<and>
      signals d' = signals d @ (if b then [s] else []) \<and> (b \<longleftrightarrow> \<not> taken signal_key (signal_key s) (signals d))"
    using assms(3) by (auto simp: upsert_def bindr_Inr_iff insert_signal_def split: if_splits)
  then show "incidents d' = incidents d" "audit d' = audit d"
    "signals d' = signals d @ (if b then [s] else [])" "seq_of k d' = seq_of k d"
    "b \<longleftrightarrow> \<not> taken signal_key (signal_key s) (signals d)"
    by (simp_all add: seq_of_def)
  have "db_ok d'"
    using assms db_ok_insert_signal [of d s d']
    by (auto simp: incidents_ok_def upsert_def bindr_Inr_iff split: if_splits)
  with assms(1) f show "incidents_ok d'" by (blast intro: incidents_ok_frame)
qed

lemma insert_audit_frame [simp]:
  "incidents (insert_audit a d) = incidents d" "signals (insert_audit a d) = signals d"
  "events (insert_audit a d) = events d" "audit (insert_audit a d) = audit d @ [a]" "seq_of i (insert_audit a d) = seq_of i d"
  "versions (insert_audit a d) = versions d" "approvals (insert_audit a d) = approvals d" "jobs (insert_audit a d) = jobs d"
  "executions (insert_audit a d) = executions d" "recovery_checks (insert_audit a d) = recovery_checks d"
  by (simp_all add: insert_audit_def seq_of_def)

lemma incidents_ok_audit: "incidents_ok d \<Longrightarrow> incidents_ok (insert_audit a d)"
  using db_ok_audit by (blast intro: incidents_ok_frame insert_audit_frame(3) dest: incidents_ok_def [THEN iffD1])

section \<open>What one call does\<close>

text \<open>The row of the signal a call carries.\<close>

definition signal_of :: "nat \<Rightarrow> string \<Rightarrow> string \<Rightarrow> int \<Rightarrow> json \<Rightarrow> db \<Rightarrow> signal_row" where
  "signal_of i source event_id observed payload d =
     \<lparr>sig_id = db_next d, sig_incident_id = i, sig_source = source, source_event_id = event_id,
      observed_at = observed, sig_payload = payload, sig_created_at = db_now d\<rparr>"

lemma signal_of_simps [simp]:
  "sig_id (signal_of i src e t p d) = db_next d" "signal_key (signal_of i src e t p d) = (src, e)"
  "sig_incident_id (signal_of i src e t p d) = i"
  by (simp_all add: signal_of_def signal_key_def)

lemma correlate_phases:
  assumes "correlate_signal t key source eid observed payload sev d = Inr ((i, created), d')"
  shows "\<exists>d1 d2 b. find_or_create key sev observed d = Inr (i, created, d1) \<and>
    upsert signal_key signals insert_signal (signal_of i source eid observed payload d1) d1 = Inr (b, d2) \<and>
    (created \<longrightarrow> (\<exists>d3 a. append_event t i ''opened'' (JObj [(''source'', JStr source)]) d2 = Inr d3 \<and>
       d' = insert_audit a d3 \<and> au_action a = ''incident.open'' \<and> entity_id a = i)) \<and>
    (\<not> created \<longrightarrow> b \<longrightarrow> append_event t i ''signal_attached'' (JObj [(''source_event_id'', JStr eid)]) d2 = Inr d') \<and>
    (\<not> created \<longrightarrow> \<not> b \<longrightarrow> d' = d2)"
proof -
  from assms obtain j c d1 b d2 where f: "find_or_create key sev observed d = Inr (j, c, d1)"
    and u: "upsert signal_key signals insert_signal (signal_of j source eid observed payload d1) d1 = Inr (b, d2)"
    by (auto simp: correlate_signal_def bindr_Inr_iff signal_of_def [symmetric])
  moreover from assms f u have "j = i" "c = created"
    by (auto simp: correlate_signal_def bindr_Inr_iff signal_of_def [symmetric] split: if_splits)
  ultimately show ?thesis using assms
    by (force simp: correlate_signal_def bindr_Inr_iff signal_of_def [symmetric] audit_event_def split: if_splits)
qed


lemma find_or_create_known:
  assumes "incidents_ok d" and "r \<in> set (incidents d)" and "incident_key r = key"
  shows "find_or_create key sev observed d = Inr (inc_id r, False, d)"
proof -
  have "distinct (map incident_key (incidents d))"
    using assms(1) by (simp add: incidents_ok_def db_ok_def unique_keys_def)
  from filter_unique [OF this assms(2)] show ?thesis
    using assms(3) by (simp add: find_or_create_def incident_by_key_def one_or_none_def)
qed

lemma correlate_known:
  assumes "incidents_ok d" and "r \<in> set (incidents d)" and "incident_key r = key"
    and "taken signal_key (source, eid) (signals d)"
  shows "correlate_signal t key source eid observed payload sev d = Inr ((inc_id r, False), d)"
  using assms(4) by (simp add: correlate_signal_def find_or_create_known [OF assms(1-3)] upsert_def
      signal_of_def [symmetric])

lemma correlate_rows:
  assumes "incidents_ok d" and "correlate_signal t key source eid observed payload sev d = Inr ((i, created), d')"
  obtains r where "incidents_ok d'" "r \<in> set (incidents d')" "incident_key r = key" "inc_id r = i"
    "taken signal_key (source, eid) (signals d')"
proof -
  from correlate_phases [OF assms(2)] obtain d1 d2 b where foc: "find_or_create key sev observed d = Inr (i, created, d1)"
    and up: "upsert signal_key signals insert_signal (signal_of i source eid observed payload d1) d1 = Inr (b, d2)"
    and new: "created \<Longrightarrow> \<exists>d3 a. append_event t i ''opened'' (JObj [(''source'', JStr source)]) d2 = Inr d3 \<and>
       d' = insert_audit a d3 \<and> au_action a = ''incident.open'' \<and> entity_id a = i"
    and att: "\<not> created \<Longrightarrow> b \<Longrightarrow>
      append_event t i ''signal_attached'' (JObj [(''source_event_id'', JStr eid)]) d2 = Inr d'"
    and dup: "\<not> created \<Longrightarrow> \<not> b \<Longrightarrow> d' = d2"
    by blast
  note F = find_or_create_ok [OF assms(1) foc]
  note U = signal_upsert_ok [OF conjunct1 [OF F] _ up, simplified]
  have inc: "\<exists>r \<in> set (incidents d2). incident_key r = key \<and> inc_id r = i"
    by (rule find_or_create_cases [OF assms(1) foc]) (use F U in \<open>auto intro: bexI [of _ "new_incident key sev observed d"]\<close>)
  have sg: "taken signal_key (source, eid) (signals d2)"
    using conjunct2 [OF signal_tab.upsert_rows [OF up]] unfolding signal_of_simps .
  consider (c) "created" | (a) "\<not> created" "b" | (n) "\<not> created" "\<not> b" by blast
  then have fin: "incidents_ok d' \<and> incidents d' = incidents d2 \<and> signals d' = signals d2"
  proof cases
    case c
    with new obtain d3 a where "append_event t i ''opened'' (JObj [(''source'', JStr source)]) d2 = Inr d3"
      "d' = insert_audit a d3" by blast
    with append_event_ok [OF U(1)] incidents_ok_audit show ?thesis by simp
  next
    case a
    with append_event_ok [OF U(1)] att show ?thesis by blast
  next
    case n
    with U(1) dup show ?thesis by simp
  qed
  with inc sg that show ?thesis by metis
qed

text \<open>Correlation is idempotent: after a signal was correlated, correlating a signal with the same key
  and the same (source, event id) again, with any payload, severity and time, returns the same
  incident with \<open>created = False\<close> and leaves the database exactly as it is.\<close>

theorem correlate_idempotent:
  assumes "incidents_ok d" and "correlate_signal t key source eid observed payload sev d = Inr ((i, created), d')"
  shows "correlate_signal t' key source eid observed' payload' sev' d' = Inr ((i, False), d')"
proof -
  from assms obtain r where "incidents_ok d'" "r \<in> set (incidents d')" "incident_key r = key" "inc_id r = i"
    "taken signal_key (source, eid) (signals d')"
    by (rule correlate_rows)
  with correlate_known show ?thesis by blast
qed

text \<open>When the texts fit their columns, correlation never fails on a database that satisfies the
  invariants: no constraint of the tables can be violated by the rows it writes.\<close>

theorem correlate_total:
  assumes "incidents_ok d" and "varchar 128 key" and "varchar 16 sev" and "varchar 64 source" and "varchar 128 eid"
  shows "\<exists>i c d'. correlate_signal t key source eid observed payload sev d = Inr ((i, c), d')"
proof -
  have D: "distinct (map incident_key (incidents d))" "\<not> taken inc_id (db_next d) (incidents d)"
    using assms(1) by (simp_all add: incidents_ok_def db_ok_def unique_keys_def fresh_ids_def below_not_taken)
  have "\<exists>i c d1. find_or_create key sev observed d = Inr (i, c, d1)"
  proof (cases "taken incident_key key (incidents d)")
    case True
    then obtain r where "r \<in> set (incidents d)" "incident_key r = key" by (auto simp: taken_def)
    with find_or_create_known [OF assms(1)] show ?thesis by blast
  next
    case False
    then have "incident_by_key d key = Inr None"
      by (auto simp: incident_by_key_def taken_def filter_empty_conv)
    with False D assms(2,3) show ?thesis
      by (simp add: find_or_create_def insert_incident_def guard_def new_incident_def varchar_def) blast
  qed
  then obtain i c d1 where foc: "find_or_create key sev observed d = Inr (i, c, d1)" by blast
  note F = find_or_create_ok [OF assms(1) foc]
  have ti: "taken inc_id i (incidents d1)" using F by blast
  have ns: "\<not> taken sig_id (db_next d1) (signals d1)"
    using conjunct1 [OF F] below_not_taken unfolding incidents_ok_def db_ok_def fresh_ids_def by blast
  from ti ns assms(4,5) have "\<exists>b d2. upsert signal_key signals insert_signal (signal_of i source eid observed payload d1) d1 = Inr (b, d2)"
    by (simp add: upsert_def insert_signal_def guard_def bindr_def signal_of_def signal_key_def) blast
  then obtain b d2 where up: "upsert signal_key signals insert_signal (signal_of i source eid observed payload d1) d1 = Inr (b, d2)"
    by blast
  note U = signal_upsert_ok [OF conjunct1 [OF F] _ up, simplified]
  have "taken inc_id i (incidents d2)" unfolding U(2) by (rule ti)
  from append_event_total [OF U(1) this] have ap: "\<exists>d3. append_event t i ty p d2 = Inr d3" for ty p by blast
  from ap [of "''opened''" "JObj [(''source'', JStr source)]"]
    ap [of "''signal_attached''" "JObj [(''source_event_id'', JStr eid)]"]
  show ?thesis using foc up
    by (cases c; cases b) (auto simp: correlate_signal_def signal_of_def [symmetric])
qed

text \<open>A signal whose (source, event id) was already stored for another key opens an incident that has
  no signal: the upsert drops the row, the incident, its \<open>opened\<close> event and its audit row are kept.\<close>

theorem correlate_orphan_incident:
  assumes "incidents_ok d" and "correlate_signal t key source eid observed payload sev d = Inr ((i, created), d')"
    and "\<not> taken incident_key key (incidents d)" and "taken signal_key (source, eid) (signals d)"
  shows "created \<and> seq_of i d' = [1] \<and> filter (\<lambda>s. sig_incident_id s = i) (signals d') = []"
proof -
  from correlate_phases [OF assms(2)] obtain d1 d2 b where foc: "find_or_create key sev observed d = Inr (i, created, d1)"
    and up: "upsert signal_key signals insert_signal (signal_of i source eid observed payload d1) d1 = Inr (b, d2)"
    and new: "created \<Longrightarrow> \<exists>d3 a. append_event t i ''opened'' (JObj [(''source'', JStr source)]) d2 = Inr d3 \<and>
       d' = insert_audit a d3 \<and> au_action a = ''incident.open'' \<and> entity_id a = i"
    by blast
  note F = find_or_create_ok [OF assms(1) foc]
  note U = signal_upsert_ok [OF conjunct1 [OF F] _ up, simplified]
  from F assms(3) have c: "created" by simp
  with new obtain d3 a where ap: "append_event t i ''opened'' (JObj [(''source'', JStr source)]) d2 = Inr d3"
    and d': "d' = insert_audit a d3" by blast
  note A = append_event_ok [OF U(1) ap]
  have i: "i = db_next d \<and> seq_of i d = []"
    by (rule find_or_create_cases [OF assms(1) foc]) (use c in auto)
  have "set (map sig_incident_id (signals d)) \<subseteq> set (map inc_id (incidents d))" "below inc_id (db_next d) (incidents d)"
    using assms(1) by (simp_all add: incidents_ok_def db_ok_def foreign_keys_def fresh_ids_def)
  then have "filter (\<lambda>s. sig_incident_id s = i) (signals d) = []"
    using i by (force simp: below_def filter_empty_conv)
  moreover have "signals d' = signals d" using A(3) d' U(4,6) F assms(4) by simp
  moreover have "seq_of i d' = [1]"
    unfolding d' insert_audit_frame A(2) U(5) using F conjunct2 [OF i] by simp
  ultimately show ?thesis using c by simp
qed

section \<open>A concrete run\<close>

definition demo_signal :: "string \<Rightarrow> db \<Rightarrow> ((nat \<times> bool) \<times> db) res" where
  "demo_signal key = correlate_signal 7 key ''oper_state'' ''e1'' 5 (JObj []) ''major''"

lemma demo_incidents_ok: "incidents_ok (empty_db 3)"
  by (simp add: incidents_ok_def contiguous_def seq_of_def) (simp add: empty_db_def)

definition demo_after :: db where
  "demo_after = (case demo_signal ''k'' (empty_db 3) of Inr (_, d) \<Rightarrow> d | _ \<Rightarrow> empty_db 3)"

lemma demo_first: "demo_signal ''k'' (empty_db 3) = Inr ((0, True), demo_after)"
  by code_simp


theorem correlate_idempotent_witness: "demo_signal ''k'' demo_after = Inr ((0, False), demo_after)"
  unfolding demo_signal_def by (rule correlate_idempotent [OF demo_incidents_ok demo_first [unfolded demo_signal_def]])

theorem correlate_total_witness: "\<exists>i c d'. demo_signal ''k'' (empty_db 3) = Inr ((i, c), d')"
  unfolding demo_signal_def by (rule correlate_total [OF demo_incidents_ok]) code_simp+

definition demo_orphan :: db where
  "demo_orphan = (case demo_signal ''l'' demo_after of Inr (_, d) \<Rightarrow> d | _ \<Rightarrow> empty_db 3)"

theorem correlate_orphan_incident_witness:
  "demo_signal ''l'' demo_after = Inr ((4, True), demo_orphan) \<and>
     True \<and> seq_of 4 demo_orphan = [1] \<and> filter (\<lambda>s. sig_incident_id s = 4) (signals demo_orphan) = []"
proof
  show 2: "demo_signal ''l'' demo_after = Inr ((4, True), demo_orphan)" by code_simp
  have ok: "incidents_ok demo_after"
    by (rule correlate_rows [OF demo_incidents_ok demo_first [unfolded demo_signal_def]])
  have "\<not> taken incident_key ''l'' (incidents demo_after)"
    "taken signal_key (''oper_state'', ''e1'') (signals demo_after)"
    by code_simp+
  from correlate_orphan_incident [OF ok 2 [unfolded demo_signal_def] this]
  show "True \<and> seq_of 4 demo_orphan = [1] \<and> filter (\<lambda>s. sig_incident_id s = 4) (signals demo_orphan) = []" .
qed

end
