(* ===== verification/Binding.thy ===== *)
theory Binding
  imports Prelude
begin

text \<open>
  The approval gate and the audit guard: \<open>executor/binding.py\<close>, \<open>api/approval.py\<close> and
  \<open>executor/audit_guard.py\<close>. \<open>approval_authorizes_plan\<close> is the one predicate both the executor's
  precheck and the browser path call; the locale \<open>approval_gate\<close> is what its two clients rely on.
\<close>

section \<open>The binding predicate\<close>

definition approval_authorizes_plan :: "string \<Rightarrow> string \<Rightarrow> string \<Rightarrow> bool" where
  "approval_authorizes_plan dec approval_digest plan_digest \<longleftrightarrow>
     dec = ''approve'' \<and> approval_digest = plan_digest"

text \<open>What a gate promises: it opens for an approve decision on exactly the digest, for nothing else.\<close>

locale approval_gate =
  fixes opens :: "string \<Rightarrow> string \<Rightarrow> string \<Rightarrow> bool"
  assumes opens_exact: "opens dec d p \<Longrightarrow> d = p"
    and opens_approve: "opens dec d p \<Longrightarrow> dec = ''approve''"
    and opens_own: "opens ''approve'' d d"
begin

text \<open>An edit of the plan closes the gate for every decision taken before it.\<close>

lemma edit_closes: "opens dec d p \<Longrightarrow> p' \<noteq> p \<Longrightarrow> \<not> opens dec' d p'"
  using opens_exact by blast

lemma opens_iff: "opens dec d p \<longleftrightarrow> dec = ''approve'' \<and> d = p"
  using opens_exact opens_approve opens_own by blast

end

interpretation binding_gate: approval_gate approval_authorizes_plan
  by unfold_locales (auto simp: approval_authorizes_plan_def)

section \<open>The UI guard\<close>

definition guard_execution :: "string option \<Rightarrow> string option \<Rightarrow> string \<Rightarrow> unit res" where
  "guard_execution dec approval_digest plan_digest =
     (case dec of
        None \<Rightarrow> Inl (SideDoorRejected ''execution refused: no approval bound to this exact plan digest'')
      | Some dc \<Rightarrow>
          (case approval_digest of
             None \<Rightarrow> Inl (SideDoorRejected ''execution refused: no approval bound to this exact plan digest'')
           | Some ad \<Rightarrow>
               if \<not> approval_authorizes_plan dc ad plan_digest
               then Inl (SideDoorRejected ''execution refused: no approval bound to this exact plan digest'')
               else Inr ()))"

lemma guard_execution_Inr [simp]:
  "guard_execution dec ad p = Inr u \<longleftrightarrow> (\<exists>dc a. dec = Some dc \<and> ad = Some a \<and> approval_authorizes_plan dc a p)"
  by (auto simp: guard_execution_def split: option.splits)

lemma guard_execution_cases:
  "guard_execution dec ad p = Inr () \<or>
   guard_execution dec ad p = Inl (SideDoorRejected ''execution refused: no approval bound to this exact plan digest'')"
  by (auto simp: guard_execution_def split: option.splits)

interpretation ui_gate: approval_gate "\<lambda>dec d p. guard_execution (Some dec) (Some d) p = Inr ()"
  by unfold_locales (auto simp: approval_authorizes_plan_def)

section \<open>Audit before mutation\<close>

text \<open>
  \<open>guarded_mutation\<close> over an explicit state: \<open>audit_write\<close> and \<open>mutate\<close> may raise and may change the
  state; any exception of the audit write becomes \<open>AuditUnavailable\<close> and \<open>mutate\<close> is not run.
\<close>

definition guarded_mutation :: "('s \<Rightarrow> unit res \<times> 's) \<Rightarrow> ('s \<Rightarrow> 'a res \<times> 's) \<Rightarrow> 's \<Rightarrow> 'a res \<times> 's" where
  "guarded_mutation audit_write mutate s =
     (case audit_write s of
        (Inl e, s') \<Rightarrow> (Inl (AuditUnavailable ''audit write failed; state mutation blocked''), s')
      | (Inr _, s') \<Rightarrow> mutate s')"

lemma guarded_mutation_blocked:
  "fst (audit_write s) = Inl e \<Longrightarrow>
    guarded_mutation audit_write mutate s =
      (Inl (AuditUnavailable ''audit write failed; state mutation blocked''), snd (audit_write s))"
  by (cases "audit_write s") (simp add: guarded_mutation_def)

lemma guarded_mutation_runs:
  "fst (audit_write s) = Inr u \<Longrightarrow> guarded_mutation audit_write mutate s = mutate (snd (audit_write s))"
  by (cases "audit_write s") (simp add: guarded_mutation_def)

end
