(* ===== verification/SliceDiagnose.thy ===== *)
theory SliceDiagnose
  imports PyJson
begin

text \<open>
  The deterministic diagnosis and prebuilt plan of \<open>workflow/slice_diagnose.py\<close>. A plan here is a JSON
  dictionary (the \<open>plan_json\<close> column of a remediation version), addressed by \<open>plan_digest\<close>.
\<close>

datatype claim_result = Supported | Contradicted | Insufficient

definition evaluate_oper_state_claim :: "(string, string) dict \<Rightarrow> string \<Rightarrow> claim_result" where
  "evaluate_oper_state_claim evidence expected =
     (case dict_get evidence ''oper_state'' of
        None \<Rightarrow> Insufficient
      | Some observed \<Rightarrow> if observed = expected then Supported else Contradicted)"

definition plan_digest :: "(string \<Rightarrow> string) \<Rightarrow> (pyfloat \<Rightarrow> string) \<Rightarrow> (string, json) dict \<Rightarrow> string" where
  "plan_digest sha fr plan = sha (dumps_sorted fr (JObj plan))"

definition build_link_down_plan ::
    "(string \<Rightarrow> string) \<Rightarrow> (pyfloat \<Rightarrow> string) \<Rightarrow> string \<Rightarrow> string \<Rightarrow> string \<Rightarrow> (string, json) dict \<times> string" where
  "build_link_down_plan sha fr node interface topology_hash =
     (let plan =
        [(''diagnosis_class'', JStr ''link_down''), (''action'', JStr ''set_admin_state''),
         (''node'', JStr node), (''interface'', JStr interface), (''value'', JStr ''enable''),
         (''topology_hash'', JStr topology_hash), (''risk_class'', JStr ''low''),
         (''recovery_predicate'', JStr ''oper_state_up'')]
      in (plan, plan_digest sha fr plan))"

text \<open>Dictionaries that bind some key to values with different sorted texts have different digests.\<close>

lemma plan_digest_differs:
  assumes "float_law fr fp" and "wf_json (JObj p)" and "wf_json (JObj q)"
    and "map_option canon (dict_get p k) \<noteq> map_option canon (dict_get q k)"
    and "sha (dumps_sorted fr (JObj p)) = sha (dumps_sorted fr (JObj q)) \<Longrightarrow>
      dumps_sorted fr (JObj p) = dumps_sorted fr (JObj q)"
  shows "plan_digest sha fr p \<noteq> plan_digest sha fr q"
proof
  assume "plan_digest sha fr p = plan_digest sha fr q"
  then have c: "canon (JObj p) = canon (JObj q)"
    using assms(1,2,3,5) dumps_sorted_inj unfolding plan_digest_def by blast
  have "distinct (map fst p)" "distinct (map fst q)"
    using assms(2,3) by simp_all
  from canon_JObj_get [OF c this] assms(4) show False by blast
qed

end
