(* ===== verification/Executor.thy ===== *)
theory Executor
  imports Db Binding SliceDiagnose
begin

text \<open>
  The isolated executor of \<open>executor/executor.py\<close>: \<open>_precheck\<close>, \<open>execute_job\<close> and \<open>reconcile_job\<close>.

  \<open>execute_job\<close> is the composition of the phases the code runs in order: \<open>exec_check\<close> (job, version,
  competing execution, precheck, plan fields), \<open>exec_mutate\<close> (pre-state capture, audit intent and its
  flush, the mutation, read-back) and \<open>exec_record\<close> (execution row and its flush, recovery check, job
  status, audit). The device is injected; its state is \<open>'d\<close> and both operations may raise. \<open>env\<close> says
  which flushes the database accepts. The trace lists the effects outside the session in the order
  they happen: the accepted flush of the audit intent and every call that mutates the device.
  On an exception the world still holds the session's rows; the caller drops them.
\<close>

record 'd device =
  get_oper_state :: "'d \<Rightarrow> json \<Rightarrow> json \<Rightarrow> string res \<times> 'd"
  set_admin_state :: "'d \<Rightarrow> json \<Rightarrow> json \<Rightarrow> json \<Rightarrow> unit res \<times> 'd"

record env =
  flush_intent_ok :: bool
  flush_execution_ok :: bool
  commit_ok :: bool

datatype effect = IntentFlushed nat | DeviceSet json json json

record 'd world =
  w_db :: db
  w_dev :: 'd
  w_trace :: "effect list"

definition ALLOWED_ACTIONS :: "string set" where "ALLOWED_ACTIONS = {''set_admin_state''}"
definition ALLOWED_VALUES :: "string set" where "ALLOWED_VALUES = {''enable''}"

section \<open>Prechecks\<close>

text \<open>\<open>x in S\<close> for a set of strings: lists and dictionaries are unhashable, other values never match.\<close>

definition in_str_set :: "json option \<Rightarrow> string set \<Rightarrow> bool res" where
  "in_str_set v S =
     (case v of
        Some (JStr s) \<Rightarrow> Inr (s \<in> S)
      | Some (JArr _) \<Rightarrow> Inl (TypeError ''unhashable type'')
      | Some (JObj _) \<Rightarrow> Inl (TypeError ''unhashable type'')
      | _ \<Rightarrow> Inr False)"

text \<open>
  \<open>str(plan.get("interface", "")).startswith("mgmt")\<close>: the \<open>str\<close> of a JSON value other than a string
  starts with a digit, a minus sign, a bracket or a capital letter.
\<close>

definition targets_mgmt :: "(string, json) dict \<Rightarrow> bool" where
  "targets_mgmt plan =
     (case dict_get plan ''interface'' of Some (JStr s) \<Rightarrow> startswith s ''mgmt'' | _ \<Rightarrow> False)"

definition precheck :: "db \<Rightarrow> version_row \<Rightarrow> (string, json) dict res" where
  "precheck d rv =
     (if (case latest_approval d (rv_id rv) of
            None \<Rightarrow> True
          | Some appr \<Rightarrow>
              \<not> approval_authorizes_plan (decision appr) (ap_plan_digest appr) (plan_digest_col rv))
      then Inl (PrecheckError ''no valid approval bound to this exact plan digest'')
      else
        let plan = plan_json rv in
        bindr (in_str_set (dict_get plan ''action'') ALLOWED_ACTIONS) (\<lambda>action_ok.
          if \<not> action_ok then Inl (PrecheckError ''action/value not allowlisted'')
          else bindr (in_str_set (dict_get plan ''value'') ALLOWED_VALUES) (\<lambda>value_ok.
            if \<not> value_ok then Inl (PrecheckError ''action/value not allowlisted'')
            else if targets_mgmt plan then Inl (PrecheckError ''target is a management interface'')
            else Inr plan)))"

section \<open>execute_job\<close>

datatype check_result = DuplicateJob | Ready json json json

definition exec_check :: "db \<Rightarrow> nat \<Rightarrow> check_result res" where
  "exec_check d j =
     bindr (job_by_id d j) (\<lambda>job.
     bindr (version_by_id d (job_version_id job)) (\<lambda>rv.
     bindr (execution_of_job d (job_id job)) (\<lambda>ex.
       if ex \<noteq> None then Inr DuplicateJob
       else
         bindr (precheck d rv) (\<lambda>plan.
         bindr (dict_index plan ''node'') (\<lambda>node.
         bindr (dict_index plan ''interface'') (\<lambda>iface.
         bindr (dict_index plan ''value'') (\<lambda>val. Inr (Ready node iface val))))))))"

definition oper_json :: "string \<Rightarrow> json" where
  "oper_json s = JObj [(''oper_state'', JStr s)]"

text \<open>\<open>job.status = "running"\<close> and the audit intent, as the flush writes them.\<close>

definition intent_db :: "nat \<Rightarrow> string \<Rightarrow> json \<Rightarrow> db \<Rightarrow> db" where
  "intent_db j before val d =
     (let d1 = set_job_status j ''running'' d in
      insert_audit
        (audit_event d1 ''executor'' ''executor'' ''execution.apply.intent'' ''execution_job'' j
           (Some (oper_json before)) (Some (JObj [(''intended_value'', val)]))) d1)"

definition exec_mutate ::
    "'d device \<Rightarrow> env \<Rightarrow> nat \<Rightarrow> json \<Rightarrow> json \<Rightarrow> json \<Rightarrow> 'd world \<Rightarrow> (string \<times> string) res \<times> 'd world" where
  "exec_mutate dvc en j node iface val w =
     (case get_oper_state dvc (w_dev w) node iface of
        (Inl e, dev1) \<Rightarrow> (Inl e, w\<lparr>w_dev := dev1\<rparr>)
      | (Inr before, dev1) \<Rightarrow>
          (if \<not> flush_intent_ok en
           then (Inl (AuditUnavailable ''audit write failed; execution blocked''),
                 w\<lparr>w_dev := dev1, w_db := set_job_status j ''running'' (w_db w)\<rparr>)
           else
             let w1 = w\<lparr>w_dev := dev1, w_db := intent_db j before val (w_db w),
                        w_trace := w_trace w @ [IntentFlushed j]\<rparr> in
             case set_admin_state dvc dev1 node iface val of
               (r, dev2) \<Rightarrow>
                 (let w2 = w1\<lparr>w_dev := dev2, w_trace := w_trace w1 @ [DeviceSet node iface val]\<rparr> in
                  case r of
                    Inl e \<Rightarrow> (Inl e, w2)
                  | Inr _ \<Rightarrow>
                      (case get_oper_state dvc dev2 node iface of
                         (Inl e, dev3) \<Rightarrow> (Inl e, w2\<lparr>w_dev := dev3\<rparr>)
                       | (Inr aft, dev3) \<Rightarrow> (Inr (before, aft), w2\<lparr>w_dev := dev3\<rparr>)))))"

text \<open>Classification of the read-back: (status, failure class).\<close>

definition classify :: "string \<Rightarrow> string \<times> string option" where
  "classify aft =
     (if aft = ''up'' then (''succeeded'', None)
      else if aft = [] \<or> aft = ''unknown'' then (''outcome_unknown'', Some ''ambiguous_readback'')
      else (''failed'', Some ''readback_not_up''))"

definition exec_record :: "env \<Rightarrow> nat \<Rightarrow> string \<Rightarrow> string \<Rightarrow> db \<Rightarrow> (string \<times> db) res" where
  "exec_record en j before aft d =
     (let (status, failure) = classify aft;
          eid = db_next d;
          execution = \<lparr>ex_id = eid, ex_job_id = j, ex_status = status,
            config_before = Some (oper_json before), config_after = Some (oper_json aft),
            failure_class = failure, ex_created_at = db_now d\<rparr>;
          recovery_passed = (status = ''succeeded'' \<and> aft = ''up'')
      in
      guard (flush_execution_ok en) OperationalError
     (bindr (insert_execution execution d) (\<lambda>d1.
      bindr (insert_check \<lparr>rc_id = db_next d1, rc_execution_id = eid, check_type = ''oper_state_up'',
               rc_result = (if recovery_passed then ''passed'' else ''failed''),
               observed_json = JObj [(''before'', JStr before), (''after'', JStr aft)],
               rc_created_at = db_now d1\<rparr> d1) (\<lambda>d2.
      let d3 = set_job_status j (if status = ''succeeded'' then ''completed'' else ''reconciling'') d2 in
      Inr (status,
           insert_audit (audit_event d3 ''executor'' ''executor'' ''execution.apply'' ''execution_job'' j
             (Some (oper_json before))
             (Some (JObj [(''oper_state'', JStr aft), (''status'', JStr status)]))) d3)))))"

definition exec_apply ::
    "'d device \<Rightarrow> env \<Rightarrow> nat \<Rightarrow> json \<Rightarrow> json \<Rightarrow> json \<Rightarrow> 'd world \<Rightarrow> string res \<times> 'd world" where
  "exec_apply dvc en j node iface val w =
     (case exec_mutate dvc en j node iface val w of
        (Inl e, w1) \<Rightarrow> (Inl e, w1)
      | (Inr (before, aft), w1) \<Rightarrow>
          (case exec_record en j before aft (w_db w1) of
             Inl e \<Rightarrow> (Inl e, w1)
           | Inr (status, d) \<Rightarrow> (Inr status, w1\<lparr>w_db := d\<rparr>)))"

definition execute_job :: "'d device \<Rightarrow> env \<Rightarrow> nat \<Rightarrow> 'd world \<Rightarrow> string res \<times> 'd world" where
  "execute_job dvc en j w =
     (case exec_check (w_db w) j of
        Inl e \<Rightarrow> (Inl e, w)
      | Inr DuplicateJob \<Rightarrow> (Inr ''duplicate_ignored'', w)
      | Inr (Ready node iface val) \<Rightarrow> exec_apply dvc en j node iface val w)"

section \<open>reconcile_job\<close>

definition reconcile_status :: "string \<Rightarrow> string \<times> string" where
  "reconcile_status actual =
     (if actual = ''up'' then (''completed'', ''succeeded'')
      else if actual = [] \<or> actual = ''unknown'' then (''reconciling'', ''outcome_unknown'')
      else (''retryable_failed'', ''failed''))"

definition resolve_execution :: "string \<Rightarrow> execution_row option \<Rightarrow> db \<Rightarrow> db" where
  "resolve_execution resolved ex d =
     (case ex of
        Some x \<Rightarrow> if ex_status x = ''outcome_unknown'' \<and> resolved \<noteq> ''outcome_unknown''
                  then set_execution_status (ex_id x) resolved d else d
      | None \<Rightarrow> d)"

definition reconcile_record :: "nat \<Rightarrow> string \<Rightarrow> db \<Rightarrow> (string \<times> db) res" where
  "reconcile_record j actual d =
     (let (js, resolved) = reconcile_status actual;
          d1 = set_job_status j js d
      in
      bindr (execution_of_job d1 j) (\<lambda>ex.
        let d2 = resolve_execution resolved ex d1
        in Inr (resolved,
             insert_audit (audit_event d2 ''executor'' ''executor'' ''execution.reconcile'' ''execution_job'' j
               (Some (JObj [(''status'', JStr ''reconciling'')]))
               (Some (JObj [(''actual_oper_state'', JStr actual), (''resolved'', JStr resolved)]))) d2)))"

definition reconcile_job :: "'d device \<Rightarrow> nat \<Rightarrow> 'd world \<Rightarrow> string res \<times> 'd world" where
  "reconcile_job dvc j w =
     (case job_by_id (w_db w) j of
        Inl e \<Rightarrow> (Inl e, w)
      | Inr job \<Rightarrow>
          if job_status job \<notin> {''running'', ''reconciling''} then (Inr (job_status job), w)
          else
            (case bindr (version_by_id (w_db w) (job_version_id job)) (\<lambda>rv.
                    bindr (dict_index (plan_json rv) ''node'') (\<lambda>node.
                    bindr (dict_index (plan_json rv) ''interface'') (\<lambda>iface. Inr (node, iface)))) of
               Inl e \<Rightarrow> (Inl e, w)
             | Inr (node, iface) \<Rightarrow>
                 (case get_oper_state dvc (w_dev w) node iface of
                    (Inl e, dev1) \<Rightarrow> (Inl e, w\<lparr>w_dev := dev1\<rparr>)
                  | (Inr actual, dev1) \<Rightarrow>
                      (case reconcile_record j actual (w_db w) of
                         Inl e \<Rightarrow> (Inl e, w\<lparr>w_dev := dev1\<rparr>)
                       | Inr (resolved, d) \<Rightarrow> (Inr resolved, w\<lparr>w_dev := dev1, w_db := d\<rparr>)))))"

section \<open>Lemmas\<close>

lemma db_fields_set_job_status [simp]:
  "executions (set_job_status j s d) = executions d" "audit (set_job_status j s d) = audit d"
  "recovery_checks (set_job_status j s d) = recovery_checks d" "versions (set_job_status j s d) = versions d"
  "approvals (set_job_status j s d) = approvals d" "incidents (set_job_status j s d) = incidents d"
  "signals (set_job_status j s d) = signals d" "events (set_job_status j s d) = events d"
  "db_next (set_job_status j s d) = db_next d" "db_now (set_job_status j s d) = db_now d"
  "app_users (set_job_status j s d) = app_users d"
  by (simp_all add: set_job_status_def)

lemma jobs_set_job_status [simp]:
  "map job_id (jobs (set_job_status j s d)) = map job_id (jobs d)"
  "map job_version_id (jobs (set_job_status j s d)) = map job_version_id (jobs d)"
  "map idempotency_key (jobs (set_job_status j s d)) = map idempotency_key (jobs d)"
  by (auto simp: set_job_status_def)

lemma set_job_status_twice: "jobs (set_job_status j s (set_job_status j s' d)) = jobs (set_job_status j s d)"
  by (auto simp: set_job_status_def)

lemma db_fields_intent_db [simp]:
  "executions (intent_db j b v d) = executions d" "versions (intent_db j b v d) = versions d"
  "approvals (intent_db j b v d) = approvals d" "incidents (intent_db j b v d) = incidents d"
  "recovery_checks (intent_db j b v d) = recovery_checks d"
  "signals (intent_db j b v d) = signals d" "events (intent_db j b v d) = events d"
  "jobs (intent_db j b v d) = jobs (set_job_status j ''running'' d)"
  "db_next (intent_db j b v d) = Suc (db_next d)"
  by (simp_all add: intent_db_def insert_audit_def Let_def)

lemma exec_mutate_cases:
  assumes "exec_mutate dvc en j node iface val w = (r, w')"
  obtains
    (read) e where "r = Inl e" "w_trace w' = w_trace w" "w_dev w' = snd (get_oper_state dvc (w_dev w) node iface)"
      "executions (w_db w') = executions (w_db w)" "audit (w_db w') = audit (w_db w)"
  | (set) before where "fst (get_oper_state dvc (w_dev w) node iface) = Inr before" "flush_intent_ok en"
      "w_trace w' = w_trace w @ [IntentFlushed j, DeviceSet node iface val]"
      "w_db w' = intent_db j before val (w_db w)"
      "\<And>b a. r = Inr (b, a) \<Longrightarrow> b = before"
  using assms
  by (auto simp: exec_mutate_def Let_def split: prod.splits sum.splits if_splits)

lemma exec_record_Inr:
  assumes "exec_record en j before aft d = Inr (status, d')"
  shows "status = fst (classify aft)"
    and "jobs d' = jobs (set_job_status j (if status = ''succeeded'' then ''completed'' else ''reconciling'') d)"
    and "\<exists>x. executions d' = executions d @ [x] \<and> ex_job_id x = j \<and> ex_status x = status \<and>
        config_before x = Some (oper_json before) \<and> config_after x = Some (oper_json aft) \<and>
        failure_class x = snd (classify aft) \<and>
        (\<exists>c. recovery_checks d' = recovery_checks d @ [c] \<and> rc_execution_id c = ex_id x \<and>
          (rc_result c = ''passed'' \<longleftrightarrow> status = ''succeeded''))"
    and "\<exists>a. audit d' = audit d @ [a] \<and> au_action a = ''execution.apply'' \<and> entity_id a = j"
    and "\<not> taken ex_job_id j (executions d)"
    and "versions d' = versions d" and "approvals d' = approvals d" and "incidents d' = incidents d"
    and "signals d' = signals d" and "events d' = events d"
proof -
  show "status = fst (classify aft)"
    using assms by (auto simp: exec_record_def bindr_Inr_iff Let_def split: prod.splits)
  have up: "fst (classify aft) = ''succeeded'' \<longleftrightarrow> aft = ''up''"
    by (simp add: classify_def)
  show "\<exists>x. executions d' = executions d @ [x] \<and> ex_job_id x = j \<and> ex_status x = status \<and>
        config_before x = Some (oper_json before) \<and> config_after x = Some (oper_json aft) \<and>
        failure_class x = snd (classify aft) \<and>
        (\<exists>c. recovery_checks d' = recovery_checks d @ [c] \<and> rc_execution_id c = ex_id x \<and>
          (rc_result c = ''passed'' \<longleftrightarrow> status = ''succeeded''))"
    using assms up
    by (auto simp: exec_record_def bindr_Inr_iff Let_def insert_execution_def insert_check_def insert_audit_def
        split: prod.splits)
qed (use assms in \<open>auto simp: exec_record_def bindr_Inr_iff Let_def insert_execution_def insert_check_def
      insert_audit_def audit_event_def set_job_status_def split: prod.splits\<close>)

lemma latest_approval_Some:
  "latest_approval d v = Some a \<Longrightarrow> a \<in> set (approvals d) \<and> ap_version_id a = v \<and> decision a = ''approve''"
  by (auto simp: latest_approval_def dest: first_desc_Some)

text \<open>What a passed precheck says of the plan.\<close>

definition allowlisted :: "(string, json) dict \<Rightarrow> bool" where
  "allowlisted plan \<longleftrightarrow>
     dict_get plan ''action'' = Some (JStr ''set_admin_state'') \<and>
     dict_get plan ''value'' = Some (JStr ''enable'') \<and>
     (\<forall>i. dict_get plan ''interface'' = Some (JStr i) \<longrightarrow> \<not> prefix ''mgmt'' i)"

lemma in_str_set_True: "in_str_set v S = Inr True \<longleftrightarrow> (\<exists>s \<in> S. v = Some (JStr s))"
  by (auto simp: in_str_set_def split: option.splits json.splits)

lemma precheck_Inr_iff:
  "precheck d rv = Inr plan \<longleftrightarrow> plan = plan_json rv \<and> allowlisted plan \<and>
     (\<exists>a. latest_approval d (rv_id rv) = Some a \<and>
        approval_authorizes_plan (decision a) (ap_plan_digest a) (plan_digest_col rv))"
proof -
  have t: "(if \<not> b then Inl e else m) = Inr x \<longleftrightarrow> b \<and> m = Inr x" for b and e :: exn and m :: "'a res" and x
    by simp
  show ?thesis
    unfolding precheck_def
    by (auto simp: bindr_Inr_iff Let_def allowlisted_def in_str_set_True ALLOWED_ACTIONS_def ALLOWED_VALUES_def
        targets_mgmt_def startswith_prefix split: option.splits json.splits if_splits)
qed

text \<open>The authorisation a ready job rests on.\<close>

definition authorized :: "db \<Rightarrow> nat \<Rightarrow> json \<Rightarrow> json \<Rightarrow> bool" where
  "authorized d j node iface \<longleftrightarrow>
     (\<exists>job \<in> set (jobs d). \<exists>rv \<in> set (versions d). \<exists>a \<in> set (approvals d).
        job_id job = j \<and> rv_id rv = job_version_id job \<and> ap_version_id a = rv_id rv \<and>
        decision a = ''approve'' \<and> ap_plan_digest a = plan_digest_col rv \<and> allowlisted (plan_json rv) \<and>
        dict_get (plan_json rv) ''node'' = Some node \<and> dict_get (plan_json rv) ''interface'' = Some iface) \<and>
     \<not> taken ex_job_id j (executions d)"

lemma exec_check_Ready:
  assumes "exec_check d j = Inr (Ready node iface val)"
  shows "authorized d j node iface" and "val = JStr ''enable''"
proof -
  from assms obtain job rv where
    job: "job_by_id d j = Inr job" and rv: "version_by_id d (job_version_id job) = Inr rv"
    and ex: "execution_of_job d (job_id job) = Inr None" and pre: "precheck d rv = Inr (plan_json rv)"
    and f: "dict_get (plan_json rv) ''node'' = Some node" "dict_get (plan_json rv) ''interface'' = Some iface"
      "dict_get (plan_json rv) ''value'' = Some val"
    by (auto simp: exec_check_def bindr_Inr_iff precheck_Inr_iff split: if_splits)
  from job rv have "job \<in> set (jobs d)" "job_id job = j" "rv \<in> set (versions d)" "rv_id rv = job_version_id job"
    by (auto simp: job_by_id_def version_by_id_def dest: filter_single_in)
  moreover from ex \<open>job_id job = j\<close> have "\<not> taken ex_job_id j (executions d)"
    by (auto simp: execution_of_job_def taken_def filter_empty_conv)
  moreover from pre obtain a where "latest_approval d (rv_id rv) = Some a" "ap_plan_digest a = plan_digest_col rv"
    and al: "allowlisted (plan_json rv)"
    by (auto simp: precheck_Inr_iff approval_authorizes_plan_def)
  ultimately show "authorized d j node iface"
    using f latest_approval_Some unfolding authorized_def by blast
  from al f show "val = JStr ''enable''" by (simp add: allowlisted_def)
qed

lemma execute_job_cases:
  assumes "execute_job dvc en j w = (r, w')"
  obtains
    (refused) e where "r = Inl e" "w' = w" "exec_check (w_db w) j = Inl e"
  | (duplicate) "r = Inr ''duplicate_ignored''" "w' = w" "exec_check (w_db w) j = Inr DuplicateJob"
  | (read) e node iface where "exec_check (w_db w) j = Inr (Ready node iface (JStr ''enable''))" "r = Inl e"
      "w_trace w' = w_trace w" "w_dev w' = snd (get_oper_state dvc (w_dev w) node iface)"
      "audit (w_db w') = audit (w_db w)"
  | (mutated) before node iface where "exec_check (w_db w) j = Inr (Ready node iface (JStr ''enable''))"
      "flush_intent_ok en" "fst (get_oper_state dvc (w_dev w) node iface) = Inr before"
      "w_trace w' = w_trace w @ [IntentFlushed j, DeviceSet node iface (JStr ''enable'')]"
      "\<And>s. r = Inr s \<Longrightarrow> \<exists>aft. exec_record en j before aft (intent_db j before (JStr ''enable'') (w_db w)) = Inr (s, w_db w')"
      "\<And>e. r = Inl e \<Longrightarrow> w_db w' = intent_db j before (JStr ''enable'') (w_db w)"
proof (cases "exec_check (w_db w) j")
  case (Inl e)
  with assms that(1) show ?thesis by (auto simp: execute_job_def)
next
  case (Inr c)
  show ?thesis
  proof (cases c)
    case DuplicateJob
    with Inr assms that(2) show ?thesis by (auto simp: execute_job_def)
  next
    case (Ready node iface val)
    with Inr have chk: "exec_check (w_db w) j = Inr (Ready node iface val)" by simp
    have v: "val = JStr ''enable''" by (rule exec_check_Ready [OF chk])
    obtain r1 w1 where m: "exec_mutate dvc en j node iface val w = (r1, w1)" by force
    with chk assms have fin: "(r, w') = (case r1 of Inl e \<Rightarrow> (Inl e, w1) | Inr (b, a) \<Rightarrow>
        (case exec_record en j b a (w_db w1) of Inl e \<Rightarrow> (Inl e, w1) | Inr (s, d) \<Rightarrow> (Inr s, w1\<lparr>w_db := d\<rparr>)))"
      by (simp add: execute_job_def exec_apply_def split: prod.splits sum.splits)
    from m show ?thesis
    proof (cases rule: exec_mutate_cases)
      case (read e)
      with fin that(3) [of node iface e] chk v show ?thesis by simp
    next
      case (set before)
      show ?thesis
      proof (rule that(4))
        show "exec_check (w_db w) j = Inr (Ready node iface (JStr ''enable''))" using chk v by simp
        show "flush_intent_ok en" "fst (get_oper_state dvc (w_dev w) node iface) = Inr before" by fact+
        show "w_trace w' = w_trace w @ [IntentFlushed j, DeviceSet node iface (JStr ''enable'')]"
          using fin set v by (auto split: prod.splits sum.splits)
        show "\<exists>aft. exec_record en j before aft (intent_db j before (JStr ''enable'') (w_db w)) = Inr (s, w_db w')"
          if "r = Inr s" for s
          using fin set v that by (auto split: prod.splits sum.splits)
        show "w_db w' = intent_db j before (JStr ''enable'') (w_db w)" if "r = Inl e" for e
          using fin set v that by (auto split: prod.splits sum.splits)
      qed
    qed
  qed
qed

lemma job_status_set: "\<forall>job \<in> set (jobs (set_job_status j s d)). job_id job = j \<longrightarrow> job_status job = s"
proof (intro ballI impI)
  fix job assume "job \<in> set (jobs (set_job_status j s d))" and j: "job_id job = j"
  then have "job \<in> (\<lambda>r. r\<lparr>job_status := s, job_updated_at := db_now d\<rparr>) ` (set (jobs d) \<inter> {r. job_id r = j})"
    unfolding set_job_status_def by simp
  then obtain r where "job = r\<lparr>job_status := s, job_updated_at := db_now d\<rparr>" by (rule imageE)
  then show "job_status job = s" by simp
qed

section \<open>Properties\<close>

text \<open>\<open>execute_job\<close> mutates the device only under a valid authorisation, and exactly once, after the
  audit intent was accepted: whenever the trace grows there is a job row, its version row and an
  approve decision bound to the digest stored in that version, the plan is allowlisted and not on a
  management interface, no execution exists for the job, and the trace grew by the accepted intent
  followed by one \<open>set_admin_state(node, interface, "enable")\<close> of the plan's own target.\<close>

theorem mutation_requires_approval:
  assumes "execute_job dvc en j w = (r, w')" and "w_trace w' \<noteq> w_trace w"
  shows "\<exists>node iface. authorized (w_db w) j node iface \<and> flush_intent_ok en \<and>
     w_trace w' = w_trace w @ [IntentFlushed j, DeviceSet node iface (JStr ''enable'')]"
  using assms(1)
proof (cases rule: execute_job_cases)
  case (mutated before node iface)
  with exec_check_Ready(1) show ?thesis by blast
qed (use assms(2) in auto)

text \<open>C7: When the database refuses the flush of the audit intent the device is never mutated: the
  trace and the audit log are unchanged, the device has at most been read once, and the call never
  reports success; if the checks and the pre-state read pass, it raises \<open>AuditUnavailable\<close>.\<close>

theorem audit_unavailable_blocks:
  assumes "\<not> flush_intent_ok en" and "execute_job dvc en j w = (r, w')"
  shows "w_trace w' = w_trace w \<and> audit (w_db w') = audit (w_db w) \<and>
    (w_dev w' = w_dev w \<or> (\<exists>node iface. w_dev w' = snd (get_oper_state dvc (w_dev w) node iface))) \<and>
    (\<forall>s. r = Inr s \<longrightarrow> s = ''duplicate_ignored'' \<and> w' = w) \<and>
    (\<forall>node iface val before. exec_check (w_db w) j = Inr (Ready node iface val) \<and>
       fst (get_oper_state dvc (w_dev w) node iface) = Inr before \<longrightarrow>
       r = Inl (AuditUnavailable ''audit write failed; execution blocked''))"
proof -
  have "r = Inl (AuditUnavailable ''audit write failed; execution blocked'')"
    if "exec_check (w_db w) j = Inr (Ready node iface val)"
      "fst (get_oper_state dvc (w_dev w) node iface) = Inr before" for node iface val before
    using assms that
    by (cases "get_oper_state dvc (w_dev w) node iface")
      (auto simp: execute_job_def exec_apply_def exec_mutate_def)
  moreover from assms(2) have "w_trace w' = w_trace w \<and> audit (w_db w') = audit (w_db w) \<and>
    (w_dev w' = w_dev w \<or> (\<exists>node iface. w_dev w' = snd (get_oper_state dvc (w_dev w) node iface))) \<and>
    (\<forall>s. r = Inr s \<longrightarrow> s = ''duplicate_ignored'' \<and> w' = w)"
    by (cases rule: execute_job_cases) (use assms(1) in auto)
  ultimately show ?thesis by blast
qed


lemma scalar_one_filter_map:
  assumes "\<And>r. key (f r) = key r"
  shows "filter (\<lambda>r. key r = k) (map f xs) = map f (filter (\<lambda>r. key r = k) xs)"
  using assms by (simp add: filter_map o_def)

lemma job_by_id_set_status:
  assumes "job_by_id d j = Inr job" and "jobs d' = jobs (set_job_status j s d)"
  shows "job_by_id d' j = Inr (job\<lparr>job_status := s, job_updated_at := db_now d\<rparr>)"
proof -
  from assms(1) have f: "filter (\<lambda>r. job_id r = j) (jobs d) = [job]" by (simp add: job_by_id_def)
  then have "job_id job = j" using filter_single_in by force
  with f show ?thesis
    unfolding job_by_id_def assms(2) set_job_status_def
    by (simp add: scalar_one_filter_map)
qed

lemma jobs_set_status_intent: "jobs (set_job_status j t (intent_db j b v d)) = jobs (set_job_status j t d)"
  by (auto simp: set_job_status_def intent_db_def insert_audit_def Let_def)

lemma exec_check_duplicate:
  assumes "job_by_id d j = Inr job" and "version_by_id d (job_version_id job) = Inr rv"
    and "executions d = xs @ [x]" and "ex_job_id x = j" and "\<not> taken ex_job_id j xs"
  shows "exec_check d j = Inr DuplicateJob"
proof -
  have "job_id job = j" using assms(1) by (auto simp: job_by_id_def dest: filter_single_in)
  moreover have "filter (\<lambda>r. ex_job_id r = j) xs = []" using assms(5) by (auto simp: taken_def filter_empty_conv)
  ultimately show ?thesis using assms by (simp add: exec_check_def execution_of_job_def one_or_none_def)
qed

lemma exec_check_rows:
  assumes "exec_check d j = Inr c"
  obtains job rv where "job_by_id d j = Inr job" "version_by_id d (job_version_id job) = Inr rv"
  using assms by (auto simp: exec_check_def bindr_Inr_iff)

text \<open>C3: A job runs at most once: after a call that returned any status, every later call on the
  resulting state, with any device and any environment, returns \<open>duplicate_ignored\<close> and changes nothing.\<close>

theorem executed_once:
  assumes "execute_job dvc en j w = (Inr s, w')"
  shows "execute_job dvc' en' j (w'\<lparr>w_dev := dev\<rparr>) = (Inr ''duplicate_ignored'', w'\<lparr>w_dev := dev\<rparr>)"
proof -
  have "exec_check (w_db w') j = Inr DuplicateJob"
    using assms
  proof (cases rule: execute_job_cases)
    case (mutated before node iface)
    let ?d = "intent_db j before (JStr ''enable'') (w_db w)"
    from mutated(5) obtain aft where rec: "exec_record en j before aft ?d = Inr (s, w_db w')" by blast
    from mutated(1) obtain job rv where
      "job_by_id (w_db w) j = Inr job" and rv: "version_by_id (w_db w) (job_version_id job) = Inr rv"
      by (rule exec_check_rows)
    then obtain t where
      job: "job_by_id (w_db w') j = Inr (job\<lparr>job_status := t, job_updated_at := db_now (w_db w)\<rparr>)"
      using job_by_id_set_status [OF _ exec_record_Inr(2) [OF rec, unfolded jobs_set_status_intent]] by blast
    from exec_record_Inr(3) [OF rec] obtain x where "executions (w_db w') = executions (w_db w) @ [x]" "ex_job_id x = j"
      by auto
    moreover from exec_record_Inr(5) [OF rec] have "\<not> taken ex_job_id j (executions (w_db w))" by simp
    moreover from rv exec_record_Inr(6) [OF rec] have "version_by_id (w_db w') (job_version_id job) = Inr rv"
      by (simp add: version_by_id_def)
    ultimately show ?thesis using job by (intro exec_check_duplicate [OF job]) simp_all
  qed auto
  then show ?thesis by (simp add: execute_job_def)
qed

section \<open>Reconciliation\<close>

lemma resolve_execution_cases:
  "resolve_execution t ex d = d \<or> (\<exists>x. t \<noteq> ''outcome_unknown'' \<and> resolve_execution t ex d = set_execution_status x t d)"
  by (auto simp: resolve_execution_def split: option.splits)

lemma reconcile_record_shape:
  assumes "reconcile_record j actual d = Inr (s, d')"
  obtains ex d1 d2 bj aj where "execution_of_job d j = Inr ex" "s = snd (reconcile_status actual)"
    "d1 = set_job_status j (fst (reconcile_status actual)) d" "d2 = resolve_execution s ex d1"
    "d' = insert_audit (audit_event d2 ''executor'' ''executor'' ''execution.reconcile'' ''execution_job'' j bj aj) d2"
proof -
  obtain js rs where r: "reconcile_status actual = (js, rs)" by force
  from assms obtain ex where "execution_of_job (set_job_status j js d) j = Inr ex" "s = rs"
    "d' = (let d2 = resolve_execution s ex (set_job_status j js d) in
        insert_audit (audit_event d2 ''executor'' ''executor'' ''execution.reconcile'' ''execution_job'' j
               (Some (JObj [(''status'', JStr ''reconciling'')]))
               (Some (JObj [(''actual_oper_state'', JStr actual), (''resolved'', JStr rs)]))) d2)"
    by (auto simp: reconcile_record_def r bindr_Inr_iff Let_def)
  then show ?thesis using that r by (simp add: execution_of_job_def Let_def)
qed

lemma reconcile_record_Inr:
  assumes "reconcile_record j actual d = Inr (s, d')"
  shows "s = snd (reconcile_status actual)"
    and "jobs d' = jobs (set_job_status j (fst (reconcile_status actual)) d)"
    and "map ex_id (executions d') = map ex_id (executions d)"
    and "\<forall>x \<in> set (executions d). ex_status x \<noteq> ''outcome_unknown'' \<longrightarrow> ex_job_id x = j \<longrightarrow> x \<in> set (executions d')"
    and "s = ''outcome_unknown'' \<Longrightarrow> executions d' = executions d"
    and "\<exists>a. audit d' = audit d @ [a] \<and> au_action a = ''execution.reconcile'' \<and> entity_id a = j"
proof -
  from assms obtain ex d1 d2 bj aj where sh: "execution_of_job d j = Inr ex" "s = snd (reconcile_status actual)"
    "d1 = set_job_status j (fst (reconcile_status actual)) d" "d2 = resolve_execution s ex d1"
    "d' = insert_audit (audit_event d2 ''executor'' ''executor'' ''execution.reconcile'' ''execution_job'' j bj aj) d2"
    by (rule reconcile_record_shape)
  show "s = snd (reconcile_status actual)" by (rule sh)
  note c = resolve_execution_cases [of s ex d1, folded sh(4)]
  from c have d2: "jobs d2 = jobs d1" "map ex_id (executions d2) = map ex_id (executions d)" "audit d2 = audit d"
    "s = ''outcome_unknown'' \<Longrightarrow> executions d2 = executions d"
    by (auto simp: sh(3) set_execution_status_def)
  show "jobs d' = jobs (set_job_status j (fst (reconcile_status actual)) d)"
    "map ex_id (executions d') = map ex_id (executions d)"
    "\<exists>a. audit d' = audit d @ [a] \<and> au_action a = ''execution.reconcile'' \<and> entity_id a = j"
    "s = ''outcome_unknown'' \<Longrightarrow> executions d' = executions d"
    using d2 by (simp_all add: sh(3,5) insert_audit_def audit_event_def)
  show "\<forall>x \<in> set (executions d). ex_status x \<noteq> ''outcome_unknown'' \<longrightarrow> ex_job_id x = j \<longrightarrow> x \<in> set (executions d')"
  proof (intro ballI impI)
    fix x assume x: "x \<in> set (executions d)" "ex_status x \<noteq> ''outcome_unknown''" "ex_job_id x = j"
    then have "x \<in> set (filter (\<lambda>r. ex_job_id r = j) (executions d))" by simp
    with sh(1) have "ex = Some x"
      by (cases "filter (\<lambda>r. ex_job_id r = j) (executions d)" rule: remdups_adj.cases)
        (auto simp: execution_of_job_def one_or_none_def)
    with x have "executions d2 = executions d" by (simp add: sh(3,4) resolve_execution_def)
    with x show "x \<in> set (executions d')" by (simp add: sh(5) insert_audit_def)
  qed
qed


section \<open>Two sessions\<close>

lemma exec_record_taken:
  assumes "taken ex_job_id j (executions d)"
  shows "\<exists>e. exec_record en j before aft d = Inl e"
  using assms exec_record_Inr(5) by (cases "exec_record en j before aft d") fastforce+

text \<open>The competing-execution guard is check-then-act. Two sessions that both passed the checks on
  the same database mutate the device one after the other: when the first has returned a status and the
  second continues on the state it left, the second applies the mutation again before its execution row
  violates the unique constraint and its call raises.\<close>

theorem competing_sessions_mutate_twice:
  assumes "exec_check (w_db w) j = Inr (Ready node iface val)"
    and "exec_apply dvc en j node iface val w = (Inr s, w1)"
    and "flush_intent_ok en'" and "fst (get_oper_state dvc (w_dev w1) node iface) = Inr before'"
    and "exec_apply dvc en' j node iface val w1 = (r, w2)"
  shows "(\<exists>e. r = Inl e) \<and> w_trace w2 = w_trace w @
    [IntentFlushed j, DeviceSet node iface val, IntentFlushed j, DeviceSet node iface val]"
proof -
  from assms(2) obtain b a w0 where m: "exec_mutate dvc en j node iface val w = (Inr (b, a), w0)"
    and rec: "exec_record en j b a (w_db w0) = Inr (s, w_db w1)" and t: "w_trace w1 = w_trace w0"
    by (auto simp: exec_apply_def split: prod.splits sum.splits)
  from m have t0: "w_trace w0 = w_trace w @ [IntentFlushed j, DeviceSet node iface val]"
    by (cases rule: exec_mutate_cases) auto
  from exec_record_Inr(3) [OF rec] have tk: "taken ex_job_id j (executions (w_db w1))"
    by (auto simp: taken_def)
  obtain r1 w3 where m': "exec_mutate dvc en' j node iface val w1 = (r1, w3)" by force
  then have t3: "w_trace w3 = w_trace w1 @ [IntentFlushed j, DeviceSet node iface val]"
    and ex: "executions (w_db w3) = executions (w_db w1)"
    using assms(3,4) by (auto simp: exec_mutate_def intent_db_def insert_audit_def Let_def
        split: prod.splits sum.splits if_splits)
  from tk ex have no: "exec_record en' j b' a' (w_db w3) \<noteq> Inr z" for b' a' z
    using exec_record_taken by (metis sum.distinct(1))
  then have "(\<exists>e. r = Inl e) \<and> w_trace w2 = w_trace w3"
    using assms(5) m' by (cases r1) (auto simp: exec_apply_def split: prod.splits sum.splits)
  then show ?thesis using t t0 t3 by simp
qed

section \<open>A concrete run\<close>

definition demo_plan_json :: "(string, json) dict" where
  "demo_plan_json =
     [(''action'', JStr ''set_admin_state''), (''node'', JStr ''leaf1''),
      (''interface'', JStr ''ethernet-1/49''), (''value'', JStr ''enable'')]"

definition demo_db :: db where
  "demo_db = (empty_db 100)\<lparr>db_next := 5,
     incidents := [\<lparr>inc_id = 1, incident_key = ''leaf1:ethernet-1/49'', inc_status = ''open'', severity = ''major'',
       opened_at = 90, detected_at = None, resolved_at = None, inc_created_at = 90, inc_updated_at = 90,
       inc_version = 1\<rparr>],
     versions := [\<lparr>rv_id = 2, rv_incident_id = 1, plan_version = 1, plan_json = demo_plan_json,
       plan_digest_col = ''d1'', rv_topology_hash = ''t'', rv_risk_class = ''low'', rv_created_at = 91\<rparr>],
     approvals := [\<lparr>ap_id = 3, ap_version_id = 2, ap_plan_digest = ''d1'', ap_user_id = ''alice'',
       decision = ''approve'', ap_created_at = 92\<rparr>],
     jobs := [\<lparr>job_id = 4, job_version_id = 2, idempotency_key = ''job:d1'', job_status = ''pending'',
       attempts = 0, job_created_at = 92, job_updated_at = 92, job_version = 1\<rparr>]\<rparr>"

text \<open>A device whose state is the operational state it shows.\<close>

definition demo_device :: "string device" where
  "demo_device = \<lparr>get_oper_state = \<lambda>d node iface. (Inr d, d),
     set_admin_state = \<lambda>d node iface v. (Inr (), if v = JStr ''enable'' then ''up'' else ''down'')\<rparr>"

definition stuck_device :: "string device" where
  "stuck_device = demo_device\<lparr>set_admin_state := \<lambda>d node iface v. (Inr (), ''unknown'')\<rparr>"

definition demo_world :: "string world" where
  "demo_world = \<lparr>w_db = demo_db, w_dev = ''down'', w_trace = []\<rparr>"

definition all_ok :: env where "all_ok = \<lparr>flush_intent_ok = True, flush_execution_ok = True, commit_ok = True\<rparr>"

lemma demo_check: "exec_check demo_db 4 = Inr (Ready (JStr ''leaf1'') (JStr ''ethernet-1/49'') (JStr ''enable''))"
  by code_simp

lemma demo_run: "fst (execute_job demo_device all_ok 4 demo_world) = Inr ''succeeded''"
  by code_simp

lemma demo_run_trace: "w_trace (snd (execute_job demo_device all_ok 4 demo_world)) \<noteq> w_trace demo_world"
  by code_simp

theorem mutation_requires_approval_witness:
  "\<exists>node iface. authorized demo_db 4 node iface \<and> flush_intent_ok all_ok \<and>
     w_trace (snd (execute_job demo_device all_ok 4 demo_world)) =
       w_trace demo_world @ [IntentFlushed 4, DeviceSet node iface (JStr ''enable'')]"
  using mutation_requires_approval [OF prod.collapse [symmetric] demo_run_trace] by (simp add: demo_world_def)

theorem audit_unavailable_blocks_witness:
  "fst (execute_job demo_device (all_ok\<lparr>flush_intent_ok := False\<rparr>) 4 demo_world) =
     Inl (AuditUnavailable ''audit write failed; execution blocked'')"
proof -
  have "\<not> flush_intent_ok (all_ok\<lparr>flush_intent_ok := False\<rparr>)" by simp
  moreover have "fst (get_oper_state demo_device (w_dev demo_world) (JStr ''leaf1'') (JStr ''ethernet-1/49'')) =
      Inr ''down''"
    by code_simp
  moreover have "exec_check (w_db demo_world) 4 =
      Inr (Ready (JStr ''leaf1'') (JStr ''ethernet-1/49'') (JStr ''enable''))"
    using demo_check by (simp add: demo_world_def)
  ultimately show ?thesis
    using audit_unavailable_blocks [OF _ prod.collapse [symmetric]] by blast
qed


theorem executed_once_witness:
  "execute_job stuck_device all_ok 4 (snd (execute_job demo_device all_ok 4 demo_world)\<lparr>w_dev := ''down''\<rparr>) =
     (Inr ''duplicate_ignored'', snd (execute_job demo_device all_ok 4 demo_world)\<lparr>w_dev := ''down''\<rparr>)"
proof -
  have "execute_job demo_device all_ok 4 demo_world =
      (Inr ''succeeded'', snd (execute_job demo_device all_ok 4 demo_world))"
    using demo_run by (metis prod.collapse)
  then show ?thesis by (rule executed_once)
qed


lemma demo_reconcile:
  "fst (execute_job stuck_device all_ok 4 demo_world) = Inr ''outcome_unknown''"
  "fst (reconcile_job demo_device 4 (snd (execute_job stuck_device all_ok 4 demo_world)\<lparr>w_dev := ''up''\<rparr>)) =
     Inr ''succeeded''"
  by code_simp+

theorem competing_sessions_mutate_twice_witness:
  "\<exists>e. fst (exec_apply demo_device all_ok 4 (JStr ''leaf1'') (JStr ''ethernet-1/49'') (JStr ''enable'')
     (snd (exec_apply demo_device all_ok 4 (JStr ''leaf1'') (JStr ''ethernet-1/49'') (JStr ''enable'') demo_world))) =
   Inl e"
proof -
  let ?run = "exec_apply demo_device all_ok 4 (JStr ''leaf1'') (JStr ''ethernet-1/49'') (JStr ''enable'')"
  have "?run demo_world = (Inr ''succeeded'', snd (?run demo_world))"
  proof -
    have "fst (?run demo_world) = Inr ''succeeded''" by code_simp
    then show ?thesis by (metis prod.collapse)
  qed
  moreover have "fst (get_oper_state demo_device (w_dev (snd (?run demo_world))) (JStr ''leaf1'') (JStr ''ethernet-1/49'')) =
      Inr ''up''"
    by code_simp
  moreover have "exec_check (w_db demo_world) 4 =
      Inr (Ready (JStr ''leaf1'') (JStr ''ethernet-1/49'') (JStr ''enable''))"
    using demo_check by (simp add: demo_world_def)
  moreover have "flush_intent_ok all_ok" by code_simp
  ultimately show ?thesis using competing_sessions_mutate_twice [OF _ _ _ _ prod.collapse [symmetric]] by blast
qed

end
