(* ===== verification/FabricDevice.thy ===== *)
theory FabricDevice
  imports Executor
begin

text \<open>
  The device access of \<open>executor/fabric_device.py\<close>. \<open>subprocess.run\<close> and the containers it talks to
  are a parameter \<open>run\<close>: the argument vector and the optional standard input to the captured standard
  output, or the exception it raises (the 30 s timeout). The exit status is not looked at by the code.
  \<open>other\<close> prints a JSON value that is not a string the way an f-string does.

  \<open>tristate_device\<close> is the contract of a device whose readings are \<open>up\<close>, \<open>down\<close> or \<open>unknown\<close>; the
  executor's classification over it is proved once and used through the fabric device.
\<close>

type_synonym 'd shell = "string list \<Rightarrow> string option \<Rightarrow> 'd \<Rightarrow> string res \<times> 'd"

definition fstr :: "(json \<Rightarrow> string) \<Rightarrow> json \<Rightarrow> string" where
  "fstr other v = (case v of JStr s \<Rightarrow> s | _ \<Rightarrow> other v)"

definition container :: "(json \<Rightarrow> string) \<Rightarrow> json \<Rightarrow> string" where
  "container other node = ''clab-closcall-2s4l-'' @ fstr other node"

definition read_oper_state :: "string \<Rightarrow> string" where
  "read_oper_state out =
     (if contains out ''down'' then ''down'' else if contains out ''up'' then ''up'' else ''unknown'')"

definition read_argv :: "(json \<Rightarrow> string) \<Rightarrow> json \<Rightarrow> json \<Rightarrow> string list" where
  "read_argv other node interface =
     [''docker'', ''exec'', ''-u'', ''root'', container other node, ''sr_cli'',
      ''info from state interface '' @ fstr other interface @ '' oper-state'']"

definition fabric_get :: "'d shell \<Rightarrow> (json \<Rightarrow> string) \<Rightarrow> 'd \<Rightarrow> json \<Rightarrow> json \<Rightarrow> string res \<times> 'd" where
  "fabric_get run other dev node interface =
     (case run (read_argv other node interface) None dev of
        (Inl e, dev') \<Rightarrow> (Inl e, dev')
      | (Inr out, dev') \<Rightarrow> (Inr (read_oper_state out), dev'))"

definition newline :: string where "newline = [CHR 0x0A]"

definition fabric_script :: "string \<Rightarrow> string \<Rightarrow> string" where
  "fabric_script interface srl_val =
     ''enter candidate'' @ newline @ ''discard stay'' @ newline @
     ''set / interface '' @ interface @ '' admin-state '' @ srl_val @ newline @ ''commit now'' @ newline"

definition fabric_set :: "'d shell \<Rightarrow> (json \<Rightarrow> string) \<Rightarrow> 'd \<Rightarrow> json \<Rightarrow> json \<Rightarrow> json \<Rightarrow> unit res \<times> 'd" where
  "fabric_set run other dev node interface v =
     (let srl_val = (if v = JStr ''enable'' then ''enable'' else ''disable'') in
      case run [''docker'', ''exec'', ''-i'', ''-u'', ''root'', container other node, ''sr_cli'']
           (Some (fabric_script (fstr other interface) srl_val)) dev of
        (Inl e, dev') \<Rightarrow> (Inl e, dev')
      | (Inr out, dev') \<Rightarrow> (Inr (), dev'))"

definition fabric_device :: "'d shell \<Rightarrow> (json \<Rightarrow> string) \<Rightarrow> 'd device" where
  "fabric_device run other = \<lparr>get_oper_state = fabric_get run other, set_admin_state = fabric_set run other\<rparr>"

section \<open>The contract\<close>

locale tristate_device =
  fixes dvc :: "'d device"
  assumes readings: "get_oper_state dvc d node iface = (Inr s, d') \<Longrightarrow> s \<in> {''up'', ''down'', ''unknown''}"
begin

lemma mutate_readings:
  assumes "exec_mutate dvc en j node iface val w = (Inr (before, aft), w')"
  shows "before \<in> {''up'', ''down'', ''unknown''}" and "aft \<in> {''up'', ''down'', ''unknown''}"
  using assms readings by (auto simp: exec_mutate_def Let_def split: prod.splits sum.splits if_splits)

text \<open>Over such a device an execution fails exactly when the interface still reads down.\<close>

lemma apply_status:
  assumes "exec_apply dvc en j node iface val w = (Inr s, w')"
  shows "\<exists>before aft w1. exec_mutate dvc en j node iface val w = (Inr (before, aft), w1) \<and>
     (s, aft) \<in> {(''succeeded'', ''up''), (''failed'', ''down''), (''outcome_unknown'', ''unknown'')}"
proof -
  from assms obtain before aft w1 where m: "exec_mutate dvc en j node iface val w = (Inr (before, aft), w1)"
    and rec: "exec_record en j before aft (w_db w1) = Inr (s, w_db w')"
    by (auto simp: exec_apply_def split: prod.splits sum.splits)
  from mutate_readings(2) [OF m] exec_record_Inr(1) [OF rec] m show ?thesis
    by (auto simp: classify_def)
qed

end

interpretation fabric: tristate_device "fabric_device run other" for run other
  by unfold_locales (auto simp: fabric_device_def fabric_get_def read_oper_state_def split: prod.splits sum.splits if_splits)

lemma exec_apply_target:
  assumes "execute_job dvc en j w = (Inr s, w')" and "s \<noteq> ''duplicate_ignored''"
  shows "\<exists>node iface val. authorized (w_db w) j node iface \<and> exec_apply dvc en j node iface val w = (Inr s, w')"
  using assms exec_check_Ready(1) by (fastforce simp: execute_job_def split: sum.splits check_result.splits)

text \<open>On the fabric device a recorded execution is \<open>succeeded\<close> exactly when the read-back text of
  \<open>sr_cli\<close> contains \<open>up\<close> and not \<open>down\<close>, \<open>failed\<close> exactly when it contains \<open>down\<close>, and
  \<open>outcome_unknown\<close> otherwise; in particular an empty answer is never a success. The text is the answer
  to the \<open>info from state\<close> query of the plan's own node and interface.\<close>

theorem fabric_outcome:
  assumes "execute_job (fabric_device run other) en j w = (Inr s, w')" and "s \<noteq> ''duplicate_ignored''"
  shows "\<exists>node iface out dev. authorized (w_db w) j node iface \<and>
     fst (run (read_argv other node iface) None dev) = Inr out \<and>
     s = (if contains out ''down'' then ''failed'' else if contains out ''up'' then ''succeeded'' else ''outcome_unknown'')"
proof -
  from exec_apply_target [OF assms] obtain node iface val where
    au: "authorized (w_db w) j node iface"
    and a: "exec_apply (fabric_device run other) en j node iface val w = (Inr s, w')" by blast
  from fabric.apply_status [OF a] obtain before aft w1 where
    m: "exec_mutate (fabric_device run other) en j node iface val w = (Inr (before, aft), w1)"
    and s: "(s, aft) \<in> {(''succeeded'', ''up''), (''failed'', ''down''), (''outcome_unknown'', ''unknown'')}" by blast
  from m obtain dev where "fst (fabric_get run other dev node iface) = Inr aft"
    by (auto simp: exec_mutate_def fabric_device_def Let_def split: prod.splits sum.splits if_splits) (metis fst_conv)
  then obtain out where "fst (run (read_argv other node iface) None dev) = Inr out" "aft = read_oper_state out"
    by (auto simp: fabric_get_def split: prod.splits sum.splits)
  moreover from this s have
    "s = (if contains out ''down'' then ''failed'' else if contains out ''up'' then ''succeeded'' else ''outcome_unknown'')"
    by (auto simp: read_oper_state_def split: if_splits)
  ultimately show ?thesis using au by blast
qed

text \<open>A shell that answers a configured reading and comes up on any script.\<close>

definition demo_shell :: "string shell" where
  "demo_shell argv inp st = (case inp of None \<Rightarrow> (Inr (''oper-state '' @ st), st) | Some _ \<Rightarrow> (Inr [], ''up''))"

lemma demo_fabric_run: "fst (execute_job (fabric_device demo_shell (\<lambda>_. [])) all_ok 4 demo_world) = Inr ''succeeded''"
  by code_simp

theorem fabric_outcome_witness:
  "\<exists>node iface out dev. authorized demo_db 4 node iface \<and>
     fst (demo_shell (read_argv (\<lambda>_. []) node iface) None dev) = Inr out \<and> contains out ''up''"
proof -
  have "execute_job (fabric_device demo_shell (\<lambda>_. [])) all_ok 4 demo_world =
      (Inr ''succeeded'', snd (execute_job (fabric_device demo_shell (\<lambda>_. [])) all_ok 4 demo_world))"
    using demo_fabric_run by (metis prod.collapse)
  from fabric_outcome [OF this] obtain node iface out dev where o: "authorized demo_db 4 node iface"
    "fst (demo_shell (read_argv (\<lambda>_. []) node iface) None dev) = Inr out"
    "''succeeded'' = (if contains out ''down'' then ''failed'' else if contains out ''up'' then ''succeeded'' else ''outcome_unknown'')"
    by (auto simp: demo_world_def)
  from o(3) have "contains out ''up''" by (simp split: if_splits)
  with o(1,2) show ?thesis by blast
qed

end
