(* ===== verification/UiRepo.thy ===== *)
theory UiRepo
  imports Correlator FabricDevice
begin

text \<open>
  The database-backed UI repository of \<open>api/adapters.py\<close> (\<open>DbUIRepo\<close>, \<open>DbUserStore\<close>) with the view models
  of \<open>api/ui_repo.py\<close>. Row identifiers are numbers, their text is the decimal numeral; \<open>uuid.UUID(text)\<close>
  raises \<open>ValueError\<close> on any other text. \<open>iso_fmt\<close>, \<open>dt_str\<close> and \<open>json_repr\<close> stand for \<open>isoformat\<close> and \<open>str\<close> of a
  time stamp and of a JSON value. Every operation opens its own session: the first one commits before
  the guard runs, the second one holds \<open>execute_job\<close> and is dropped when it raises.
\<close>

section \<open>View models\<close>

record incident_summary =
  is_id :: string
  is_incident_key :: string
  is_status :: string
  is_severity :: string
  is_opened_at :: string
  is_localized_link :: "string option"

record drafted_plan =
  dp_version_id :: string
  dp_plan_version :: int
  dp_plan_json :: "(string, json) dict"
  dp_plan_digest :: string
  dp_risk_class :: string
  dp_localized_link :: string
  dp_approved :: bool
  dp_executed_status :: "string option"

record audit_entry =
  ae_occurred_at :: string
  ae_actor_type :: string
  ae_action :: string
  ae_entity_type :: string
  ae_summary :: string

record case_file =
  cf_incident :: incident_summary
  cf_signals :: "(string \<times> string) list"
  cf_claim :: string
  cf_evidence :: "(string \<times> nat) list"
  cf_plan :: "drafted_plan option"
  cf_audit :: "audit_entry list"

record user =
  user_id :: string
  role :: string
  password_hash :: string

section \<open>Reading\<close>

definition uuid_of :: "string \<Rightarrow> nat res" where
  "uuid_of s = (if show_nat (read_nat s) = s then Inr (read_nat s)
                else Inl (ValueError ''badly formed hexadecimal UUID string''))"

lemma uuid_of_show [simp]: "uuid_of (show_nat i) = Inr i"
  by (simp add: uuid_of_def)

lemma uuid_of_Inr [simp]: "uuid_of s = Inr i \<longleftrightarrow> s = show_nat i"
  by (auto simp: uuid_of_def)

definition user_get :: "db \<Rightarrow> string \<Rightarrow> user option res" where
  "user_get d username =
     bindr (one_or_none (filter (\<lambda>u. app_user_id u = username) (app_users d))) (\<lambda>u.
       Inr (map_option (\<lambda>u. \<lparr>user_id = app_user_id u, role = app_role u, password_hash = password_hash_col u\<rparr>) u))"

definition localized_link :: "(json \<Rightarrow> string) \<Rightarrow> (string, json) dict \<Rightarrow> string" where
  "localized_link other plan =
     (case dict_get plan ''node'' of None \<Rightarrow> ''?'' | Some v \<Rightarrow> fstr other v) @ '':'' @
     (case dict_get plan ''interface'' of None \<Rightarrow> ''?'' | Some v \<Rightarrow> fstr other v)"

definition is_authorized :: "string \<Rightarrow> string \<Rightarrow> bool" where
  "is_authorized incident_id uid = True"

definition summary_of ::
    "(int \<Rightarrow> string) \<Rightarrow> string option \<Rightarrow> incident_row \<Rightarrow> incident_summary" where
  "summary_of iso_fmt link inc =
     \<lparr>is_id = show_nat (inc_id inc), is_incident_key = incident_key inc, is_status = inc_status inc,
      is_severity = severity inc, is_opened_at = iso_fmt (opened_at inc), is_localized_link = link\<rparr>"

definition list_incidents :: "(int \<Rightarrow> string) \<Rightarrow> (json \<Rightarrow> string) \<Rightarrow> db \<Rightarrow> string \<Rightarrow> incident_summary list" where
  "list_incidents iso_fmt other d uid =
     map (\<lambda>inc. summary_of iso_fmt (map_option (\<lambda>rv. localized_link other (plan_json rv)) (latest_version d (inc_id inc))) inc)
       (sort_key (\<lambda>inc. - opened_at inc) (incidents d))"

definition job_of_version :: "db \<Rightarrow> nat \<Rightarrow> job_row option" where
  "job_of_version d v = first_row (filter (\<lambda>r. job_version_id r = v) (jobs d))"

definition drafted_plan_of :: "(json \<Rightarrow> string) \<Rightarrow> db \<Rightarrow> version_row \<Rightarrow> drafted_plan" where
  "drafted_plan_of other d rv =
     (let appr = first_row (filter (\<lambda>a. ap_version_id a = rv_id rv \<and> ap_plan_digest a = plan_digest_col rv \<and>
                    decision a = ''approve'') (approvals d));
          exec_status = (case job_of_version d (rv_id rv) of
              None \<Rightarrow> None
            | Some job \<Rightarrow>
                (case first_row (filter (\<lambda>x. ex_job_id x = job_id job) (executions d)) of
                   Some x \<Rightarrow> Some (ex_status x) | None \<Rightarrow> Some (job_status job)))
      in \<lparr>dp_version_id = show_nat (rv_id rv), dp_plan_version = plan_version rv, dp_plan_json = plan_json rv,
          dp_plan_digest = plan_digest_col rv, dp_risk_class = rv_risk_class rv,
          dp_localized_link = localized_link other (plan_json rv), dp_approved = (appr \<noteq> None),
          dp_executed_status = exec_status\<rparr>)"

definition get_case_file ::
    "(int \<Rightarrow> string) \<Rightarrow> (int \<Rightarrow> string) \<Rightarrow> (json option \<Rightarrow> string) \<Rightarrow> (json \<Rightarrow> string) \<Rightarrow> db \<Rightarrow> string \<Rightarrow>
     case_file option res" where
  "get_case_file iso_fmt dt_str json_repr other d incident_id =
     bindr (uuid_of incident_id) (\<lambda>i.
     bindr (one_or_none (filter (\<lambda>r. inc_id r = i) (incidents d))) (\<lambda>inc.
       case inc of
         None \<Rightarrow> Inr None
       | Some inc \<Rightarrow>
           let sigs = filter (\<lambda>s. sig_incident_id s = inc_id inc) (signals d);
               plan = map_option (drafted_plan_of other d) (latest_version d (inc_id inc));
               audits = sort_key (\<lambda>a. - int (au_id a)) (filter (\<lambda>a. entity_id a = inc_id inc) (audit d));
               claim = (case plan of Some p \<Rightarrow> if dp_localized_link p \<noteq> [] then ''supported'' else ''insufficient''
                        | None \<Rightarrow> ''insufficient'')
           in Inr (Some
                \<lparr>cf_incident = summary_of iso_fmt (map_option dp_localized_link plan) inc,
                 cf_signals = map (\<lambda>x. (sig_source x, dt_str (observed_at x))) sigs,
                 cf_claim = claim,
                 cf_evidence = [(''signals'', length sigs)],
                 cf_plan = plan,
                 cf_audit = map (\<lambda>a. \<lparr>ae_occurred_at = [], ae_actor_type = au_actor_type a, ae_action = au_action a,
                     ae_entity_type = entity_type a, ae_summary = take 120 (json_repr (after_json a))\<rparr>) audits\<rparr>)))"

section \<open>Approving and executing\<close>

definition decision_row :: "string \<Rightarrow> string \<Rightarrow> version_row \<Rightarrow> db \<Rightarrow> approval_row" where
  "decision_row dec uid rv d =
     \<lparr>ap_id = db_next d, ap_version_id = rv_id rv, ap_plan_digest = plan_digest_col rv, ap_user_id = uid,
      decision = dec, ap_created_at = db_now d\<rparr>"

definition job_row_of :: "version_row \<Rightarrow> db \<Rightarrow> job_row" where
  "job_row_of rv d =
     \<lparr>job_id = db_next d, job_version_id = rv_id rv, idempotency_key = ''job:'' @ plan_digest_col rv,
      job_status = ''pending'', attempts = 0, job_created_at = db_now d, job_updated_at = db_now d, job_version = 1\<rparr>"

definition upsert_decision :: "string \<Rightarrow> string \<Rightarrow> version_row \<Rightarrow> db \<Rightarrow> db res" where
  "upsert_decision dec uid rv d =
     bindr (upsert approval_key approvals insert_approval (decision_row dec uid rv d) d) (\<lambda>(_, d1). Inr d1)"

definition upsert_job :: "version_row \<Rightarrow> db \<Rightarrow> db res" where
  "upsert_job rv d = bindr (upsert idempotency_key jobs insert_job (job_row_of rv d) d) (\<lambda>(_, d1). Inr d1)"

text \<open>The first session of \<open>approve_and_execute\<close>, up to its commit.\<close>

definition approve_txn :: "nat \<Rightarrow> string \<Rightarrow> db \<Rightarrow> (version_row \<times> db) res" where
  "approve_txn i uid d =
     (case latest_version d i of
        None \<Rightarrow> Inl (ValueError ''no drafted plan to approve'')
      | Some rv \<Rightarrow>
          bindr (upsert_decision ''approve'' uid rv d) (\<lambda>d1.
          bindr (upsert_job rv d1) (\<lambda>d2. Inr (rv, d2))))"

text \<open>The second session: \<open>execute_job\<close> and its commit; an exception drops the session's rows.\<close>

definition execute_session :: "'d device \<Rightarrow> env \<Rightarrow> nat \<Rightarrow> 'd world \<Rightarrow> string res \<times> 'd world" where
  "execute_session dvc en j w =
     (case execute_job dvc en j w of
        (Inl e, w') \<Rightarrow> (Inl e, w'\<lparr>w_db := w_db w\<rparr>)
      | (Inr s, w') \<Rightarrow> if commit_ok en then (Inr s, w') else (Inl OperationalError, w'\<lparr>w_db := w_db w\<rparr>))"

definition approve_and_execute ::
    "'d device \<Rightarrow> env \<Rightarrow> bool \<Rightarrow> int \<Rightarrow> string \<Rightarrow> string \<Rightarrow> 'd world \<Rightarrow> string res \<times> 'd world" where
  "approve_and_execute dvc en commit1_ok now2 incident_id uid w =
     (case bindr (uuid_of incident_id) (\<lambda>i. approve_txn i uid (w_db w)) of
        Inl e \<Rightarrow> (Inl e, w)
      | Inr (rv, d1) \<Rightarrow>
          if \<not> commit1_ok then (Inl OperationalError, w)
          else
            let w1 = w\<lparr>w_db := d1\<rparr>;
                appr = latest_approval d1 (rv_id rv);
                job = job_of_version d1 (rv_id rv)
            in
            case guard_execution (map_option decision appr) (map_option ap_plan_digest appr) (plan_digest_col rv) of
              Inl e \<Rightarrow> (Inl e, w1)
            | Inr _ \<Rightarrow>
                (case job of
                   None \<Rightarrow> (Inl (ValueError ''no execution job to run''), w1)
                 | Some jb \<Rightarrow> execute_session dvc en (job_id jb) (w1\<lparr>w_db := d1\<lparr>db_now := now2\<rparr>\<rparr>)))"

definition reject :: "string \<Rightarrow> string \<Rightarrow> db \<Rightarrow> db res" where
  "reject incident_id uid d =
     bindr (uuid_of incident_id) (\<lambda>i.
       case latest_version d i of
         None \<Rightarrow> Inr d
       | Some rv \<Rightarrow> upsert_decision ''reject'' uid rv d)"

text \<open>\<open>int(x)\<close> of a JSON value: \<open>to_int\<close> stands for the cases other than \<open>int\<close> and \<open>bool\<close>.\<close>

definition py_int :: "(json \<Rightarrow> int res) \<Rightarrow> json \<Rightarrow> int res" where
  "py_int to_int v = (case v of JInt n \<Rightarrow> Inr n | JBool b \<Rightarrow> Inr (if b then 1 else 0) | _ \<Rightarrow> to_int v)"

definition plan_revision_of :: "(string, json) dict \<Rightarrow> json" where
  "plan_revision_of plan = (case dict_get plan ''plan_revision'' of None \<Rightarrow> JInt 0 | Some v \<Rightarrow> v)"

definition edited_version :: "(string \<Rightarrow> string) \<Rightarrow> (pyfloat \<Rightarrow> string) \<Rightarrow> int \<Rightarrow> version_row \<Rightarrow> db \<Rightarrow> version_row" where
  "edited_version sha fr n rv d =
     (let new_json = dict_set ''plan_revision'' (JInt (n + 1)) (plan_json rv) in
      \<lparr>rv_id = db_next d, rv_incident_id = rv_incident_id rv, plan_version = plan_version rv + 1,
       plan_json = new_json, plan_digest_col = plan_digest sha fr new_json,
       rv_topology_hash = rv_topology_hash rv, rv_risk_class = rv_risk_class rv, rv_created_at = db_now d\<rparr>)"

definition edit_plan ::
    "(string \<Rightarrow> string) \<Rightarrow> (pyfloat \<Rightarrow> string) \<Rightarrow> (json \<Rightarrow> int res) \<Rightarrow> string \<Rightarrow> string \<Rightarrow> db \<Rightarrow> (string \<times> db) res" where
  "edit_plan sha fr to_int incident_id uid d =
     bindr (uuid_of incident_id) (\<lambda>i.
       case latest_version d i of
         None \<Rightarrow> Inl (ValueError ''no plan to edit'')
       | Some rv \<Rightarrow>
           bindr (py_int to_int (plan_revision_of (plan_json rv))) (\<lambda>n.
             let new = edited_version sha fr n rv d in
             bindr (insert_version new d) (\<lambda>d1. Inr (plan_digest_col new, d1))))"

text \<open>Storing a drafted plan as \<open>scripts/vertical_slice.py\<close> does: the digest is computed from the plan.\<close>

definition draft_version ::
    "(string \<Rightarrow> string) \<Rightarrow> (pyfloat \<Rightarrow> string) \<Rightarrow> nat \<Rightarrow> string \<Rightarrow> string \<Rightarrow> string \<Rightarrow> db \<Rightarrow> db res" where
  "draft_version sha fr i node interface topo_hash d =
     (let (plan, digest) = build_link_down_plan sha fr node interface topo_hash in
      insert_version \<lparr>rv_id = db_next d, rv_incident_id = i, plan_version = 1, plan_json = plan,
        plan_digest_col = digest, rv_topology_hash = topo_hash, rv_risk_class = ''low'', rv_created_at = db_now d\<rparr> d)"

end
