(* ===== verification/UiProtocol.thy ===== *)
theory UiProtocol
  imports UiRepo
begin

text \<open>
  The approval protocol as a transition system: the invariant that ties decisions, digests, jobs and
  executions together, its preservation by every operation of \<open>UiRepo\<close>, \<open>Executor\<close> and \<open>Correlator\<close>, the
  reachable states (\<open>ui_step\<close>, \<open>ui_reachable\<close>), and the properties that rest on it.
\<close>

section \<open>The protocol invariant\<close>

text \<open>Decisions carry the digest of the version they point to, stored digests are digests of the stored
  plans, jobs carry the digest in their idempotency key, and every execution was approved.\<close>

definition approvals_bound :: "db \<Rightarrow> bool" where
  "approvals_bound d \<longleftrightarrow>
     (\<forall>a \<in> set (approvals d). \<forall>v \<in> set (versions d). rv_id v = ap_version_id a \<longrightarrow> ap_plan_digest a = plan_digest_col v)"

definition digests_ok :: "(string \<Rightarrow> string) \<Rightarrow> (pyfloat \<Rightarrow> string) \<Rightarrow> db \<Rightarrow> bool" where
  "digests_ok sha fr d \<longleftrightarrow> (\<forall>v \<in> set (versions d). plan_digest_col v = plan_digest sha fr (plan_json v))"

definition approved_version :: "db \<Rightarrow> version_row \<Rightarrow> bool" where
  "approved_version d v \<longleftrightarrow>
     v \<in> set (versions d) \<and> allowlisted (plan_json v) \<and>
     (\<exists>a \<in> set (approvals d). ap_version_id a = rv_id v \<and> decision a = ''approve'' \<and> ap_plan_digest a = plan_digest_col v)"

definition executions_approved :: "db \<Rightarrow> bool" where
  "executions_approved d \<longleftrightarrow>
     (\<forall>k \<in> set (map ex_job_id (executions d)). \<exists>v. approved_version d v \<and> (k, rv_id v) \<in> set (map (\<lambda>j. (job_id j, job_version_id j)) (jobs d)))"

definition mutation_approved :: "db \<Rightarrow> effect \<Rightarrow> bool" where
  "mutation_approved d e =
     (case e of
        IntentFlushed j \<Rightarrow> True
      | DeviceSet node iface val \<Rightarrow>
          val = JStr ''enable'' \<and>
          (\<exists>v. approved_version d v \<and> dict_get (plan_json v) ''node'' = Some node \<and>
               dict_get (plan_json v) ''interface'' = Some iface))"

definition db_inv :: "(string \<Rightarrow> string) \<Rightarrow> (pyfloat \<Rightarrow> string) \<Rightarrow> db \<Rightarrow> bool" where
  "db_inv sha fr d \<longleftrightarrow> incidents_ok d \<and> approvals_bound d \<and> digests_ok sha fr d \<and> executions_approved d"

definition ui_inv :: "(string \<Rightarrow> string) \<Rightarrow> (pyfloat \<Rightarrow> string) \<Rightarrow> 'd world \<Rightarrow> bool" where
  "ui_inv sha fr w \<longleftrightarrow>
     db_inv sha fr (w_db w) \<and> (\<forall>e \<in> set (w_trace w). mutation_approved (w_db w) e)"

section \<open>Growth of the tables\<close>

text \<open>Versions and decisions are never changed or removed, job rows keep their identity.\<close>

definition grows :: "db \<Rightarrow> db \<Rightarrow> bool" where
  "grows d d' \<longleftrightarrow>
     set (versions d) \<subseteq> set (versions d') \<and> set (approvals d) \<subseteq> set (approvals d') \<and>
     set (map (\<lambda>j. (job_id j, job_version_id j)) (jobs d)) \<subseteq> set (map (\<lambda>j. (job_id j, job_version_id j)) (jobs d'))"

lemma grows_refl [simp]: "grows d d"
  by (simp add: grows_def)

lemma grows_trans [trans]: "grows d d' \<Longrightarrow> grows d' d'' \<Longrightarrow> grows d d''"
  unfolding grows_def by blast

lemma approved_version_grows: "grows d d' \<Longrightarrow> approved_version d v \<Longrightarrow> approved_version d' v"
  unfolding grows_def approved_version_def by blast

lemma mutation_approved_grows: "grows d d' \<Longrightarrow> mutation_approved d e \<Longrightarrow> mutation_approved d' e"
  using approved_version_grows by (cases e) (auto simp: mutation_approved_def)

lemma executions_approved_grows:
  assumes "grows d d'" and "map ex_job_id (executions d') = map ex_job_id (executions d)" and "executions_approved d"
  shows "executions_approved d'"
  unfolding executions_approved_def
proof
  fix k assume "k \<in> set (map ex_job_id (executions d'))"
  with assms(2,3) obtain v where "approved_version d v"
    "(k, rv_id v) \<in> set (map (\<lambda>j. (job_id j, job_version_id j)) (jobs d))"
    unfolding executions_approved_def by metis
  with assms(1) approved_version_grows [OF assms(1)]
  show "\<exists>v. approved_version d' v \<and> (k, rv_id v) \<in> set (map (\<lambda>j. (job_id j, job_version_id j)) (jobs d'))"
    unfolding grows_def by blast
qed

lemma job_pairs_set_status [simp]:
  "map (\<lambda>j. (job_id j, job_version_id j)) (jobs (set_job_status j s d)) = map (\<lambda>j. (job_id j, job_version_id j)) (jobs d)"
  by (simp add: set_job_status_def)

section \<open>Preservation\<close>

lemma db_inv_frame:
  assumes "db_inv sha fr d" and "incidents_ok d'" and "versions d' = versions d" and "approvals d' = approvals d"
    and "map ex_job_id (executions d') = map ex_job_id (executions d)" and "grows d d'"
  shows "db_inv sha fr d'"
  using assms(1,2) executions_approved_grows [OF assms(6,5)]
  unfolding db_inv_def approvals_bound_def digests_ok_def assms(3,4) by blast

lemma correlate_frame:
  assumes "correlate_signal t key source eid observed payload sev d = Inr (r, d')"
  shows "versions d' = versions d \<and> approvals d' = approvals d \<and> executions d' = executions d \<and> jobs d' = jobs d"
proof -
  have ap: "append_event t i ty p d1 = Inr d2 \<Longrightarrow>
      versions d2 = versions d1 \<and> approvals d2 = approvals d1 \<and> executions d2 = executions d1 \<and> jobs d2 = jobs d1"
    for i ty p d1 d2
    by (auto simp: append_event_def insert_event_def Let_def)
  have fc: "find_or_create key sev observed d = Inr (i, c, d1) \<Longrightarrow>
      versions d1 = versions d \<and> approvals d1 = approvals d \<and> executions d1 = executions d \<and> jobs d1 = jobs d" for i c d1
    by (auto simp: find_or_create_def bindr_Inr_iff insert_incident_def split: option.splits)
  have us: "upsert signal_key signals insert_signal s d1 = Inr (b, d2) \<Longrightarrow>
      versions d2 = versions d1 \<and> approvals d2 = approvals d1 \<and> executions d2 = executions d1 \<and> jobs d2 = jobs d1"
    for s d1 b d2
    by (auto simp: upsert_def bindr_Inr_iff insert_signal_def split: if_splits)
  obtain i c where r: "r = (i, c)" by force
  from correlate_phases [OF assms [unfolded r]] obtain d1 d2 b where
    "find_or_create key sev observed d = Inr (i, c, d1)"
    "upsert signal_key signals insert_signal (signal_of i source eid observed payload d1) d1 = Inr (b, d2)"
    and br: "c \<longrightarrow> (\<exists>d3 a. append_event t i ''opened'' (JObj [(''source'', JStr source)]) d2 = Inr d3 \<and> d' = insert_audit a d3)"
      "\<not> c \<longrightarrow> b \<longrightarrow> append_event t i ''signal_attached'' (JObj [(''source_event_id'', JStr eid)]) d2 = Inr d'"
      "\<not> c \<longrightarrow> \<not> b \<longrightarrow> d' = d2" by blast
  note e = fc [OF this(1)] us [OF this(2)]
  consider "c" | "\<not> c" "b" | "\<not> c" "\<not> b" by blast
  then have "versions d' = versions d2 \<and> approvals d' = approvals d2 \<and> executions d' = executions d2 \<and> jobs d' = jobs d2"
    by cases (use br in \<open>auto dest: ap\<close>)
  with e show ?thesis by simp
qed

lemma correlate_db_inv:
  assumes "db_inv sha fr d" and "correlate_signal t key source eid observed payload sev d = Inr (r, d')"
  shows "db_inv sha fr d' \<and> grows d d'"
proof -
  obtain i c where r: "r = (i, c)" by force
  have ok: "incidents_ok d'"
    by (rule correlate_rows [OF _ assms(2) [unfolded r]]) (use assms(1) in \<open>simp add: db_inv_def\<close>)
  have g: "grows d d'" using correlate_frame [OF assms(2)] by (simp add: grows_def)
  with db_inv_frame [OF assms(1) ok] correlate_frame [OF assms(2)] show ?thesis by simp
qed

lemma insert_version_db_inv:
  assumes "db_inv sha fr d" and "insert_version v d = Inr d'" and "rv_id v = db_next d"
    and "plan_digest_col v = plan_digest sha fr (plan_json v)"
  shows "db_inv sha fr d' \<and> grows d d'"
proof -
  have e: "versions d' = versions d @ [v]" "approvals d' = approvals d" "executions d' = executions d" "jobs d' = jobs d"
    "events d' = events d"
    using assms(2) by (auto simp: insert_version_def)
  have g: "grows d d'" using e by (simp add: grows_def subset_insertI)
  have "db_ok d" using assms(1) by (simp add: db_inv_def incidents_ok_def)
  then have "set (map ap_version_id (approvals d)) \<subseteq> set (map rv_id (versions d))" "below rv_id (db_next d) (versions d)"
    by (simp_all add: db_ok_def foreign_keys_def fresh_ids_def)
  then have "\<forall>a \<in> set (approvals d). ap_version_id a \<noteq> rv_id v"
    using assms(3) by (force simp: below_def)
  then have "approvals_bound d'"
    using assms(1) e unfolding db_inv_def approvals_bound_def by auto
  moreover have "digests_ok sha fr d'" using assms(1,4) e by (simp add: db_inv_def digests_ok_def)
  moreover have "incidents_ok d'"
    using db_ok_insert_version [OF \<open>db_ok d\<close> assms(3,2)] incidents_ok_frame [OF _ _ e(5)] assms(1)
    by (simp add: db_inv_def)
  moreover have "executions_approved d'"
    using executions_approved_grows [OF g arg_cong [OF e(3)]] assms(1) by (simp add: db_inv_def)
  ultimately show ?thesis using g by (simp add: db_inv_def)
qed

lemma upsert_decision_frame:
  assumes "upsert_decision dec uid rv d = Inr d'"
  shows "versions d' = versions d \<and> executions d' = executions d \<and> jobs d' = jobs d \<and> events d' = events d \<and>
    (d' = d \<or> approvals d' = approvals d @ [decision_row dec uid rv d]) \<and>
    taken approval_key (rv_id rv, uid) (approvals d')"
  using assms
  by (auto simp: upsert_decision_def upsert_def bindr_Inr_iff insert_approval_def taken_def decision_row_def approval_key_def
      split: if_splits)

lemma upsert_decision_db_inv:
  assumes "db_inv sha fr d" and "upsert_decision dec uid rv d = Inr d'" and "rv \<in> set (versions d)"
  shows "db_inv sha fr d' \<and> grows d d'"
proof (cases "d' = d")
  case False
  with upsert_decision_frame [OF assms(2)] have
    e: "approvals d' = approvals d @ [decision_row dec uid rv d]" "versions d' = versions d" "executions d' = executions d"
      "jobs d' = jobs d" "events d' = events d" by auto
  have g: "grows d d'" using e by (simp add: grows_def subset_insertI)
  have "db_ok d" using assms(1) by (simp add: db_inv_def incidents_ok_def)
  moreover from this have "distinct (map rv_id (versions d))" by (simp add: db_ok_def unique_keys_def)
  then have "approvals_bound d'"
    using assms(1,3) unfolding db_inv_def approvals_bound_def e decision_row_def
    by (auto simp: distinct_map dest: inj_onD)
  moreover have "ap_id (decision_row dec uid rv d) = db_next d" by (simp add: decision_row_def)
  moreover have "insert_approval (decision_row dec uid rv d) d = Inr d'"
    using assms(2) False by (auto simp: upsert_decision_def upsert_def bindr_Inr_iff split: if_splits)
  ultimately have "db_ok d'" "approvals_bound d'" using db_ok_insert_approval by blast+
  moreover have "executions_approved d'"
    using executions_approved_grows [OF g arg_cong [OF e(3)]] assms(1) by (simp add: db_inv_def)
  ultimately show ?thesis using assms(1) g incidents_ok_frame [of d d'] e(2,5)
    by (simp add: db_inv_def digests_ok_def)
qed (use assms in simp)

lemma upsert_job_frame:
  assumes "upsert_job rv d = Inr d'"
  shows "versions d' = versions d \<and> executions d' = executions d \<and> approvals d' = approvals d \<and> events d' = events d \<and>
    (d' = d \<or> jobs d' = jobs d @ [job_row_of rv d])"
  using assms by (auto simp: upsert_job_def upsert_def bindr_Inr_iff insert_job_def split: if_splits)

lemma upsert_job_db_inv:
  assumes "db_inv sha fr d" and "upsert_job rv d = Inr d'"
  shows "db_inv sha fr d' \<and> grows d d'"
proof (cases "d' = d")
  case False
  with upsert_job_frame [OF assms(2)] have
    e: "jobs d' = jobs d @ [job_row_of rv d]" "versions d' = versions d" "executions d' = executions d"
      "approvals d' = approvals d" "events d' = events d" by auto
  have g: "grows d d'" using e by (simp add: grows_def subset_insertI)
  have "db_ok d" using assms(1) by (simp add: db_inv_def incidents_ok_def)
  moreover have "job_id (job_row_of rv d) = db_next d" by (simp add: job_row_of_def)
  moreover have "insert_job (job_row_of rv d) d = Inr d'"
    using assms(2) False by (auto simp: upsert_job_def upsert_def bindr_Inr_iff split: if_splits)
  ultimately have "db_ok d'" using db_ok_insert_job by blast
  then have "incidents_ok d'" using assms(1) incidents_ok_frame [of d d'] e(5) by (simp add: db_inv_def)
  then show ?thesis using db_inv_frame [OF assms(1)] e g by simp
qed (use assms in simp)

lemma exec_record_db_ok:
  assumes "db_ok d" and "exec_record en j before aft d = Inr (s, d')"
  shows "db_ok d'"
proof -
  from assms(2) obtain x c a d1 d2 st where "insert_execution x d = Inr d1" "ex_id x = db_next d"
    "insert_check c d1 = Inr d2" "rc_id c = db_next d1" "d' = insert_audit a (set_job_status j st d2)"
    by (fastforce simp: exec_record_def bindr_Inr_iff Let_def split: prod.splits)
  with assms(1) show ?thesis
    by (metis db_ok_insert_execution db_ok_insert_check db_ok_set_job_status db_ok_audit)
qed

lemma intent_db_ok: "db_ok d \<Longrightarrow> db_ok (intent_db j before val d)"
  unfolding intent_db_def Let_def by (intro db_ok_audit db_ok_set_job_status)

lemma authorized_approved:
  assumes "authorized d j node iface"
  shows "\<exists>v. approved_version d v \<and> dict_get (plan_json v) ''node'' = Some node \<and>
     dict_get (plan_json v) ''interface'' = Some iface \<and>
     (j, rv_id v) \<in> set (map (\<lambda>j. (job_id j, job_version_id j)) (jobs d))"
  using assms unfolding authorized_def approved_version_def by force

lemma exec_record_db_inv:
  assumes "db_inv sha fr d" and "authorized d j node iface"
    and "exec_record en j before aft (intent_db j before' val d) = Inr (s, d')"
  shows "db_inv sha fr d' \<and> grows d d'"
proof -
  note R = exec_record_Inr [OF assms(3)]
  from R(3) obtain x where x: "executions d' = executions d @ [x]" "ex_job_id x = j" by auto
  have f: "versions d' = versions d" "approvals d' = approvals d" "events d' = events d" using R by simp_all
  have jp: "map (\<lambda>j. (job_id j, job_version_id j)) (jobs d') = map (\<lambda>j. (job_id j, job_version_id j)) (jobs d)"
    unfolding R(2) jobs_set_status_intent by simp
  have g: "grows d d'" using f jp by (simp only: grows_def subset_refl simp_thms)
  have "db_ok d'"
    using exec_record_db_ok [OF intent_db_ok assms(3)] assms(1) by (simp add: db_inv_def incidents_ok_def)
  then have ok: "incidents_ok d'" using incidents_ok_frame [OF _ _ f(3)] assms(1) by (simp add: db_inv_def)
  have "executions_approved d'"
    unfolding executions_approved_def x(1) jp
  proof
    fix k assume "k \<in> set (map ex_job_id (executions d @ [x]))"
    then consider "k \<in> set (map ex_job_id (executions d))" | "k = j" using x(2) by auto
    then show "\<exists>v. approved_version d' v \<and> (k, rv_id v) \<in> set (map (\<lambda>j. (job_id j, job_version_id j)) (jobs d))"
    proof cases
      case 1
      with assms(1) approved_version_grows [OF g] show ?thesis
        unfolding db_inv_def executions_approved_def by blast
    next
      case 2
      with authorized_approved [OF assms(2)] approved_version_grows [OF g] x(2) show ?thesis by blast
    qed
  qed
  with ok assms(1) f g show ?thesis by (simp add: db_inv_def approvals_bound_def digests_ok_def)
qed

lemma execute_job_trace:
  assumes "execute_job dvc en j w = (r, w')"
  shows "w_trace w' = w_trace w \<or> (\<exists>node iface. authorized (w_db w) j node iface \<and>
     w_trace w' = w_trace w @ [IntentFlushed j, DeviceSet node iface (JStr ''enable'')])"
  using assms by (cases rule: execute_job_cases) (auto intro: exec_check_Ready(1))

lemma trace_approved:
  assumes "authorized d j node iface"
  shows "mutation_approved d (IntentFlushed j)" and "mutation_approved d (DeviceSet node iface (JStr ''enable''))"
  using authorized_approved [OF assms] by (auto simp: mutation_approved_def)

lemma execute_session_db:
  assumes "db_inv sha fr (w_db w)" and "execute_session dvc en j w = (r, w')"
  shows "db_inv sha fr (w_db w') \<and> grows (w_db w) (w_db w')"
proof -
  obtain r1 w1 where ex: "execute_job dvc en j w = (r1, w1)" by force
  with assms(2) have d: "w_db w' = w_db w \<or> (\<exists>s. r1 = Inr s \<and> w_db w' = w_db w1)"
    by (auto simp: execute_session_def split: sum.splits if_splits)
  from ex have "\<exists>s. r1 = Inr s \<Longrightarrow> db_inv sha fr (w_db w1) \<and> grows (w_db w) (w_db w1)"
  proof (cases rule: execute_job_cases)
    case (mutated before node iface)
    assume "\<exists>s. r1 = Inr s"
    with mutated(5) exec_record_db_inv [OF assms(1) exec_check_Ready(1) [OF mutated(1)]] show ?thesis by blast
  qed (use assms(1) in auto)
  with d assms(1) show ?thesis by auto
qed

lemma execute_session_inv:
  assumes "ui_inv sha fr w" and "execute_session dvc en j w = (r, w')"
  shows "ui_inv sha fr w' \<and> grows (w_db w) (w_db w')"
proof -
  have db: "db_inv sha fr (w_db w') \<and> grows (w_db w) (w_db w')"
    using execute_session_db [OF _ assms(2)] assms(1) unfolding ui_inv_def by blast
  obtain r1 w1 where ex: "execute_job dvc en j w = (r1, w1)" by force
  with assms(2) have t: "w_trace w' = w_trace w1"
    by (auto simp: execute_session_def split: sum.splits if_splits)
  have "mutation_approved (w_db w) e" if "e \<in> set (w_trace w')" for e
    using execute_job_trace [OF ex] that assms(1) trace_approved unfolding t ui_inv_def by auto
  with db mutation_approved_grows show ?thesis by (auto simp: ui_inv_def)
qed

text \<open>Steps on the database alone.\<close>

lemma ui_inv_db:
  assumes "ui_inv sha fr w" and "db_inv sha fr d' \<and> grows (w_db w) d'"
  shows "ui_inv sha fr (w\<lparr>w_db := d'\<rparr>)"
  using assms mutation_approved_grows by (auto simp: ui_inv_def)

lemma db_inv_now [simp]: "db_inv sha fr (d\<lparr>db_now := t\<rparr>) = db_inv sha fr d"
proof -
  have "incidents_ok (d\<lparr>db_now := t\<rparr>) = incidents_ok d"
    by (simp add: incidents_ok_def contiguous_cong [of "d\<lparr>db_now := t\<rparr>" d])
  then show ?thesis
    by (simp add: db_inv_def approvals_bound_def digests_ok_def executions_approved_def approved_version_def)
qed

lemma grows_now [simp]: "grows d (d'\<lparr>db_now := t\<rparr>) = grows d d'" "grows (d\<lparr>db_now := t\<rparr>) d' = grows d d'"
  by (simp_all add: grows_def)

lemma latest_version_in: "latest_version d i = Some rv \<Longrightarrow> rv \<in> set (versions d) \<and> rv_incident_id rv = i"
  by (auto simp: latest_version_def dest: first_desc_Some)

lemma approve_txn_db_inv:
  assumes "db_inv sha fr d" and "approve_txn i uid d = Inr (rv, d2)"
  shows "db_inv sha fr d2 \<and> grows d d2"
proof -
  from assms(2) obtain d1 where rv: "latest_version d i = Some rv" and u: "upsert_decision ''approve'' uid rv d = Inr d1"
    "upsert_job rv d1 = Inr d2"
    by (auto simp: approve_txn_def bindr_Inr_iff split: option.splits)
  from upsert_decision_db_inv [OF assms(1) u(1)] latest_version_in [OF rv]
  have d1: "db_inv sha fr d1" "grows d d1" by auto
  from upsert_job_db_inv [OF d1(1) u(2)] grows_trans [OF d1(2)] show ?thesis by blast
qed

lemma approve_and_execute_inv:
  assumes "ui_inv sha fr w" and "approve_and_execute dvc en c1 now2 incident_id uid w = (r, w')"
  shows "ui_inv sha fr w' \<and> grows (w_db w) (w_db w')"
proof (cases "bindr (uuid_of incident_id) (\<lambda>i. approve_txn i uid (w_db w))")
  case (Inl e)
  with assms show ?thesis by (simp add: approve_and_execute_def)
next
  case (Inr p)
  obtain rv d1 where p: "p = (rv, d1)" by force
  from Inr p approve_txn_db_inv assms(1) have d1: "db_inv sha fr d1 \<and> grows (w_db w) d1"
    by (fastforce simp: bindr_Inr_iff ui_inv_def)
  let ?w1 = "w\<lparr>w_db := d1\<rparr>"
  let ?w2 = "w\<lparr>w_db := d1\<lparr>db_now := now2\<rparr>\<rparr>"
  have i: "ui_inv sha fr ?w1" "ui_inv sha fr ?w2" using ui_inv_db [OF assms(1)] d1 by simp_all
  from assms(2) Inr p have "w' = w \<or> w' = ?w1 \<or> (\<exists>j. execute_session dvc en j ?w2 = (r, w'))"
    by (auto simp: approve_and_execute_def Let_def split: if_splits sum.splits option.splits)
  then show ?thesis
    using assms(1) i d1 execute_session_inv [OF i(2)] grows_trans by fastforce
qed

lemma reject_db_inv: "db_inv sha fr d \<Longrightarrow> reject incident_id uid d = Inr d' \<Longrightarrow> db_inv sha fr d' \<and> grows d d'"
  using upsert_decision_db_inv latest_version_in
  by (fastforce simp: reject_def bindr_Inr_iff split: option.splits)

lemma edit_plan_insert:
  assumes "edit_plan sha fr to_int incident_id uid d = Inr (digest, d')"
  obtains i rv n where "incident_id = show_nat i" "latest_version d i = Some rv"
    "insert_version (edited_version sha fr n rv d) d = Inr d'"
    "digest = plan_digest_col (edited_version sha fr n rv d)"
  using assms by (auto simp: edit_plan_def bindr_Inr_iff Let_def split: option.splits)

lemma edited_version_simps [simp]:
  "rv_id (edited_version sha fr n rv d) = db_next d"
  "rv_incident_id (edited_version sha fr n rv d) = rv_incident_id rv"
  "plan_version (edited_version sha fr n rv d) = plan_version rv + 1"
  "plan_json (edited_version sha fr n rv d) = dict_set ''plan_revision'' (JInt (n + 1)) (plan_json rv)"
  "plan_digest_col (edited_version sha fr n rv d) =
     plan_digest sha fr (dict_set ''plan_revision'' (JInt (n + 1)) (plan_json rv))"
  by (simp_all add: edited_version_def Let_def)

lemma edit_plan_db_inv:
  assumes "db_inv sha fr d" and "edit_plan sha fr to_int incident_id uid d = Inr (digest, d')"
  shows "db_inv sha fr d' \<and> grows d d'"
proof -
  from assms(2) obtain rv n where ins: "insert_version (edited_version sha fr n rv d) d = Inr d'"
    by (rule edit_plan_insert)
  show ?thesis by (rule insert_version_db_inv [OF assms(1) ins]) simp_all
qed

lemma draft_db_inv:
  assumes "db_inv sha fr d" and "draft_version sha fr i node iface th d = Inr d'"
  shows "db_inv sha fr d' \<and> grows d d'"
  by (rule insert_version_db_inv [OF assms(1) assms(2) [unfolded draft_version_def build_link_down_plan_def Let_def prod.case]])
    simp_all

lemma reconcile_db_inv:
  assumes "db_inv sha fr d" and "reconcile_record j actual d = Inr (s, d')"
  shows "db_inv sha fr d' \<and> grows d d'"
proof -
  from assms(2) obtain ex d1 d2 bj aj where sh: "d1 = set_job_status j (fst (reconcile_status actual)) d"
    "d2 = resolve_execution s ex d1"
    "d' = insert_audit (audit_event d2 ''executor'' ''executor'' ''execution.reconcile'' ''execution_job'' j bj aj) d2"
    by (rule reconcile_record_shape)
  have "db_ok d1" using assms(1) db_ok_set_job_status by (simp add: sh(1) db_inv_def incidents_ok_def)
  then have ok2: "db_ok d2" using resolve_execution_cases [of s ex d1, folded sh(2)] db_ok_set_execution_status by metis
  have f: "events d2 = events d" "versions d2 = versions d" "approvals d2 = approvals d"
    "jobs d2 = jobs d1" "map ex_job_id (executions d2) = map ex_job_id (executions d)"
    using resolve_execution_cases [of s ex d1, folded sh(2)] by (auto simp: sh(1) set_execution_status_def)
  have g: "grows d d'" unfolding grows_def sh(3) by (simp only: insert_audit_frame f sh(1) job_pairs_set_status) simp
  have "incidents_ok d'"
    by (rule incidents_ok_frame [of d]) (use assms(1) f db_ok_audit [OF ok2] sh(3) in \<open>simp_all add: db_inv_def\<close>)
  then show ?thesis using db_inv_frame [OF assms(1) _ _ _ _ g] g f by (simp add: sh(3))
qed

section \<open>Reachable states\<close>

text \<open>
  The steps of the system around one database and one fabric: a correlated signal, a drafted plan, the
  three actions of the browser, a worker running any job, a reconciliation, the passing of time, and
  any change of the fabric the program did not cause. Every step is a committed or dropped session.
\<close>

inductive ui_step :: "(string \<Rightarrow> string) \<Rightarrow> (pyfloat \<Rightarrow> string) \<Rightarrow> 'd world \<Rightarrow> 'd world \<Rightarrow> bool" for sha fr where
  correlated: "correlate_signal t key source eid observed payload sev (w_db w) = Inr (r, d') \<Longrightarrow>
    ui_step sha fr w (w\<lparr>w_db := d'\<rparr>)"
| drafted: "draft_version sha fr i node iface th (w_db w) = Inr d' \<Longrightarrow> ui_step sha fr w (w\<lparr>w_db := d'\<rparr>)"
| approved: "approve_and_execute dvc en c1 now2 incident_id uid w = (r, w') \<Longrightarrow> ui_step sha fr w w'"
| rejected: "reject incident_id uid (w_db w) = Inr d' \<Longrightarrow> ui_step sha fr w (w\<lparr>w_db := d'\<rparr>)"
| edited: "edit_plan sha fr to_int incident_id uid (w_db w) = Inr (digest, d') \<Longrightarrow> ui_step sha fr w (w\<lparr>w_db := d'\<rparr>)"
| executed: "execute_session dvc en j w = (r, w') \<Longrightarrow> ui_step sha fr w w'"
| reconciled: "reconcile_record j actual (w_db w) = Inr (s, d') \<Longrightarrow> ui_step sha fr w (w\<lparr>w_db := d'\<rparr>)"
| tick: "ui_step sha fr w (w\<lparr>w_db := (w_db w)\<lparr>db_now := t\<rparr>\<rparr>)"
| fabric_changed: "ui_step sha fr w (w\<lparr>w_dev := dev\<rparr>)"

inductive_cases ui_stepE: "ui_step sha fr w w'"

inductive ui_reachable :: "(string \<Rightarrow> string) \<Rightarrow> (pyfloat \<Rightarrow> string) \<Rightarrow> 'd world \<Rightarrow> bool" for sha fr where
  start: "ui_reachable sha fr \<lparr>w_db = empty_db t, w_dev = dev, w_trace = []\<rparr>"
| step: "ui_reachable sha fr w \<Longrightarrow> ui_step sha fr w w' \<Longrightarrow> ui_reachable sha fr w'"

lemma ui_inv_start: "ui_inv sha fr \<lparr>w_db = empty_db t, w_dev = dev, w_trace = []\<rparr>"
  by (simp add: ui_inv_def db_inv_def incidents_ok_def contiguous_def seq_of_def approvals_bound_def digests_ok_def
      executions_approved_def) (simp add: empty_db_def)

lemma ui_step_inv:
  assumes "ui_step sha fr w w'" and "ui_inv sha fr w"
  shows "ui_inv sha fr w'"
proof -
  have db: "db_inv sha fr (w_db w)" using assms(2) by (simp add: ui_inv_def)
  have upd: "ui_inv sha fr (w\<lparr>w_db := d'\<rparr>)" if "db_inv sha fr d' \<and> grows (w_db w) d'" for d'
    using ui_inv_db assms(2) that by blast
  show ?thesis
    using assms(1)
  proof cases
    case (correlated t key source eid observed payload sev r d')
    then show ?thesis using correlate_db_inv [OF db] upd by simp
  next
    case (drafted i node iface th d')
    then show ?thesis using draft_db_inv [OF db] upd by simp
  next
    case (approved dvc en c1 now2 incident_id uid r)
    then show ?thesis using approve_and_execute_inv [OF assms(2)] by blast
  next
    case (rejected incident_id uid d')
    then show ?thesis using reject_db_inv [OF db] upd by simp
  next
    case (edited to_int incident_id uid digest d')
    then show ?thesis using edit_plan_db_inv [OF db] upd by simp
  next
    case (executed dvc en j r)
    then show ?thesis using execute_session_inv [OF assms(2)] by blast
  next
    case (reconciled j actual s d')
    then show ?thesis using reconcile_db_inv [OF db] upd by simp
  next
    case (tick t)
    then show ?thesis using db upd by simp
  next
    case (fabric_changed dev)
    then show ?thesis using assms(2) by (simp add: ui_inv_def)
  qed
qed

lemma reachable_inv: "ui_reachable sha fr w \<Longrightarrow> ui_inv sha fr w"
proof (induction rule: ui_reachable.induct)
  case (start t dev)
  show ?case by (rule ui_inv_start)
next
  case (step w w')
  then show ?case by (blast intro: ui_step_inv)
qed

text \<open>C1: There is no side door: in every state reachable from an empty database, by any interleaving of
  correlation, drafting, the browser's actions, workers running jobs, reconciliation and changes of the
  fabric, with any devices and any database failures, every mutation that was ever sent to a device
  is an \<open>enable\<close> of the node and interface of a stored plan version that an approve decision binds by
  exactly the digest of that plan's content, and that plan is allowlisted.\<close>

theorem no_side_door:
  assumes "ui_reachable sha fr w" and "DeviceSet node iface val \<in> set (w_trace w)"
  shows "val = JStr ''enable'' \<and>
    (\<exists>v \<in> set (versions (w_db w)). \<exists>a \<in> set (approvals (w_db w)).
       ap_version_id a = rv_id v \<and> decision a = ''approve'' \<and>
       ap_plan_digest a = plan_digest sha fr (plan_json v) \<and> allowlisted (plan_json v) \<and>
       dict_get (plan_json v) ''node'' = Some node \<and> dict_get (plan_json v) ''interface'' = Some iface)"
proof -
  have inv: "ui_inv sha fr w" using assms(1) by (rule reachable_inv)
  with assms(2) have m: "mutation_approved (w_db w) (DeviceSet node iface val)" by (auto simp: ui_inv_def)
  then obtain v where v: "approved_version (w_db w) v" "dict_get (plan_json v) ''node'' = Some node"
    "dict_get (plan_json v) ''interface'' = Some iface" and val: "val = JStr ''enable''"
    by (auto simp: mutation_approved_def)
  from v(1) inv have "plan_digest_col v = plan_digest sha fr (plan_json v)"
    by (auto simp: ui_inv_def db_inv_def digests_ok_def approved_version_def)
  with v val show ?thesis unfolding approved_version_def by auto
qed

text \<open>C9: In every reachable state the tables satisfy their integrity constraints, incident events are numbered
  without gaps, every decision carries the digest of the version it decides, every stored digest is
  the digest of the stored plan, and every execution row belongs to a job whose plan version is
  allowlisted and approved by exactly its digest.\<close>

theorem reachable_db_integrity:
  assumes "ui_reachable sha fr w"
  shows "db_ok (w_db w) \<and> contiguous (w_db w) \<and> approvals_bound (w_db w) \<and> digests_ok sha fr (w_db w) \<and>
    executions_approved (w_db w)"
  using reachable_inv [OF assms] by (simp add: ui_inv_def db_inv_def incidents_ok_def)

section \<open>Editing\<close>

lemma no_approve_row: "latest_approval d v = None \<longleftrightarrow> (\<forall>a \<in> set (approvals d). ap_version_id a = v \<longrightarrow> decision a \<noteq> ''approve'')"
  by (auto simp: latest_approval_def first_desc_None filter_empty_conv)

text \<open>C10: An edit invalidates every approval: after \<open>edit_plan\<close> returned a digest, the latest version of the
  incident is a new one with that digest, differing from the previous plan in \<open>plan_revision\<close> only; no
  stored decision carries the digest, the new version has no approve decision, and the executor's
  precheck refuses it.\<close>

theorem edit_invalidates_approval:
  assumes "db_inv sha fr d" and "edit_plan sha fr to_int (show_nat i) uid d = Inr (digest, d')"
  shows "\<exists>rv v. latest_version d i = Some rv \<and> latest_version d' i = Some v \<and> plan_digest_col v = digest \<and>
     (\<forall>k. k \<noteq> ''plan_revision'' \<longrightarrow> dict_get (plan_json v) k = dict_get (plan_json rv) k) \<and>
     (\<forall>a \<in> set (approvals d'). ap_plan_digest a \<noteq> digest) \<and>
     latest_approval d' (rv_id v) = None \<and>
     precheck d' v = Inl (PrecheckError ''no valid approval bound to this exact plan digest'')"
proof -
  from assms(2) obtain k rv n where k: "show_nat i = show_nat k" and rv0: "latest_version d k = Some rv"
    and ins: "insert_version (edited_version sha fr n rv d) d = Inr d'"
    and dg: "digest = plan_digest_col (edited_version sha fr n rv d)"
    by (rule edit_plan_insert)
  let ?v = "edited_version sha fr n rv d"
  from k rv0 have rv: "latest_version d i = Some rv" by (simp add: show_nat_inj)
  from ins have e: "versions d' = versions d @ [?v]" "approvals d' = approvals d"
    and new: "\<not> taken plan_digest_col (plan_digest_col ?v) (versions d)"
    by (auto simp: insert_version_def)
  from rv have rvi: "rv_incident_id rv = i" by (simp add: latest_version_in)
  have ok: "set (map ap_version_id (approvals d)) \<subseteq> set (map rv_id (versions d))" "below rv_id (db_next d) (versions d)"
    and ab: "approvals_bound d"
    using assms(1) by (simp_all add: db_inv_def incidents_ok_def db_ok_def foreign_keys_def fresh_ids_def)
  have na: "ap_plan_digest a \<noteq> plan_digest_col ?v \<and> ap_version_id a \<noteq> db_next d" if "a \<in> set (approvals d)" for a
  proof -
    from that ok(1) obtain u where u: "u \<in> set (versions d)" "rv_id u = ap_version_id a" by force
    with ab that have "ap_plan_digest a = plan_digest_col u" unfolding approvals_bound_def by blast
    with u new ok(2) show ?thesis unfolding taken_def below_def by force
  qed
  have m: "\<forall>u \<in> set (versions d). rv_incident_id u = i \<longrightarrow> plan_version u \<le> plan_version rv"
    using rv first_desc_Some unfolding latest_version_def by fastforce
  have "latest_version d' i = Some ?v"
  proof (cases "latest_version d' i")
    case None
    then show ?thesis by (simp add: latest_version_def first_desc_None e rvi)
  next
    case (Some u)
    from first_desc_Some [OF Some [unfolded latest_version_def]] have
      u: "u \<in> set (versions d')" "rv_incident_id u = i" "plan_version rv + 1 \<le> plan_version u"
      by (auto simp: e rvi)
    with m have "u = ?v" by (fastforce simp: e)
    with Some show ?thesis by simp
  qed
  moreover have none: "latest_approval d' (rv_id ?v) = None"
    using na by (simp add: no_approve_row e)
  moreover have "precheck d' ?v = Inl (PrecheckError ''no valid approval bound to this exact plan digest'')"
    using none by (simp add: precheck_def)
  ultimately show ?thesis using rv na dg by (intro exI [of _ rv] exI [of _ ?v]) (simp add: e(2))
qed

section \<open>Decisions\<close>

lemma first_row_None: "first_row xs = None \<longleftrightarrow> xs = []"
  by (cases xs) (simp_all add: first_row_def)

lemma first_row_in: "first_row xs = Some x \<Longrightarrow> x \<in> set xs"
  by (cases xs) (simp_all add: first_row_def)

text \<open>The first decision of a user on a version is final: once it is stored, any later decision of the same
  user on the same version, approve or reject, succeeds and changes nothing.\<close>

theorem first_decision_final:
  assumes "upsert_decision dec uid rv d = Inr d'"
  shows "upsert_decision dec' uid rv d' = Inr d'"
proof -
  have "taken approval_key (rv_id rv, uid) (approvals d')" using upsert_decision_frame [OF assms] by blast
  then show ?thesis
    by (simp add: upsert_decision_def upsert_def approval_key_def decision_row_def)
qed

text \<open>\<open>approve_and_execute\<close> runs at most the plan it shows as the latest version of the incident: every
  call leaves the trace as it was or appends the accepted intent and one \<open>enable\<close> of the node and
  interface of that version, which an approve decision in the resulting database binds by its stored
  digest; a call that raises before the guard or in it touches neither device nor trace.\<close>

theorem approve_executes_latest_plan:
  assumes "db_inv sha fr (w_db w)" and "approve_and_execute dvc en c1 now2 (show_nat i) uid w = (r, w')"
  shows "w_trace w' = w_trace w \<or>
    (\<exists>rv node iface j. latest_version (w_db w) i = Some rv \<and> allowlisted (plan_json rv) \<and>
       dict_get (plan_json rv) ''node'' = Some node \<and> dict_get (plan_json rv) ''interface'' = Some iface \<and>
       (\<exists>a \<in> set (approvals (w_db w')). ap_version_id a = rv_id rv \<and> decision a = ''approve'' \<and>
          ap_plan_digest a = plan_digest_col rv) \<and>
       w_trace w' = w_trace w @ [IntentFlushed j, DeviceSet node iface (JStr ''enable'')])"
proof (cases "approve_txn i uid (w_db w)")
  case (Inl e)
  with assms(2) show ?thesis by (simp add: approve_and_execute_def)
next
  case (Inr p)
  obtain rv d1 where p: "p = (rv, d1)" by force
  let ?w2 = "w\<lparr>w_db := d1\<lparr>db_now := now2\<rparr>\<rparr>"
  have d1: "db_inv sha fr d1" "grows (w_db w) d1" using approve_txn_db_inv [OF assms(1)] Inr p by auto
  have rv: "latest_version (w_db w) i = Some rv" using Inr p by (auto simp: approve_txn_def bindr_Inr_iff split: option.splits)
  consider (n) "w_trace w' = w_trace w"
    | (x) jb where "job_of_version d1 (rv_id rv) = Some jb" "execute_session dvc en (job_id jb) ?w2 = (r, w')"
    using assms(2) Inr p
    by (auto simp: approve_and_execute_def Let_def split: if_splits sum.splits option.splits)
  then show ?thesis
  proof cases
    case x
    obtain r1 w1 where ex: "execute_job dvc en (job_id jb) ?w2 = (r1, w1)" by force
    with x(2) have t: "w_trace w' = w_trace w1"
      by (auto simp: execute_session_def split: sum.splits if_splits)
    have g: "grows d1 (w_db w')" using execute_session_db [OF _ x(2)] d1(1) by simp
    from execute_job_trace [OF ex] show ?thesis
    proof
      assume "w_trace w1 = w_trace ?w2"
      with t show ?thesis by simp
    next
      assume "\<exists>node iface. authorized (w_db ?w2) (job_id jb) node iface \<and>
         w_trace w1 = w_trace ?w2 @ [IntentFlushed (job_id jb), DeviceSet node iface (JStr ''enable'')]"
      then obtain node iface where au: "authorized (d1\<lparr>db_now := now2\<rparr>) (job_id jb) node iface"
        and t1: "w_trace w1 = w_trace w @ [IntentFlushed (job_id jb), DeviceSet node iface (JStr ''enable'')]" by auto
      from au obtain job v a where v: "job \<in> set (jobs d1)" "job_id job = job_id jb" "v \<in> set (versions d1)"
        "rv_id v = job_version_id job" "a \<in> set (approvals d1)" "ap_version_id a = rv_id v" "decision a = ''approve''"
        "ap_plan_digest a = plan_digest_col v" "allowlisted (plan_json v)"
        "dict_get (plan_json v) ''node'' = Some node" "dict_get (plan_json v) ''interface'' = Some iface"
        by (auto simp: authorized_def)
      from x(1) have jb: "jb \<in> set (jobs d1)" "job_version_id jb = rv_id rv"
        by (auto simp: job_of_version_def dest: first_row_in)
      have ok: "db_ok d1" using d1(1) by (simp add: db_inv_def incidents_ok_def)
      then have "inj_on job_id (set (jobs d1))" "inj_on rv_id (set (versions d1))"
        by (simp_all add: db_ok_def unique_keys_def distinct_map)
      moreover have "rv \<in> set (versions d1)" using latest_version_in [OF rv] d1(2) by (auto simp: grows_def)
      ultimately have "v = rv" using v(1-4) jb by (metis inj_onD)
      moreover have "a \<in> set (approvals (w_db w'))" using v(5) g unfolding grows_def by blast
      ultimately show ?thesis using v rv t t1
        by (intro disjI2 exI [of _ rv] exI [of _ node] exI [of _ iface] exI [of _ "job_id jb"] conjI bexI [of _ a]) simp_all
    qed
  qed simp
qed

text \<open>An approval by a user who rejected the version before, when nobody else approved it, is refused by the
  guard: \<open>SideDoorRejected\<close>, with no effect on the device, although the pending job was committed.\<close>

theorem approve_after_reject_refused:
  assumes "latest_version (w_db w) i = Some rv" and "latest_approval (w_db w) (rv_id rv) = None"
    and "taken approval_key (rv_id rv, uid) (approvals (w_db w))"
    and "upsert_job rv (w_db w) = Inr d'"
  shows "approve_and_execute dvc en True now2 (show_nat i) uid w =
    (Inl (SideDoorRejected ''execution refused: no approval bound to this exact plan digest''), w\<lparr>w_db := d'\<rparr>)"
proof -
  have "upsert_decision ''approve'' uid rv (w_db w) = Inr (w_db w)"
    using assms(3) by (simp add: upsert_decision_def upsert_def decision_row_def approval_key_def)
  then have "approve_txn i uid (w_db w) = Inr (rv, d')" using assms(1,4) by (simp add: approve_txn_def)
  moreover have "latest_approval d' (rv_id rv) = None"
    using assms(2) upsert_job_frame [OF assms(4)] by (simp add: latest_approval_def)
  ultimately show ?thesis by (simp add: approve_and_execute_def guard_execution_def)
qed

text \<open>C21: The audit intent is flushed, not committed: when the mutation call itself raises, the session is
  dropped, so the device has been acted on while the database, its audit log included, shows nothing.\<close>

theorem mutation_without_durable_audit:
  assumes "exec_check (w_db w) j = Inr (Ready node iface val)" and "flush_intent_ok en"
    and "get_oper_state dvc (w_dev w) node iface = (Inr before, dev1)"
    and "set_admin_state dvc dev1 node iface val = (Inl e, dev2)"
  shows "execute_session dvc en j w =
    (Inl e, w\<lparr>w_dev := dev2, w_trace := w_trace w @ [IntentFlushed j, DeviceSet node iface val]\<rparr>)"
  using assms by (simp add: execute_session_def execute_job_def exec_apply_def exec_mutate_def Let_def)

section \<open>The case file\<close>

text \<open>On every database of the protocol the case file shows a plan as approved exactly when the executor's
  approval check for that version passes.\<close>

theorem case_file_approved_iff_gate:
  assumes "approvals_bound d" and "rv \<in> set (versions d)"
  shows "dp_approved (drafted_plan_of other d rv) \<longleftrightarrow>
    (\<exists>a. latest_approval d (rv_id rv) = Some a \<and>
       approval_authorizes_plan (decision a) (ap_plan_digest a) (plan_digest_col rv))"
proof -
  have b: "a \<in> set (approvals d) \<Longrightarrow> ap_version_id a = rv_id rv \<Longrightarrow> ap_plan_digest a = plan_digest_col rv" for a
    using assms unfolding approvals_bound_def by metis
  have l: "dp_approved (drafted_plan_of other d rv) \<longleftrightarrow> latest_approval d (rv_id rv) \<noteq> None"
  proof -
    have "filter (\<lambda>a. ap_version_id a = rv_id rv \<and> ap_plan_digest a = plan_digest_col rv \<and> decision a = ''approve'') (approvals d) =
        filter (\<lambda>a. ap_version_id a = rv_id rv \<and> decision a = ''approve'') (approvals d)"
      using b by (intro filter_cong) auto
    then show ?thesis
      by (simp add: drafted_plan_of_def Let_def first_row_None latest_approval_def first_desc_None del: not_None_eq)
  qed
  show ?thesis
  proof (cases "latest_approval d (rv_id rv)")
    case (Some a)
    with latest_approval_Some b have "approval_authorizes_plan (decision a) (ap_plan_digest a) (plan_digest_col rv)"
      by (simp add: approval_authorizes_plan_def)
    with Some l show ?thesis by simp
  qed (use l in simp)
qed

text \<open>The claim of a case file is \<open>supported\<close> exactly when the incident has a plan version; no evidence
  and no typed claim is consulted.\<close>

theorem case_file_claim:
  assumes "get_case_file iso_fmt dt_str json_repr other d (show_nat i) = Inr (Some cf)"
  shows "cf_claim cf = (if latest_version d i = None then ''insufficient'' else ''supported'') \<and>
    (cf_plan cf = None \<longleftrightarrow> latest_version d i = None) \<and>
    cf_evidence cf = [(''signals'', length (filter (\<lambda>s. sig_incident_id s = i) (signals d)))]"
proof -
  from assms obtain inc where inc: "filter (\<lambda>r. inc_id r = i) (incidents d) = [inc]"
    by (auto simp: get_case_file_def bindr_Inr_iff split: option.splits)
  then have "inc_id inc = i" using filter_single_in by force
  with inc assms show ?thesis
    by (cases "latest_version d i")
      (auto simp: get_case_file_def one_or_none_def Let_def drafted_plan_of_def localized_link_def)
qed

section \<open>A concrete history\<close>

definition demo_sha :: "string \<Rightarrow> string" where "demo_sha s = show_nat (length s)"

definition demo_fr :: "pyfloat \<Rightarrow> string" where "demo_fr x = []"

definition demo_seed :: db where
  "demo_seed = (case draft_version demo_sha demo_fr 0 ''leaf1'' ''ethernet-1/49'' ''t'' demo_after of Inr d \<Rightarrow> d | Inl _ \<Rightarrow> demo_after)"

definition seed_world :: "string world" where
  "seed_world = \<lparr>w_db = demo_seed, w_dev = ''down'', w_trace = []\<rparr>"

definition approved_world :: "string world" where
  "approved_world = snd (approve_and_execute demo_device all_ok True 9 ''0'' ''alice'' seed_world)"

lemma seed_reachable: "ui_reachable demo_sha demo_fr seed_world"
proof -
  let ?w0 = "\<lparr>w_db = empty_db 3, w_dev = ''down'', w_trace = []\<rparr> :: string world"
  have "ui_reachable demo_sha demo_fr ?w0" by (rule ui_reachable.start)
  moreover have "ui_step demo_sha demo_fr ?w0 (?w0\<lparr>w_db := demo_after\<rparr>)"
    by (rule ui_step.correlated [of 7 "''k''" "''oper_state''" "''e1''" 5 "JObj []" "''major''" _ "(0, True)"])
      (use demo_first in \<open>simp add: demo_signal_def\<close>)
  ultimately have "ui_reachable demo_sha demo_fr (?w0\<lparr>w_db := demo_after\<rparr>)" by (rule ui_reachable.step)
  moreover have "draft_version demo_sha demo_fr 0 ''leaf1'' ''ethernet-1/49'' ''t'' demo_after = Inr demo_seed" by code_simp
  then have "ui_step demo_sha demo_fr (?w0\<lparr>w_db := demo_after\<rparr>) ((?w0\<lparr>w_db := demo_after\<rparr>)\<lparr>w_db := demo_seed\<rparr>)"
    by (intro ui_step.drafted) simp
  ultimately have "ui_reachable demo_sha demo_fr ((?w0\<lparr>w_db := demo_after\<rparr>)\<lparr>w_db := demo_seed\<rparr>)" by (rule ui_reachable.step)
  then show ?thesis by (simp add: seed_world_def)
qed

lemma approved_run:
  "approve_and_execute demo_device all_ok True 9 ''0'' ''alice'' seed_world = (Inr ''succeeded'', approved_world)"
  by code_simp

lemma approved_reachable: "ui_reachable demo_sha demo_fr approved_world"
  by (rule ui_reachable.step [OF seed_reachable ui_step.approved [OF approved_run]])

theorem no_side_door_witness:
  "\<exists>v \<in> set (versions (w_db approved_world)). dict_get (plan_json v) ''node'' = Some (JStr ''leaf1'')"
proof -
  have "DeviceSet (JStr ''leaf1'') (JStr ''ethernet-1/49'') (JStr ''enable'') \<in> set (w_trace approved_world)" by code_simp
  from no_side_door [OF approved_reachable this] show ?thesis by blast
qed

theorem reachable_db_integrity_witness: "db_ok (w_db approved_world) \<and> executions (w_db approved_world) \<noteq> []"
proof
  show "db_ok (w_db approved_world)" using reachable_db_integrity [OF approved_reachable] by blast
  show "executions (w_db approved_world) \<noteq> []" by code_simp
qed

lemma approved_db_inv: "db_inv demo_sha demo_fr (w_db approved_world)"
  using reachable_inv [OF approved_reachable] by (simp add: ui_inv_def)

definition edited_db :: db where
  "edited_db = (case edit_plan demo_sha demo_fr (\<lambda>_. Inl IndexError) ''0'' ''bob'' (w_db approved_world) of
     Inr (_, d) \<Rightarrow> d | Inl _ \<Rightarrow> w_db approved_world)"

theorem edit_invalidates_approval_witness:
  "\<exists>v. latest_version edited_db 0 = Some v \<and> latest_approval edited_db (rv_id v) = None"
proof -
  have "edit_plan demo_sha demo_fr (\<lambda>_. Inl IndexError) (show_nat 0) ''bob'' (w_db approved_world) = Inr (''229'', edited_db)"
    by code_simp
  from edit_invalidates_approval [OF approved_db_inv this] show ?thesis by blast
qed

definition demo_version :: version_row where
  "demo_version = hd (versions demo_seed)"

definition rejected_db :: db where
  "rejected_db = (case upsert_decision ''reject'' ''alice'' demo_version demo_seed of Inr d \<Rightarrow> d | Inl _ \<Rightarrow> demo_seed)"

lemma demo_reject: "upsert_decision ''reject'' ''alice'' demo_version demo_seed = Inr rejected_db"
  by code_simp

theorem first_decision_final_witness: "upsert_decision ''approve'' ''alice'' demo_version rejected_db = Inr rejected_db"
  by (rule first_decision_final [OF demo_reject])

theorem approve_executes_latest_plan_witness:
  "\<exists>rv. latest_version demo_seed 0 = Some rv \<and> dict_get (plan_json rv) ''node'' = Some (JStr ''leaf1'')"
proof -
  have r: "approve_and_execute demo_device all_ok True 9 (show_nat 0) ''alice'' seed_world = (Inr ''succeeded'', approved_world)"
    using approved_run by simp
  have inv: "db_inv demo_sha demo_fr (w_db seed_world)"
    using reachable_inv [OF seed_reachable] by (simp add: ui_inv_def)
  have t: "w_trace approved_world = [IntentFlushed 6, DeviceSet (JStr ''leaf1'') (JStr ''ethernet-1/49'') (JStr ''enable'')]"
    "w_trace seed_world = []" by code_simp+
  from approve_executes_latest_plan [OF inv r] show ?thesis
    unfolding t by (auto simp: seed_world_def)
qed

theorem approve_after_reject_refused_witness:
  "\<exists>d'. approve_and_execute demo_device all_ok True 9 (show_nat 0) ''alice'' (seed_world\<lparr>w_db := rejected_db\<rparr>) =
     (Inl (SideDoorRejected ''execution refused: no approval bound to this exact plan digest''), seed_world\<lparr>w_db := d'\<rparr>)"
proof -
  let ?d' = "case upsert_job demo_version rejected_db of Inr d \<Rightarrow> d | Inl _ \<Rightarrow> rejected_db"
  have "upsert_job demo_version rejected_db = Inr ?d'" by code_simp
  moreover have "latest_version rejected_db 0 = Some demo_version" by code_simp
  moreover have "latest_approval rejected_db (rv_id demo_version) = None" by code_simp
  moreover have "taken approval_key (rv_id demo_version, ''alice'') (approvals rejected_db)" by code_simp
  ultimately have "approve_and_execute demo_device all_ok True 9 (show_nat 0) ''alice'' (seed_world\<lparr>w_db := rejected_db\<rparr>) =
     (Inl (SideDoorRejected ''execution refused: no approval bound to this exact plan digest''),
      (seed_world\<lparr>w_db := rejected_db\<rparr>)\<lparr>w_db := ?d'\<rparr>)"
    by (intro approve_after_reject_refused) simp_all
  then show ?thesis by (intro exI [of _ ?d']) simp
qed

text \<open>A device whose mutation call times out.\<close>

definition hanging_device :: "string device" where
  "hanging_device = demo_device\<lparr>set_admin_state := \<lambda>d node iface v. (Inl TimeoutExpired, ''up'')\<rparr>"

theorem mutation_without_durable_audit_witness:
  "execute_session hanging_device all_ok 4 demo_world =
    (Inl TimeoutExpired, demo_world\<lparr>w_dev := ''up'', w_trace := w_trace demo_world @
       [IntentFlushed 4, DeviceSet (JStr ''leaf1'') (JStr ''ethernet-1/49'') (JStr ''enable'')]\<rparr>)"
proof (rule mutation_without_durable_audit)
  show "exec_check (w_db demo_world) 4 = Inr (Ready (JStr ''leaf1'') (JStr ''ethernet-1/49'') (JStr ''enable''))"
    using demo_check by (simp add: demo_world_def)
  show "flush_intent_ok all_ok" by code_simp
  show "get_oper_state hanging_device (w_dev demo_world) (JStr ''leaf1'') (JStr ''ethernet-1/49'') = (Inr ''down'', ''down'')"
    by code_simp
  show "set_admin_state hanging_device ''down'' (JStr ''leaf1'') (JStr ''ethernet-1/49'') (JStr ''enable'') =
      (Inl TimeoutExpired, ''up'')"
    by code_simp
qed

theorem case_file_approved_iff_gate_witness:
  "dp_approved (drafted_plan_of (\<lambda>_. []) rejected_db demo_version) \<longleftrightarrow>
    (\<exists>a. latest_approval rejected_db (rv_id demo_version) = Some a \<and>
       approval_authorizes_plan (decision a) (ap_plan_digest a) (plan_digest_col demo_version))"
  by (rule case_file_approved_iff_gate) code_simp+

theorem case_file_claim_witness:
  "\<exists>cf. get_case_file (\<lambda>_. []) (\<lambda>_. []) (\<lambda>_. []) (\<lambda>_. []) demo_seed (show_nat 0) = Inr (Some cf) \<and>
     cf_claim cf = ''supported''"
proof -
  let ?cf = "case get_case_file (\<lambda>_. []) (\<lambda>_. []) (\<lambda>_. []) (\<lambda>_. []) demo_seed (show_nat 0) of Inr (Some cf) \<Rightarrow> cf"
  have 1: "get_case_file (\<lambda>_. []) (\<lambda>_. []) (\<lambda>_. []) (\<lambda>_. []) demo_seed (show_nat 0) = Inr (Some ?cf)" by code_simp
  have "latest_version demo_seed 0 \<noteq> None" by code_simp
  with case_file_claim [OF 1] 1 show ?thesis by auto
qed

end
