(* ===== verification/Progress.thy ===== *)
theory Progress
  imports UiProtocol
begin

text \<open>
  Progress of the approval protocol: from every reachable state an approver can bring the latest plan of
  an incident to execution, also after earlier attempts that failed before an execution was recorded.
  It needs one more invariant, which ties jobs to the versions they were made for.
\<close>

section \<open>Jobs carry the digest of their version\<close>

definition job_keys :: "db \<Rightarrow> (nat \<times> string) set" where
  "job_keys d = set (map (\<lambda>j. (job_version_id j, idempotency_key j)) (jobs d))"

definition jobs_keyed :: "db \<Rightarrow> bool" where
  "jobs_keyed d \<longleftrightarrow> job_keys d \<subseteq> (\<lambda>rv. (rv_id rv, ''job:'' @ plan_digest_col rv)) ` set (versions d)"

lemma jobs_keyed_frame: "jobs_keyed d \<Longrightarrow> job_keys d' \<subseteq> job_keys d \<Longrightarrow> set (versions d) \<subseteq> set (versions d') \<Longrightarrow> jobs_keyed d'"
  unfolding jobs_keyed_def by blast

lemma job_keys_simps [simp]:
  "job_keys (set_job_status j s d) = job_keys d" "job_keys (d\<lparr>db_now := t\<rparr>) = job_keys d"
  "job_keys (intent_db j b v d) = job_keys d"
  by (simp_all add: job_keys_def set_job_status_def image_image cong: if_cong) (auto simp: image_iff)

lemma job_keys_cong: "jobs d' = jobs (set_job_status j s d) \<Longrightarrow> job_keys d' = job_keys d"
  using job_keys_simps(1) [of j s d] by (simp add: job_keys_def)

lemma upsert_job_keyed:
  assumes "jobs_keyed d" and "upsert_job rv d = Inr d'" and "rv \<in> set (versions d)"
  shows "jobs_keyed d'"
proof -
  have "job_keys d' \<subseteq> insert (rv_id rv, ''job:'' @ plan_digest_col rv) (job_keys d)"
    using upsert_job_frame [OF assms(2)] by (auto simp: job_keys_def job_row_of_def)
  moreover have "(rv_id rv, ''job:'' @ plan_digest_col rv) \<in> (\<lambda>rv. (rv_id rv, ''job:'' @ plan_digest_col rv)) ` set (versions d)"
    using assms(3) by (rule imageI)
  moreover have "versions d' = versions d" using upsert_job_frame [OF assms(2)] by simp
  ultimately show ?thesis using assms(1) unfolding jobs_keyed_def by (simp only:) blast
qed

lemma approve_txn_keyed:
  assumes "jobs_keyed d" and "approve_txn i uid d = Inr (rv, d2)"
  shows "jobs_keyed d2"
proof -
  from assms(2) obtain d1 where rv: "latest_version d i = Some rv" and u: "upsert_decision ''approve'' uid rv d = Inr d1"
    "upsert_job rv d1 = Inr d2"
    by (auto simp: approve_txn_def bindr_Inr_iff split: option.splits)
  have e: "versions d1 = versions d" "jobs d1 = jobs d" using upsert_decision_frame [OF u(1)] by simp_all
  then have "jobs_keyed d1" using assms(1) by (simp add: jobs_keyed_def job_keys_def)
  then show ?thesis by (rule upsert_job_keyed [OF _ u(2)]) (use latest_version_in [OF rv] e in simp)
qed

lemma execute_session_keyed:
  assumes "jobs_keyed (w_db w)" and "execute_session dvc en j w = (r, w')"
  shows "jobs_keyed (w_db w')"
proof -
  obtain r1 w1 where ex: "execute_job dvc en j w = (r1, w1)" by force
  with assms(2) have d: "w_db w' = w_db w \<or> (\<exists>s. r1 = Inr s \<and> w_db w' = w_db w1)"
    by (auto simp: execute_session_def split: sum.splits if_splits)
  from ex have "\<exists>s. r1 = Inr s \<Longrightarrow> jobs_keyed (w_db w1)"
  proof (cases rule: execute_job_cases)
    case (mutated before node iface)
    assume "\<exists>s. r1 = Inr s"
    with mutated(5) obtain s aft where rec: "exec_record en j before aft (intent_db j before (JStr ''enable'') (w_db w)) = Inr (s, w_db w1)"
      by blast
    show ?thesis
      by (rule jobs_keyed_frame [OF assms(1)])
        (simp_all add: job_keys_cong [OF exec_record_Inr(2) [OF rec]] exec_record_Inr(6) [OF rec])
  qed (use assms(1) in auto)
  with d assms(1) show ?thesis by auto
qed

lemma approve_and_execute_keyed:
  assumes "jobs_keyed (w_db w)" and "approve_and_execute dvc en c1 now2 incident_id uid w = (r, w')"
  shows "jobs_keyed (w_db w')"
proof (cases "bindr (uuid_of incident_id) (\<lambda>i. approve_txn i uid (w_db w))")
  case (Inl e)
  with assms show ?thesis by (simp add: approve_and_execute_def)
next
  case (Inr p)
  obtain rv d1 where p: "p = (rv, d1)" by force
  from Inr p approve_txn_keyed assms(1) have d1: "jobs_keyed d1" by (fastforce simp: bindr_Inr_iff)
  let ?w1 = "w\<lparr>w_db := d1\<rparr>" and ?w2 = "w\<lparr>w_db := d1\<lparr>db_now := now2\<rparr>\<rparr>"
  from assms(2) Inr p have c: "w' = w \<or> w' = ?w1 \<or> (\<exists>j. execute_session dvc en j ?w2 = (r, w'))"
    by (auto simp: approve_and_execute_def Let_def split: if_splits sum.splits option.splits)
  have "jobs_keyed (d1\<lparr>db_now := now2\<rparr>)" using d1 by (simp add: jobs_keyed_def)
  then have "jobs_keyed (w_db ?w2)" by simp
  from execute_session_keyed [OF this] c assms(1) d1 show ?thesis by auto
qed

lemma ui_step_keyed:
  assumes "ui_step sha fr w w'" and "jobs_keyed (w_db w)"
  shows "jobs_keyed (w_db w')"
  using assms(1)
proof cases
  case (correlated t key source eid observed payload sev r d')
  show ?thesis by (rule jobs_keyed_frame [OF assms(2)]) (use correlate_frame [OF correlated(2)] correlated(1) in \<open>simp_all add: job_keys_def\<close>)
next
  case (drafted i node iface th d')
  then show ?thesis
    by (intro jobs_keyed_frame [OF assms(2)]) (auto simp: draft_version_def insert_version_def job_keys_def Let_def split: prod.splits)
next
  case (approved dvc en c1 now2 incident_id uid r)
  then show ?thesis using approve_and_execute_keyed [OF assms(2)] by blast
next
  case (rejected incident_id uid d')
  then have "versions d' = versions (w_db w) \<and> jobs d' = jobs (w_db w)"
    using upsert_decision_frame by (fastforce simp: reject_def bindr_Inr_iff split: option.splits)
  then show ?thesis using assms(2) rejected(1) by (simp add: jobs_keyed_def job_keys_def)
next
  case (edited to_int incident_id uid digest d')
  from edited(2) obtain i rv n where "insert_version (edited_version sha fr n rv (w_db w)) (w_db w) = Inr d'" by (rule edit_plan_insert)
  then show ?thesis
    using edited(1) by (intro jobs_keyed_frame [OF assms(2)]) (auto simp: insert_version_def job_keys_def)
next
  case (executed dvc en j r)
  then show ?thesis using execute_session_keyed [OF assms(2)] by blast
next
  case (reconciled j actual s d')
  from reconciled(2) obtain ex d1 d2 bj aj where sh: "d1 = set_job_status j (fst (reconcile_status actual)) (w_db w)"
    "d2 = resolve_execution s ex d1"
    "d' = insert_audit (audit_event d2 ''executor'' ''executor'' ''execution.reconcile'' ''execution_job'' j bj aj) d2"
    by (rule reconcile_record_shape)
  have f: "versions d' = versions (w_db w)" "jobs d' = jobs d1"
    using resolve_execution_cases [of s ex d1, folded sh(2)] by (auto simp: sh(1,3) set_execution_status_def insert_audit_def)
  show ?thesis using reconciled(1) f job_keys_cong [OF f(2) [unfolded sh(1)]] by (intro jobs_keyed_frame [OF assms(2)]) simp_all
qed (use assms(2) in \<open>simp_all add: jobs_keyed_def\<close>)

lemma reachable_keyed: "ui_reachable sha fr w \<Longrightarrow> jobs_keyed (w_db w)"
proof (induction rule: ui_reachable.induct)
  case (start t dev)
  show ?case by (simp add: jobs_keyed_def job_keys_def empty_db_def)
qed (blast intro: ui_step_keyed)

section \<open>Running the approval\<close>

text \<open>The steps of a session that raises nothing.\<close>

lemma upsert_decision_ok:
  assumes "db_ok d" and "rv \<in> set (versions d)" and "length (plan_digest_col rv) \<le> 64" "length uid \<le> 64" "length dec \<le> 16"
  shows "\<exists>d'. upsert_decision dec uid rv d = Inr d'"
proof (cases "taken approval_key (approval_key (decision_row dec uid rv d)) (approvals d)")
  case False
  have "below ap_id (db_next d) (approvals d)" using assms(1) by (simp add: db_ok_def fresh_ids_def)
  then have "\<not> taken ap_id (db_next d) (approvals d)" by (rule below_not_taken)
  with False assms show ?thesis
    by (auto simp: upsert_decision_def upsert_def insert_approval_def decision_row_def guard_def varchar_def taken_def)
qed (simp add: upsert_decision_def upsert_def)

lemma upsert_job_ok:
  assumes "db_ok d" and "jobs_keyed d" and "rv \<in> set (versions d)" and "length (plan_digest_col rv) \<le> 64"
  shows "\<exists>d' jb. upsert_job rv d = Inr d' \<and> jb \<in> set (jobs d') \<and> job_version_id jb = rv_id rv \<and>
    (jb \<in> set (jobs d) \<or> jb = job_row_of rv d \<and> job_id jb = db_next d)"
proof (cases "taken idempotency_key (idempotency_key (job_row_of rv d)) (jobs d)")
  case True
  then obtain jb where jb: "jb \<in> set (jobs d)" "idempotency_key jb = ''job:'' @ plan_digest_col rv"
    by (auto simp: taken_def job_row_of_def)
  then have "(job_version_id jb, ''job:'' @ plan_digest_col rv) \<in> job_keys d" by (force simp: job_keys_def)
  then obtain rv' where rv': "rv' \<in> set (versions d)" "rv_id rv' = job_version_id jb" "plan_digest_col rv' = plan_digest_col rv"
    using assms(2) unfolding jobs_keyed_def by auto
  have "inj_on plan_digest_col (set (versions d))" using assms(1) by (simp add: db_ok_def unique_keys_def distinct_map)
  then have "rv' = rv" using rv' assms(3) by (meson inj_onD)
  moreover have "upsert_job rv d = Inr d" using True by (simp add: upsert_job_def upsert_def)
  ultimately show ?thesis using jb(1) rv'(2) by auto
next
  case False
  have v: "\<not> taken job_version_id (rv_id rv) (jobs d)"
  proof
    assume "taken job_version_id (rv_id rv) (jobs d)"
    then obtain jb where jb: "jb \<in> set (jobs d)" "job_version_id jb = rv_id rv" by (auto simp: taken_def)
    then have "(rv_id rv, idempotency_key jb) \<in> job_keys d" by (force simp: job_keys_def)
    then obtain rv' where rv': "rv' \<in> set (versions d)" "rv_id rv' = rv_id rv" "idempotency_key jb = ''job:'' @ plan_digest_col rv'"
      using assms(2) unfolding jobs_keyed_def by auto
    have "inj_on rv_id (set (versions d))" using assms(1) by (simp add: db_ok_def unique_keys_def distinct_map)
    then have "rv' = rv" using rv'(1,2) assms(3) by (meson inj_onD)
    with rv'(3) jb(1) False show False by (force simp: taken_def job_row_of_def)
  qed
  have "below job_id (db_next d) (jobs d)" using assms(1) by (simp add: db_ok_def fresh_ids_def)
  then have "\<not> taken job_id (db_next d) (jobs d)" by (rule below_not_taken)
  with False v assms(3,4) have u: "upsert_job rv d = Inr (d\<lparr>jobs := jobs d @ [job_row_of rv d], db_next := Suc (db_next d)\<rparr>)"
    by (auto simp: upsert_job_def upsert_def insert_job_def job_row_of_def guard_def varchar_def taken_def)
  have "job_version_id (job_row_of rv d) = rv_id rv" "job_id (job_row_of rv d) = db_next d" by (simp_all add: job_row_of_def)
  with u show ?thesis by (intro exI [of _ "d\<lparr>jobs := jobs d @ [job_row_of rv d], db_next := Suc (db_next d)\<rparr>"] exI [of _ "job_row_of rv d"]) simp
qed

lemma executed_below: "db_ok d \<Longrightarrow> \<not> taken ex_job_id (db_next d) (executions d)"
proof -
  assume "db_ok d"
  then have "set (map ex_job_id (executions d)) \<subseteq> set (map job_id (jobs d))" "below job_id (db_next d) (jobs d)"
    by (simp_all add: db_ok_def foreign_keys_def fresh_ids_def)
  then show ?thesis unfolding taken_def below_def by force
qed

lemma exec_check_ok:
  assumes "db_ok d" and "jb \<in> set (jobs d)" and "job_version_id jb = rv_id rv" and "rv \<in> set (versions d)"
    and "\<not> taken ex_job_id (job_id jb) (executions d)"
    and "latest_approval d (rv_id rv) = Some a" and "ap_plan_digest a = plan_digest_col rv"
    and "allowlisted (plan_json rv)" and "dict_get (plan_json rv) ''node'' = Some node" "dict_get (plan_json rv) ''interface'' = Some iface"
  shows "exec_check d (job_id jb) = Inr (Ready node iface (JStr ''enable''))"
proof -
  have u: "distinct (map job_id (jobs d))" "distinct (map rv_id (versions d))" using assms(1) by (simp_all add: db_ok_def unique_keys_def)
  have "job_by_id d (job_id jb) = Inr jb" using filter_unique [OF u(1) assms(2)] by (simp add: job_by_id_def)
  moreover have "version_by_id d (job_version_id jb) = Inr rv" using filter_unique [OF u(2) assms(4)] by (simp add: version_by_id_def assms(3))
  moreover have "execution_of_job d (job_id jb) = Inr None"
    using assms(5) by (force simp: execution_of_job_def taken_def filter_empty_conv)
  moreover have "precheck d rv = Inr (plan_json rv)"
    using assms(6-8) latest_approval_Some [OF assms(6)] by (simp add: precheck_Inr_iff approval_authorizes_plan_def)
  ultimately show ?thesis
    using assms(8-10) by (simp add: exec_check_def dict_index_def allowlisted_def)
qed

lemma exec_record_ok:
  assumes "db_ok d" and "taken job_id j (jobs d)" and "\<not> taken ex_job_id j (executions d)" and "flush_execution_ok en"
  shows "\<exists>d'. exec_record en j before ''up'' d = Inr (''succeeded'', d')"
proof -
  have b: "below ex_id (db_next d) (executions d)" "below rc_id (db_next d) (recovery_checks d)"
    using assms(1) by (simp_all add: db_ok_def fresh_ids_def)
  have n: "\<not> taken ex_id (db_next d) (executions d)" "\<not> taken rc_id (Suc (db_next d)) (recovery_checks d)"
    using below_not_taken [OF b(1)] below_not_taken [OF below_Suc [OF b(2)]] by simp_all
  have c: "classify ''up'' = (''succeeded'', None)" by (simp add: classify_def)
  have t: "taken ex_id (db_next d) (executions d @ [x])" if "ex_id x = db_next d" for x using that by (simp add: taken_def)
  show ?thesis
    using assms(2-4) n by (simp add: exec_record_def c insert_execution_def insert_check_def guard_def t Let_def)
qed

section \<open>Properties\<close>

text \<open>C4: Approving works: in every reachable state, if the latest plan of an incident is allowlisted and names a node
  and an interface, no job of that version has an execution, the approver has not decided otherwise
  before, the values fit their columns and the database accepts the writes, and the device answers
  the two reads and the change, the second reading being \<open>up\<close>, then \<open>approve_and_execute\<close> succeeds: it
  returns \<open>succeeded\<close>, has enabled exactly the interface of the plan, and the execution is recorded and
  its job completed. Earlier approvals, and jobs left over by attempts that failed before an
  execution was recorded, do not prevent it.\<close>

theorem approval_executes:
  assumes "ui_reachable sha fr w" and "latest_version (w_db w) i = Some rv" and "allowlisted (plan_json rv)"
    and "dict_get (plan_json rv) ''node'' = Some node" and "dict_get (plan_json rv) ''interface'' = Some iface"
    and "\<forall>jb \<in> set (jobs (w_db w)). job_version_id jb = rv_id rv \<longrightarrow> \<not> taken ex_job_id (job_id jb) (executions (w_db w))"
    and "\<forall>a \<in> set (approvals (w_db w)). ap_version_id a = rv_id rv \<and> ap_user_id a = uid \<longrightarrow> decision a = ''approve''"
    and "length (plan_digest_col rv) \<le> 64" and "length uid \<le> 64"
    and "flush_intent_ok en" "flush_execution_ok en" "commit_ok en"
    and "get_oper_state dvc (w_dev w) node iface = (Inr before, s1)" "set_admin_state dvc s1 node iface (JStr ''enable'') = (Inr (), s2)"
      "get_oper_state dvc s2 node iface = (Inr ''up'', s3)"
  shows "\<exists>w' j. approve_and_execute dvc en True now2 (show_nat i) uid w = (Inr ''succeeded'', w') \<and> w_dev w' = s3 \<and>
    w_trace w' = w_trace w @ [IntentFlushed j, DeviceSet node iface (JStr ''enable'')] \<and>
    (\<exists>x \<in> set (executions (w_db w')). ex_job_id x = j \<and> ex_status x = ''succeeded'') \<and>
    (\<exists>jb \<in> set (jobs (w_db w')). job_id jb = j \<and> job_version_id jb = rv_id rv \<and> job_status jb = ''completed'')"
proof -
  let ?d = "w_db w"
  have inv: "db_inv sha fr ?d" using reachable_inv [OF assms(1)] by (simp add: ui_inv_def)
  have keyed: "jobs_keyed ?d" by (rule reachable_keyed [OF assms(1)])
  have rv: "rv \<in> set (versions ?d)" using latest_version_in [OF assms(2)] by simp
  have ok: "db_ok ?d" using inv by (simp add: db_inv_def incidents_ok_def)
  obtain d1 where u1: "upsert_decision ''approve'' uid rv ?d = Inr d1"
    using upsert_decision_ok [OF ok rv assms(8,9), of "''approve''"] by auto
  note f1 = upsert_decision_frame [OF u1]
  have inv1: "db_inv sha fr d1" using upsert_decision_db_inv [OF inv u1 rv] by simp
  then have ok1: "db_ok d1" by (simp add: db_inv_def incidents_ok_def)
  have keyed1: "jobs_keyed d1" using keyed f1 by (simp add: jobs_keyed_def job_keys_def)
  obtain d2 jb where u2: "upsert_job rv d1 = Inr d2" and jb: "jb \<in> set (jobs d2)" "job_version_id jb = rv_id rv"
    and jbn: "jb \<in> set (jobs d1) \<or> jb = job_row_of rv d1 \<and> job_id jb = db_next d1"
    using upsert_job_ok [OF ok1 keyed1, of rv] rv f1 assms(8) by auto
  note f2 = upsert_job_frame [OF u2]
  have inv2: "db_inv sha fr d2" using upsert_job_db_inv [OF inv1 u2] by simp
  let ?d3 = "d2\<lparr>db_now := now2\<rparr>"
  have inv3: "db_inv sha fr ?d3" using inv2 by simp
  have ok2: "db_ok d2" and ok3: "db_ok ?d3" using inv2 inv3 by (simp_all only: db_inv_def incidents_ok_def)
  have txn: "approve_txn i uid ?d = Inr (rv, d2)" by (simp add: approve_txn_def assms(2) u1 u2)
  have "\<exists>a \<in> set (approvals d2). ap_version_id a = rv_id rv \<and> decision a = ''approve''"
  proof -
    obtain a where a: "a \<in> set (approvals d1)" "ap_version_id a = rv_id rv" "ap_user_id a = uid"
      using f1 by (auto simp: taken_def approval_key_def)
    have r: "decision (decision_row ''approve'' uid rv ?d) = ''approve''" by (simp add: decision_row_def)
    have "d1 = ?d \<or> approvals d1 = approvals ?d @ [decision_row ''approve'' uid rv ?d]" using f1 by blast
    with a(1) r have "a \<in> set (approvals ?d) \<or> decision a = ''approve''" by auto
    with a assms(7) f2 show ?thesis by auto
  qed
  then obtain a where ap: "latest_approval d2 (rv_id rv) = Some a" using no_approve_row [of d2 "rv_id rv"] by auto
  have dg: "ap_plan_digest a = plan_digest_col rv"
    using inv2 latest_approval_Some [OF ap] rv f1 f2 by (auto simp: db_inv_def approvals_bound_def)
  have job: "job_of_version d2 (rv_id rv) = Some jb"
    using filter_unique [of job_version_id "jobs d2" jb] jb ok2 by (simp add: job_of_version_def first_row_def db_ok_def unique_keys_def)
  have ex: "\<not> taken ex_job_id (job_id jb) (executions d2)"
  proof (cases "jb \<in> set (jobs ?d)")
    case True
    with assms(6) jb(2) f1 f2 show ?thesis by simp
  next
    case False
    then have "job_id jb = db_next d1" using jbn f1 by auto
    then show ?thesis using executed_below [OF ok1] f2 by simp
  qed
  let ?w = "w\<lparr>w_db := ?d3\<rparr>" and ?j = "job_id jb"
  have chk: "exec_check ?d3 ?j = Inr (Ready node iface (JStr ''enable''))"
    by (rule exec_check_ok [OF ok3]) (use jb rv f1 f2 ex ap dg assms(3-5) in \<open>simp_all add: latest_approval_def\<close>)
  let ?di = "intent_db ?j before (JStr ''enable'') ?d3"
  have "map job_id (jobs ?di) = map job_id (jobs d2)" by simp
  then have "taken job_id ?j (jobs ?di)" using jb(1) unfolding taken_def by force
  from exec_record_ok [OF intent_db_ok [OF ok3] this] ex assms(11)
  obtain d4 where rec: "exec_record en ?j before ''up'' ?di = Inr (''succeeded'', d4)" by auto
  let ?w' = "w\<lparr>w_db := d4, w_dev := s3, w_trace := w_trace w @ [IntentFlushed ?j, DeviceSet node iface (JStr ''enable'')]\<rparr>"
  have "execute_job dvc en ?j ?w = (Inr ''succeeded'', ?w')"
    by (simp add: execute_job_def chk exec_apply_def exec_mutate_def assms(10,13-15) rec Let_def)
  then have run: "approve_and_execute dvc en True now2 (show_nat i) uid w = (Inr ''succeeded'', ?w')"
    using assms(12) latest_approval_Some [OF ap]
    by (simp add: approve_and_execute_def txn ap job dg guard_execution_def approval_authorizes_plan_def execute_session_def Let_def)
  have "\<exists>x \<in> set (executions d4). ex_job_id x = ?j \<and> ex_status x = ''succeeded''" using exec_record_Inr(3) [OF rec] by auto
  moreover have "\<exists>jb' \<in> set (jobs d4). job_id jb' = ?j \<and> job_version_id jb' = rv_id rv \<and> job_status jb' = ''completed''"
    unfolding exec_record_Inr(2) [OF rec] jobs_set_status_intent
    by (rule bexI [of _ "jb\<lparr>job_status := ''completed'', job_updated_at := now2\<rparr>"]) (use jb in \<open>auto simp: set_job_status_def\<close>)
  ultimately show ?thesis using run by (intro exI [of _ ?w'] exI [of _ ?j]) auto
qed

theorem approval_executes_witness:
  "\<exists>w'. approve_and_execute demo_device all_ok True 9 (show_nat 0) ''bob'' seed_world = (Inr ''succeeded'', w') \<and> w_dev w' = ''up''"
proof -
  have a: "latest_version (w_db seed_world) 0 = Some demo_version" by code_simp
  have c: "dict_get (plan_json demo_version) ''node'' = Some (JStr ''leaf1'')"
    "dict_get (plan_json demo_version) ''interface'' = Some (JStr ''ethernet-1/49'')" by code_simp+
  have "dict_get (plan_json demo_version) ''action'' = Some (JStr ''set_admin_state'')" "dict_get (plan_json demo_version) ''value'' = Some (JStr ''enable'')"
    by code_simp+
  with c have b: "allowlisted (plan_json demo_version)" by (simp add: allowlisted_def)
  have e: "jobs (w_db seed_world) = []" "approvals (w_db seed_world) = []" by code_simp+
  have l: "length (plan_digest_col demo_version) \<le> 64" "length ''bob'' \<le> 64" by code_simp+
  have en: "flush_intent_ok all_ok" "flush_execution_ok all_ok" "commit_ok all_ok" by code_simp+
  have dv: "get_oper_state demo_device (w_dev seed_world) (JStr ''leaf1'') (JStr ''ethernet-1/49'') = (Inr ''down'', ''down'')"
    "set_admin_state demo_device ''down'' (JStr ''leaf1'') (JStr ''ethernet-1/49'') (JStr ''enable'') = (Inr (), ''up'')"
    "get_oper_state demo_device ''up'' (JStr ''leaf1'') (JStr ''ethernet-1/49'') = (Inr ''up'', ''up'')" by code_simp+
  show ?thesis using approval_executes [OF seed_reachable a b c _ _ l en dv] e by auto
qed

end
