(* ===== verification/Plan.thy ===== *)
theory Plan
  imports PyJson
begin

text \<open>
  The immutable remediation plan of \<open>executor/plan.py\<close>: a frozen dataclass whose digest is the
  SHA-256 of its canonical JSON. \<open>sha\<close> is \<open>lambda s: hashlib.sha256(s.encode()).hexdigest()\<close>; the
  theorems that need it assume only that the two texts at hand do not collide.
\<close>

record action =
  act_action :: string
  act_node :: string
  act_interface :: string
  act_value :: string

record plan =
  pl_incident_id :: string
  pl_version :: int
  pl_actions :: "action list"
  pl_topology_hash :: string
  pl_preconditions :: "string list"
  pl_postconditions :: "string list"
  pl_recovery_predicate :: string
  pl_rollback :: "action list"
  pl_risk_class :: string
  pl_provenance :: "(string, string) dict"

text \<open>\<open>dataclasses.asdict\<close>, tuples becoming JSON arrays.\<close>

definition action_json :: "action \<Rightarrow> json" where
  "action_json a = JObj
     [(''action'', JStr (act_action a)), (''node'', JStr (act_node a)),
      (''interface'', JStr (act_interface a)), (''value'', JStr (act_value a))]"

definition plan_fields :: "plan \<Rightarrow> (string \<times> json) list" where
  "plan_fields p =
     [(''incident_id'', JStr (pl_incident_id p)),
      (''plan_version'', JInt (pl_version p)),
      (''actions'', JArr (map action_json (pl_actions p))),
      (''topology_hash'', JStr (pl_topology_hash p)),
      (''preconditions'', JArr (map JStr (pl_preconditions p))),
      (''postconditions'', JArr (map JStr (pl_postconditions p))),
      (''recovery_predicate'', JStr (pl_recovery_predicate p)),
      (''rollback'', JArr (map action_json (pl_rollback p))),
      (''risk_class'', JStr (pl_risk_class p)),
      (''provenance'', JObj (map (\<lambda>(k, v). (k, JStr v)) (pl_provenance p)))]"

definition plan_payload :: "(pyfloat \<Rightarrow> string) \<Rightarrow> plan \<Rightarrow> string" where
  "plan_payload fr p = dumps_sorted fr (JObj (plan_fields p))"

definition digest :: "(string \<Rightarrow> string) \<Rightarrow> (pyfloat \<Rightarrow> string) \<Rightarrow> plan \<Rightarrow> string" where
  "digest sha fr p = sha (plan_payload fr p)"

text \<open>Plans that differ at most in the insertion order of the provenance dictionary.\<close>

definition same_plan :: "plan \<Rightarrow> plan \<Rightarrow> bool" where
  "same_plan p q \<longleftrightarrow>
     p = q\<lparr>pl_provenance := pl_provenance p\<rparr> \<and>
     map_of (pl_provenance p) = map_of (pl_provenance q)"

section \<open>The canonical text determines the plan\<close>

lemma prov_keys: "map fst (map (\<lambda>(k, v). (k, JStr v)) ps) = map fst ps"
  by auto

lemma wf_plan:
  assumes "distinct (map fst (pl_provenance p))"
  shows "wf_json (JObj (plan_fields p))"
proof -
  have "wf_json (JObj (map (\<lambda>(k, v). (k, JStr v)) (pl_provenance p)))"
    using assms by (simp only: wf_json.simps prov_keys) auto
  then show ?thesis
    by (simp add: plan_fields_def action_json_def)
qed

lemma no_float_plan: "no_float (JObj (plan_fields p))"
  by (auto simp: plan_fields_def action_json_def)

lemma plan_field_keys: "map fst (plan_fields p) = map fst (plan_fields q)"
  by (simp add: plan_fields_def)

lemma canon_action_inj:
  assumes "canon (action_json a) = canon (action_json b)"
  shows "a = b"
proof -
  have "distinct (map fst [(''action'', x), (''node'', y), (''interface'', z), (''value'', w)])" for x y z w :: json
    by simp
  then show ?thesis
    using canon_JObj_get [OF assms [unfolded action_json_def], of "''action''"]
      canon_JObj_get [OF assms [unfolded action_json_def], of "''node''"]
      canon_JObj_get [OF assms [unfolded action_json_def], of "''interface''"]
      canon_JObj_get [OF assms [unfolded action_json_def], of "''value''"]
    by simp
qed

lemma map_inj_canon: "(\<And>x y. canon (f x) = canon (f y) \<Longrightarrow> x = y) \<Longrightarrow> map (canon \<circ> f) xs = map (canon \<circ> f) ys \<Longrightarrow> xs = ys"
  by (rule map_injective [of "canon \<circ> f"]) (auto simp: inj_def)

lemma canon_plan_same:
  assumes dp: "distinct (map fst (pl_provenance p))" and dq: "distinct (map fst (pl_provenance q))"
    and eq: "canon (JObj (plan_fields p)) = canon (JObj (plan_fields q))"
  shows "same_plan p q"
proof -
  have d: "distinct (map fst (plan_fields r))" for r by (simp add: plan_fields_def)
  note get = canon_JObj_get [OF eq d d]
  have "pl_actions p = pl_actions q"
    using get [of "''actions''"] by (auto simp: plan_fields_def intro: map_inj_canon canon_action_inj)
  moreover have "pl_rollback p = pl_rollback q"
    using get [of "''rollback''"] by (auto simp: plan_fields_def intro: map_inj_canon canon_action_inj)
  moreover have "pl_preconditions p = pl_preconditions q" "pl_postconditions p = pl_postconditions q"
    using get [of "''preconditions''"] get [of "''postconditions''"]
    by (auto simp: plan_fields_def intro!: map_inj_canon [of JStr])
  moreover have "pl_incident_id p = pl_incident_id q" "pl_version p = pl_version q"
    "pl_topology_hash p = pl_topology_hash q" "pl_recovery_predicate p = pl_recovery_predicate q"
    "pl_risk_class p = pl_risk_class q"
    using get [of "''incident_id''"] get [of "''plan_version''"] get [of "''topology_hash''"]
      get [of "''recovery_predicate''"] get [of "''risk_class''"]
    by (simp_all add: plan_fields_def)
  moreover have "map_of (pl_provenance p) = map_of (pl_provenance q)"
  proof
    fix k
    let ?f = "map (\<lambda>(k, v). (k, JStr v))"
    have c: "canon (JObj (?f (pl_provenance p))) = canon (JObj (?f (pl_provenance q)))"
      using get [of "''provenance''"] by (simp add: plan_fields_def)
    have "map_option canon (map_of (?f (pl_provenance p)) k) = map_option canon (map_of (?f (pl_provenance q)) k)"
      by (rule canon_JObj_get [OF c]) (simp_all only: prov_keys dp dq)
    then show "map_of (pl_provenance p) k = map_of (pl_provenance q) k"
      by (simp add: map_of_map option.map_comp comp_def)
        (metis (no_types, lifting) json.inject(4) option.inj_map_strong canon.simps(7))
  qed
  ultimately show ?thesis by (simp add: same_plan_def)
qed

lemma plan_payload_same:
  assumes "distinct (map fst (pl_provenance p))" and "distinct (map fst (pl_provenance q))"
    and "plan_payload fr p = plan_payload fr q"
  shows "same_plan p q"
  using dumps_sorted_inj_no_float [OF no_float_plan no_float_plan wf_plan wf_plan] assms canon_plan_same
  unfolding plan_payload_def by blast

text \<open>C14: The digest covers every field of the plan. Two plans with the same digest are the same plan,
  up to the insertion order of the provenance dictionary, unless SHA-256 collides on their two
  canonical texts; so any edit of a plan gets a new digest.
\<close>

theorem digest_covers_every_field:
  assumes "distinct (map fst (pl_provenance p))" and "distinct (map fst (pl_provenance q))"
    and "sha (plan_payload fr p) = sha (plan_payload fr q) \<Longrightarrow> plan_payload fr p = plan_payload fr q"
    and "digest sha fr p = digest sha fr q"
  shows "same_plan p q"
  using assms plan_payload_same unfolding digest_def by blast

theorem digest_covers_every_field_witness:
  "same_plan
     \<lparr>pl_incident_id = ''i'', pl_version = 1, pl_actions = [], pl_topology_hash = ''t'', pl_preconditions = [],
      pl_postconditions = [], pl_recovery_predicate = ''r'', pl_rollback = [], pl_risk_class = ''low'',
      pl_provenance = [(''b'', ''2''), (''a'', ''1'')]\<rparr>
     \<lparr>pl_incident_id = ''i'', pl_version = 1, pl_actions = [], pl_topology_hash = ''t'', pl_preconditions = [],
      pl_postconditions = [], pl_recovery_predicate = ''r'', pl_rollback = [], pl_risk_class = ''low'',
      pl_provenance = [(''a'', ''1''), (''b'', ''2'')]\<rparr>"
  by (rule digest_covers_every_field [where sha = "\<lambda>s. s" and fr = frac_repr])
    (simp, simp, simp, simp add: digest_def plan_payload_def dumps_sorted_def plan_fields_def)

end
