(* ===== verification/Prechecks.thy ===== *)
theory Prechecks
  imports Plan
begin

text \<open>
  The mandatory prechecks of \<open>executor/prechecks.py\<close>: thirteen named checks of a plan against a
  context of environment facts, in a fixed order, and the fail-closed verdict \<open>executable\<close>.
\<close>

record precheck_context =
  approved_digest :: "string option"
  approved_version :: "int option"
  current_topology_hash :: string
  telemetry_fresh :: bool
  allowed_actions :: "string set"
  allowed_values :: "string set"
  competing_execution :: bool
  alternate_path_healthy :: bool
  capacity_headroom_ok :: bool
  would_remove_final_path :: bool
  audit_writable :: bool
  db_writable :: bool

record precheck_result =
  pr_name :: string
  pr_ok :: bool
  pr_detail :: string

definition check :: "string \<Rightarrow> bool \<Rightarrow> string \<Rightarrow> precheck_result" where
  "check n ok detail = \<lparr>pr_name = n, pr_ok = ok, pr_detail = (if \<not> ok then detail else [])\<rparr>"

lemma check_sel [simp]: "pr_name (check n ok d) = n" "pr_ok (check n ok d) = ok"
  by (simp_all add: check_def)

definition run_prechecks ::
    "(string \<Rightarrow> string) \<Rightarrow> (pyfloat \<Rightarrow> string) \<Rightarrow> plan \<Rightarrow> precheck_context \<Rightarrow> precheck_result list" where
  "run_prechecks sha fr plan ctx =
     (let dg = digest sha fr plan;
          allow_ok = (pl_actions plan \<noteq> [] \<and>
            list_all (\<lambda>a. act_action a \<in> allowed_actions ctx \<and> act_value a \<in> allowed_values ctx) (pl_actions plan))
      in
      [check ''approval_valid_for_digest_and_version''
         (approved_digest ctx = Some dg \<and> approved_version ctx = Some (pl_version plan))
         ''no approval for this exact plan digest/version (edited or unapproved)'',
       check ''no_topology_drift'' (current_topology_hash ctx = pl_topology_hash plan)
         ''topology/config drifted since the plan was built'',
       check ''telemetry_fresh_and_complete'' (telemetry_fresh ctx) ''telemetry stale or incomplete'',
       check ''actions_and_params_allowlisted'' allow_ok ''an action/parameter is not allow-listed'',
       check ''target_not_management_interface''
         (list_all (\<lambda>a. \<not> startswith (act_interface a) ''mgmt'') (pl_actions plan))
         ''a target is a management interface'',
       check ''no_competing_execution'' (\<not> competing_execution ctx) ''a competing execution is in flight'',
       check ''alternate_path_healthy'' (alternate_path_healthy ctx) ''no healthy alternate path'',
       check ''capacity_above_headroom'' (capacity_headroom_ok ctx) ''capacity below configured headroom'',
       check ''keeps_final_usable_path'' (\<not> would_remove_final_path ctx)
         ''change would remove the final usable path'',
       check ''audit_writable'' (audit_writable ctx) ''audit store not writable'',
       check ''database_writable'' (db_writable ctx) ''database not writable'',
       check ''recovery_predicate_defined'' (pl_recovery_predicate plan \<noteq> []) ''no recovery predicate'',
       check ''rollback_defined'' (length (pl_rollback plan) > 0) ''no captured rollback procedure''])"

definition executable :: "precheck_result list \<Rightarrow> bool" where
  "executable results \<longleftrightarrow> results \<noteq> [] \<and> list_all pr_ok results"

definition failures :: "precheck_result list \<Rightarrow> string list" where
  "failures results = map pr_name (filter (\<lambda>r. \<not> pr_ok r) results)"

lemma executable_iff_no_failures: "results \<noteq> [] \<Longrightarrow> executable results \<longleftrightarrow> failures results = []"
  by (auto simp: executable_def failures_def list_all_iff filter_empty_conv)

text \<open>What a plan must satisfy in its context: the contract the suite implements.\<close>

definition safe_to_execute ::
    "(string \<Rightarrow> string) \<Rightarrow> (pyfloat \<Rightarrow> string) \<Rightarrow> plan \<Rightarrow> precheck_context \<Rightarrow> bool" where
  "safe_to_execute sha fr plan ctx \<longleftrightarrow>
     approved_digest ctx = Some (digest sha fr plan) \<and> approved_version ctx = Some (pl_version plan) \<and>
     current_topology_hash ctx = pl_topology_hash plan \<and> telemetry_fresh ctx \<and>
     pl_actions plan \<noteq> [] \<and>
     (\<forall>a \<in> set (pl_actions plan). act_action a \<in> allowed_actions ctx \<and>
        act_value a \<in> allowed_values ctx \<and> \<not> prefix ''mgmt'' (act_interface a)) \<and>
     \<not> competing_execution ctx \<and> alternate_path_healthy ctx \<and> capacity_headroom_ok ctx \<and>
     \<not> would_remove_final_path ctx \<and> audit_writable ctx \<and> db_writable ctx \<and>
     pl_recovery_predicate plan \<noteq> [] \<and> pl_rollback plan \<noteq> []"

lemma executable_run_prechecks:
  "executable (run_prechecks sha fr plan ctx) \<longleftrightarrow> safe_to_execute sha fr plan ctx"
  unfolding run_prechecks_def executable_def safe_to_execute_def Let_def
  by (auto simp: list_all_iff startswith_prefix)

text \<open>The precheck suite fails closed. The verdict on its results is exactly the conjunction of
  the approval binding, drift, telemetry, allowlist, management-interface, competition, path,
  capacity, audit, database, recovery and rollback conditions, each failing check is reported by
  name, and the order and number of the checks do not depend on the plan.
\<close>

theorem prechecks_fail_closed:
  "(executable (run_prechecks sha fr plan ctx) \<longleftrightarrow> safe_to_execute sha fr plan ctx) \<and>
   (failures (run_prechecks sha fr plan ctx) = [] \<longleftrightarrow> safe_to_execute sha fr plan ctx) \<and>
   map pr_name (run_prechecks sha fr plan ctx) = map pr_name (run_prechecks sha fr plan' ctx')"
proof (intro conjI)
  have "run_prechecks sha fr plan ctx \<noteq> []" by (simp add: run_prechecks_def Let_def)
  then show "failures (run_prechecks sha fr plan ctx) = [] \<longleftrightarrow> safe_to_execute sha fr plan ctx"
    using executable_iff_no_failures executable_run_prechecks by blast
  show "executable (run_prechecks sha fr plan ctx) \<longleftrightarrow> safe_to_execute sha fr plan ctx"
    by (rule executable_run_prechecks)
qed (simp add: run_prechecks_def Let_def)

text \<open>An edited plan fails closed. Where the approval names the digest of \<open>p\<close> and \<open>q\<close> is not the same
  plan as \<open>p\<close>, the suite refuses \<open>q\<close> and names the approval check, unless SHA-256 collides on the
  two canonical texts.
\<close>

theorem edited_plan_refused:
  assumes "distinct (map fst (pl_provenance p))" and "distinct (map fst (pl_provenance q))"
    and "sha (plan_payload fr p) = sha (plan_payload fr q) \<Longrightarrow> plan_payload fr p = plan_payload fr q"
    and "approved_digest ctx = Some (digest sha fr p)" and "\<not> same_plan p q"
  shows "\<not> executable (run_prechecks sha fr q ctx) \<and>
    ''approval_valid_for_digest_and_version'' \<in> set (failures (run_prechecks sha fr q ctx))"
proof -
  have "digest sha fr p \<noteq> digest sha fr q"
    using assms plan_payload_same unfolding digest_def by blast
  then show ?thesis
    using assms(4) by (simp add: executable_run_prechecks safe_to_execute_def run_prechecks_def failures_def
      executable_def Let_def)
qed

definition demo_plan :: plan where
  "demo_plan = \<lparr>pl_incident_id = ''inc-1'', pl_version = 1,
     pl_actions = [\<lparr>act_action = ''set_admin_state'', act_node = ''leaf1'',
       act_interface = ''ethernet-1/1'', act_value = ''enable''\<rparr>],
     pl_topology_hash = ''topo'', pl_preconditions = [''no_drift''], pl_postconditions = [''oper_up''],
     pl_recovery_predicate = ''oper_state_up'',
     pl_rollback = [\<lparr>act_action = ''set_admin_state'', act_node = ''leaf1'',
       act_interface = ''ethernet-1/1'', act_value = ''disable''\<rparr>],
     pl_risk_class = ''low'', pl_provenance = [(''run'', ''r1''), (''model'', ''m1'')]\<rparr>"

definition demo_context :: precheck_context where
  "demo_context = \<lparr>approved_digest = Some (digest (\<lambda>s. s) frac_repr demo_plan), approved_version = Some 1,
     current_topology_hash = ''topo'', telemetry_fresh = True, allowed_actions = {''set_admin_state''},
     allowed_values = {''enable''}, competing_execution = False, alternate_path_healthy = True,
     capacity_headroom_ok = True, would_remove_final_path = False, audit_writable = True, db_writable = True\<rparr>"

theorem edited_plan_refused_witness:
  "\<not> executable (run_prechecks (\<lambda>s. s) frac_repr (demo_plan\<lparr>pl_risk_class := ''high''\<rparr>) demo_context) \<and>
    ''approval_valid_for_digest_and_version'' \<in>
      set (failures (run_prechecks (\<lambda>s. s) frac_repr (demo_plan\<lparr>pl_risk_class := ''high''\<rparr>) demo_context))"
  by (rule edited_plan_refused [of demo_plan])
    (auto simp: demo_plan_def demo_context_def same_plan_def)

lemma demo_plan_executable: "executable (run_prechecks (\<lambda>s. s) frac_repr demo_plan demo_context)"
  by (simp add: executable_run_prechecks safe_to_execute_def demo_plan_def demo_context_def)

end
