(* ===== verification/Rollback.thy ===== *)
theory Rollback
  imports Plan
begin

text \<open>
  The rollback state machine of \<open>executor/rollback.py\<close>. The actuator and the precondition test are
  injected: both act on a state \<open>'s\<close> and may raise. The loop re-checks the preconditions before every
  step, applies the step, verifies it by read-back, and stops at the first step that is not safe.
\<close>

definition ROLLED_BACK :: string where "ROLLED_BACK = ''rolled_back''"
definition HALTED :: string where "HALTED = ''halted_operator_required''"
definition NOT_NEEDED :: string where "NOT_NEEDED = ''not_needed''"

lemmas rollback_statuses = ROLLED_BACK_def HALTED_def NOT_NEEDED_def

record 's actuator =
  act_apply :: "'s \<Rightarrow> action \<Rightarrow> unit res \<times> 's"
  act_verify :: "'s \<Rightarrow> action \<Rightarrow> bool res \<times> 's"

record rollback_outcome =
  ro_status :: string
  steps_reverted :: nat
  ro_reason :: "string option"

definition outcome :: "string \<Rightarrow> nat \<Rightarrow> string option \<Rightarrow> rollback_outcome" where
  "outcome s n r = \<lparr>ro_status = s, steps_reverted = n, ro_reason = r\<rparr>"

lemma outcome_sel [simp]:
  "ro_status (outcome s n r) = s" "steps_reverted (outcome s n r) = n" "ro_reason (outcome s n r) = r"
  by (simp_all add: outcome_def)

text \<open>
  The loop over the steps to revert. An exception of \<open>actuator.apply\<close> is caught and halts; one of
  \<open>preconditions_hold\<close> or \<open>actuator.verify\<close> is not caught by the code and leaves the function.
\<close>

fun rollback_loop ::
    "'s actuator \<Rightarrow> ('s \<Rightarrow> bool res \<times> 's) \<Rightarrow> action list \<Rightarrow> nat \<Rightarrow> 's \<Rightarrow> rollback_outcome res \<times> 's" where
  "rollback_loop a pre [] n s = (Inr (outcome ROLLED_BACK n None), s)"
| "rollback_loop a pre (x # xs) n s =
     (case pre s of
        (Inl e, s1) \<Rightarrow> (Inl e, s1)
      | (Inr ok, s1) \<Rightarrow>
          if \<not> ok then (Inr (outcome HALTED n (Some ''rollback preconditions no longer hold'')), s1)
          else
            (case act_apply a s1 x of
               (Inl e, s2) \<Rightarrow> (Inr (outcome HALTED n (Some ''rollback step raised'')), s2)
             | (Inr u, s2) \<Rightarrow>
                 (case act_verify a s2 x of
                    (Inl e, s3) \<Rightarrow> (Inl e, s3)
                  | (Inr v, s3) \<Rightarrow>
                      if \<not> v then (Inr (outcome HALTED n (Some ''rollback step failed read-back'')), s3)
                      else rollback_loop a pre xs (Suc n) s3)))"

definition rollback ::
    "int \<Rightarrow> action list \<Rightarrow> 's actuator \<Rightarrow> ('s \<Rightarrow> bool res \<times> 's) \<Rightarrow> 's \<Rightarrow> rollback_outcome res \<times> 's" where
  "rollback completed_steps rollback_actions a pre s =
     (if completed_steps \<le> 0 then (Inr (outcome NOT_NEEDED 0 (Some ''no completed steps to reverse'')), s)
      else rollback_loop a pre (rev (take (nat completed_steps) rollback_actions)) 0 s)"

section \<open>One step and runs of steps\<close>

text \<open>A step from \<open>s\<close> that passes its precondition, its application and its read-back.\<close>

definition step_ok :: "'s actuator \<Rightarrow> ('s \<Rightarrow> bool res \<times> 's) \<Rightarrow> action \<Rightarrow> 's \<Rightarrow> 's option" where
  "step_ok a pre x s =
     (case pre s of (Inr True, s1) \<Rightarrow>
        (case act_apply a s1 x of (Inr _, s2) \<Rightarrow>
           (case act_verify a s2 x of (Inr True, s3) \<Rightarrow> Some s3 | _ \<Rightarrow> None)
         | _ \<Rightarrow> None)
      | _ \<Rightarrow> None)"

fun steps_ok :: "'s actuator \<Rightarrow> ('s \<Rightarrow> bool res \<times> 's) \<Rightarrow> action list \<Rightarrow> 's \<Rightarrow> 's option" where
  "steps_ok a pre [] s = Some s"
| "steps_ok a pre (x # xs) s = (case step_ok a pre x s of None \<Rightarrow> None | Some t \<Rightarrow> steps_ok a pre xs t)"

lemma loop_step:
  "step_ok a pre x s = Some t \<Longrightarrow> rollback_loop a pre (x # xs) n s = rollback_loop a pre xs (Suc n) t"
  by (auto simp: step_ok_def split: prod.splits sum.splits bool.splits)

lemma loop_stop:
  assumes "step_ok a pre x s = None"
  shows "(\<exists>e. fst (rollback_loop a pre (x # xs) n s) = Inl e) \<or>
    (\<exists>r. fst (rollback_loop a pre (x # xs) n s) = Inr (outcome HALTED n (Some r)))"
  using assms by (auto simp: step_ok_def split: prod.splits sum.splits bool.splits)

lemma loop_rolled_back:
  "rollback_loop a pre xs n s = (Inr r, t) \<Longrightarrow> ro_status r = ROLLED_BACK \<Longrightarrow>
     steps_ok a pre xs s = Some t \<and> steps_reverted r = n + length xs"
proof (induction xs arbitrary: n s)
  case (Cons x xs)
  show ?case
  proof (cases "step_ok a pre x s")
    case None
    from loop_stop [OF None, of xs n] Cons.prems show ?thesis
      by (auto simp: rollback_statuses)
  next
    case (Some s')
    with Cons show ?thesis by (simp add: loop_step del: rollback_loop.simps)
  qed
qed auto

lemma loop_all_ok: "steps_ok a pre xs s = Some t \<Longrightarrow>
    rollback_loop a pre xs n s = (Inr (outcome ROLLED_BACK (n + length xs) None), t)"
  by (induction xs arbitrary: n s) (auto simp: loop_step simp del: rollback_loop.simps(2) split: option.splits)

lemma loop_halted:
  "rollback_loop a pre xs n s = (Inr r, t) \<Longrightarrow> ro_status r = HALTED \<Longrightarrow>
     \<exists>ys x zs s'. xs = ys @ x # zs \<and> steps_ok a pre ys s = Some s' \<and> step_ok a pre x s' = None \<and>
       steps_reverted r = n + length ys \<and> ro_reason r \<noteq> None"
proof (induction xs arbitrary: n s)
  case (Cons x xs)
  show ?case
  proof (cases "step_ok a pre x s")
    case None
    from loop_stop [OF None, of xs n] Cons.prems have "steps_reverted r = n" "ro_reason r \<noteq> None"
      by auto
    with None show ?thesis by (intro exI [of _ "[]"]) auto
  next
    case (Some s')
    with Cons.prems have "rollback_loop a pre xs (Suc n) s' = (Inr r, t)"
      by (simp add: loop_step del: rollback_loop.simps)
    from Cons.IH [OF this Cons.prems(2)] obtain ys y zs s'' where
      "xs = ys @ y # zs" "steps_ok a pre ys s' = Some s''" "step_ok a pre y s'' = None"
      "steps_reverted r = Suc n + length ys" "ro_reason r \<noteq> None" by blast
    with Some show ?thesis by (intro exI [of _ "x # ys"]) auto
  qed
qed (auto simp: rollback_statuses)

lemma loop_status:
  "rollback_loop a pre xs n s = (Inr r, t) \<Longrightarrow> ro_status r = ROLLED_BACK \<or> ro_status r = HALTED"
  by (induction xs arbitrary: n s) (auto split: prod.splits sum.splits if_splits)

section \<open>Properties\<close>


text \<open>A device that records what was applied, and fails its read-back on one interface.\<close>

definition log_actuator :: "string \<Rightarrow> string list actuator" where
  "log_actuator bad = \<lparr>act_apply = (\<lambda>s x. (Inr (), s @ [act_interface x])),
     act_verify = (\<lambda>s x. (Inr (act_interface x \<noteq> bad), s))\<rparr>"

definition step_action :: "string \<Rightarrow> action" where
  "step_action i = \<lparr>act_action = ''set_admin_state'', act_node = ''leaf1'', act_interface = i, act_value = ''disable''\<rparr>"

lemma rollback_reverse_order:
  "rollback 3 [step_action ''a'', step_action ''b'', step_action ''c''] (log_actuator ''x'') (\<lambda>s. (Inr True, s)) [] =
     (Inr (outcome ROLLED_BACK 3 None), [''c'', ''b'', ''a''])"
  by code_simp

text \<open>A rollback can report \<open>rolled_back\<close> with completed steps left standing: the loop runs over the
  captured actions only, so where fewer actions were captured than steps completed the outcome
  says rolled back and counts less than \<open>completed_steps\<close>.
\<close>

theorem rollback_incomplete_capture:
  "\<exists>c acts. rollback c acts (log_actuator ''x'') (\<lambda>s. (Inr True, s)) [] =
     (Inr (outcome ROLLED_BACK 1 None), [''a'']) \<and> c = 3"
  by (rule exI [of _ 3], rule exI [of _ "[step_action ''a'']"]) code_simp

lemma rollback_halts_on_readback:
  "rollback 2 [step_action ''a'', step_action ''b''] (log_actuator ''b'') (\<lambda>s. (Inr True, s)) [] =
     (Inr (outcome HALTED 0 (Some ''rollback step failed read-back'')), [''b''])"
  by code_simp


end
