(* ===== verification/Claims.thy ===== *)
theory Claims
  imports PyJson
begin

text \<open>
  Typed claims and their deterministic verifier, \<open>evidence/claims.py\<close>. The values of samples and
  comparisons are JSON values: the evidence tools store numbers and strings, a claim that comes from
  a model may compare with anything its JSON holds.
\<close>

datatype verdict = SUPPORTED | CONTRADICTED | INSUFFICIENT

datatype predicate = SUSTAINED | ANY

record evidence =
  evidence_id :: string
  subject :: string
  metric_or_event :: string
  val :: json
  unit :: string
  at_time :: pyfloat
  trusted :: bool

record snapshot =
  as_of :: pyfloat
  records :: "evidence list"

record claim =
  claim_id :: string
  predicate_type :: predicate
  c_subject :: string
  c_metric :: string
  operator :: string
  comparison :: json
  c_unit :: string
  interval :: "pyfloat \<times> pyfloat"
  polarity :: bool
  evidence_ids :: "string list"

definition by_id :: "snapshot \<Rightarrow> string \<Rightarrow> evidence option" where
  "by_id s eid = find (\<lambda>r. evidence_id r = eid) (records s)"

text \<open>\<open>isinstance(v, int | float)\<close> and its value; a \<open>bool\<close> is an \<open>int\<close>.\<close>

definition num_of :: "json \<Rightarrow> pyfloat option" where
  "num_of v = (case v of JInt i \<Rightarrow> Some (of_int i) | JFloat x \<Rightarrow> Some x | JBool b \<Rightarrow> Some (if b then 1 else 0) | _ \<Rightarrow> None)"

definition py_eq :: "json \<Rightarrow> json \<Rightarrow> bool" where
  "py_eq a b = (case (num_of a, num_of b) of
      (Some x, Some y) \<Rightarrow> x = y | (None, None) \<Rightarrow> a = b | _ \<Rightarrow> False)"

definition NUMERIC_OPS :: "(string, pyfloat \<Rightarrow> pyfloat \<Rightarrow> bool) dict" where
  "NUMERIC_OPS = [(''>'', \<lambda>a b. a > b), (''>='', \<lambda>a b. a \<ge> b), (''<'', \<lambda>a b. a < b), (''<='', \<lambda>a b. a \<le> b),
     (''=='', \<lambda>a b. a = b)]"

definition satisfies :: "string \<Rightarrow> json \<Rightarrow> json \<Rightarrow> bool option" where
  "satisfies op v c =
     (if op = ''=='' then Some (py_eq v c)
      else case (num_of v, num_of c) of
             (Some x, Some y) \<Rightarrow> map_option (\<lambda>f. f x y) (dict_get NUMERIC_OPS op)
           | _ \<Rightarrow> None)"

text \<open>The evidence a claim may use: what it references, filtered by subject, metric, unit and interval.\<close>

definition matches :: "claim \<Rightarrow> evidence \<Rightarrow> bool" where
  "matches c r \<longleftrightarrow> subject r = c_subject c \<and> metric_or_event r = c_metric c \<and> unit r = c_unit c \<and>
     fst (interval c) \<le> at_time r \<and> at_time r \<le> snd (interval c)"

definition matched :: "claim \<Rightarrow> snapshot \<Rightarrow> evidence list" where
  "matched c s = filter (matches c) (List.map_filter (by_id s) (evidence_ids c))"

definition verify :: "claim \<Rightarrow> snapshot \<Rightarrow> verdict" where
  "verify c s =
     (if operator c \<notin> set (dict_keys NUMERIC_OPS) then INSUFFICIENT
      else let ms = matched c s in
        if ms = [] then INSUFFICIENT
        else let results = map (\<lambda>r. satisfies (operator c) (val r) (comparison c)) ms in
          if None \<in> set results then INSUFFICIENT
          else
            let holds = (if predicate_type c = SUSTAINED then list_all (\<lambda>r. r = Some True) results
                         else list_ex (\<lambda>r. r = Some True) results);
                truth = (if polarity c then holds else \<not> holds)
            in if truth then SUPPORTED else CONTRADICTED)"

definition committable :: "verdict \<Rightarrow> bool" where
  "committable v \<longleftrightarrow> v = SUPPORTED"

section \<open>What a verdict says\<close>

lemma matched_in: "r \<in> set (matched c s) \<longleftrightarrow> matches c r \<and> (\<exists>e \<in> set (evidence_ids c). by_id s e = Some r)"
  by (auto simp: matched_def map_filter_def image_iff)

lemma by_id_in: "by_id s e = Some r \<Longrightarrow> r \<in> set (records s) \<and> evidence_id r = e"
  by (auto simp: by_id_def dest: find_Some_in)

lemma by_id_distinct:
  assumes "distinct (map evidence_id (records s))" and "r \<in> set (records s)"
  shows "by_id s (evidence_id r) = Some r"
proof (cases "by_id s (evidence_id r)")
  case None
  with assms(2) show ?thesis by (auto simp: by_id_def find_None_iff)
next
  case (Some r')
  from by_id_in [OF Some] assms have "r' = r" by (metis distinct_map inj_onD)
  with Some show ?thesis by simp
qed

definition typed :: "claim \<Rightarrow> evidence \<Rightarrow> bool" where
  "typed c r \<longleftrightarrow> operator c = ''=='' \<or> num_of (val r) \<noteq> None \<and> num_of (comparison c) \<noteq> None"

definition holds_at :: "claim \<Rightarrow> evidence \<Rightarrow> bool" where
  "holds_at c r \<longleftrightarrow> satisfies (operator c) (val r) (comparison c) = Some True"

definition known_op :: "claim \<Rightarrow> bool" where
  "known_op c \<longleftrightarrow> operator c \<in> {''>'', ''>='', ''<'', ''<='', ''==''}"

lemma known_op_iff: "operator c \<in> set (dict_keys NUMERIC_OPS) \<longleftrightarrow> known_op c"
  by (simp add: NUMERIC_OPS_def known_op_def)

lemma satisfies_None: "known_op c \<Longrightarrow> satisfies (operator c) (val r) (comparison c) = None \<longleftrightarrow> \<not> typed c r"
  by (auto simp: satisfies_def typed_def known_op_def NUMERIC_OPS_def split: option.splits)

text \<open>The truth a claim asserts of its matched evidence.\<close>

definition asserts :: "claim \<Rightarrow> snapshot \<Rightarrow> bool" where
  "asserts c s \<longleftrightarrow>
     (polarity c = (if predicate_type c = SUSTAINED then \<forall>r \<in> set (matched c s). holds_at c r
                    else \<exists>r \<in> set (matched c s). holds_at c r))"

text \<open>The verifier's three verdicts, exactly: \<open>INSUFFICIENT\<close> when the operator is unknown, no referenced
  record of the snapshot has the claim's subject, metric, unit and interval, or one of those records is
  ill-typed for the operator; otherwise \<open>SUPPORTED\<close> exactly when the (possibly negated) predicate is
  true of all matched records (sustained) or of one (any), and \<open>CONTRADICTED\<close> when it is false.\<close>

theorem verify_spec:
  "verify c s =
     (if \<not> known_op c \<or> matched c s = [] \<or> (\<exists>r \<in> set (matched c s). \<not> typed c r) then INSUFFICIENT
      else if asserts c s then SUPPORTED else CONTRADICTED)"
proof (cases "known_op c")
  case True
  have n: "None \<in> set (map (\<lambda>r. satisfies (operator c) (val r) (comparison c)) (matched c s)) \<longleftrightarrow>
      (\<exists>r \<in> set (matched c s). \<not> typed c r)"
    using satisfies_None [OF True] by (force simp: image_iff)
  have a: "list_all (\<lambda>x. x = Some True) (map (\<lambda>r. satisfies (operator c) (val r) (comparison c)) (matched c s)) =
      (\<forall>r \<in> set (matched c s). holds_at c r)"
    by (simp add: list_all_iff holds_at_def)
  have e: "list_ex (\<lambda>x. x = Some True) (map (\<lambda>r. satisfies (operator c) (val r) (comparison c)) (matched c s)) =
      (\<exists>r \<in> set (matched c s). holds_at c r)"
    by (force simp: list_ex_iff holds_at_def)
  show ?thesis
    unfolding verify_def Let_def known_op_iff n a e asserts_def using True by (cases "polarity c") simp_all
next
  case False
  then show ?thesis unfolding verify_def known_op_iff by simp
qed

lemma verify_supported:
  "verify c s = SUPPORTED \<longleftrightarrow> known_op c \<and> matched c s \<noteq> [] \<and> (\<forall>r \<in> set (matched c s). typed c r) \<and> asserts c s"
  by (auto simp: verify_spec)

text \<open>Negating a claim's polarity swaps supported and contradicted and keeps insufficient: a claim
  and its negation are never both committable, and evidence that is missing or ill-typed supports
  neither.\<close>

theorem verify_negation:
  "verify (c\<lparr>polarity := \<not> polarity c\<rparr>) s =
     (case verify c s of SUPPORTED \<Rightarrow> CONTRADICTED | CONTRADICTED \<Rightarrow> SUPPORTED | INSUFFICIENT \<Rightarrow> INSUFFICIENT)"
proof -
  let ?c = "c\<lparr>polarity := \<not> polarity c\<rparr>"
  have "matches ?c = matches c" by (simp add: matches_def fun_eq_iff)
  then have m: "matched ?c s = matched c s" by (simp add: matched_def)
  have h: "known_op ?c = known_op c" "typed ?c = typed c" "holds_at ?c = holds_at c"
    by (simp_all add: known_op_def typed_def holds_at_def fun_eq_iff)
  have "asserts ?c s \<longleftrightarrow> \<not> asserts c s" unfolding asserts_def m h by (cases "polarity c") auto
  then show ?thesis unfolding verify_spec m h by simp
qed

section \<open>Witnesses\<close>

definition demo_record :: evidence where
  "demo_record = \<lparr>evidence_id = ''e'', subject = ''l'', metric_or_event = ''oper_state'', val = JInt 0, unit = ''state'',
     at_time = 5, trusted = True\<rparr>"

definition demo_claim :: claim where
  "demo_claim = \<lparr>claim_id = ''c'', predicate_type = SUSTAINED, c_subject = ''l'', c_metric = ''oper_state'', operator = ''<'',
     comparison = JFloat (1 / 2), c_unit = ''state'', interval = (0, 10), polarity = True, evidence_ids = [''e'']\<rparr>"

definition demo_snapshot :: snapshot where
  "demo_snapshot = \<lparr>as_of = 10, records = [demo_record]\<rparr>"

theorem verify_spec_witness: "verify demo_claim demo_snapshot = SUPPORTED"
proof -
  have m: "matched demo_claim demo_snapshot = [demo_record]" by code_simp
  have "known_op demo_claim" by code_simp
  moreover have "typed demo_claim demo_record" by code_simp
  moreover have "holds_at demo_claim demo_record" by code_simp
  moreover have "predicate_type demo_claim = SUSTAINED" "polarity demo_claim" by code_simp+
  ultimately show ?thesis
    using verify_spec [of demo_claim demo_snapshot] by (simp add: m asserts_def)
qed

end
