(* ===== verification/Tools.thy ===== *)
theory Tools
  imports Claims
begin

text \<open>
  The bounded evidence tools of \<open>evidence/tools.py\<close>. The \<open>EvidenceSource\<close> is a parameter: a record of the
  nine read functions the tools call. A tool returns its evidence or an exception and the context it
  leaves, budget and trace included; \<open>ff\<close> prints a float inside an f-string.

  \<open>evidence_tool\<close> is the contract of one tool (what the workflow relies on); it is interpreted for each of the nine.
\<close>

record budget =
  max_calls :: int
  max_rows :: int
  calls :: int
  rows_used :: int

record tool_context =
  t_incident_id :: string
  t_as_of :: pyfloat
  limit :: int
  t_budget :: budget
  trace :: "string list"

record rec =
  r_subject :: string
  r_metric :: string
  r_value :: json
  r_unit :: string
  r_at :: pyfloat
  r_source :: string

record evidence_source =
  interface_state :: "string \<Rightarrow> string \<Rightarrow> rec list"
  bgp_state :: "string \<Rightarrow> string \<Rightarrow> rec list"
  metric_window :: "string \<Rightarrow> string \<Rightarrow> string \<Rightarrow> pyfloat \<Rightarrow> pyfloat \<Rightarrow> rec list"
  log_events :: "string \<Rightarrow> rec list"
  topology_neighbors :: "string \<Rightarrow> rec list"
  ranked_links :: "string \<Rightarrow> rec list"
  incident_summary :: "string \<Rightarrow> rec list"
  runbooks :: "string \<Rightarrow> rec list"
  similar_incidents :: "string \<Rightarrow> rec list"

text \<open>\<open>Budget.charge\<close>: the counters are increased before they are compared.\<close>

definition charge :: "int \<Rightarrow> budget \<Rightarrow> unit res \<times> budget" where
  "charge n b =
     (let b' = b\<lparr>calls := calls b + 1, rows_used := rows_used b + n\<rparr> in
      (if calls b' > max_calls b' then Inl (BudgetExhausted ''call budget exceeded'')
       else if rows_used b' > max_rows b' then Inl (BudgetExhausted ''row budget exceeded'')
       else Inr (), b'))"

definition METRIC_TEMPLATES :: "(string, string \<times> string) dict" where
  "METRIC_TEMPLATES =
     [(''oper_state_window'', ''oper_state'', ''state''),
      (''in_error_rate_window'', ''in_error_rate'', ''packets_per_s''),
      (''in_discard_rate_window'', ''in_discard_rate'', ''packets_per_s''),
      (''octet_rate_window'', ''octet_rate'', ''bytes_per_s'')]"

definition UNTRUSTED_SOURCES :: "string list" where "UNTRUSTED_SOURCES = [''log'', ''runbook'']"

text \<open>\<open>xs[:n]\<close>: a negative bound counts from the end.\<close>

definition slice_to :: "int \<Rightarrow> 'a list \<Rightarrow> 'a list" where
  "slice_to n xs = (if 0 \<le> n then take (nat n) xs else take (nat (int (length xs) + n)) xs)"

definition evidence_of :: "(pyfloat \<Rightarrow> string) \<Rightarrow> rec \<Rightarrow> evidence" where
  "evidence_of ff r =
     \<lparr>evidence_id = r_source r @ '':'' @ r_subject r @ '':'' @ r_metric r @ '':'' @ ff (r_at r),
      subject = r_subject r, metric_or_event = r_metric r, val = r_value r, unit = r_unit r, at_time = r_at r,
      trusted = (r_source r \<notin> set UNTRUSTED_SOURCES)\<rparr>"

definition emit :: "(pyfloat \<Rightarrow> string) \<Rightarrow> tool_context \<Rightarrow> string \<Rightarrow> rec list \<Rightarrow> evidence list res \<times> tool_context" where
  "emit ff ctx tool recs =
     (let kept = slice_to (limit ctx) (filter (\<lambda>r. r_at r \<le> t_as_of ctx) recs) in
      case charge (int (length kept)) (t_budget ctx) of
        (Inl e, b) \<Rightarrow> (Inl e, ctx\<lparr>t_budget := b\<rparr>)
      | (Inr _, b) \<Rightarrow>
          (Inr (map (evidence_of ff) kept),
           ctx\<lparr>t_budget := b, trace := trace ctx @
             [tool @ '': '' @ show_nat (length kept) @ '' evidence (as_of='' @ ff (t_as_of ctx) @ '')'']\<rparr>))"

definition get_interface_state where
  "get_interface_state ff src subj ctx =
     emit ff ctx ''get_interface_state'' (interface_state src (t_incident_id ctx) subj)"

definition get_bgp_state where
  "get_bgp_state ff src subj ctx = emit ff ctx ''get_bgp_state'' (bgp_state src (t_incident_id ctx) subj)"

definition get_metric_window ::
    "(pyfloat \<Rightarrow> string) \<Rightarrow> evidence_source \<Rightarrow> string \<Rightarrow> string \<Rightarrow> tool_context \<Rightarrow> evidence list res \<times> tool_context" where
  "get_metric_window ff src subj template_id ctx =
     (case dict_get METRIC_TEMPLATES template_id of
        None \<Rightarrow> (Inl (ValueError ''metric template not allow-listed''), ctx)
      | Some (metric, _) \<Rightarrow>
          emit ff ctx ''get_metric_window''
            (metric_window src (t_incident_id ctx) subj metric (t_as_of ctx - of_int (limit ctx)) (t_as_of ctx)))"

definition get_log_events where
  "get_log_events ff src ctx = emit ff ctx ''get_log_events'' (log_events src (t_incident_id ctx))"

definition get_topology_neighbors where
  "get_topology_neighbors ff src subj ctx = emit ff ctx ''get_topology_neighbors'' (topology_neighbors src subj)"

definition get_ranked_links where
  "get_ranked_links ff src ctx = emit ff ctx ''get_ranked_links'' (ranked_links src (t_incident_id ctx))"

definition get_incident_summary where
  "get_incident_summary ff src ctx = emit ff ctx ''get_incident_summary'' (incident_summary src (t_incident_id ctx))"

definition search_runbooks where
  "search_runbooks ff src query ctx = emit ff ctx ''search_runbooks'' (runbooks src query)"

definition get_similar_resolved_incidents where
  "get_similar_resolved_incidents ff src ctx =
     emit ff ctx ''get_similar_resolved_incidents'' (similar_incidents src (t_incident_id ctx))"

section \<open>The contract of a tool\<close>

definition within_budget :: "budget \<Rightarrow> bool" where
  "within_budget b \<longleftrightarrow> calls b \<le> max_calls b \<and> rows_used b \<le> max_rows b"

definition same_limits :: "tool_context \<Rightarrow> tool_context \<Rightarrow> bool" where
  "same_limits c c' \<longleftrightarrow> t_incident_id c' = t_incident_id c \<and> t_as_of c' = t_as_of c \<and> limit c' = limit c \<and>
     max_calls (t_budget c') = max_calls (t_budget c) \<and> max_rows (t_budget c') = max_rows (t_budget c)"

lemma same_limits_refl [simp]: "same_limits c c"
  by (simp add: same_limits_def)

lemma same_limits_trans: "same_limits a b \<Longrightarrow> same_limits b c \<Longrightarrow> same_limits a c"
  by (simp add: same_limits_def)

locale evidence_tool =
  fixes tool :: "tool_context \<Rightarrow> evidence list res \<times> tool_context"
  assumes keeps_limits: "tool c = (r, c') \<Longrightarrow> same_limits c c'"
    and no_future: "tool c = (Inr es, c') \<Longrightarrow> e \<in> set es \<Longrightarrow> at_time e \<le> t_as_of c"
    and capped: "tool c = (Inr es, c') \<Longrightarrow> 0 \<le> limit c \<Longrightarrow> int (length es) \<le> limit c"
    and accounted: "tool c = (Inr es, c') \<Longrightarrow> within_budget (t_budget c') \<and>
      calls (t_budget c') = calls (t_budget c) + 1 \<and>
      rows_used (t_budget c') = rows_used (t_budget c) + int (length es)"
begin

text \<open>Repeated use of a tool: evidence is gathered until the first exception.\<close>

fun collect :: "nat \<Rightarrow> tool_context \<Rightarrow> evidence list \<times> tool_context" where
  "collect 0 c = ([], c)"
| "collect (Suc n) c =
     (case tool c of (Inl e, c') \<Rightarrow> ([], c') | (Inr es, c') \<Rightarrow> (let (fs, c'') = collect n c' in (es @ fs, c'')))"

lemma collect_bounded:
  "collect n c = (es, c') \<Longrightarrow> 0 \<le> rows_used (t_budget c) \<Longrightarrow> rows_used (t_budget c) \<le> max_rows (t_budget c) \<Longrightarrow>
    same_limits c c' \<and> int (length es) \<le> max_rows (t_budget c) - rows_used (t_budget c) \<and>
    (\<forall>e \<in> set es. at_time e \<le> t_as_of c)"
proof (induction n arbitrary: c es c')
  case (Suc n)
  show ?case
  proof (cases "tool c")
    case (Pair r c1)
    show ?thesis
    proof (cases r)
      case (Inl e)
      with Pair Suc.prems keeps_limits show ?thesis by auto
    next
      case (Inr es1)
      obtain fs c2 where r: "collect n c1 = (fs, c2)" by force
      with Suc.prems Pair Inr have es: "es = es1 @ fs" "c' = c2" by auto
      have t: "tool c = (Inr es1, c1)" using Pair Inr by simp
      note k = keeps_limits [OF t] and a = accounted [OF t]
      have "0 \<le> rows_used (t_budget c1)" "rows_used (t_budget c1) \<le> max_rows (t_budget c1)"
        using a Suc.prems(2) by (simp_all add: within_budget_def)
      from Suc.IH [OF r this] k a es no_future [OF t] same_limits_trans [OF k] show ?thesis
        by (auto simp: same_limits_def)
    qed
  qed
qed simp

end

lemma emit_keeps_limits: "emit ff ctx tool rs = (r, c') \<Longrightarrow> same_limits ctx c'"
  by (auto simp: emit_def charge_def same_limits_def Let_def split: prod.splits sum.splits)

lemma slice_to_subset: "x \<in> set (slice_to n xs) \<Longrightarrow> x \<in> set xs"
  by (auto simp: slice_to_def dest: in_set_takeD split: if_splits)

lemma emit_Inr:
  assumes "emit ff ctx tool rs = (Inr es, c')"
  shows "es = map (evidence_of ff) (slice_to (limit ctx) (filter (\<lambda>r. r_at r \<le> t_as_of ctx) rs))"
    and "within_budget (t_budget c')" and "calls (t_budget c') = calls (t_budget ctx) + 1"
    and "rows_used (t_budget c') = rows_used (t_budget ctx) + int (length es)"
    and "length (trace c') = Suc (length (trace ctx))"
  using assms by (auto simp: emit_def charge_def within_budget_def Let_def split: prod.splits sum.splits if_splits)

lemma emit_tool:
  assumes "\<And>c. (\<exists>nm rs. tool c = emit ff c nm rs) \<or> (\<exists>e. tool c = (Inl e, c))"
  shows "evidence_tool tool"
proof
  fix c r c' assume "tool c = (r, c')"
  with assms [of c] emit_keeps_limits show "same_limits c c'" by fastforce
next
  fix c es c' assume t: "tool c = (Inr es, c')"
  with assms [of c] obtain nm rs where e: "emit ff c nm rs = (Inr es, c')" by auto
  show "at_time x \<le> t_as_of c" if "x \<in> set es" for x
    using that unfolding emit_Inr(1) [OF e] by (auto simp: evidence_of_def dest: slice_to_subset)
  show "int (length es) \<le> limit c" if "0 \<le> limit c"
    using that unfolding emit_Inr(1) [OF e] by (simp add: slice_to_def)
  show "within_budget (t_budget c') \<and> calls (t_budget c') = calls (t_budget c) + 1 \<and>
      rows_used (t_budget c') = rows_used (t_budget c) + int (length es)"
    using emit_Inr [OF e] by simp
qed

interpretation interface_state_tool: evidence_tool "get_interface_state ff src s" for ff src s
  by (rule emit_tool) (auto simp: get_interface_state_def)

interpretation bgp_state_tool: evidence_tool "get_bgp_state ff src s" for ff src s
  by (rule emit_tool) (auto simp: get_bgp_state_def)

interpretation metric_window_tool: evidence_tool "get_metric_window ff src s t" for ff src s t
  by (rule emit_tool) (auto simp: get_metric_window_def split: option.splits)

interpretation log_events_tool: evidence_tool "get_log_events ff src" for ff src
  by (rule emit_tool) (auto simp: get_log_events_def)

interpretation topology_neighbors_tool: evidence_tool "get_topology_neighbors ff src s" for ff src s
  by (rule emit_tool) (auto simp: get_topology_neighbors_def)

interpretation ranked_links_tool: evidence_tool "get_ranked_links ff src" for ff src
  by (rule emit_tool) (auto simp: get_ranked_links_def)

interpretation incident_summary_tool: evidence_tool "get_incident_summary ff src" for ff src
  by (rule emit_tool) (auto simp: get_incident_summary_def)

interpretation runbooks_tool: evidence_tool "search_runbooks ff src q" for ff src q
  by (rule emit_tool) (auto simp: search_runbooks_def)

interpretation similar_incidents_tool: evidence_tool "get_similar_resolved_incidents ff src" for ff src
  by (rule emit_tool) (auto simp: get_similar_resolved_incidents_def)

section \<open>Properties\<close>

text \<open>C20: Every call of a tool envelope either returns evidence, all of it at or before \<open>as_of\<close>, at most
  \<open>limit\<close> records, each marked untrusted exactly when its source is a log or a runbook, with the budget
  charged by one call and the returned rows, still within both limits, and one trace line added; or it
  raises \<open>BudgetExhausted\<close> with nothing returned and no trace line. It raises exactly when the call
  or row budget does not cover it.\<close>

theorem emit_envelope:
  assumes "emit ff c tool rs = (r, c')" and "0 \<le> limit c"
  shows "same_limits c c' \<and>
    (let kept = take (nat (limit c)) (filter (\<lambda>x. r_at x \<le> t_as_of c) rs);
         ok = (calls (t_budget c) + 1 \<le> max_calls (t_budget c) \<and>
               rows_used (t_budget c) + int (length kept) \<le> max_rows (t_budget c)) in
     calls (t_budget c') = calls (t_budget c) + 1 \<and>
     rows_used (t_budget c') = rows_used (t_budget c) + int (length kept) \<and>
     (if ok then
        (\<exists>es. r = Inr es \<and> length es = length kept \<and> length es \<le> nat (limit c) \<and>
          (\<forall>e \<in> set es. at_time e \<le> t_as_of c) \<and>
          list_all2 (\<lambda>e x. trusted e \<longleftrightarrow> r_source x \<notin> {''log'', ''runbook''}) es kept) \<and>
        length (trace c') = Suc (length (trace c))
      else (\<exists>m. r = Inl (BudgetExhausted m)) \<and> trace c' = trace c))"
proof -
  let ?kept = "take (nat (limit c)) (filter (\<lambda>x. r_at x \<le> t_as_of c) rs)"
  have k: "slice_to (limit c) (filter (\<lambda>x. r_at x \<le> t_as_of c) rs) = ?kept"
    using assms(2) by (simp add: slice_to_def)
  have l2: "list_all2 (\<lambda>e x. trusted e \<longleftrightarrow> r_source x \<notin> {''log'', ''runbook''}) (map (evidence_of ff) xs) xs" for xs
    by (simp add: list_all2_conv_all_nth evidence_of_def UNTRUSTED_SOURCES_def)
  have f: "\<forall>e \<in> set (map (evidence_of ff) ?kept). at_time e \<le> t_as_of c"
    by (auto simp: evidence_of_def dest: in_set_takeD)
  show ?thesis
    using assms(1) l2 f emit_keeps_limits [OF assms(1)] unfolding emit_def k Let_def charge_def
    by (auto split: if_splits)
qed

text \<open>\<open>get_metric_window\<close> reads only allow-listed templates: any other template id raises \<open>ValueError\<close>
  before the source, the budget or the trace are touched. For an allow-listed one the window it asks
  for reaches back \<open>limit\<close> seconds from \<open>as_of\<close>: the result cap doubles as the length of the window.\<close>

theorem metric_window_allowlist:
  "(template_id \<notin> {''oper_state_window'', ''in_error_rate_window'', ''in_discard_rate_window'', ''octet_rate_window''} \<longrightarrow>
     (\<exists>m. get_metric_window ff src s template_id c = (Inl (ValueError m), c))) \<and>
   (\<forall>metric u. dict_get METRIC_TEMPLATES template_id = Some (metric, u) \<longrightarrow>
     get_metric_window ff src s template_id c =
       emit ff c ''get_metric_window''
         (metric_window src (t_incident_id c) s metric (t_as_of c - of_int (limit c)) (t_as_of c)))"
  by (auto simp: get_metric_window_def METRIC_TEMPLATES_def)

text \<open>However often a diagnosis calls the log tool until the budget stops it, it gathers at most the rows the
  budget has left, none of it later than \<open>as_of\<close>.\<close>

theorem log_tool_bounded:
  assumes "evidence_tool.collect (get_log_events ff src) n c = (es, c')" and "0 \<le> rows_used (t_budget c)"
    and "rows_used (t_budget c) \<le> max_rows (t_budget c)"
  shows "int (length es) \<le> max_rows (t_budget c) - rows_used (t_budget c) \<and> (\<forall>e \<in> set es. at_time e \<le> t_as_of c)"
  using log_events_tool.collect_bounded [OF assms] by blast

definition demo_budget :: budget where
  "demo_budget = \<lparr>max_calls = 2, max_rows = 3, calls = 0, rows_used = 0\<rparr>"

definition demo_ctx :: tool_context where
  "demo_ctx = \<lparr>t_incident_id = ''i1'', t_as_of = 10, limit = 1, t_budget = demo_budget, trace = []\<rparr>"

definition demo_rec :: rec where
  "demo_rec = \<lparr>r_subject = ''leaf1'', r_metric = ''oper_state'', r_value = JInt 0, r_unit = ''state'', r_at = 9,
     r_source = ''log''\<rparr>"

definition demo_source :: evidence_source where
  "demo_source = \<lparr>interface_state = \<lambda>_ _. [], bgp_state = \<lambda>_ _. [], metric_window = \<lambda>_ _ _ _ _. [],
     log_events = \<lambda>_. [demo_rec, demo_rec], topology_neighbors = \<lambda>_. [], ranked_links = \<lambda>_. [],
     incident_summary = \<lambda>_. [], runbooks = \<lambda>_. [], similar_incidents = \<lambda>_. []\<rparr>"

theorem emit_envelope_witness:
  "\<exists>es. fst (emit (\<lambda>_. []) demo_ctx ''t'' [demo_rec, demo_rec]) = Inr es \<and> length es = 1"
proof -
  let ?r = "emit (\<lambda>_. []) demo_ctx ''t'' [demo_rec, demo_rec]"
  have e: "?r = (fst ?r, snd ?r)" by simp
  have l: "0 \<le> limit demo_ctx" by code_simp
  have k: "take (nat (limit demo_ctx)) (filter (\<lambda>x. r_at x \<le> t_as_of demo_ctx) [demo_rec, demo_rec]) = [demo_rec]"
    "calls (t_budget demo_ctx) + 1 \<le> max_calls (t_budget demo_ctx)"
    "rows_used (t_budget demo_ctx) + int (length [demo_rec]) \<le> max_rows (t_budget demo_ctx)"
    by code_simp+
  from emit_envelope [OF e l] show ?thesis unfolding k(1) Let_def using k(2,3) by auto
qed

theorem metric_window_allowlist_witness:
  "\<exists>m. get_metric_window (\<lambda>_. []) demo_source ''leaf1'' ''free form'' demo_ctx = (Inl (ValueError m), demo_ctx)"
  using metric_window_allowlist [of "''free form''"] by simp

theorem log_tool_bounded_witness:
  "int (length (fst (evidence_tool.collect (get_log_events (\<lambda>_. []) demo_source) 5 demo_ctx))) \<le> 3"
proof -
  have "0 \<le> rows_used (t_budget demo_ctx)" "rows_used (t_budget demo_ctx) \<le> max_rows (t_budget demo_ctx)"
    by code_simp+
  from log_tool_bounded [OF prod.collapse [symmetric] this, of "\<lambda>_. []" demo_source 5]
  show ?thesis by (simp add: demo_ctx_def demo_budget_def)
qed

end
