(* ===== verification/Diagnose.thy ===== *)
theory Diagnose
  imports Tools
begin

text \<open>
  The diagnostic workflow of \<open>workflow/diagnose.py\<close> (hypothesize, test, commit or abstain, draft the plan),
  the deterministic \<open>RuleHypothesizer\<close>, and the report of \<open>workflow/report.py\<close>.

  \<open>proposer\<close> is the \<open>Hypothesizer\<close> protocol (whatever proposes hypotheses, model or rules);
  \<open>careful_proposer\<close> extends it with distinct claim ids, under which a committed diagnosis is sound.
\<close>

definition MAX_HYPOTHESES :: nat where "MAX_HYPOTHESES = 3"

record diagnosis_def =
  dd_class :: string
  dd_metric :: string
  dd_operators :: "string list"
  dd_polarity :: bool
  dd_template :: string

definition entailed_by :: "diagnosis_def \<Rightarrow> claim \<Rightarrow> bool" where
  "entailed_by dd c \<longleftrightarrow> c_metric c = dd_metric dd \<and> operator c \<in> set (dd_operators dd) \<and> polarity c = dd_polarity dd"

definition DIAGNOSIS_DEFINITIONS :: "(string, diagnosis_def) dict" where
  "DIAGNOSIS_DEFINITIONS =
     [(''link_down'', \<lparr>dd_class = ''link_down'', dd_metric = ''oper_state'', dd_operators = [''<'', ''<=''],
         dd_polarity = True, dd_template = ''tmpl-restart-interface''\<rparr>),
      (''bgp_session_down'', \<lparr>dd_class = ''bgp_session_down'', dd_metric = ''bgp_session_state'',
         dd_operators = [''==''], dd_polarity = True, dd_template = ''tmpl-reset-bgp-session''\<rparr>)]"

record hypothesis =
  h_class :: string
  h_subject :: string
  h_claims :: "claim list"

record diagnosis =
  d_class :: string
  d_subject :: string
  committed_claims :: "claim list"

record workflow_result =
  outcome :: string
  diag :: "diagnosis option"
  plan_template :: "string option"
  tested :: "(string \<times> (string, verdict) dict) list"

definition verdicts :: "snapshot \<Rightarrow> hypothesis \<Rightarrow> (string, verdict) dict" where
  "verdicts s h = dict_comp claim_id (\<lambda>c. verify c s) (h_claims h)"

definition commit :: "snapshot \<Rightarrow> hypothesis \<Rightarrow> diagnosis_def option" where
  "commit s h =
     (case dict_get DIAGNOSIS_DEFINITIONS (h_class h) of
        None \<Rightarrow> None
      | Some dd \<Rightarrow>
          if h_claims h = [] then None
          else if \<not> list_all (\<lambda>p. committable (snd p)) (verdicts s h) then None
          else if \<not> list_ex (entailed_by dd) (h_claims h) then None
          else Some dd)"

fun diagnose_loop ::
    "snapshot \<Rightarrow> (string \<times> (string, verdict) dict) list \<Rightarrow> hypothesis list \<Rightarrow> workflow_result" where
  "diagnose_loop s acc [] = \<lparr>outcome = ''undiagnosed'', diag = None, plan_template = None, tested = acc\<rparr>"
| "diagnose_loop s acc (h # hs) =
     (let acc' = acc @ [(h_class h, verdicts s h)] in
      case commit s h of
        Some dd \<Rightarrow> \<lparr>outcome = ''diagnosed'',
            diag = Some \<lparr>d_class = h_class h, d_subject = h_subject h, committed_claims = h_claims h\<rparr>,
            plan_template = Some (dd_template dd), tested = acc'\<rparr>
      | None \<Rightarrow> diagnose_loop s acc' hs)"

definition diagnose :: "snapshot \<Rightarrow> hypothesis list \<Rightarrow> workflow_result" where
  "diagnose s hypotheses = diagnose_loop s [] (take MAX_HYPOTHESES hypotheses)"

section \<open>The deterministic fallback\<close>

definition is_oper :: "evidence \<Rightarrow> bool" where
  "is_oper r \<longleftrightarrow> metric_or_event r = ''oper_state''"

definition reads_down :: "evidence \<Rightarrow> bool" where
  "reads_down r = (case num_of (val r) of Some x \<Rightarrow> x < 1 / 2 | None \<Rightarrow> False)"

definition gather_oper :: "evidence list \<Rightarrow> (string, evidence list) dict" where
  "gather_oper rs =
     fold (\<lambda>r d. dict_set (subject r) ((case dict_get d (subject r) of None \<Rightarrow> [] | Some xs \<Rightarrow> xs) @ [r]) d)
       (filter is_oper rs) []"

definition gather_down :: "evidence list \<Rightarrow> string list" where
  "gather_down rs = map subject (filter reads_down (filter is_oper rs))"

definition oper_down_claim :: "snapshot \<Rightarrow> string \<Rightarrow> evidence list \<Rightarrow> claim" where
  "oper_down_claim s subj recs =
     \<lparr>claim_id = ''oper-down::'' @ subj, predicate_type = SUSTAINED, c_subject = subj, c_metric = ''oper_state'',
      operator = ''<'', comparison = JFloat (1 / 2), c_unit = ''state'',
      interval = (min_list (map at_time recs), as_of s), polarity = True, evidence_ids = map evidence_id recs\<rparr>"

definition rule_hypothesize :: "snapshot \<Rightarrow> hypothesis list" where
  "rule_hypothesize s =
     foldl (\<lambda>out (subj, recs).
       if subj \<notin> set (gather_down (records s)) \<or> MAX_HYPOTHESES \<le> length out then out
       else out @ [\<lparr>h_class = ''link_down'', h_subject = subj, h_claims = [oper_down_claim s subj recs]\<rparr>])
     [] (gather_oper (records s))"

section \<open>The report\<close>

definition render_report :: "(json \<Rightarrow> string) \<Rightarrow> (pyfloat \<Rightarrow> string) \<Rightarrow> workflow_result \<Rightarrow> string" where
  "render_report pstr f0 result =
     (case (if outcome result \<noteq> ''diagnosed'' then None else diag result) of
        None \<Rightarrow> ''UNDIAGNOSED: no hypothesis met the evidence bar after '' @ show_nat (length (tested result)) @
          '' tested; abstaining, no remediation plan drafted.''
      | Some d \<Rightarrow> join [newline_c]
          ([''DIAGNOSIS: '' @ d_class d @ '' at '' @ d_subject d,
            ''PLAN TEMPLATE: '' @ (case plan_template result of None \<Rightarrow> ''None'' | Some t \<Rightarrow> t),
            ''VERIFIED SUPPORTING CLAIMS:''] @
           map (\<lambda>c. ''  - '' @ c_metric c @ '' '' @ operator c @ '' '' @ pstr (comparison c) @ '' ['' @
             f0 (fst (interval c)) @ '','' @ f0 (snd (interval c)) @ ''] (verified supported)'') (committed_claims d)))"

section \<open>Committing\<close>

definition sound_hypothesis :: "snapshot \<Rightarrow> hypothesis \<Rightarrow> bool" where
  "sound_hypothesis s h \<longleftrightarrow> (\<forall>c \<in> set (h_claims h). verify c s = SUPPORTED)"

lemma dict_comp_all:
  "distinct (map k xs) \<Longrightarrow> list_all (\<lambda>p. P (snd p)) (dict_comp k v xs) \<longleftrightarrow> (\<forall>x \<in> set xs. P (v x))"
  by (simp add: dict_comp_def fold_dict_set_fresh list_all_iff)

lemma commit_distinct:
  assumes "distinct (map claim_id (h_claims h))"
  shows "commit s h = Some dd \<longleftrightarrow>
    dict_get DIAGNOSIS_DEFINITIONS (h_class h) = Some dd \<and> h_claims h \<noteq> [] \<and> sound_hypothesis s h \<and>
    (\<exists>c \<in> set (h_claims h). entailed_by dd c)"
  using dict_comp_all [OF assms, of committable "\<lambda>c. verify c s"]
  by (auto simp: commit_def verdicts_def sound_hypothesis_def committable_def list_ex_iff split: option.splits if_splits)

lemma fold_dict_last:
  "dict_get (dict_comp k v (xs @ [x])) (k x) = Some (v x)"
  by (simp add: dict_comp_def)

lemma commit_some_supported:
  assumes "commit s h = Some dd"
  shows "dict_get DIAGNOSIS_DEFINITIONS (h_class h) = Some dd \<and> (\<exists>c \<in> set (h_claims h). verify c s = SUPPORTED)"
proof -
  from assms have ne: "h_claims h \<noteq> []" and al: "list_all (\<lambda>p. committable (snd p)) (verdicts s h)"
    and dd: "dict_get DIAGNOSIS_DEFINITIONS (h_class h) = Some dd"
    by (auto simp: commit_def split: option.splits if_splits)
  let ?c = "last (h_claims h)"
  have "dict_get (verdicts s h) (claim_id ?c) = Some (verify ?c s)"
    unfolding verdicts_def using fold_dict_last [of claim_id _ "butlast (h_claims h)" ?c] ne by simp
  then have "(claim_id ?c, verify ?c s) \<in> set (verdicts s h)" by (rule map_of_SomeD)
  with al have "verify ?c s = SUPPORTED" by (auto simp: list_all_iff committable_def)
  with last_in_set [OF ne] dd show ?thesis by blast
qed

lemma diagnose_loop_spec:
  "diagnose_loop s acc hs =
     (case find (\<lambda>h. commit s h \<noteq> None) hs of
        None \<Rightarrow> \<lparr>outcome = ''undiagnosed'', diag = None, plan_template = None,
                  tested = acc @ map (\<lambda>h. (h_class h, verdicts s h)) hs\<rparr>
      | Some h \<Rightarrow> \<lparr>outcome = ''diagnosed'',
            diag = Some \<lparr>d_class = h_class h, d_subject = h_subject h, committed_claims = h_claims h\<rparr>,
            plan_template = map_option dd_template (commit s h),
            tested = acc @ map (\<lambda>h. (h_class h, verdicts s h))
              (takeWhile (\<lambda>h. commit s h = None) hs @ [h])\<rparr>)"
  by (induction hs arbitrary: acc) (auto simp: Let_def split: option.splits)

section \<open>Proposers\<close>

text \<open>\<open>'m\<close> is the state of the proposer (budget, model); a proposal may raise.\<close>

locale proposer =
  fixes propose :: "snapshot \<Rightarrow> 'm \<Rightarrow> hypothesis list res \<times> 'm"
  assumes at_most: "propose s m = (Inr hs, m') \<Longrightarrow> length hs \<le> MAX_HYPOTHESES"
begin

text \<open>Whatever is proposed, a diagnosis has a recognised class, its template, and a supported claim.\<close>

lemma never_unsupported:
  assumes "propose s m = (Inr hs, m')" and "diag (diagnose s hs) = Some d"
  shows "\<exists>dd. dict_get DIAGNOSIS_DEFINITIONS (d_class d) = Some dd \<and>
    plan_template (diagnose s hs) = Some (dd_template dd) \<and>
    (\<exists>c \<in> set (committed_claims d). verify c s = SUPPORTED)"
proof -
  from assms(2) obtain h where h: "find (\<lambda>h. commit s h \<noteq> None) (take MAX_HYPOTHESES hs) = Some h"
    and d: "d_class d = h_class h" "committed_claims d = h_claims h"
    by (auto simp: diagnose_def diagnose_loop_spec split: option.splits)
  from find_Some_in [OF h] obtain dd where "commit s h = Some dd" by auto
  with h d commit_some_supported show ?thesis by (force simp: diagnose_def diagnose_loop_spec)
qed

lemma tests_all: "propose s m = (Inr hs, m') \<Longrightarrow> take MAX_HYPOTHESES hs = hs"
  using at_most by simp

end

locale careful_proposer = proposer +
  assumes distinct_ids: "propose s m = (Inr hs, m') \<Longrightarrow> h \<in> set hs \<Longrightarrow> distinct (map claim_id (h_claims h))"
begin

lemma all_supported:
  assumes "propose s m = (Inr hs, m')" and "diag (diagnose s hs) = Some d"
  shows "\<exists>h \<in> set hs. d_subject d = h_subject h \<and> committed_claims d = h_claims h \<and> sound_hypothesis s h"
proof -
  from assms(2) obtain h where h: "find (\<lambda>h. commit s h \<noteq> None) (take MAX_HYPOTHESES hs) = Some h"
    and d: "d_subject d = h_subject h" "committed_claims d = h_claims h"
    by (auto simp: diagnose_def diagnose_loop_spec split: option.splits)
  from find_Some_in [OF h] obtain dd where hs: "h \<in> set hs" "commit s h = Some dd" by (auto dest: in_set_takeD)
  with commit_distinct [OF distinct_ids [OF assms(1) hs(1)]] d show ?thesis by blast
qed

end

lemma gather_foldl:
  "foldl (\<lambda>out (subj, recs).
       if subj \<notin> D \<or> n \<le> length out then out else out @ [f subj recs]) acc ps =
   acc @ take (n - length acc) (map (\<lambda>p. f (fst p) (snd p)) (filter (\<lambda>p. fst p \<in> D) ps))"
proof (induction ps arbitrary: acc)
  case (Cons p ps)
  obtain a b where p: "p = (a, b)" by force
  show ?case
  proof (cases "a \<in> D \<and> length acc < n")
    case True
    then have "n - length acc = Suc (n - Suc (length acc))" by (simp add: Suc_diff_Suc)
    with True Cons [of "acc @ [f a b]"] p show ?thesis by simp
  qed (use Cons [of acc] p in auto)
qed simp

definition down_candidates :: "snapshot \<Rightarrow> (string \<times> evidence list) list" where
  "down_candidates s = filter (\<lambda>p. fst p \<in> set (gather_down (records s))) (gather_oper (records s))"

lemma rule_hypothesize_eq:
  "rule_hypothesize s =
     take MAX_HYPOTHESES (map (\<lambda>p. \<lparr>h_class = ''link_down'', h_subject = fst p,
       h_claims = [oper_down_claim s (fst p) (snd p)]\<rparr>) (down_candidates s))"
  unfolding rule_hypothesize_def down_candidates_def using gather_foldl [where acc = "[]"] by simp

interpretation rules: careful_proposer "\<lambda>s m. (Inr (rule_hypothesize s), m)"
proof
  fix s :: snapshot and m m' :: 'a and hs
  assume "(Inr (rule_hypothesize s), m) = (Inr hs, m')"
  then have hs: "hs = rule_hypothesize s" by simp
  show "length hs \<le> MAX_HYPOTHESES" unfolding hs rule_hypothesize_eq by simp
  show "distinct (map claim_id (h_claims h))" if "h \<in> set hs" for h
    using that unfolding hs rule_hypothesize_eq by (auto dest!: in_set_takeD)
qed

lemma gather_oper_get:
  "dict_get (gather_oper rs) k = (let xs = filter (\<lambda>r. is_oper r \<and> subject r = k) rs in if xs = [] then None else Some xs)"
proof -
  let ?f = "\<lambda>r d. dict_set (subject r) ((case dict_get d (subject r) of None \<Rightarrow> [] | Some xs \<Rightarrow> xs) @ [r]) d"
  have "dict_get (fold ?f xs d) k =
      (let ys = filter (\<lambda>r. subject r = k) xs in
       case dict_get d k of None \<Rightarrow> if ys = [] then None else Some ys | Some zs \<Rightarrow> Some (zs @ ys))" for xs d
    by (induction xs arbitrary: d) (auto simp: Let_def split: option.splits)
  from this [of "filter is_oper rs" "[]"] show ?thesis
    by (simp add: gather_oper_def Let_def conj_commute)
qed

lemma gather_oper_distinct: "distinct (dict_keys (gather_oper rs))"
proof -
  let ?f = "\<lambda>r d. dict_set (subject r) ((case dict_get d (subject r) of None \<Rightarrow> [] | Some xs \<Rightarrow> xs) @ [r]) d"
  have "distinct (dict_keys d) \<Longrightarrow> distinct (dict_keys (fold ?f xs d))" for xs d
    by (induction xs arbitrary: d) auto
  from this [of "[]"] show ?thesis by (simp add: gather_oper_def)
qed

lemma gather_oper_in:
  "(k, xs) \<in> set (gather_oper rs) \<longleftrightarrow> xs = filter (\<lambda>r. is_oper r \<and> subject r = k) rs \<and> xs \<noteq> []"
  using gather_oper_get [of rs k] map_of_eq_Some_iff [OF gather_oper_distinct, of rs k xs]
  by (auto simp: Let_def split: if_splits)

section \<open>Properties\<close>

definition sustained_down :: "snapshot \<Rightarrow> string \<Rightarrow> bool" where
  "sustained_down s subj \<longleftrightarrow>
     (let rs = filter (\<lambda>r. is_oper r \<and> subject r = subj \<and> unit r = ''state'' \<and> at_time r \<le> as_of s) (records s)
      in rs \<noteq> [] \<and> (\<forall>r \<in> set rs. reads_down r))"

lemma min_list_le: "x \<in> set xs \<Longrightarrow> min_list xs \<le> (x :: pyfloat)"
  by (metis Min_le finite_set length_greater_0_conv length_pos_if_in_set min_list_Min)

lemma oper_claim_matched:
  assumes "distinct (map evidence_id (records s))" and "xs = filter (\<lambda>r. is_oper r \<and> subject r = subj) (records s)"
  shows "set (matched (oper_down_claim s subj xs) s) =
    set (filter (\<lambda>r. is_oper r \<and> subject r = subj \<and> unit r = ''state'' \<and> at_time r \<le> as_of s) (records s))"
proof -
  have "r \<in> set (matched (oper_down_claim s subj xs) s) \<longleftrightarrow>
      r \<in> set (filter (\<lambda>r. is_oper r \<and> subject r = subj \<and> unit r = ''state'' \<and> at_time r \<le> as_of s) (records s))" for r
  proof
    assume "r \<in> set (matched (oper_down_claim s subj xs) s)"
    then have "matches (oper_down_claim s subj xs) r" "r \<in> set (records s)" by (auto simp: matched_in dest: by_id_in)
    then show "r \<in> set (filter (\<lambda>r. is_oper r \<and> subject r = subj \<and> unit r = ''state'' \<and> at_time r \<le> as_of s) (records s))"
      by (simp add: matches_def oper_down_claim_def is_oper_def)
  next
    assume r: "r \<in> set (filter (\<lambda>r. is_oper r \<and> subject r = subj \<and> unit r = ''state'' \<and> at_time r \<le> as_of s) (records s))"
    then have "r \<in> set xs" "r \<in> set (records s)" using assms(2) by auto
    moreover from this have "min_list (map at_time xs) \<le> at_time r" by (simp add: min_list_le)
    ultimately have "matches (oper_down_claim s subj xs) r"
      "evidence_id r \<in> set (evidence_ids (oper_down_claim s subj xs))" "by_id s (evidence_id r) = Some r"
      using r by_id_distinct [OF assms(1)]
      by (simp_all add: matches_def oper_down_claim_def is_oper_def)
    then show "r \<in> set (matched (oper_down_claim s subj xs) s)" unfolding matched_in by blast
  qed
  then show ?thesis by blast
qed

lemma oper_claim_supported:
  assumes "distinct (map evidence_id (records s))" and "xs = filter (\<lambda>r. is_oper r \<and> subject r = subj) (records s)"
  shows "verify (oper_down_claim s subj xs) s = SUPPORTED \<longleftrightarrow> sustained_down s subj"
proof -
  let ?c = "oper_down_claim s subj xs"
  let ?rs = "filter (\<lambda>r. is_oper r \<and> subject r = subj \<and> unit r = ''state'' \<and> at_time r \<le> as_of s) (records s)"
  note m = oper_claim_matched [OF assms]
  have ne: "matched ?c s = [] \<longleftrightarrow> ?rs = []" using arg_cong [OF m, of "\<lambda>X. X = {}"] by (simp only: set_empty)
  have k: "known_op ?c" by (simp add: known_op_def oper_down_claim_def)
  have t: "typed ?c r \<and> holds_at ?c r \<longleftrightarrow> reads_down r" for r
    by (auto simp: typed_def holds_at_def oper_down_claim_def satisfies_def reads_down_def NUMERIC_OPS_def num_of_def
        split: json.splits)
  have "asserts ?c s \<longleftrightarrow> (\<forall>r \<in> set (matched ?c s). holds_at ?c r)"
    by (simp add: asserts_def) (simp add: oper_down_claim_def)
  then show ?thesis
    unfolding verify_supported sustained_down_def Let_def ne using m t k by blast
qed


text \<open>A hypothesis that deserves a diagnosis of its class.\<close>

definition proven :: "snapshot \<Rightarrow> hypothesis \<Rightarrow> bool" where
  "proven s h \<longleftrightarrow> h_claims h \<noteq> [] \<and> sound_hypothesis s h \<and>
     (\<exists>dd. dict_get DIAGNOSIS_DEFINITIONS (h_class h) = Some dd \<and> (\<exists>c \<in> set (h_claims h). entailed_by dd c))"


section \<open>Two gaps\<close>

definition down_claim :: "string \<Rightarrow> string \<Rightarrow> string \<Rightarrow> string list \<Rightarrow> claim" where
  "down_claim cid subj metric eids =
     \<lparr>claim_id = cid, predicate_type = SUSTAINED, c_subject = subj, c_metric = metric, operator = ''<'',
      comparison = JFloat (1 / 2), c_unit = ''state'', interval = (0, 10), polarity = True, evidence_ids = eids\<rparr>"

definition sample :: "string \<Rightarrow> string \<Rightarrow> string \<Rightarrow> json \<Rightarrow> evidence" where
  "sample eid subj metric v =
     \<lparr>evidence_id = eid, subject = subj, metric_or_event = metric, val = v, unit = ''state'', at_time = 5, trusted = True\<rparr>"

text \<open>An interface that is up, and an unrelated counter that is low.\<close>

definition up_snapshot :: snapshot where
  "up_snapshot = \<lparr>as_of = 10, records = [sample ''e1'' ''leaf1:eth1'' ''oper_state'' (JInt 1), sample ''e2'' ''leaf1:eth1'' ''noise'' (JInt 0)]\<rparr>"

definition forged :: hypothesis where
  "forged = \<lparr>h_class = ''link_down'', h_subject = ''leaf1:eth1'',
     h_claims = [down_claim ''c'' ''leaf1:eth1'' ''oper_state'' [''e1''], down_claim ''c'' ''leaf1:eth1'' ''noise'' [''e2'']]\<rparr>"

text \<open>Verdicts are collected in a dictionary keyed by claim id, so a repeated id hides a claim: on a
  snapshot whose only operational-state sample is up, a hypothesis with a contradicted \<open>link_down\<close> claim
  followed by an irrelevant supported claim of the same id is committed as \<open>link_down\<close>.\<close>

theorem repeated_claim_id_forges_diagnosis:
  "verify (hd (h_claims forged)) up_snapshot = CONTRADICTED \<and>
   outcome (diagnose up_snapshot [forged]) = ''diagnosed'' \<and>
   plan_template (diagnose up_snapshot [forged]) = Some ''tmpl-restart-interface'' \<and>
   \<not> sustained_down up_snapshot ''leaf1:eth1''"
  by (intro conjI) code_simp+

text \<open>The subject of a committed diagnosis is the hypothesis's own text, which nothing compares with the
  subjects of its claims: for every subject whatsoever there is a hypothesis with one supported,
  entailing claim about another link that is committed as a diagnosis of that subject.\<close>

theorem diagnosis_subject_unchecked:
  "\<exists>hyp. diag (diagnose \<lparr>as_of = 10, records = [sample ''e1'' ''leaf1:eth1'' ''oper_state'' (JInt 0)]\<rparr> [hyp]) =
     Some \<lparr>d_class = ''link_down'', d_subject = subj, committed_claims = h_claims hyp\<rparr> \<and>
     (\<forall>c \<in> set (h_claims hyp). c_subject c = ''leaf1:eth1'')"
proof -
  let ?s = "\<lparr>as_of = 10, records = [sample ''e1'' ''leaf1:eth1'' ''oper_state'' (JInt 0)]\<rparr>"
  let ?c = "down_claim ''c'' ''leaf1:eth1'' ''oper_state'' [''e1'']"
  let ?h = "\<lparr>h_class = ''link_down'', h_subject = subj, h_claims = [?c]\<rparr>"
  have v: "verify ?c ?s = SUPPORTED" by code_simp
  have "commit ?s ?h \<noteq> None"
    using v by (simp add: commit_def verdicts_def dict_comp_def committable_def DIAGNOSIS_DEFINITIONS_def entailed_by_def
        down_claim_def)
  then show ?thesis
    by (intro exI [of _ ?h]) (simp add: diagnose_def MAX_HYPOTHESES_def diagnose_loop_spec down_claim_def)
qed

section \<open>Witnesses\<close>

definition down_snapshot :: snapshot where
  "down_snapshot = \<lparr>as_of = 10, records = [sample ''e1'' ''leaf1:eth1'' ''oper_state'' (JInt 0)]\<rparr>"



end
