(* ===== verification/Features.thy ===== *)
theory Features
  imports PyJson
begin

unbundle bit_operations_syntax

text \<open>
  The data contracts and the causal feature stage: \<open>datasets/schemas.py\<close>, \<open>datasets/features.py\<close> and the
  rows that \<open>datasets/telemetry_window.py\<close> captures. \<open>sha\<close> is SHA-256 of a text as hex digits, \<open>fr\<close> the
  JSON form of a float. The Prometheus query is the parameter \<open>fetch\<close>; writing and reading Parquet
  is the identity on the rows. A time stamp is its epoch seconds.
\<close>

section \<open>Schemas\<close>

definition SCHEMA_VERSION :: int where "SCHEMA_VERSION = 1"

definition RAW_TELEMETRY_COLUMNS :: "string list" where
  "RAW_TELEMETRY_COLUMNS =
     [''event_time'', ''received_at'', ''ingested_at'', ''topology_hash'', ''node'', ''interface'', ''direction'',
      ''metric'', ''value'', ''unit'', ''is_counter'', ''quality_flags'', ''source_sequence'', ''schema_version'']"

definition CAUSAL_FEATURE_COLUMNS :: "string list" where
  "CAUSAL_FEATURE_COLUMNS =
     [''example_id'', ''split'', ''incident_runtime_id'', ''window_start'', ''window_end'', ''as_of_at'', ''node'',
      ''interface'', ''util_ratio'', ''error_rate'', ''discard_rate'', ''sample_age_s'', ''missingness_mask'',
      ''feature_schema_hash'', ''preprocessor_hash'']"

definition EVENT_ENVELOPE_FIELDS :: "string list" where
  "EVENT_ENVELOPE_FIELDS =
     [''schema_version'', ''event_id'', ''event_type'', ''event_time'', ''observed_at'', ''source'', ''trace_id'', ''payload'']"

definition FORBIDDEN_FEATURE_COLUMNS :: "string list" where
  "FORBIDDEN_FEATURE_COLUMNS =
     [''t_clear'', ''t_settled'', ''incident_duration'', ''ground_truth'', ''label'', ''scenario_key'',
      ''fault_class'', ''split_answer'']"

definition schema_payload :: json where
  "schema_payload = JObj
     [(''version'', JInt SCHEMA_VERSION), (''raw_telemetry'', JArr (map JStr RAW_TELEMETRY_COLUMNS)),
      (''causal_feature'', JArr (map JStr CAUSAL_FEATURE_COLUMNS)),
      (''event_envelope'', JArr (map JStr EVENT_ENVELOPE_FIELDS))]"

definition schema_hash :: "(string \<Rightarrow> string) \<Rightarrow> (pyfloat \<Rightarrow> string) \<Rightarrow> string" where
  "schema_hash sha fr = sha (dumps_sorted fr schema_payload)"

section \<open>Causal features\<close>

record raw_sample =
  rs_t :: pyfloat
  rs_metric :: string
  rs_value :: pyfloat

record feature_meta =
  fm_example_id :: string
  fm_split :: string
  fm_incident_runtime_id :: string
  fm_node :: string
  fm_interface :: string
  window_start :: pyfloat
  window_end :: pyfloat
  as_of_at :: pyfloat

record causal_feats =
  util_ratio :: pyfloat
  error_rate :: pyfloat
  discard_rate :: pyfloat
  sample_age_s :: pyfloat
  missingness_mask :: int

definition NOMINAL_CAPACITY_BPS :: pyfloat where "NOMINAL_CAPACITY_BPS = 10000000000"

definition preprocessor_hash :: "(string \<Rightarrow> string) \<Rightarrow> (pyfloat \<Rightarrow> string) \<Rightarrow> pyfloat \<Rightarrow> string" where
  "preprocessor_hash sha fr w_seconds =
     sha (dumps_sorted fr (JObj
       [(''code'', JStr ''gate9-causal-features-v1''), (''capacity_bps'', JFloat NOMINAL_CAPACITY_BPS),
        (''rate_method'', JStr ''endpoint-delta''),
        (''channels'', JArr (map JStr [''util_ratio'', ''error_rate'', ''discard_rate'', ''oper_state''])),
        (''w_seconds'', JFloat w_seconds)]))"

definition counter_delta :: "pyfloat \<Rightarrow> pyfloat" where
  "counter_delta dv = (if dv < 0 then 0 else dv)"

definition rate :: "raw_sample list \<Rightarrow> pyfloat \<times> bool" where
  "rate samples =
     (if length samples < 2 then (0, False)
      else let pts = sort_key rs_t samples; dt = rs_t (last pts) - rs_t (hd pts) in
        if dt \<le> 0 then (0, True)
        else (counter_delta (rs_value (last pts) - rs_value (hd pts)) / dt, True))"

definition in_window :: "pyfloat \<Rightarrow> pyfloat \<Rightarrow> raw_sample \<Rightarrow> bool" where
  "in_window as_of w s \<longleftrightarrow> as_of - w \<le> rs_t s \<and> rs_t s \<le> as_of"

definition channel :: "raw_sample list \<Rightarrow> string \<Rightarrow> raw_sample list" where
  "channel win m = filter (\<lambda>s. rs_metric s = m) win"

definition bit_if_missing :: "bool \<Rightarrow> int" where
  "bit_if_missing present = (if present then 0 else 1)"

definition mask_of :: "bool \<Rightarrow> bool \<Rightarrow> bool \<Rightarrow> bool \<Rightarrow> int" where
  "mask_of util_present error_present discard_present oper_present =
     bit_if_missing util_present OR push_bit 1 (bit_if_missing error_present) OR
     push_bit 2 (bit_if_missing discard_present) OR push_bit 3 (bit_if_missing oper_present)"

definition causal_features :: "raw_sample list \<Rightarrow> pyfloat \<Rightarrow> pyfloat \<Rightarrow> pyfloat \<Rightarrow> causal_feats res" where
  "causal_features samples as_of w_seconds capacity_bps =
     (let win = filter (in_window as_of w_seconds) samples;
          (in_o, p_ino) = rate (channel win ''in_octets'');
          (out_o, p_outo) = rate (channel win ''out_octets'');
          (in_e, p_ine) = rate (channel win ''in_error_packets'');
          (out_e, p_oute) = rate (channel win ''out_error_packets'');
          (in_d, p_ind) = rate (channel win ''in_discarded_packets'');
          (out_d, p_outd) = rate (channel win ''out_discarded_packets'');
          octet_bps = 8 * max in_o out_o
      in if capacity_bps = 0 then Inl ZeroDivisionError
         else Inr \<lparr>util_ratio = min 1 (max 0 (octet_bps / capacity_bps)),
          error_rate = in_e + out_e,
          discard_rate = in_d + out_d,
          sample_age_s = (if win = [] then w_seconds else as_of - Max (rs_t ` set win)),
          missingness_mask = mask_of (p_ino \<and> p_outo) (p_ine \<and> p_oute) (p_ind \<and> p_outd)
            (channel win ''oper_state'' \<noteq> [])\<rparr>)"

definition feature_dict :: "causal_feats \<Rightarrow> (string, json) dict" where
  "feature_dict f =
     [(''util_ratio'', JFloat (util_ratio f)), (''error_rate'', JFloat (error_rate f)),
      (''discard_rate'', JFloat (discard_rate f)), (''sample_age_s'', JFloat (sample_age_s f)),
      (''missingness_mask'', JInt (missingness_mask f))]"

definition build_feature_row ::
    "(string \<Rightarrow> string) \<Rightarrow> (pyfloat \<Rightarrow> string) \<Rightarrow> feature_meta \<Rightarrow> raw_sample list \<Rightarrow> pyfloat \<Rightarrow> (string, json) dict res" where
  "build_feature_row sha fr meta samples capacity_bps =
     (let w_seconds = window_end meta - window_start meta in
      bindr (causal_features samples (as_of_at meta) w_seconds capacity_bps) (\<lambda>feats.
        let row = [(''example_id'', JStr (fm_example_id meta)), (''split'', JStr (fm_split meta)),
             (''incident_runtime_id'', JStr (fm_incident_runtime_id meta)),
             (''window_start'', JFloat (window_start meta)), (''window_end'', JFloat (window_end meta)),
             (''as_of_at'', JFloat (as_of_at meta)), (''node'', JStr (fm_node meta)),
             (''interface'', JStr (fm_interface meta))] @ feature_dict feats @
            [(''feature_schema_hash'', JStr (schema_hash sha fr)),
             (''preprocessor_hash'', JStr (preprocessor_hash sha fr w_seconds))]
        in if set (dict_keys row) \<noteq> set CAUSAL_FEATURE_COLUMNS then Inl AssertionError
           else if set (dict_keys row) \<inter> set FORBIDDEN_FEATURE_COLUMNS \<noteq> {} then Inl AssertionError
           else Inr row))"

section \<open>Capturing a window\<close>

record raw_row =
  rr_event_time :: pyfloat
  rr_received_at :: pyfloat
  rr_ingested_at :: pyfloat
  rr_topology_hash :: string
  rr_node :: string
  rr_interface :: string
  rr_direction :: string
  rr_metric :: string
  rr_value :: pyfloat
  rr_unit :: string
  rr_is_counter :: bool
  rr_quality_flags :: string
  rr_source_sequence :: nat
  rr_schema_version :: int

record series =
  se_labels :: "(string, string) dict"
  se_values :: "(pyfloat \<times> string) list"

definition COUNTER_PREFIX :: string where
  "COUNTER_PREFIX = ''closcall_if_counters_srl_nokia_interfaces_interface_statistics_''"

definition COUNTERS :: "(string, string \<times> string \<times> string \<times> bool) dict" where
  "COUNTERS =
     [(COUNTER_PREFIX @ ''in_octets'', ''in_octets'', ''in'', ''bytes'', True),
      (COUNTER_PREFIX @ ''out_octets'', ''out_octets'', ''out'', ''bytes'', True),
      (COUNTER_PREFIX @ ''in_error_packets'', ''in_error_packets'', ''in'', ''packets'', True),
      (COUNTER_PREFIX @ ''out_error_packets'', ''out_error_packets'', ''out'', ''packets'', True),
      (COUNTER_PREFIX @ ''in_discarded_packets'', ''in_discarded_packets'', ''in'', ''packets'', True),
      (COUNTER_PREFIX @ ''out_discarded_packets'', ''out_discarded_packets'', ''out'', ''packets'', True)]"

definition OPER_METRIC :: string where
  "OPER_METRIC = ''closcall_if_state_srl_nokia_interfaces_interface_oper_state''"

text \<open>One point before it is numbered: time, direction, metric, value, unit, counter flag, quality flags.\<close>

type_synonym point = "pyfloat \<times> string \<times> string \<times> pyfloat \<times> string \<times> bool \<times> string"

definition counter_points ::
    "(string \<Rightarrow> pyfloat res) \<Rightarrow> (string \<Rightarrow> series list) \<Rightarrow> string \<times> string \<times> string \<times> string \<times> bool \<Rightarrow> point list res" where
  "counter_points to_float fetch c =
     (case c of (prom_name, short, direction, un, is_counter) \<Rightarrow>
        map_res (\<lambda>(ts, v). bindr (to_float v) (\<lambda>x. Inr (ts, direction, short, x, un, is_counter, [])))
          (concat (map se_values (fetch prom_name))))"

definition oper_points :: "(string \<Rightarrow> series list) \<Rightarrow> point list" where
  "oper_points fetch =
     concat (map (\<lambda>s. let state = (case dict_get (se_labels s) ''oper_state'' of None \<Rightarrow> ''unknown'' | Some v \<Rightarrow> v) in
         map (\<lambda>(ts, _). (ts, ''na'', ''oper_state'', if state = ''up'' then 1 else 0, ''state'', False, ''oper='' @ state))
           (se_values s))
       (fetch OPER_METRIC))"

definition number_rows :: "pyfloat \<Rightarrow> string \<Rightarrow> string \<Rightarrow> string \<Rightarrow> point list \<Rightarrow> raw_row list" where
  "number_rows read_at topo nd iface ps =
     map (\<lambda>(seq, (t, direction, metric, v, un, is_counter, flags)).
         \<lparr>rr_event_time = t, rr_received_at = read_at, rr_ingested_at = read_at, rr_topology_hash = topo, rr_node = nd,
          rr_interface = iface, rr_direction = direction, rr_metric = metric, rr_value = v, rr_unit = un,
          rr_is_counter = is_counter, rr_quality_flags = flags, rr_source_sequence = seq,
          rr_schema_version = SCHEMA_VERSION\<rparr>)
       (enumerate 0 ps)"

definition capture_window ::
    "(string \<Rightarrow> pyfloat res) \<Rightarrow> (string \<Rightarrow> string \<Rightarrow> string \<Rightarrow> pyfloat \<Rightarrow> pyfloat \<Rightarrow> series list) \<Rightarrow> pyfloat \<Rightarrow>
     string \<Rightarrow> string \<Rightarrow> pyfloat \<Rightarrow> pyfloat \<Rightarrow> string \<Rightarrow> raw_row list res" where
  "capture_window to_float fetch read_at nd iface start end_t topo =
     (let f = (\<lambda>m. fetch m nd iface start end_t) in
      bindr (map_res (counter_points to_float f) COUNTERS) (\<lambda>pss.
        Inr (number_rows read_at topo nd iface (concat pss @ oper_points f))))"

definition read_window_samples :: "raw_row list \<Rightarrow> raw_sample list" where
  "read_window_samples rows =
     map (\<lambda>r. \<lparr>rs_t = rr_event_time r, rs_metric = rr_metric r, rs_value = rr_value r\<rparr>) rows"

section \<open>Lemmas\<close>

lemma rate_nonneg: "0 \<le> fst (rate xs)"
  by (auto simp: rate_def Let_def counter_delta_def)

lemma mask_of_eq:
  "mask_of a b c d = of_bool (\<not> a) + 2 * of_bool (\<not> b) + 4 * of_bool (\<not> c) + 8 * of_bool (\<not> d)"
  by (cases a; cases b; cases c; cases d) (simp_all add: mask_of_def bit_if_missing_def)

lemma mask_of_bits:
  "bit (mask_of a b c d) 0 = (\<not> a)" "bit (mask_of a b c d) 1 = (\<not> b)"
  "bit (mask_of a b c d) 2 = (\<not> c)" "bit (mask_of a b c d) 3 = (\<not> d)"
  by (cases a; cases b; cases c; cases d; simp add: mask_of_def bit_if_missing_def bit_simps)+

lemma mask_of_range: "0 \<le> mask_of a b c d \<and> mask_of a b c d < 16"
  by (simp add: mask_of_eq)

lemma in_window_age:
  assumes "filter (in_window as_of w) samples \<noteq> []"
  shows "0 \<le> as_of - Max (rs_t ` set (filter (in_window as_of w) samples))"
    and "as_of - Max (rs_t ` set (filter (in_window as_of w) samples)) \<le> w"
proof -
  let ?T = "rs_t ` set (filter (in_window as_of w) samples)"
  have "?T \<noteq> {}" using assms by (simp only: image_is_empty set_empty not_False_eq_True)
  then have "Max ?T \<in> ?T" by (intro Max_in) (rule finite_imageI [OF finite_set])
  then obtain s where "Max ?T = rs_t s" "in_window as_of w s" by auto
  then show "0 \<le> as_of - Max ?T" "as_of - Max ?T \<le> w" by (auto simp: in_window_def)
qed

section \<open>Properties\<close>

text \<open>The features are causal: they depend on the samples inside the window \<open>[as_of - W, as_of]\<close> only, so
  samples later than the decision time, or earlier than the window, however many and whatever their
  values, change nothing.\<close>

theorem features_causal:
  "causal_features (xs @ later) as_of w cap =
     causal_features (filter (in_window as_of w) xs @ filter (\<lambda>s. rs_t s \<le> as_of) later) as_of w cap"
proof -
  have "filter (in_window as_of w) (xs @ later) =
      filter (in_window as_of w) (filter (in_window as_of w) xs @ filter (\<lambda>s. rs_t s \<le> as_of) later)"
    by (simp add: in_window_def [abs_def]) (rule filter_cong, auto)
  then show ?thesis unfolding causal_features_def by (rule arg_cong)
qed

text \<open>Every feature lies in its documented range, for every window with \<open>W\<close> non-negative: utilisation between
  0 and 1, error and discard rates non-negative, the sample age between 0 and \<open>W\<close>, and the mask a
  four-bit number whose bits say exactly which channels cannot be computed (a rate needs two samples
  of both directions, the operational state one).\<close>

theorem features_in_range:
  assumes "0 \<le> w" and "causal_features xs as_of w cap = Inr f"
    and "win = filter (in_window as_of w) xs" and "present = (\<lambda>m. 2 \<le> length (channel win m))"
  shows "0 \<le> util_ratio f \<and> util_ratio f \<le> 1 \<and> 0 \<le> error_rate f \<and> 0 \<le> discard_rate f \<and>
    0 \<le> sample_age_s f \<and> sample_age_s f \<le> w \<and> 0 \<le> missingness_mask f \<and> missingness_mask f < 16 \<and>
    (bit (missingness_mask f) 0 \<longleftrightarrow> \<not> (present ''in_octets'' \<and> present ''out_octets'')) \<and>
    (bit (missingness_mask f) 1 \<longleftrightarrow> \<not> (present ''in_error_packets'' \<and> present ''out_error_packets'')) \<and>
    (bit (missingness_mask f) 2 \<longleftrightarrow> \<not> (present ''in_discarded_packets'' \<and> present ''out_discarded_packets'')) \<and>
    (bit (missingness_mask f) 3 \<longleftrightarrow> channel win ''oper_state'' = [])"
proof -
  have p: "snd (rate ys) \<longleftrightarrow> 2 \<le> length ys" for ys by (auto simp: rate_def Let_def)
  have f: "f = \<lparr>util_ratio = util_ratio f, error_rate = fst (rate (channel win ''in_error_packets'')) + fst (rate (channel win ''out_error_packets'')),
     discard_rate = fst (rate (channel win ''in_discarded_packets'')) + fst (rate (channel win ''out_discarded_packets'')),
     sample_age_s = (if win = [] then w else as_of - Max (rs_t ` set win)),
     missingness_mask = mask_of (present ''in_octets'' \<and> present ''out_octets'') (present ''in_error_packets'' \<and> present ''out_error_packets'')
       (present ''in_discarded_packets'' \<and> present ''out_discarded_packets'') (channel win ''oper_state'' \<noteq> [])\<rparr>"
    and u: "0 \<le> util_ratio f \<and> util_ratio f \<le> 1"
    using assms(2) unfolding causal_features_def Let_def case_prod_beta p assms(3,4) by (auto split: if_splits)
  have age: "0 \<le> (if win = [] then w else as_of - Max (rs_t ` set win)) \<and>
      (if win = [] then w else as_of - Max (rs_t ` set win)) \<le> w"
    using assms(1) in_window_age [of as_of w xs] unfolding assms(3) by simp
  show ?thesis
    by (subst (3 4 5 6 7 8 9 10 11 12) f) (simp add: u age mask_of_bits mask_of_range rate_nonneg del: One_nat_def)
qed

text \<open>Two samples of one channel inside a ten-second window.\<close>

definition demo_samples :: "raw_sample list" where
  "demo_samples = [\<lparr>rs_t = 12, rs_metric = ''in_octets'', rs_value = 100\<rparr>, \<lparr>rs_t = 18, rs_metric = ''in_octets'', rs_value = 700\<rparr>]"

theorem features_in_range_witness:
  "\<exists>f. causal_features demo_samples 20 10 NOMINAL_CAPACITY_BPS = Inr f \<and> sample_age_s f \<le> 10"
proof -
  have "\<exists>f. causal_features demo_samples 20 10 NOMINAL_CAPACITY_BPS = Inr f"
    unfolding causal_features_def Let_def case_prod_beta by (simp add: NOMINAL_CAPACITY_BPS_def)
  then obtain f where f: "causal_features demo_samples 20 10 NOMINAL_CAPACITY_BPS = Inr f" ..
  show ?thesis using features_in_range [OF _ f refl refl] f by auto
qed

text \<open>Assembling a row never fails its own assertions: every row has exactly the frozen columns, none of them
  forbidden, whatever the metadata and the samples.\<close>

theorem feature_row_total:
  assumes "cap \<noteq> 0"
  shows "\<exists>feats row. causal_features samples (as_of_at meta) (window_end meta - window_start meta) cap = Inr feats \<and>
     build_feature_row sha fr meta samples cap = Inr row \<and> set (dict_keys row) = set CAUSAL_FEATURE_COLUMNS \<and>
     distinct (dict_keys row) \<and> set (dict_keys row) \<inter> set FORBIDDEN_FEATURE_COLUMNS = {} \<and>
     dict_get row ''missingness_mask'' = Some (JInt (missingness_mask feats)) \<and>
     dict_get row ''util_ratio'' = Some (JFloat (util_ratio feats))"
proof -
  have c: "set CAUSAL_FEATURE_COLUMNS \<inter> set FORBIDDEN_FEATURE_COLUMNS = {}" by code_simp
  have "\<exists>feats. causal_features samples (as_of_at meta) (window_end meta - window_start meta) cap = Inr feats"
    unfolding causal_features_def Let_def case_prod_beta using assms by simp
  then show ?thesis
    unfolding build_feature_row_def Let_def feature_dict_def
    using c by (auto simp: CAUSAL_FEATURE_COLUMNS_def)
qed

theorem feature_row_total_witness:
  "\<exists>row. build_feature_row id (\<lambda>_. []) \<lparr>fm_example_id = ''e'', fm_split = ''train'', fm_incident_runtime_id = ''i'', fm_node = ''leaf1'',
       fm_interface = ''ethernet-1/1'', window_start = 10, window_end = 20, as_of_at = 20\<rparr> demo_samples 1 = Inr row"
  using feature_row_total [of 1 demo_samples] by (metis zero_neq_one)

lemma number_rows_seq: "map rr_source_sequence (number_rows r t n i ps) = [0..<length ps]"
  unfolding number_rows_def map_map comp_def case_prod_beta raw_row.simps by (simp flip: enumerate_eq_zip [where n = 0, simplified])

end
