(* ===== verification/Sensors.thy ===== *)
theory Sensors
  imports Features
begin

text \<open>
  The streaming detectors: \<open>sensors/common.py\<close>, \<open>sensors/rules/fsm.py\<close>, \<open>sensors/timeseries/statistical.py\<close>.
  A detector is a state and a step from a sample to an optional alarm; \<open>run_stream\<close> folds it over a
  stream. The parameter \<open>fs\<close> is Python's formatting of a float inside an f-string.
\<close>

section \<open>Samples, alarms and the stream\<close>

record sample =
  s_t :: pyfloat
  s_value :: pyfloat

record alarm =
  raised_at :: pyfloat
  al_detector :: string
  al_detail :: string

type_synonym 'd step = "'d \<Rightarrow> sample \<Rightarrow> alarm option \<times> 'd"

fun run_stream :: "'d step \<Rightarrow> 'd \<Rightarrow> sample list \<Rightarrow> alarm list \<times> 'd" where
  "run_stream upd d [] = ([], d)"
| "run_stream upd d (s # ss) =
     (let (a, d') = upd d s; (out, d'') = run_stream upd d' ss
      in (case a of None \<Rightarrow> out | Some x \<Rightarrow> x # out, d''))"

section \<open>The debouncer\<close>

record debouncer =
  persistence :: int
  cooldown_s :: pyfloat
  deb_run :: int
  armed :: bool
  last_raise :: "pyfloat option"

definition new_debouncer :: "int \<Rightarrow> pyfloat \<Rightarrow> debouncer res" where
  "new_debouncer p c =
     (if p < 1 then Inl (ValueError ''persistence must be >= 1'')
      else if c < 0 then Inl (ValueError ''cooldown_s must be >= 0'')
      else Inr \<lparr>persistence = p, cooldown_s = c, deb_run = 0, armed = True, last_raise = None\<rparr>)"

definition cooling :: "debouncer \<Rightarrow> pyfloat \<Rightarrow> bool" where
  "cooling d now = (case last_raise d of None \<Rightarrow> False | Some l \<Rightarrow> now - l < cooldown_s d)"

definition observe :: "debouncer \<Rightarrow> pyfloat \<Rightarrow> bool \<Rightarrow> bool \<times> debouncer" where
  "observe d now crossing =
     (if \<not> crossing then (False, d\<lparr>deb_run := 0, armed := True\<rparr>)
      else let d1 = d\<lparr>deb_run := deb_run d + 1\<rparr> in
        if deb_run d1 < persistence d1 \<or> \<not> armed d1 then (False, d1)
        else if cooling d1 now then (False, d1)
        else (True, d1\<lparr>armed := False, last_raise := Some now\<rparr>))"

section \<open>The operational-state machine\<close>

record oper_detector =
  down_below :: pyfloat
  od_deb :: debouncer

definition new_oper_detector :: "pyfloat \<Rightarrow> int \<Rightarrow> pyfloat \<Rightarrow> oper_detector res" where
  "new_oper_detector below p c = bindr (new_debouncer p c) (\<lambda>d. Inr \<lparr>down_below = below, od_deb = d\<rparr>)"

definition oper_update :: "oper_detector step" where
  "oper_update o_d s =
     (let crossing = s_value s < down_below o_d; (raised, d) = observe (od_deb o_d) (s_t s) crossing
      in (if raised then Some \<lparr>raised_at = s_t s, al_detector = ''oper_state_fsm'', al_detail = ''oper-state down persisted''\<rparr>
          else None, o_d\<lparr>od_deb := d\<rparr>))"

section \<open>Robust EWMA z-score\<close>

record ewma =
  ew_alpha :: pyfloat
  z_threshold :: pyfloat
  ew_warmup :: int
  ew_eps :: pyfloat
  ew_deb :: debouncer
  ew_mean :: "pyfloat option"
  ew_mad :: pyfloat
  ew_n :: int

definition MAD_TO_SIGMA :: pyfloat where "MAD_TO_SIGMA = 14826 / 10000"

text \<open>No caller overrides the default of \<open>eps\<close>, so every scale a score divides by is positive.\<close>

definition EWMA_EPS :: pyfloat where "EWMA_EPS = 1 / 10 ^ 9"

definition new_ewma :: "pyfloat \<Rightarrow> pyfloat \<Rightarrow> int \<Rightarrow> int \<Rightarrow> pyfloat \<Rightarrow> ewma res" where
  "new_ewma alpha z w p c =
     (if \<not> (0 < alpha \<and> alpha \<le> 1) then Inl (ValueError ''alpha must be in (0, 1]'')
      else bindr (new_debouncer p c) (\<lambda>d.
        Inr \<lparr>ew_alpha = alpha, z_threshold = z, ew_warmup = w, ew_eps = EWMA_EPS, ew_deb = d, ew_mean = None, ew_mad = 0, ew_n = 0\<rparr>))"

text \<open>The score of a sample against the estimates of strictly earlier samples.\<close>

definition z_score :: "ewma \<Rightarrow> pyfloat \<Rightarrow> pyfloat \<Rightarrow> pyfloat" where
  "z_score e mean x =
     (let sigma = MAD_TO_SIGMA * ew_mad e in
      if ew_warmup e \<le> ew_n e \<and> ew_eps e < sigma then (x - mean) / sigma else 0)"

definition ewma_update :: "(pyfloat \<Rightarrow> string) \<Rightarrow> ewma step" where
  "ewma_update fs e s =
     (let x = s_value s in
      case ew_mean e of
        None \<Rightarrow> (None, e\<lparr>ew_mean := Some x, ew_n := 1\<rparr>)
      | Some mean \<Rightarrow>
          let dev = \<bar>x - mean\<bar>;
              crossing = z_threshold e \<le> \<bar>z_score e mean x\<bar>;
              (raised, d) = observe (ew_deb e) (s_t s) crossing
          in (if raised
               then Some \<lparr>raised_at = s_t s, al_detector = ''robust_ewma_z'', al_detail = ''|z|>='' @ fs (z_threshold e)\<rparr>
               else None,
              e\<lparr>ew_mean := Some (if crossing then mean else (1 - ew_alpha e) * mean + ew_alpha e * x),
                ew_mad := (if crossing then ew_mad e else (1 - ew_alpha e) * ew_mad e + ew_alpha e * dev),
                ew_n := ew_n e + 1, ew_deb := d\<rparr>))"

section \<open>Two-sided CUSUM\<close>

record cusum =
  slack_k :: pyfloat
  threshold_h :: pyfloat
  ref_alpha :: pyfloat
  cu_warmup :: int
  cu_deb :: debouncer
  cu_mean :: "pyfloat option"
  cu_sp :: pyfloat
  cu_sn :: pyfloat
  cu_n :: int

definition new_cusum :: "pyfloat \<Rightarrow> pyfloat \<Rightarrow> pyfloat \<Rightarrow> int \<Rightarrow> int \<Rightarrow> pyfloat \<Rightarrow> cusum res" where
  "new_cusum k h r w p c = bindr (new_debouncer p c) (\<lambda>d.
     Inr \<lparr>slack_k = k, threshold_h = h, ref_alpha = r, cu_warmup = w, cu_deb = d, cu_mean = None, cu_sp = 0, cu_sn = 0, cu_n = 0\<rparr>)"

definition cusum_update :: "(pyfloat \<Rightarrow> string) \<Rightarrow> cusum step" where
  "cusum_update fs c s =
     (let x = s_value s in
      case cu_mean c of
        None \<Rightarrow> (None, c\<lparr>cu_mean := Some x, cu_n := 1\<rparr>)
      | Some mean \<Rightarrow>
          let d = x - mean;
              sp = max 0 (cu_sp c + d - slack_k c);
              sn = min 0 (cu_sn c + d + slack_k c);
              crossing = (cu_warmup c \<le> cu_n c \<and> (threshold_h c < sp \<or> threshold_h c < - sn));
              (raised, db) = observe (cu_deb c) (s_t s) crossing
          in (if raised
               then Some \<lparr>raised_at = s_t s, al_detector = ''cusum'', al_detail = ''S>'' @ fs (threshold_h c)\<rparr>
               else None,
              c\<lparr>cu_mean := Some ((1 - ref_alpha c) * mean + ref_alpha c * x), cu_n := cu_n c + 1,
                cu_sp := (if crossing then 0 else sp), cu_sn := (if crossing then 0 else sn), cu_deb := db\<rparr>))"

section \<open>The debouncer, declaratively\<close>

text \<open>
  \<open>raises\<close> folds \<open>observe\<close> over the crossing flags of a stream; \<open>run_len\<close> is the length of the run of
  crossings a stream ends with.
\<close>

fun raises :: "debouncer \<Rightarrow> (pyfloat \<times> bool) list \<Rightarrow> bool list" where
  "raises d [] = []"
| "raises d ((now, c) # xs) = (let (r, d') = observe d now c in r # raises d' xs)"

definition deb_after :: "debouncer \<Rightarrow> (pyfloat \<times> bool) list \<Rightarrow> debouncer" where
  "deb_after d xs = fold (\<lambda>(now, c) d. snd (observe d now c)) xs d"

definition run_len :: "(pyfloat \<times> bool) list \<Rightarrow> nat" where
  "run_len xs = length (takeWhile snd (rev xs))"

lemma length_raises [simp]: "length (raises d xs) = length xs"
  by (induction xs arbitrary: d) (auto simp: Let_def split: prod.splits)

lemma deb_after_simps [simp]:
  "deb_after d [] = d"
  "deb_after d (x # xs) = deb_after (snd (observe d (fst x) (snd x))) xs"
  "deb_after d (xs @ [x]) = snd (observe (deb_after d xs) (fst x) (snd x))"
  by (simp_all add: deb_after_def case_prod_beta)

lemma raises_snoc: "raises d (xs @ [x]) = raises d xs @ [fst (observe (deb_after d xs) (fst x) (snd x))]"
  by (cases x, induction xs arbitrary: d) (auto simp: Let_def case_prod_beta)

lemma run_len_snoc [simp]: "run_len (xs @ [x]) = (if snd x then Suc (run_len xs) else 0)"
  by (simp add: run_len_def)

lemma run_len_le: "run_len xs \<le> length xs"
  by (metis length_rev length_takeWhile_le run_len_def)

text \<open>What the three state variables of the debouncer remember of the stream so far.\<close>

definition deb_inv :: "debouncer \<Rightarrow> (pyfloat \<times> bool) list \<Rightarrow> debouncer \<Rightarrow> bool" where
  "deb_inv d0 xs d \<longleftrightarrow>
     persistence d = persistence d0 \<and> cooldown_s d = cooldown_s d0 \<and> deb_run d = int (run_len xs) \<and>
     (armed d \<longleftrightarrow> (\<forall>j < length xs. raises d0 xs ! j \<longrightarrow> j + run_len xs < length xs)) \<and>
     (case last_raise d of
        None \<Rightarrow> \<forall>j < length xs. \<not> raises d0 xs ! j
      | Some l \<Rightarrow> (\<exists>j < length xs. raises d0 xs ! j \<and> fst (xs ! j) = l) \<and>
          (\<forall>j < length xs. raises d0 xs ! j \<longrightarrow> fst (xs ! j) \<le> l))"

lemma observe_raises_iff:
  "fst (observe d now c) \<longleftrightarrow> c \<and> persistence d \<le> deb_run d + 1 \<and> armed d \<and> \<not> cooling d now"
  by (auto simp: observe_def Let_def cooling_def split: option.splits)

lemma deb_inv_raise:
  assumes inv: "deb_inv d0 xs d" and c0: "0 \<le> cooldown_s d0"
  shows "fst (observe d now c) \<longleftrightarrow> c \<and> persistence d0 \<le> int (run_len xs) + 1 \<and>
    (\<forall>j < length xs. raises d0 xs ! j \<longrightarrow> j + run_len xs < length xs \<and> cooldown_s d0 \<le> now - fst (xs ! j))"
proof -
  have "\<not> cooling d now \<longleftrightarrow> (\<forall>j < length xs. raises d0 xs ! j \<longrightarrow> cooldown_s d0 \<le> now - fst (xs ! j))"
    using inv unfolding deb_inv_def cooling_def by (cases "last_raise d") (simp, force)
  then show ?thesis
    using inv unfolding observe_raises_iff deb_inv_def by auto
qed

lemma observe_state:
  "persistence (snd (observe d now c)) = persistence d"
  "cooldown_s (snd (observe d now c)) = cooldown_s d"
  "deb_run (snd (observe d now c)) = (if c then deb_run d + 1 else 0)"
  "armed (snd (observe d now c)) = (if c then armed d \<and> \<not> fst (observe d now c) else True)"
  "last_raise (snd (observe d now c)) = (if fst (observe d now c) then Some now else last_raise d)"
  by (auto simp: observe_def Let_def cooling_def)

lemma all_less_Suc_nth: "(\<forall>j < Suc n. P j) \<longleftrightarrow> (\<forall>j < n. P j) \<and> P n"
  by (auto simp: less_Suc_eq)

lemma deb_inv_after:
  assumes new: "deb_run d0 = 0" "armed d0" "last_raise d0 = None" and c0: "0 \<le> cooldown_s d0"
  shows "deb_inv d0 xs (deb_after d0 xs)"
proof (induction xs rule: rev_induct)
  case Nil
  show ?case using new by (simp add: deb_inv_def run_len_def)
next
  case (snoc x xs)
  let ?d = "deb_after d0 xs"
  let ?r = "fst (observe ?d (fst x) (snd x))"
  note rs = raises_snoc [of d0 xs x] and step = observe_state [of ?d "fst x" "snd x"]
  have nth: "j < length xs \<Longrightarrow> raises d0 (xs @ [x]) ! j = raises d0 xs ! j" "raises d0 (xs @ [x]) ! length xs = ?r" for j
    unfolding rs by (simp_all add: nth_append)
  have xnth: "j < length xs \<Longrightarrow> (xs @ [x]) ! j = xs ! j" "(xs @ [x]) ! length xs = x" for j
    by (simp_all add: nth_append)
  have le: "fst (xs ! j) \<le> fst x" if "?r" "j < length xs" "raises d0 xs ! j" for j
    using that c0 unfolding deb_inv_raise [OF snoc.IH c0] by force
  have "(armed (deb_after d0 (xs @ [x])) \<longleftrightarrow>
      (\<forall>j < length (xs @ [x]). raises d0 (xs @ [x]) ! j \<longrightarrow> j + run_len (xs @ [x]) < length (xs @ [x])))"
    using snoc.IH observe_raises_iff [of ?d "fst x" "snd x"]
    unfolding deb_inv_def deb_after_simps step length_append_singleton all_less_Suc_nth nth
    by (auto simp: nth(1))
  moreover have "case last_raise (deb_after d0 (xs @ [x])) of
        None \<Rightarrow> \<forall>j < length (xs @ [x]). \<not> raises d0 (xs @ [x]) ! j
      | Some l \<Rightarrow> (\<exists>j < length (xs @ [x]). raises d0 (xs @ [x]) ! j \<and> fst ((xs @ [x]) ! j) = l) \<and>
          (\<forall>j < length (xs @ [x]). raises d0 (xs @ [x]) ! j \<longrightarrow> fst ((xs @ [x]) ! j) \<le> l)"
  proof (cases ?r)
    case True
    then show ?thesis
      unfolding deb_after_simps step length_append_singleton all_less_Suc_nth nth xnth using le
      by (auto simp: nth xnth intro!: exI [of _ "length xs"])
  next
    case False
    have "case last_raise ?d of None \<Rightarrow> \<forall>j < length xs. \<not> raises d0 xs ! j
      | Some l \<Rightarrow> (\<exists>j < length xs. raises d0 xs ! j \<and> fst (xs ! j) = l) \<and> (\<forall>j < length xs. raises d0 xs ! j \<longrightarrow> fst (xs ! j) \<le> l)"
      using snoc.IH unfolding deb_inv_def by blast
    with False show ?thesis
      unfolding deb_after_simps step length_append_singleton all_less_Suc_nth nth
      by (cases "last_raise ?d") (auto simp: nth xnth less_Suc_eq)
  qed
  ultimately show ?case
    using snoc.IH unfolding deb_inv_def deb_after_simps step by simp
qed

lemma raises_take: "i < length xs \<Longrightarrow>
    raises d xs ! i = fst (observe (deb_after d (take i xs)) (fst (xs ! i)) (snd (xs ! i)))"
proof (induction xs arbitrary: i d)
  case (Cons x xs)
  then show ?case by (cases i; cases x) (auto simp: Let_def case_prod_beta)
qed simp

lemma raises_nth_take: "j < i \<Longrightarrow> i \<le> length xs \<Longrightarrow> raises d (take i xs) ! j = raises d xs ! j"
  by (simp add: raises_take min_def)

lemma new_debouncer_Inr:
  assumes "new_debouncer p c = Inr d"
  shows "persistence d = p" "cooldown_s d = c" "deb_run d = 0" "armed d" "last_raise d = None" "1 \<le> p" "0 \<le> c"
  using assms by (auto simp: new_debouncer_def split: if_splits)

text \<open>
  When a debouncer raises: at the positions of \<open>raise_at\<close>. The run of crossings that ends at \<open>i\<close> has
  at least \<open>p\<close> samples, and every earlier raise lies before that run and at least \<open>c\<close> seconds back.
\<close>

definition raise_at :: "int \<Rightarrow> pyfloat \<Rightarrow> (pyfloat \<times> bool) list \<Rightarrow> bool list \<Rightarrow> nat \<Rightarrow> bool" where
  "raise_at p c xs rs i \<longleftrightarrow>
     p \<le> int (run_len (take (Suc i) xs)) \<and>
     (\<forall>j < i. rs ! j \<longrightarrow> j + run_len (take (Suc i) xs) \<le> i \<and> c \<le> fst (xs ! i) - fst (xs ! j))"

lemma raises_iff:
  assumes new: "new_debouncer p c = Inr d" and i: "i < length xs"
  shows "raises d xs ! i \<longleftrightarrow> raise_at p c xs (raises d xs) i"
proof -
  note nd = new_debouncer_Inr [OF new]
  have inv: "deb_inv d (take i xs) (deb_after d (take i xs))"
    by (rule deb_inv_after) (use nd in simp_all)
  have t: "take (Suc i) xs = take i xs @ [xs ! i]" using i by (rule take_Suc_conv_app_nth)
  have "raises d xs ! i = fst (observe (deb_after d (take i xs)) (fst (xs ! i)) (snd (xs ! i)))"
    using i by (rule raises_take)
  also have "\<dots> \<longleftrightarrow> snd (xs ! i) \<and> p \<le> int (run_len (take i xs)) + 1 \<and>
      (\<forall>j < i. raises d xs ! j \<longrightarrow> j + run_len (take i xs) < i \<and> c \<le> fst (xs ! i) - fst (xs ! j))"
    using deb_inv_raise [OF inv] nd i by (simp add: raises_nth_take min_def)
  also have "\<dots> \<longleftrightarrow> raise_at p c xs (raises d xs) i"
    unfolding raise_at_def t run_len_snoc using nd by auto
  finally show ?thesis .
qed

lemma sorted_wrt_filter_imp:
  "sorted_wrt (\<lambda>x y. P x \<longrightarrow> P y \<longrightarrow> R x y) zs \<Longrightarrow> sorted_wrt R (filter P zs)"
  by (induction zs) auto

section \<open>Detectors\<close>

text \<open>What every detector promises: an alarm carries the time of the sample that raised it.\<close>

locale detector =
  fixes upd :: "'d step"
  assumes alarm_time: "fst (upd d s) = Some a \<Longrightarrow> raised_at a = s_t s"
begin

lemma run_append:
  "run_stream upd d (xs @ ys) =
     (let (out, d') = run_stream upd d xs; (out', d'') = run_stream upd d' ys in (out @ out', d''))"
  by (induction xs arbitrary: d) (auto simp: Let_def split: prod.splits option.splits)

lemma run_times: "subseq (map raised_at (fst (run_stream upd d xs))) (map s_t xs)"
proof (induction xs arbitrary: d)
  case (Cons x xs)
  show ?case
    using Cons.IH [of "snd (upd d x)"] alarm_time [of d x]
    by (auto simp: Let_def case_prod_beta split: option.splits)
qed simp

lemma run_length: "length (fst (run_stream upd d xs)) \<le> length xs"
  using list_emb_length [OF run_times] by simp

end

text \<open>
  A debounced detector: a sample either is not judged (\<open>None\<close>: the baseline is being seeded) and leaves the
  debouncer alone, or yields a crossing flag that goes through \<open>observe\<close>.
\<close>

locale debounced = detector upd for upd :: "'d step" +
  fixes deb :: "'d \<Rightarrow> debouncer" and crossing :: "'d \<Rightarrow> sample \<Rightarrow> bool option"
  assumes unjudged: "crossing d s = None \<Longrightarrow> fst (upd d s) = None \<and> deb (snd (upd d s)) = deb d"
    and judged: "crossing d s = Some c \<Longrightarrow>
      (fst (upd d s) \<noteq> None \<longleftrightarrow> fst (observe (deb d) (s_t s) c)) \<and> deb (snd (upd d s)) = snd (observe (deb d) (s_t s) c)"
begin

text \<open>The flags a run feeds to its debouncer.\<close>

fun flags :: "'d \<Rightarrow> sample list \<Rightarrow> (pyfloat \<times> bool) list" where
  "flags d [] = []"
| "flags d (s # ss) = (case crossing d s of None \<Rightarrow> [] | Some c \<Rightarrow> [(s_t s, c)]) @ flags (snd (upd d s)) ss"

lemma flags_times: "subseq (map fst (flags d ss)) (map s_t ss)"
  by (induction ss arbitrary: d) (auto split: option.splits)

lemma run_debounced:
  "map raised_at (fst (run_stream upd d ss)) = map (fst \<circ> fst) (filter snd (zip (flags d ss) (raises (deb d) (flags d ss))))"
proof (induction ss arbitrary: d)
  case (Cons s ss)
  show ?case
  proof (cases "crossing d s")
    case None
    with Cons.IH [of "snd (upd d s)"] unjudged [OF None] show ?thesis
      by (simp add: Let_def case_prod_beta)
  next
    case (Some c)
    with Cons.IH [of "snd (upd d s)"] judged [OF Some] alarm_time [of d s] show ?thesis
      by (cases "fst (upd d s)") (auto simp: Let_def case_prod_beta)
  qed
qed simp

text \<open>An alarm of a run comes from a flag at which the debouncer raises.\<close>

lemma run_alarm:
  assumes "a \<in> set (fst (run_stream upd d ss))"
  shows "\<exists>i < length (flags d ss). raises (deb d) (flags d ss) ! i \<and> fst (flags d ss ! i) = raised_at a"
proof -
  let ?f = "flags d ss" and ?r = "raises (deb d) (flags d ss)"
  have "raised_at a \<in> set (map (fst \<circ> fst) (filter snd (zip ?f ?r)))"
    using assms unfolding run_debounced [symmetric] by simp
  then obtain q where "q \<in> set (zip ?f ?r)" "snd q" "fst (fst q) = raised_at a" by auto
  then show ?thesis unfolding in_set_zip by auto
qed

lemma run_gaps:
  assumes new: "new_debouncer p c = Inr (deb d)"
  shows "sorted_wrt (\<lambda>a b. c \<le> b - a) (map raised_at (fst (run_stream upd d ss)))"
proof -
  let ?f = "flags d ss" and ?r = "raises (deb d) (flags d ss)"
  have "sorted_wrt (\<lambda>x y. snd x \<longrightarrow> snd y \<longrightarrow> c \<le> fst (fst y) - fst (fst x)) (zip ?f ?r)"
    unfolding sorted_wrt_iff_nth_less
  proof (intro allI impI)
    fix i j assume ij: "i < j" "j < length (zip ?f ?r)" and r: "snd (zip ?f ?r ! i)" "snd (zip ?f ?r ! j)"
    then have "raise_at p c ?f ?r j" "?r ! i" by (simp_all flip: raises_iff [OF new])
    with ij show "c \<le> fst (fst (zip ?f ?r ! j)) - fst (fst (zip ?f ?r ! i))" by (simp add: raise_at_def)
  qed
  then have "sorted_wrt (\<lambda>x y. c \<le> fst (fst y) - fst (fst x)) (filter snd (zip ?f ?r))"
    by (rule sorted_wrt_filter_imp)
  then show ?thesis unfolding run_debounced by (simp add: sorted_wrt_map)
qed

text \<open>The run up to now is a prefix of every longer run, its alarms sit at sample times, \<open>c\<close> seconds apart.\<close>

lemma run_causal:
  assumes "new_debouncer p c = Inr (deb d)"
  shows "prefix (fst (run_stream upd d xs)) (fst (run_stream upd d (xs @ ys))) \<and>
    subseq (map raised_at (fst (run_stream upd d (xs @ ys)))) (map s_t (xs @ ys)) \<and>
    sorted_wrt (\<lambda>a b. c \<le> raised_at b - raised_at a) (fst (run_stream upd d (xs @ ys)))"
  using run_times [of d "xs @ ys"] run_gaps [OF assms, of "xs @ ys"]
  by (simp add: sorted_wrt_map) (simp add: run_append Let_def case_prod_beta)

end

section \<open>The three detectors are debounced\<close>

definition ewma_crossing :: "ewma \<Rightarrow> sample \<Rightarrow> bool option" where
  "ewma_crossing e s = map_option (\<lambda>m. z_threshold e \<le> \<bar>z_score e m (s_value s)\<bar>) (ew_mean e)"

definition cusum_crossing :: "cusum \<Rightarrow> sample \<Rightarrow> bool option" where
  "cusum_crossing c s = map_option (\<lambda>m.
     cu_warmup c \<le> cu_n c \<and> (threshold_h c < max 0 (cu_sp c + (s_value s - m) - slack_k c) \<or>
       threshold_h c < - min 0 (cu_sn c + (s_value s - m) + slack_k c))) (cu_mean c)"

interpretation fsm: debounced oper_update od_deb "\<lambda>o_d s. Some (s_value s < down_below o_d)"
  by unfold_locales (auto simp: oper_update_def Let_def case_prod_beta split: if_splits)

interpretation ew: debounced "ewma_update fs" ew_deb ewma_crossing for fs
  by unfold_locales
    (auto simp: ewma_update_def ewma_crossing_def Let_def case_prod_beta split: if_splits option.splits)

interpretation cu: debounced "cusum_update fs" cu_deb cusum_crossing for fs
  by unfold_locales
    (auto simp: cusum_update_def cusum_crossing_def Let_def case_prod_beta split: if_splits option.splits)

lemma new_deb:
  "new_oper_detector b p c = Inr o_d \<Longrightarrow> new_debouncer p c = Inr (od_deb o_d)"
  "new_ewma al z w p c = Inr e \<Longrightarrow> new_debouncer p c = Inr (ew_deb e)"
  "new_cusum k h r w p c = Inr cs \<Longrightarrow> new_debouncer p c = Inr (cu_deb cs)"
  by (auto simp: new_oper_detector_def new_ewma_def new_cusum_def bindr_Inr_iff split: if_splits)

lemma fsm_flags: "fsm.flags d ss = map (\<lambda>s. (s_t s, s_value s < down_below d)) ss"
  by (induction ss arbitrary: d) (simp_all add: oper_update_def Let_def case_prod_beta)

section \<open>Properties\<close>

text \<open>Online detection equals offline replay, and alarms are spaced: for each of the three detectors the alarms
  of a stream so far are a prefix of the alarms of any continuation, alarms are raised only at sample
  times in sample order, and any two alarms are at least the cooldown apart, however the sample times
  run.\<close>

theorem detectors_causal:
  assumes "new_oper_detector b p c = Inr o_d" and "new_ewma al z w p c = Inr e" and "new_cusum k h r w' p c = Inr cs"
    and "run \<in> {\<lambda>ss. fst (run_stream oper_update o_d ss), \<lambda>ss. fst (run_stream (ewma_update fs) e ss),
        \<lambda>ss. fst (run_stream (cusum_update fs) cs ss)}"
  shows "prefix (run xs) (run (xs @ ys)) \<and> subseq (map raised_at (run (xs @ ys))) (map s_t (xs @ ys)) \<and>
    sorted_wrt (\<lambda>a b. c \<le> raised_at b - raised_at a) (run (xs @ ys))"
  using assms(4) fsm.run_causal [OF new_deb(1) [OF assms(1)]] ew.run_causal [OF new_deb(2) [OF assms(2)]]
    cu.run_causal [OF new_deb(3) [OF assms(3)]]
  by blast

theorem detectors_causal_witness:
  "\<exists>o_d. new_oper_detector (1 / 2) 2 30 = Inr o_d \<and>
     prefix (fst (run_stream oper_update o_d [\<lparr>s_t = 1, s_value = 0\<rparr>]))
       (fst (run_stream oper_update o_d ([\<lparr>s_t = 1, s_value = 0\<rparr>] @ [\<lparr>s_t = 2, s_value = 0\<rparr>])))"
proof -
  have "\<exists>o_d e cs. new_oper_detector (1 / 2) 2 30 = Inr o_d \<and> new_ewma (3 / 10) 4 5 2 30 = Inr e \<and>
      new_cusum (1 / 2) 5 (1 / 20) 5 2 30 = Inr cs"
    by (simp add: new_oper_detector_def new_ewma_def new_cusum_def new_debouncer_def)
  then obtain o_d e cs where d: "new_oper_detector (1 / 2) 2 30 = Inr o_d" "new_ewma (3 / 10) 4 5 2 30 = Inr e"
      "new_cusum (1 / 2) 5 (1 / 20) 5 2 30 = Inr cs" by blast
  show ?thesis
    using d(1) detectors_causal [OF d insertI1 [of "\<lambda>ss. fst (run_stream oper_update o_d ss)"]] by blast
qed

text \<open>C23: The operational-state machine, declaratively: it alarms at exactly the samples where the run of samples
  below the threshold that ends there has at least \<open>p\<close> of them, no alarm was raised in that run yet, and
  every earlier alarm is at least the cooldown back; nothing else raises and nothing of this kind is
  missed. The flags \<open>rs\<close> are thereby determined position by position.\<close>

theorem oper_alarms_spec:
  assumes "new_oper_detector below p c = Inr d" and "xs = map (\<lambda>s. (s_t s, s_value s < below)) ss"
  shows "\<exists>rs. length rs = length ss \<and> (\<forall>i < length ss. rs ! i \<longleftrightarrow> raise_at p c xs rs i) \<and>
    map raised_at (fst (run_stream oper_update d ss)) = map s_t (map fst (filter snd (zip ss rs)))"
proof (intro exI conjI allI impI)
  let ?rs = "raises (od_deb d) xs"
  have b: "down_below d = below" using assms(1) by (auto simp: new_oper_detector_def bindr_Inr_iff)
  show "length ?rs = length ss" using assms(2) by simp
  show "?rs ! i \<longleftrightarrow> raise_at p c xs ?rs i" if "i < length ss" for i
    using raises_iff [OF new_deb(1) [OF assms(1)]] that assms(2) by simp
  have "map (fst \<circ> fst) (filter snd (zip (map (\<lambda>s. (s_t s, s_value s < below)) ss) rs)) =
      map s_t (map fst (filter snd (zip ss rs)))" for rs
    by (induction ss arbitrary: rs) (auto simp: zip_Cons1 split: list.splits)
  then show "map raised_at (fst (run_stream oper_update d ss)) = map s_t (map fst (filter snd (zip ss ?rs)))"
    unfolding fsm.run_debounced fsm_flags b assms(2) by blast
qed

text \<open>A link goes down at 20 and stays down: with two samples of persistence the alarm is at 30.\<close>

definition demo_stream :: "sample list" where
  "demo_stream = [\<lparr>s_t = 10, s_value = 1\<rparr>, \<lparr>s_t = 20, s_value = 0\<rparr>, \<lparr>s_t = 30, s_value = 0\<rparr>, \<lparr>s_t = 40, s_value = 0\<rparr>]"

definition demo_oper :: oper_detector where
  "demo_oper = \<lparr>down_below = 1 / 2, od_deb = \<lparr>persistence = 2, cooldown_s = 30, deb_run = 0, armed = True, last_raise = None\<rparr>\<rparr>"

lemma demo_oper: "new_oper_detector (1 / 2) 2 30 = Inr demo_oper"
  by code_simp

theorem oper_alarms_spec_witness:
  "\<exists>rs. length rs = 4 \<and> map s_t (map fst (filter snd (zip demo_stream rs))) = [30] \<and>
     (rs ! 2 \<longleftrightarrow> raise_at 2 30 (map (\<lambda>s. (s_t s, s_value s < 1 / 2)) demo_stream) rs 2)"
proof -
  have run: "map raised_at (fst (run_stream oper_update demo_oper demo_stream)) = [30]" by code_simp
  have len: "length demo_stream = 4" by (simp add: demo_stream_def)
  from oper_alarms_spec [OF demo_oper refl, of demo_stream] obtain rs where
    "length rs = 4" "\<forall>i < 4. rs ! i \<longleftrightarrow> raise_at 2 30 (map (\<lambda>s. (s_t s, s_value s < 1 / 2)) demo_stream) rs i"
    "[30] = map s_t (map fst (filter snd (zip demo_stream rs)))"
    unfolding len run by (elim exE conjE) (rule that)
  then show ?thesis by (intro exI [of _ rs]) (simp del: map_map)
qed

section \<open>What the z-score cannot see\<close>

text \<open>The state the z-score is in \<open>j\<close> samples after a step of size \<open>\<delta>\<close> away from a flat baseline.\<close>

definition after_step :: "ewma \<Rightarrow> pyfloat \<Rightarrow> pyfloat \<Rightarrow> nat \<Rightarrow> bool" where
  "after_step e x dl j \<longleftrightarrow>
     ew_mean e = Some (x - (1 - ew_alpha e) ^ j * dl) \<and>
     ew_mad e = (if j = 0 then 0 else of_nat j * ew_alpha e * (1 - ew_alpha e) ^ (j - 1) * \<bar>dl\<bar>) \<and>
     ew_eps e = EWMA_EPS"

definition blind :: "ewma \<Rightarrow> bool" where
  "blind e \<longleftrightarrow> 0 < ew_alpha e \<and> ew_alpha e \<le> 1 \<and> 1 - ew_alpha e < z_threshold e * (MAD_TO_SIGMA * ew_alpha e)"

lemma after_step_quiet:
  assumes inv: "after_step e x dl j" and b: "blind e"
  shows "\<bar>z_score e (x - (1 - ew_alpha e) ^ j * dl) x\<bar> < z_threshold e"
proof -
  let ?a = "ew_alpha e" and ?q = "(1 - ew_alpha e) ^ (j - 1)" and ?s = "MAD_TO_SIGMA * ew_mad e"
  have m: "0 < MAD_TO_SIGMA" by (simp add: MAD_TO_SIGMA_def)
  have a: "0 < ?a" "?a \<le> 1" and z: "1 - ?a < z_threshold e * (MAD_TO_SIGMA * ?a)"
    using b by (simp_all add: blind_def)
  have z0: "0 < z_threshold e"
  proof -
    have "0 < z_threshold e * (MAD_TO_SIGMA * ?a)" by (rule le_less_trans [OF _ z]) (use a in simp)
    then show ?thesis using mult_pos_pos [OF m a(1)] by (rule zero_less_mult_pos2)
  qed
  show ?thesis
  proof (cases "ew_warmup e \<le> ew_n e \<and> ew_eps e < ?s")
    case True
    then have s: "0 < ?s" using inv by (auto simp: after_step_def EWMA_EPS_def)
    then have j: "0 < j" "ew_mad e = of_nat j * ?a * ?q * \<bar>dl\<bar>"
      using inv by (auto simp: after_step_def split: if_splits)
    have "0 < of_nat j * ?a * (?q * \<bar>dl\<bar>)" using s m j(2) by (simp add: zero_less_mult_iff mult.assoc)
    then have qpos: "0 < ?q * \<bar>dl\<bar>" by (rule zero_less_mult_pos) (use a j(1) in simp)
    have "\<bar>(1 - ?a) ^ j * dl\<bar> = (1 - ?a) * (?q * \<bar>dl\<bar>)"
      using a j(1) by (cases j) (simp_all add: abs_mult)
    also have "\<dots> < z_threshold e * (MAD_TO_SIGMA * ?a) * (?q * \<bar>dl\<bar>)"
      using z qpos by (rule mult_strict_right_mono)
    also have "\<dots> \<le> of_nat j * (z_threshold e * (MAD_TO_SIGMA * ?a) * (?q * \<bar>dl\<bar>))"
    proof -
      have "1 \<le> (of_nat j :: rat)" using j(1) by simp
      moreover have "0 \<le> z_threshold e * (MAD_TO_SIGMA * ?a) * (?q * \<bar>dl\<bar>)" using z0 m a qpos by simp
      ultimately show ?thesis by (metis mult_left_mono mult.commute mult_1)
    qed
    also have "\<dots> = z_threshold e * ?s" unfolding j(2) by simp
    finally have "\<bar>(1 - ?a) ^ j * dl\<bar> / ?s < z_threshold e" using s by (simp add: divide_less_eq)
    moreover have "z_score e (x - (1 - ?a) ^ j * dl) x = (1 - ?a) ^ j * dl / ?s" using True by (simp add: z_score_def Let_def)
    ultimately show ?thesis using s by (simp only: abs_divide abs_of_pos)
  next
    case False
    then show ?thesis using z0 by (auto simp: z_score_def Let_def)
  qed
qed

lemma observe_quiet: "fst (observe d now False) = False"
  by (simp add: observe_def)

lemma after_step_update:
  assumes inv: "after_step e x dl j" and b: "blind e" and s: "s_value s = x"
  shows "fst (ewma_update fs e s) = None" "after_step (snd (ewma_update fs e s)) x dl (Suc j)"
    "blind (snd (ewma_update fs e s))"
proof -
  let ?m = "x - (1 - ew_alpha e) ^ j * dl"
  have mean: "ew_mean e = Some ?m" using inv by (simp add: after_step_def)
  have nc: "\<not> z_threshold e \<le> \<bar>z_score e ?m (s_value s)\<bar>"
    unfolding s using after_step_quiet [OF inv b] by simp
  have u: "ewma_update fs e s = (None, e\<lparr>ew_mean := Some ((1 - ew_alpha e) * ?m + ew_alpha e * x),
      ew_mad := (1 - ew_alpha e) * ew_mad e + ew_alpha e * \<bar>x - ?m\<bar>, ew_n := ew_n e + 1,
      ew_deb := snd (observe (ew_deb e) (s_t s) False)\<rparr>)"
    unfolding ewma_update_def Let_def mean option.case using nc s
    by (simp add: case_prod_beta observe_quiet)
  have a: "0 \<le> 1 - ew_alpha e" using b by (simp add: blind_def)
  show "fst (ewma_update fs e s) = None" "blind (snd (ewma_update fs e s))"
    using b unfolding u by (simp_all add: blind_def)
  have dev: "\<bar>x - ?m\<bar> = (1 - ew_alpha e) ^ j * \<bar>dl\<bar>" using a by (simp add: abs_mult)
  have mad: "(1 - ew_alpha e) * ew_mad e + ew_alpha e * \<bar>x - ?m\<bar> =
      of_nat (Suc j) * ew_alpha e * (1 - ew_alpha e) ^ j * \<bar>dl\<bar>"
    using inv unfolding dev by (cases j) (simp_all add: after_step_def algebra_simps)
  show "after_step (snd (ewma_update fs e s)) x dl (Suc j)"
    using inv unfolding u after_step_def snd_conv ewma.simps mad by (simp add: after_step_def algebra_simps)
qed

lemma after_step_run:
  "after_step e x dl j \<Longrightarrow> blind e \<Longrightarrow> \<forall>s \<in> set ss. s_value s = x \<Longrightarrow>
    fst (run_stream (ewma_update fs) e ss) = [] \<and>
    after_step (snd (run_stream (ewma_update fs) e ss)) x dl (j + length ss) \<and> blind (snd (run_stream (ewma_update fs) e ss))"
proof (induction ss arbitrary: e j)
  case (Cons s ss)
  have sx: "s_value s = x" using Cons.prems(3) by simp
  show ?case
    using Cons.IH [OF after_step_update(2) [OF Cons.prems(1,2) sx] after_step_update(3) [OF Cons.prems(1,2) sx]]
      after_step_update(1) [OF Cons.prems(1,2) sx, of fs]
      Cons.prems(3)
    by (simp add: Let_def case_prod_beta)
qed simp

text \<open>The z-score detector is blind to a step away from a perfectly flat baseline: after any positive number of
  equal samples, a sustained jump to another value, of any size and for any length of time, raises
  no alarm at the default \<open>alpha = 0.3\<close> and threshold 4 (nor for any parameters with
  \<open>(1 - alpha) < z * 1.4826 * alpha\<close>). The first sample after the jump has zero scale and is folded into
  the baseline, and from then on the scale outruns the deviation.\<close>

theorem ewma_blind_to_step:
  assumes "new_ewma al z w p c = Inr e" and "1 - al < z * (MAD_TO_SIGMA * al)"
    and "base \<noteq> []" and "\<forall>s \<in> set base. s_value s = v" and "\<forall>s \<in> set jump. s_value s = v'"
  shows "fst (run_stream (ewma_update fs) e (base @ jump)) = []"
proof -
  obtain s0 ss where base: "base = s0 # ss" using assms(3) by (cases base) auto
  have e: "ew_alpha e = al" "z_threshold e = z" "ew_eps e = EWMA_EPS" "ew_mean e = None" "ew_mad e = 0" "0 < al" "al \<le> 1"
    using assms(1) by (auto simp: new_ewma_def bindr_Inr_iff split: if_splits)
  let ?e1 = "snd (ewma_update fs e s0)"
  have u: "fst (ewma_update fs e s0) = None" "after_step ?e1 v 0 0" "blind ?e1"
    using e assms(2,4) unfolding base by (simp_all add: ewma_update_def after_step_def blind_def)
  have b: "\<forall>s \<in> set ss. s_value s = v" using assms(4) unfolding base by simp
  let ?e2 = "snd (run_stream (ewma_update fs) ?e1 ss)"
  have r: "fst (run_stream (ewma_update fs) ?e1 ss) = []" "after_step ?e2 v 0 (0 + length ss)" "blind ?e2"
    using after_step_run [OF u(2,3) b] by blast+
  have "after_step ?e2 v' (v' - v) 0" using r(2) by (simp add: after_step_def)
  from after_step_run [OF this r(3) assms(5)]
  have "fst (run_stream (ewma_update fs) ?e2 jump) = []" by blast
  then show ?thesis unfolding base using u(1) r(1) ew.run_append [of fs ?e1 ss jump]
    by (simp add: Let_def case_prod_beta)
qed

theorem ewma_blind_to_step_witness:
  "\<exists>e. new_ewma (3 / 10) 4 5 2 30 = Inr e \<and>
     fst (run_stream (ewma_update (\<lambda>_. [])) e ([\<lparr>s_t = 0, s_value = 0\<rparr>] @ [\<lparr>s_t = 1, s_value = 1000000\<rparr>])) = []"
proof -
  have "\<exists>e. new_ewma (3 / 10) 4 5 2 30 = Inr e" by (simp add: new_ewma_def new_debouncer_def)
  then obtain e where e: "new_ewma (3 / 10) 4 5 2 30 = Inr e" ..
  have z: "1 - 3 / 10 < 4 * (MAD_TO_SIGMA * (3 / 10))" by (simp add: MAD_TO_SIGMA_def)
  show ?thesis
    using e ewma_blind_to_step [OF e z, of "[\<lparr>s_t = 0, s_value = 0\<rparr>]" 0 "[\<lparr>s_t = 1, s_value = 1000000\<rparr>]" 1000000] by simp
qed

end
