(* ===== verification/Detection.thy ===== *)
theory Detection
  imports Sensors
begin

text \<open>
  From a captured window to a detection outcome: \<open>sensors/adapters.py\<close>, \<open>sensors/evaluator.py\<close> and
  \<open>sensors/detection.py\<close>, with the causality of the whole ensemble and the specification of the
  evaluator.
\<close>

section \<open>Adapters\<close>

definition COUNTER_METRICS :: "string list" where
  "COUNTER_METRICS =
     [''in_octets'', ''out_octets'', ''in_error_packets'', ''out_error_packets'', ''in_discarded_packets'', ''out_discarded_packets'']"

definition note_oper :: "raw_sample \<Rightarrow> (pyfloat, pyfloat) dict \<Rightarrow> (pyfloat, pyfloat) dict" where
  "note_oper s by_t =
     (if rs_metric s = ''oper_state''
      then dict_set (rs_t s) (min (case dict_get by_t (rs_t s) of None \<Rightarrow> 1 | Some v \<Rightarrow> v) (rs_value s)) by_t
      else by_t)"

definition oper_state_stream :: "raw_sample list \<Rightarrow> sample list" where
  "oper_state_stream samples = map (\<lambda>(t, v). \<lparr>s_t = t, s_value = v\<rparr>) (sort (fold note_oper samples []))"

fun pair_rates :: "raw_sample list \<Rightarrow> sample list" where
  "pair_rates (p # c # rest) =
     (let dt = rs_t c - rs_t p; dv = rs_value c - rs_value p in
      (if dt \<le> 0 then [] else [\<lparr>s_t = rs_t c, s_value = (if dv < 0 then 0 else dv) / dt\<rparr>]) @ pair_rates (c # rest))"
| "pair_rates _ = []"

definition rate_stream :: "raw_sample list \<Rightarrow> string \<Rightarrow> sample list" where
  "rate_stream samples metric = pair_rates (sort_key rs_t (filter (\<lambda>s. rs_metric s = metric) samples))"

definition detector_streams :: "raw_sample list \<Rightarrow> (string, sample list) dict" where
  "detector_streams samples =
     fold (\<lambda>m. dict_set (m @ ''_rate'') (rate_stream samples m)) COUNTER_METRICS [(''oper_state'', oper_state_stream samples)]"

section \<open>Evaluator\<close>

record event = onset_t :: pyfloat

record match_result =
  detected :: bool
  t_detected :: "pyfloat option"
  latency_s :: "pyfloat option"
  false_positives :: nat

definition match_alarm :: "pyfloat \<Rightarrow> pyfloat \<Rightarrow> alarm \<Rightarrow> pyfloat option \<times> nat \<Rightarrow> pyfloat option \<times> nat" where
  "match_alarm lo hi a acc =
     (case acc of (t, fp) \<Rightarrow>
        if lo \<le> raised_at a \<and> raised_at a \<le> hi then (case t of None \<Rightarrow> Some (raised_at a) | Some _ \<Rightarrow> t, fp)
        else (t, fp + 1))"

definition evaluate :: "alarm list \<Rightarrow> event option \<Rightarrow> pyfloat \<Rightarrow> match_result res" where
  "evaluate alarms ev horizon =
     (if horizon \<le> 0 then Inl (ValueError ''horizon_s must be > 0'')
      else let ordered = sort_key raised_at alarms in
        case ev of
          None \<Rightarrow> Inr \<lparr>detected = False, t_detected = None, latency_s = None, false_positives = length ordered\<rparr>
        | Some e \<Rightarrow>
            let (t, fp) = fold (match_alarm (onset_t e) (onset_t e + horizon)) ordered (None, 0) in
            Inr \<lparr>detected = (t \<noteq> None), t_detected = t, latency_s = map_option (\<lambda>x. x - onset_t e) t, false_positives = fp\<rparr>)"

section \<open>The ensemble\<close>

record detector_config =
  fsm_persistence :: int
  fsm_cooldown_s :: pyfloat
  ewma_z :: pyfloat
  ewma_persistence :: int
  ewma_warmup :: int
  cusum_k :: pyfloat
  cusum_h :: pyfloat
  cusum_persistence :: int
  horizon_s :: pyfloat

definition default_config :: detector_config where
  "default_config = \<lparr>fsm_persistence = 2, fsm_cooldown_s = 30, ewma_z = 4, ewma_persistence = 2, ewma_warmup = 4,
     cusum_k = 1 / 2, cusum_h = 5, cusum_persistence = 1, horizon_s = 60\<rparr>"

text \<open>The two statistical detectors on one rate stream, with the defaults the ensemble leaves in place.\<close>

definition rate_alarms :: "(pyfloat \<Rightarrow> string) \<Rightarrow> detector_config \<Rightarrow> sample list \<Rightarrow> alarm list res" where
  "rate_alarms fs cfg stream =
     bindr (new_ewma (3 / 10) (ewma_z cfg) (ewma_warmup cfg) (ewma_persistence cfg) (fsm_cooldown_s cfg)) (\<lambda>e.
     bindr (new_cusum (cusum_k cfg) (cusum_h cfg) (1 / 20) 5 (cusum_persistence cfg) (fsm_cooldown_s cfg)) (\<lambda>c.
       Inr (fst (run_stream (ewma_update fs) e stream) @ fst (run_stream (cusum_update fs) c stream))))"

definition all_alarms :: "(pyfloat \<Rightarrow> string) \<Rightarrow> raw_sample list \<Rightarrow> detector_config \<Rightarrow> alarm list res" where
  "all_alarms fs samples cfg =
     (let streams = detector_streams samples in
      bindr (new_oper_detector (1 / 2) (fsm_persistence cfg) (fsm_cooldown_s cfg)) (\<lambda>o_d.
      bindr (dict_index streams ''oper_state'') (\<lambda>os.
      bindr (map_res (\<lambda>(_, stream). rate_alarms fs cfg stream) (filter (\<lambda>(ch, _). ch \<noteq> ''oper_state'') streams)) (\<lambda>outs.
        Inr (sort_key raised_at (fst (run_stream oper_update o_d os) @ concat outs))))))"

definition detect_incident ::
    "(pyfloat \<Rightarrow> string) \<Rightarrow> raw_sample list \<Rightarrow> detector_config \<Rightarrow> pyfloat \<Rightarrow> bool \<Rightarrow> match_result res" where
  "detect_incident fs samples cfg onset is_healthy =
     bindr (all_alarms fs samples cfg) (\<lambda>alarms.
       evaluate alarms (if is_healthy then None else Some \<lparr>onset_t = onset\<rparr>) (horizon_s cfg))"

section \<open>The evaluator, declaratively\<close>

definition in_horizon :: "pyfloat \<Rightarrow> pyfloat \<Rightarrow> alarm \<Rightarrow> bool" where
  "in_horizon lo hi a \<longleftrightarrow> lo \<le> raised_at a \<and> raised_at a \<le> hi"

lemma fold_match_alarm:
  "fold (match_alarm lo hi) xs (t, fp) =
     (case t of Some y \<Rightarrow> Some y | None \<Rightarrow> (case filter (in_horizon lo hi) xs of [] \<Rightarrow> None | a # _ \<Rightarrow> Some (raised_at a)),
      fp + length (filter (\<lambda>a. \<not> in_horizon lo hi a) xs))"
  by (induction xs arbitrary: t fp) (auto simp: match_alarm_def in_horizon_def split: option.splits)

lemma hd_sorted_Min:
  assumes "sort_key f xs = y # ys"
  shows "f y = Min (f ` set xs)"
proof -
  have "sorted (f y # map f ys)" using sorted_sort_key [of f xs] unfolding assms by simp
  moreover have "f ` set xs = set (f y # map f ys)" using arg_cong [OF assms, of "\<lambda>zs. f ` set zs"] by simp
  ultimately show ?thesis by (auto intro!: Min_eqI [symmetric])
qed

section \<open>Streams of a window\<close>

lemma pair_rates_nonneg: "s \<in> set (pair_rates ps) \<Longrightarrow> 0 \<le> s_value s"
  by (induction ps rule: pair_rates.induct) (auto simp: Let_def split: if_splits)

lemma pair_rates_times: "sorted (map rs_t ps) \<Longrightarrow> s \<in> set (pair_rates ps) \<Longrightarrow> rs_t (hd ps) < s_t s"
proof (induction ps rule: pair_rates.induct)
  case (1 p c rest)
  then have "rs_t p \<le> rs_t c" "sorted (map rs_t (c # rest))" by simp_all
  then show ?case
    using "1.prems"(2) "1.IH" [of "rs_t c - rs_t p" "rs_value c - rs_value p"]
    by (simp add: Let_def split: if_splits) (elim disjE; simp)+
qed simp_all

lemma pair_rates_sorted: "sorted (map rs_t ps) \<Longrightarrow> sorted_wrt (<) (map s_t (pair_rates ps))"
proof (induction ps rule: pair_rates.induct)
  case (1 p c rest)
  then have "sorted (map rs_t (c # rest))" by simp
  then show ?case
    using "1.IH" [of "rs_t c - rs_t p" "rs_value c - rs_value p"] pair_rates_times [of "c # rest"]
    by (simp add: Let_def)
qed simp_all

lemma filter_pair_rates:
  "sorted (map rs_t ps) \<Longrightarrow> filter (\<lambda>s. s_t s \<le> T) (pair_rates ps) = pair_rates (filter (\<lambda>s. rs_t s \<le> T) ps)"
proof (induction ps rule: pair_rates.induct)
  case (1 p c rest)
  show ?case
  proof (cases "rs_t c \<le> T")
    case True
    with 1 show ?thesis by (auto simp: Let_def)
  next
    case False
    with "1.prems" have "filter (\<lambda>s. rs_t s \<le> T) (c # rest) = []" by (fastforce simp: filter_empty_conv)
    moreover have "pair_rates (filter (\<lambda>s. rs_t s \<le> T) [p]) = []" by simp
    ultimately show ?thesis using "1.IH" [of "rs_t c - rs_t p" "rs_value c - rs_value p"] "1.prems" False
      by (auto simp: Let_def)
  qed
qed simp_all

lemma rate_stream_causal:
  "filter (\<lambda>s. s_t s \<le> T) (rate_stream xs m) = rate_stream (filter (\<lambda>s. rs_t s \<le> T) xs) m"
  unfolding rate_stream_def
  by (subst filter_pair_rates) (simp_all add: filter_sort conj_commute)

text \<open>The dictionary of operational samples, filtered by time.\<close>

lemma fold_note_oper_filter:
  "filter (\<lambda>p. fst p \<le> T) (fold note_oper xs d) =
     fold note_oper (filter (\<lambda>s. rs_t s \<le> T) xs) (filter (\<lambda>p. fst p \<le> T) d)"
proof (induction xs arbitrary: d)
  case (Cons x xs)
  have f: "filter (\<lambda>p. fst p \<le> T) (dict_set k v d) =
      (if k \<le> T then dict_set k v (filter (\<lambda>p. fst p \<le> T) d) else filter (\<lambda>p. fst p \<le> T) d)" for k v and d :: "(rat, rat) dict"
    by (induction d) auto
  have g: "k \<le> T \<Longrightarrow> dict_get (filter (\<lambda>p. fst p \<le> T) d) k = dict_get d k" for k and d :: "(rat, rat) dict"
    by (induction d) auto
  show ?case using Cons.IH by (simp add: note_oper_def f g)
qed simp

lemma oper_state_stream_causal:
  "filter (\<lambda>s. s_t s \<le> T) (oper_state_stream xs) = oper_state_stream (filter (\<lambda>s. rs_t s \<le> T) xs)"
proof -
  have "filter (\<lambda>p. fst p \<le> T) (sort d) = sort (filter (\<lambda>p. fst p \<le> T) d)" for d :: "(rat \<times> rat) list"
    by (rule filter_sort)
  then show ?thesis
    unfolding oper_state_stream_def filter_map comp_def case_prod_beta sample.simps
    by (simp add: fold_note_oper_filter)
qed

lemma oper_state_stream_times: "sorted (map s_t (oper_state_stream xs))"
proof -
  have "sorted ps \<Longrightarrow> sorted (map fst ps)" for ps :: "(rat \<times> rat) list"
    by (induction ps) (auto simp: less_eq_prod_def)
  from this [OF sorted_sort, of "fold note_oper xs []"] show ?thesis
    by (simp add: oper_state_stream_def comp_def case_prod_beta)
qed

lemma rate_stream_times: "sorted_wrt (<) (map s_t (rate_stream xs m))"
  unfolding rate_stream_def by (rule pair_rates_sorted) simp

lemma rate_stream_times_le: "sorted (map s_t (rate_stream xs m))"
  using rate_stream_times [of xs m] by (rule sorted_wrt_mono_rel [rotated]) simp

lemma subseq_map_set: "subseq (map f xs) (map g ys) \<Longrightarrow> f ` set xs \<subseteq> g ` set ys"
  using list_emb_set [of "(=)" "map f xs" "map g ys"] by auto

text \<open>Cutting a stream at \<open>T\<close> keeps the alarms up to \<open>T\<close>.\<close>

context detector begin

lemma run_cut:
  "sorted (map s_t ss) \<Longrightarrow>
    filter (\<lambda>a. raised_at a \<le> T) (fst (run_stream upd d ss)) = fst (run_stream upd d (filter (\<lambda>s. s_t s \<le> T) ss))"
proof (induction ss arbitrary: d)
  case (Cons s ss)
  show ?case
  proof (cases "s_t s \<le> T")
    case True
    with Cons.IH [of "snd (upd d s)"] Cons.prems alarm_time [of d s] show ?thesis
      by (auto simp: Let_def case_prod_beta split: option.splits)
  next
    case False
    with Cons.prems have late: "\<forall>x \<in> set (s # ss). T < s_t x" by auto
    then have "filter (\<lambda>x. s_t x \<le> T) (s # ss) = []" by (auto simp: filter_empty_conv)
    moreover have "raised_at ` set (fst (run_stream upd d (s # ss))) \<subseteq> s_t ` set (s # ss)"
      by (rule subseq_map_set [OF run_times])
    then have "filter (\<lambda>a. raised_at a \<le> T) (fst (run_stream upd d (s # ss))) = []"
      using late by (fastforce simp: filter_empty_conv simp del: run_stream.simps)
    ultimately show ?thesis by (simp del: run_stream.simps(2))
  qed
qed simp

end

section \<open>The ensemble as a sum of runs\<close>

lemma detector_streams_eq:
  "detector_streams xs = (''oper_state'', oper_state_stream xs) # map (\<lambda>m. (m @ ''_rate'', rate_stream xs m)) COUNTER_METRICS"
proof -
  have "distinct (map (\<lambda>m. m @ ''_rate'') COUNTER_METRICS)"
    "set (map (\<lambda>m. m @ ''_rate'') COUNTER_METRICS) \<inter> {''oper_state''} = {}" by code_simp+
  then show ?thesis unfolding detector_streams_def by (subst fold_dict_set_fresh) simp_all
qed

lemma rate_channels:
  "filter (\<lambda>(ch, _). ch \<noteq> ''oper_state'') (detector_streams xs) = map (\<lambda>m. (m @ ''_rate'', rate_stream xs m)) COUNTER_METRICS"
proof -
  have "\<forall>m \<in> set COUNTER_METRICS. m @ ''_rate'' \<noteq> ''oper_state''" by code_simp
  then show ?thesis unfolding detector_streams_eq by (auto intro!: filter_True)
qed

definition ensemble :: "(pyfloat \<Rightarrow> string) \<Rightarrow> oper_detector \<Rightarrow> ewma \<Rightarrow> cusum \<Rightarrow> raw_sample list \<Rightarrow> alarm list" where
  "ensemble fs o_d e c xs = fst (run_stream oper_update o_d (oper_state_stream xs)) @
     concat (map (\<lambda>m. fst (run_stream (ewma_update fs) e (rate_stream xs m)) @
       fst (run_stream (cusum_update fs) c (rate_stream xs m))) COUNTER_METRICS)"

definition detectors_of :: "detector_config \<Rightarrow> oper_detector \<Rightarrow> ewma \<Rightarrow> cusum \<Rightarrow> bool" where
  "detectors_of cfg o_d e c \<longleftrightarrow>
     new_oper_detector (1 / 2) (fsm_persistence cfg) (fsm_cooldown_s cfg) = Inr o_d \<and>
     new_ewma (3 / 10) (ewma_z cfg) (ewma_warmup cfg) (ewma_persistence cfg) (fsm_cooldown_s cfg) = Inr e \<and>
     new_cusum (cusum_k cfg) (cusum_h cfg) (1 / 20) 5 (cusum_persistence cfg) (fsm_cooldown_s cfg) = Inr c"

lemma all_alarms_of:
  assumes "detectors_of cfg o_d e c"
  shows "all_alarms fs xs cfg = Inr (sort_key raised_at (ensemble fs o_d e c xs))"
proof -
  have "map_res (\<lambda>(_, stream). rate_alarms fs cfg stream) (map (\<lambda>m. (m @ ''_rate'', rate_stream xs m)) ms) =
      Inr (map (\<lambda>m. fst (run_stream (ewma_update fs) e (rate_stream xs m)) @
        fst (run_stream (cusum_update fs) c (rate_stream xs m))) ms)" for ms
    using assms by (induction ms) (simp_all add: rate_alarms_def detectors_of_def)
  then show ?thesis
    using assms unfolding all_alarms_def Let_def rate_channels
    by (simp add: detectors_of_def dict_index_def detector_streams_eq ensemble_def)
qed

lemma all_alarms_Inr:
  assumes "all_alarms fs xs cfg = Inr out"
  obtains o_d e c where "detectors_of cfg o_d e c" "out = sort_key raised_at (ensemble fs o_d e c xs)"
proof -
  have ms: "COUNTER_METRICS = ''in_octets'' # tl COUNTER_METRICS" by (simp add: COUNTER_METRICS_def)
  obtain o_d outs where o_d: "new_oper_detector (1 / 2) (fsm_persistence cfg) (fsm_cooldown_s cfg) = Inr o_d"
    and r: "map_res (\<lambda>(_, stream). rate_alarms fs cfg stream) (map (\<lambda>m. (m @ ''_rate'', rate_stream xs m)) COUNTER_METRICS) = Inr outs"
    using assms unfolding all_alarms_def Let_def rate_channels bindr_Inr_iff by blast
  obtain a where "rate_alarms fs cfg (rate_stream xs ''in_octets'') = Inr a"
    using r by (subst (asm) ms) (auto simp: bindr_Inr_iff)
  then obtain e c where "detectors_of cfg o_d e c"
    using o_d unfolding rate_alarms_def bindr_Inr_iff detectors_of_def by blast
  then show ?thesis using that assms all_alarms_of by force
qed

lemma new_ok:
  "(\<exists>d. new_oper_detector b p c = Inr d) \<longleftrightarrow> 1 \<le> p \<and> 0 \<le> c"
  "(\<exists>d. new_ewma (3 / 10) z w p c = Inr d) \<longleftrightarrow> 1 \<le> p \<and> 0 \<le> c"
  "(\<exists>d. new_cusum k h r w p c = Inr d) \<longleftrightarrow> 1 \<le> p \<and> 0 \<le> c"
  by (auto simp: new_oper_detector_def new_ewma_def new_cusum_def new_debouncer_def)

lemma ensemble_cut:
  "filter (\<lambda>a. raised_at a \<le> T) (ensemble fs o_d e c xs) = ensemble fs o_d e c (filter (\<lambda>s. rs_t s \<le> T) xs)"
proof -
  have "filter P (concat (map f ms)) = concat (map (\<lambda>m. filter P (f m)) ms)" for P and f :: "string \<Rightarrow> alarm list" and ms
    by (simp add: filter_concat comp_def)
  then show ?thesis
    unfolding ensemble_def
    by (simp only: filter_append fsm.run_cut [OF oper_state_stream_times] ew.run_cut [OF rate_stream_times_le]
        cu.run_cut [OF rate_stream_times_le] oper_state_stream_causal rate_stream_causal)
qed

section \<open>Properties\<close>

text \<open>C22: The whole ensemble is causal: the alarms up to any time \<open>T\<close> of a finished window are exactly, in value and
  in order, the alarms the ensemble raises on the samples up to \<open>T\<close>. Replaying a stored window gives
  at every instant what running live would have given.\<close>

theorem ensemble_causal:
  assumes "all_alarms fs samples cfg = Inr out"
  shows "all_alarms fs (filter (\<lambda>s. rs_t s \<le> T) samples) cfg = Inr (filter (\<lambda>a. raised_at a \<le> T) out)"
proof -
  obtain o_d e c where d: "detectors_of cfg o_d e c" "out = sort_key raised_at (ensemble fs o_d e c samples)"
    using assms by (rule all_alarms_Inr)
  show ?thesis unfolding all_alarms_of [OF d(1)] d(2) filter_sort ensemble_cut ..
qed

definition demo_window :: "raw_sample list" where
  "demo_window = [\<lparr>rs_t = 10, rs_metric = ''oper_state'', rs_value = 1\<rparr>, \<lparr>rs_t = 20, rs_metric = ''oper_state'', rs_value = 0\<rparr>,
     \<lparr>rs_t = 30, rs_metric = ''oper_state'', rs_value = 0\<rparr>]"

definition demo_alarm :: alarm where
  "demo_alarm = \<lparr>raised_at = 30, al_detector = ''oper_state_fsm'', al_detail = ''oper-state down persisted''\<rparr>"

lemma demo_window_alarms: "all_alarms (\<lambda>_. []) demo_window default_config = Inr [demo_alarm]"
  by code_simp

theorem ensemble_causal_witness:
  "all_alarms (\<lambda>_. []) (filter (\<lambda>s. rs_t s \<le> 25) demo_window) default_config = Inr []"
  using ensemble_causal [OF demo_window_alarms, of 25] by (simp add: demo_alarm_def)

text \<open>C24: One outcome per incident: a healthy incident is never detected and every alarm is a false positive; a
  faulty one is detected exactly when some alarm falls in the horizon \<open>[onset, onset + h]\<close>, the
  detection time is the earliest such alarm, the latency its distance from the onset, and the false
  positives are the alarms outside the horizon, so repeated alarms inside it count once.\<close>

theorem detect_incident_spec:
  assumes "all_alarms fs samples cfg = Inr out" and "0 < horizon_s cfg"
    and "hit = {a \<in> set out. onset \<le> raised_at a \<and> raised_at a \<le> onset + horizon_s cfg}"
  shows "\<exists>r. detect_incident fs samples cfg onset is_healthy = Inr r \<and>
    (detected r \<longleftrightarrow> \<not> is_healthy \<and> hit \<noteq> {}) \<and>
    t_detected r = (if detected r then Some (Min (raised_at ` hit)) else None) \<and>
    latency_s r = (if detected r then Some (Min (raised_at ` hit) - onset) else None) \<and>
    false_positives r = (if is_healthy then length out else length (filter (\<lambda>a. a \<notin> hit) out))"
proof -
  let ?in = "in_horizon onset (onset + horizon_s cfg)"
  have srt: "sort_key raised_at out = out" using assms(1) by (auto elim!: all_alarms_Inr simp: sort_key_id_if_sorted)
  have hit: "hit = set (filter ?in out)" using assms(3) by (auto simp: in_horizon_def)
  have fp: "filter (\<lambda>a. \<not> ?in a) out = filter (\<lambda>a. a \<notin> hit) out" unfolding hit by (rule filter_cong) simp_all
  have first: "raised_at y = Min (raised_at ` hit)" if "filter ?in out = y # ys" for y ys
  proof -
    have "sort_key raised_at (filter ?in out) = y # ys" unfolding filter_sort [symmetric] srt by (rule that)
    then show ?thesis unfolding hit by (rule hd_sorted_Min)
  qed
  show ?thesis
    using assms(1,2) first unfolding fp [symmetric]
    by (cases "filter ?in out") (auto simp: detect_incident_def evaluate_def fold_match_alarm srt hit Let_def)
qed

theorem detect_incident_spec_witness:
  "\<exists>r. detect_incident (\<lambda>_. []) demo_window default_config 15 False = Inr r \<and> detected r \<and> t_detected r = Some 30 \<and>
     latency_s r = Some 15 \<and> false_positives r = 0"
proof -
  have h: "0 < horizon_s default_config" by (simp add: default_config_def)
  have hit: "{a \<in> set [demo_alarm]. 15 \<le> raised_at a \<and> raised_at a \<le> 15 + horizon_s default_config} = {demo_alarm}"
    by (auto simp: demo_alarm_def default_config_def)
  show ?thesis
    using detect_incident_spec [OF demo_window_alarms h refl, of 15 False] unfolding hit
    by (elim exE conjE, intro exI conjI) (assumption | simp add: demo_alarm_def)+
qed

text \<open>Detection fails on the configuration only, whatever the window: it returns an outcome exactly when the
  three persistences are at least 1, the cooldown is non-negative and the horizon positive.\<close>

theorem detect_incident_total:
  "(\<exists>r. detect_incident fs samples cfg onset is_healthy = Inr r) \<longleftrightarrow>
     1 \<le> fsm_persistence cfg \<and> 1 \<le> ewma_persistence cfg \<and> 1 \<le> cusum_persistence cfg \<and>
     0 \<le> fsm_cooldown_s cfg \<and> 0 < horizon_s cfg"
proof -
  have ev: "(\<exists>r. evaluate out ev h = Inr r) \<longleftrightarrow> 0 < h" for out ev h
    by (auto simp: evaluate_def Let_def case_prod_beta split: option.splits)
  have "(\<exists>out. all_alarms fs samples cfg = Inr out) \<longleftrightarrow> (\<exists>o_d e c. detectors_of cfg o_d e c)"
    using all_alarms_of all_alarms_Inr by metis
  also have "\<dots> \<longleftrightarrow> 1 \<le> fsm_persistence cfg \<and> 1 \<le> ewma_persistence cfg \<and> 1 \<le> cusum_persistence cfg \<and> 0 \<le> fsm_cooldown_s cfg"
    unfolding detectors_of_def using new_ok by (auto simp: new_ok)
  finally show ?thesis unfolding detect_incident_def bindr_Inr_iff using ev by metis
qed

end
