(* ===== verification/IpAddr.thy ===== *)
theory IpAddr
  imports PyJson
begin

text \<open>
  What the fabric code uses of Python's text functions and of \<open>ipaddress\<close>: \<open>repr\<close> of a string, the
  \<open>str.format\<close> of one named field, \<open>split\<close>, \<open>strip\<close>, and IPv4 networks in prefix-length notation. An
  address is an integer. A network given as IPv6 or with a netmask in place of the prefix length is
  not a network of the model.
\<close>

section \<open>Text\<close>

fun split_on :: "char \<Rightarrow> string \<Rightarrow> string list" where
  "split_on c [] = [[]]"
| "split_on c (x # xs) =
     (if x = c then [] # split_on c xs
      else case split_on c xs of [] \<Rightarrow> [[x]] | w # ws \<Rightarrow> (x # w) # ws)"

definition is_space :: "char \<Rightarrow> bool" where
  "is_space c \<longleftrightarrow> (let n = of_char c :: nat in (9 \<le> n \<and> n \<le> 13) \<or> (28 \<le> n \<and> n \<le> 32) \<or> n = 133 \<or> n = 160)"

definition strip :: "string \<Rightarrow> string" where
  "strip s = rev (dropWhile is_space (rev (dropWhile is_space s)))"

definition apos_c :: char where "apos_c = CHR 0x27"

definition repr_char :: "char \<Rightarrow> char \<Rightarrow> string" where
  "repr_char q c =
     (let n = of_char c :: nat in
      if c = q \<or> c = bslash_c then [bslash_c, c]
      else if n = 9 then bslash_c # ''t'' else if n = 10 then bslash_c # ''n'' else if n = 13 then bslash_c # ''r''
      else if n < 32 \<or> (127 \<le> n \<and> n \<le> 160) \<or> n = 173
      then bslash_c # CHR ''x'' # [hex_digit (n div 16), hex_digit (n mod 16)]
      else [c])"

definition py_repr :: "string \<Rightarrow> string" where
  "py_repr s = (let q = (if apos_c \<in> set s \<and> quote_c \<notin> set s then quote_c else apos_c)
     in q # concat (map (repr_char q) s) @ [q])"

text \<open>\<open>template.format(leaf_index=n)\<close>; format specifications and conversions inside a field are not modelled.\<close>

function format_field :: "string \<Rightarrow> string \<Rightarrow> string \<Rightarrow> string res" where
  "format_field name val [] = Inr []"
| "format_field name val [c] =
     (if c = CHR ''{'' then Inl (ValueError ''Single '{' encountered in format string'')
      else if c = CHR ''}'' then Inl (ValueError ''Single '}' encountered in format string'')
      else Inr [c])"
| "format_field name val (c # d # rest) =
     (if c = CHR ''{'' then
        if d = CHR ''{'' then bindr (format_field name val rest) (\<lambda>t. Inr (CHR ''{'' # t))
        else (let field = takeWhile (\<lambda>x. x \<noteq> CHR ''}'') (d # rest); after = dropWhile (\<lambda>x. x \<noteq> CHR ''}'') (d # rest) in
          if after = [] then Inl (ValueError ''expected '}' before end of string'')
          else if field = name then bindr (format_field name val (tl after)) (\<lambda>t. Inr (val @ t))
          else Inl (KeyError field))
      else if c = CHR ''}'' then
        if d = CHR ''}'' then bindr (format_field name val rest) (\<lambda>t. Inr (CHR ''}'' # t))
        else Inl (ValueError ''Single '}' encountered in format string'')
      else bindr (format_field name val (d # rest)) (\<lambda>t. Inr (c # t)))"
  by pat_completeness auto

termination format_field
proof (relation "measure (\<lambda>(_, _, s). length s)", goal_cases)
  case (3 name val c d rest field after)
  have "length after \<le> length (d # rest)" unfolding 3(4) by (rule length_dropWhile_le)
  then show ?case by simp
qed auto

section \<open>Addresses\<close>

definition octet :: "int \<Rightarrow> string" where "octet n = show_nat (nat (n mod 256))"

definition show_ip4 :: "int \<Rightarrow> string" where
  "show_ip4 n = octet (n div 16777216) @ CHR ''.'' # octet (n div 65536) @ CHR ''.'' # octet (n div 256) @ CHR ''.'' # octet n"

text \<open>The text of an integer above the IPv4 range: eight hexadecimal groups, the first longest run of at least two
  zero groups written as a double colon.\<close>

fun hex_nat :: "nat \<Rightarrow> string" where
  "hex_nat n = (if n < 16 then [hex_digit n] else hex_nat (n div 16) @ [hex_digit (n mod 16)])"

declare hex_nat.simps [simp del]

definition groups6 :: "int \<Rightarrow> int list" where
  "groups6 n = map (\<lambda>i. n div 65536 ^ (7 - i) mod 65536) [0..<8]"

definition zero_run :: "int list \<Rightarrow> nat \<Rightarrow> nat" where
  "zero_run gs i = length (takeWhile (\<lambda>g. g = 0) (drop i gs))"

definition show_ip6 :: "int \<Rightarrow> string" where
  "show_ip6 n =
     (let gs = groups6 n; best = Max (zero_run gs ` {0..<8}); hex = map (\<lambda>g. hex_nat (nat g)) in
      if best < 2 then join '':'' (hex gs)
      else let i = hd (filter (\<lambda>i. zero_run gs i = best) [0..<8]) in
        join '':'' (hex (take i gs)) @ ''::'' @ join '':'' (hex (drop (i + best) gs)))"

definition ip_address :: "int \<Rightarrow> string res" where
  "ip_address n = (if 0 \<le> n \<and> n < 4294967296 then Inr (show_ip4 n) else if 0 \<le> n \<and> n < 65536 ^ 8 then Inr (show_ip6 n)
     else Inl (ValueError (show_int n @ '' does not appear to be an IPv4 or IPv6 address'')))"

section \<open>Networks\<close>

record ip_network =
  net_base :: int
  prefixlen :: nat

definition all_digits :: "string \<Rightarrow> bool" where
  "all_digits s \<longleftrightarrow> s \<noteq> [] \<and> list_all is_digit s"

text \<open>One octet: at most three digits, no leading zero, at most 255.\<close>

definition parse_octet :: "string \<Rightarrow> int option" where
  "parse_octet s =
     (if all_digits s \<and> length s \<le> 3 \<and> (s = ''0'' \<or> hd s \<noteq> CHR ''0'') \<and> read_nat s \<le> 255 then Some (int (read_nat s)) else None)"

definition parse_ip4 :: "string \<Rightarrow> int option" where
  "parse_ip4 s =
     (case map parse_octet (split_on (CHR ''.'') s) of
        [Some a, Some b, Some c, Some d] \<Rightarrow> Some (((a * 256 + b) * 256 + c) * 256 + d)
      | _ \<Rightarrow> None)"

definition parse_prefix :: "string \<Rightarrow> nat option" where
  "parse_prefix s = (if all_digits s \<and> read_int s \<le> 32 then Some (read_nat s) else None)"

definition net_size :: "nat \<Rightarrow> int" where "net_size p = 2 ^ (32 - p)"

definition show_network :: "ip_network \<Rightarrow> string" where
  "show_network net = show_ip4 (net_base net) @ CHR ''/'' # show_nat (prefixlen net)"

definition ip_network :: "string \<Rightarrow> ip_network res" where
  "ip_network s =
     (let bad = Inl (ValueError (py_repr s @ '' does not appear to be an IPv4 or IPv6 network'')) in
      case (case split_on (CHR ''/'') s of
          [a] \<Rightarrow> map_option (\<lambda>n. (n, 32)) (parse_ip4 a)
        | [a, p] \<Rightarrow> Option.bind (parse_ip4 a) (\<lambda>n. map_option (Pair n) (parse_prefix p))
        | _ \<Rightarrow> None) of
        None \<Rightarrow> bad
      | Some (n, p) \<Rightarrow>
          if n mod net_size p \<noteq> 0
          then Inl (ValueError (show_network \<lparr>net_base = n, prefixlen = p\<rparr> @ '' has host bits set''))
          else Inr \<lparr>net_base = n, prefixlen = p\<rparr>)"

definition num_addresses :: "ip_network \<Rightarrow> int" where "num_addresses net = net_size (prefixlen net)"
definition net_last :: "ip_network \<Rightarrow> int" where "net_last net = net_base net + num_addresses net - 1"

definition in_net :: "int \<Rightarrow> ip_network \<Rightarrow> bool" where
  "in_net n net \<longleftrightarrow> net_base net \<le> n \<and> n \<le> net_last net"

text \<open>\<open>a.overlaps(b)\<close>: one of the four ends lies in the other network.\<close>

definition overlaps :: "ip_network \<Rightarrow> ip_network \<Rightarrow> bool" where
  "overlaps a b \<longleftrightarrow> in_net (net_base b) a \<or> in_net (net_last b) a \<or> in_net (net_base a) b \<or> in_net (net_last a) b"

section \<open>Lemmas\<close>

lemma net_size_pos [simp]: "0 < net_size p"
  by (simp add: net_size_def)

lemma overlaps_iff: "overlaps a b \<longleftrightarrow> (\<exists>n. in_net n a \<and> in_net n b)"
proof -
  have pos: "net_base a \<le> net_last a" "net_base b \<le> net_last b"
    using net_size_pos [of "prefixlen a"] net_size_pos [of "prefixlen b"] unfolding net_last_def num_addresses_def by linarith+
  show ?thesis
  proof
    assume "\<exists>n. in_net n a \<and> in_net n b"
    then show "overlaps a b" using pos unfolding overlaps_def in_net_def by linarith
  next
    assume "overlaps a b"
    then show "\<exists>n. in_net n a \<and> in_net n b" using pos unfolding overlaps_def in_net_def by blast
  qed
qed

lemma split_on_no: "c \<notin> set s \<Longrightarrow> split_on c s = [s]"
  by (induction s) auto

lemma split_on_append: "c \<notin> set s \<Longrightarrow> split_on c (s @ c # t) = s # split_on c t"
  by (induction s) auto

lemma all_digits_show [simp]: "all_digits (show_nat n)"
  using show_nat_digits by (auto simp: all_digits_def list_all_iff)

lemma show_nat_length_lt: "n < 1000 \<Longrightarrow> length (show_nat n) \<le> 3"
  by (simp add: show_nat.simps [of n] show_nat.simps [of "n div 10"] show_nat.simps [of "n div 10 div 10"])

lemma show_nat_zero_head: "show_nat n = ''0'' \<or> hd (show_nat n) \<noteq> CHR ''0''"
  using show_nat_no_leading_zero [of n] by (cases "n = 0") auto

lemma octet_bound: "nat (n mod 256) < 256"
  using pos_mod_bound [of 256 n] by linarith

lemma parse_octet: "parse_octet (octet n) = Some (n mod 256)"
  using show_nat_length_lt [of "nat (n mod 256)"] show_nat_zero_head [of "nat (n mod 256)"] octet_bound [of n]
  by (simp add: parse_octet_def octet_def)

lemma dot_slash_not_digit [simp]: "\<not> is_digit (CHR ''.'')" "\<not> is_digit (CHR ''/'')"
  by (simp_all add: is_digit_def)

lemma octet_no_char: "\<not> is_digit c \<Longrightarrow> c \<notin> set (octet n)"
  by (simp add: octet_def show_nat_no_char)

lemma octets:
  assumes "0 \<le> n" "n < 4294967296"
  shows "((n div 16777216 mod 256 * 256 + n div 65536 mod 256) * 256 + n div 256 mod 256) * 256 + n mod 256 = (n::int)"
proof -
  define a b c where "a = n div 256" and "b = a div 256" and "c = b div 256"
  have e: "n div 65536 = b" "n div 16777216 = c" "n div 256 = a"
    by (simp_all add: a_def b_def c_def zdiv_zmult2_eq [symmetric])
  have q: "n = 256 * a + n mod 256" "a = 256 * b + a mod 256" "b = 256 * c + b mod 256"
    by (simp_all add: a_def b_def c_def)
  have r: "0 \<le> n mod 256" "0 \<le> a mod 256" "0 \<le> b mod 256" "n mod 256 < 256" "a mod 256 < 256" "b mod 256 < 256"
    by simp_all
  have "0 \<le> c" "c < 256" using q r assms by linarith+
  then have "c mod 256 = c" by simp
  then have m: "c mod 256 = c" by simp
  have c1: "c * 256 + b mod 256 = b" unfolding c_def by (rule div_mult_mod_eq)
  have b1: "b * 256 + a mod 256 = a" unfolding b_def by (rule div_mult_mod_eq)
  have a1: "a * 256 + n mod 256 = n" unfolding a_def by (rule div_mult_mod_eq)
  show ?thesis unfolding e m c1 b1 a1 ..
qed

lemma parse_show_ip4: "0 \<le> n \<Longrightarrow> n < 4294967296 \<Longrightarrow> parse_ip4 (show_ip4 n) = Some n"
proof -
  assume n: "0 \<le> n" "n < 4294967296"
  have "split_on (CHR ''.'') (show_ip4 n) = [octet (n div 16777216), octet (n div 65536), octet (n div 256), octet n]"
    unfolding show_ip4_def by (simp add: split_on_append split_on_no octet_no_char)
  then show ?thesis
    unfolding parse_ip4_def by (simp only: list.map parse_octet list.case option.case octets [OF n])
qed

lemma show_ip4_inj:
  "0 \<le> m \<Longrightarrow> m < 4294967296 \<Longrightarrow> 0 \<le> n \<Longrightarrow> n < 4294967296 \<Longrightarrow> show_ip4 m = show_ip4 n \<longleftrightarrow> m = n"
proof
  assume mn: "0 \<le> m" "m < 4294967296" "0 \<le> n" "n < 4294967296" and "show_ip4 m = show_ip4 n"
  then have "Some m = Some n" using parse_show_ip4 [OF mn(1,2)] parse_show_ip4 [OF mn(3,4)] by (simp only:)
  then show "m = n" by simp
qed simp

lemma show_ip4_no_slash: "CHR ''/'' \<notin> set (show_ip4 n)"
  by (simp add: show_ip4_def octet_no_char)

end
