(* ===== verification/Fabric.thy ===== *)
theory Fabric
  imports IpAddr
begin

text \<open>
  The fabric source of truth and its allocator, \<open>domain/fabric.py\<close>: the validated contents of
  \<open>lab/fabric.yaml\<close> (reading the YAML is not modelled), the resolved topology, and \<open>allocate\<close>.
\<close>

section \<open>The hand-authored specification\<close>

record topology_spec =
  t_name :: string
  t_mtu :: int
  t_capacity :: int

record pools_spec =
  p2p_supernet :: string
  loopback_supernet :: string
  management_supernet :: string
  host_subnet_template :: string

record interfaces_spec =
  leaf_uplink_to_spine1 :: string
  leaf_uplink_to_spine2 :: string
  leaf_downlink_to_host :: string
  spine_port_prefix :: string
  host_port :: string

record switch_spec =
  sw_name :: string
  sw_asn :: int

record host_spec =
  h_name :: string
  h_leaf :: string

record nodes_spec =
  spines :: "switch_spec list"
  leaves :: "switch_spec list"
  hosts :: "host_spec list"

record fabric_spec =
  fabric_schema :: int
  topology :: topology_spec
  pools :: pools_spec
  interfaces :: interfaces_spec
  nodes :: nodes_spec

section \<open>The resolved topology\<close>

datatype role = Spine | Leaf | Host
datatype link_kind = Fabric_link | Access_link

definition role_str :: "role \<Rightarrow> string" where
  "role_str r = (case r of Spine \<Rightarrow> ''spine'' | Leaf \<Rightarrow> ''leaf'' | Host \<Rightarrow> ''host'')"

definition link_kind_str :: "link_kind \<Rightarrow> string" where
  "link_kind_str k = (case k of Fabric_link \<Rightarrow> ''fabric'' | Access_link \<Rightarrow> ''access'')"

record resolved_node =
  n_name :: string
  n_role :: role
  n_asn :: "int option"
  n_loopback :: "string option"
  n_management :: string

record resolved_endpoint =
  ep_node :: string
  ep_interface :: string
  ep_address :: "string option"

record resolved_link =
  l_key :: string
  l_kind :: link_kind
  l_a :: resolved_endpoint
  l_b :: resolved_endpoint
  l_capacity :: int
  l_mtu :: int

record resolved_host_network =
  hn_leaf :: string
  hn_subnet :: string
  hn_gateway :: string
  hn_host_ip :: string

record resolved_topology =
  rt_name :: string
  rt_management_supernet :: string
  rt_nodes :: "resolved_node list"
  rt_links :: "resolved_link list"
  rt_host_networks :: "resolved_host_network list"

section \<open>The allocator\<close>

text \<open>A node of the ordinal: loopback and management addresses are the ordinal-th of their pools.\<close>

definition resolve_switch :: "role \<Rightarrow> int \<Rightarrow> int \<Rightarrow> nat \<times> switch_spec \<Rightarrow> resolved_node res" where
  "resolve_switch r lo_base mgmt_base o_sw =
     (case o_sw of (ordinal, sw) \<Rightarrow>
        bindr (ip_address (lo_base + int ordinal)) (\<lambda>lo.
        bindr (ip_address (mgmt_base + int ordinal)) (\<lambda>m.
          Inr \<lparr>n_name = sw_name sw, n_role = r, n_asn = Some (sw_asn sw), n_loopback = Some (lo @ ''/32''), n_management = m\<rparr>)))"

definition resolve_host :: "int \<Rightarrow> nat \<times> host_spec \<Rightarrow> resolved_node res" where
  "resolve_host mgmt_base o_h =
     (case o_h of (ordinal, h) \<Rightarrow>
        bindr (ip_address (mgmt_base + int ordinal)) (\<lambda>m.
          Inr \<lparr>n_name = h_name h, n_role = Host, n_asn = None, n_loopback = None, n_management = m\<rparr>))"

definition resolve_nodes :: "fabric_spec \<Rightarrow> int \<Rightarrow> int \<Rightarrow> resolved_node list res" where
  "resolve_nodes spec lo_base mgmt_base =
     (let ns = nodes spec; i = length (spines ns); j = length (leaves ns) in
      bindr (map_res (resolve_switch Spine lo_base mgmt_base) (enumerate 1 (spines ns))) (\<lambda>ss.
      bindr (map_res (resolve_switch Leaf lo_base mgmt_base) (enumerate (1 + i) (leaves ns))) (\<lambda>ls.
      bindr (map_res (resolve_host mgmt_base) (enumerate (1 + i + j) (hosts ns))) (\<lambda>hs.
        Inr (ss @ ls @ hs)))))"

definition uplinks :: "interfaces_spec \<Rightarrow> nat \<Rightarrow> string res" where
  "uplinks ifs s = (if s = 1 then Inr (leaf_uplink_to_spine1 ifs) else if s = 2 then Inr (leaf_uplink_to_spine2 ifs)
     else Inl (KeyError (show_nat s)))"

text \<open>The index of the /31 of leaf \<open>n\<close> and spine \<open>s\<close>, both counted from 1.\<close>

definition link_index :: "nat \<Rightarrow> nat \<Rightarrow> nat" where "link_index n s = 2 * (n - 1) + (s - 1)"

definition fabric_link :: "fabric_spec \<Rightarrow> int \<Rightarrow> nat \<times> switch_spec \<Rightarrow> nat \<times> switch_spec \<Rightarrow> resolved_link res" where
  "fabric_link spec p2p_base n_leaf s_spine =
     (case (n_leaf, s_spine) of ((n, leaf), (s, spine)) \<Rightarrow>
        let k = link_index n s; ifs = interfaces spec in
        bindr (ip_address (p2p_base + 2 * int k)) (\<lambda>leaf_ip.
        bindr (ip_address (p2p_base + 2 * int k + 1)) (\<lambda>spine_ip.
        bindr (uplinks ifs s) (\<lambda>up.
          Inr \<lparr>l_key = sw_name leaf @ ''-'' @ sw_name spine, l_kind = Fabric_link,
               l_a = \<lparr>ep_node = sw_name leaf, ep_interface = up, ep_address = Some (leaf_ip @ ''/31'')\<rparr>,
               l_b = \<lparr>ep_node = sw_name spine, ep_interface = spine_port_prefix ifs @ show_nat n,
                      ep_address = Some (spine_ip @ ''/31'')\<rparr>,
               l_capacity = t_capacity (topology spec), l_mtu = t_mtu (topology spec)\<rparr>))))"

definition fabric_links :: "fabric_spec \<Rightarrow> int \<Rightarrow> resolved_link list res" where
  "fabric_links spec p2p_base =
     map_res (\<lambda>(l, s). fabric_link spec p2p_base l s)
       (List.product (enumerate 1 (leaves (nodes spec))) (enumerate 1 (spines (nodes spec))))"

definition access_link :: "fabric_spec \<Rightarrow> nat \<times> switch_spec \<Rightarrow> host_spec \<Rightarrow> (resolved_link \<times> resolved_host_network) res" where
  "access_link spec n_leaf h =
     (case n_leaf of (n, leaf) \<Rightarrow>
        let ifs = interfaces spec in
        bindr (format_field ''leaf_index'' (show_nat n) (host_subnet_template (pools spec))) (\<lambda>text.
        bindr (ip_network text) (\<lambda>subnet.
        bindr (ip_address (net_base subnet + 1)) (\<lambda>gw.
        bindr (ip_address (net_base subnet + 10)) (\<lambda>hip.
          Inr (\<lparr>l_key = sw_name leaf @ ''-'' @ h_name h, l_kind = Access_link,
                l_a = \<lparr>ep_node = sw_name leaf, ep_interface = leaf_downlink_to_host ifs, ep_address = Some (gw @ ''/24'')\<rparr>,
                l_b = \<lparr>ep_node = h_name h, ep_interface = host_port ifs, ep_address = Some (hip @ ''/24'')\<rparr>,
                l_capacity = t_capacity (topology spec), l_mtu = t_mtu (topology spec)\<rparr>,
               \<lparr>hn_leaf = sw_name leaf, hn_subnet = show_network subnet, hn_gateway = gw, hn_host_ip = hip\<rparr>))))))"

definition host_by_leaf :: "host_spec list \<Rightarrow> (string, host_spec) dict" where
  "host_by_leaf hs = dict_comp h_leaf (\<lambda>h. h) hs"

text \<open>The leaves that have a host, with the host that faces them.\<close>

definition leaf_hosts :: "fabric_spec \<Rightarrow> ((nat \<times> switch_spec) \<times> host_spec) list" where
  "leaf_hosts spec = concat (map (\<lambda>n_leaf. case dict_get (host_by_leaf (hosts (nodes spec))) (sw_name (snd n_leaf)) of
       None \<Rightarrow> [] | Some h \<Rightarrow> [(n_leaf, h)]) (enumerate 1 (leaves (nodes spec))))"

definition access_links :: "fabric_spec \<Rightarrow> (resolved_link \<times> resolved_host_network) list res" where
  "access_links spec = map_res (\<lambda>(l, h). access_link spec l h) (leaf_hosts spec)"

definition allocate :: "fabric_spec \<Rightarrow> resolved_topology res" where
  "allocate spec =
     bindr (ip_network (p2p_supernet (pools spec))) (\<lambda>p2p.
     bindr (ip_network (loopback_supernet (pools spec))) (\<lambda>lo.
     bindr (ip_network (management_supernet (pools spec))) (\<lambda>mgmt.
     bindr (resolve_nodes spec (net_base lo) (net_base mgmt)) (\<lambda>ns.
     bindr (fabric_links spec (net_base p2p)) (\<lambda>fls.
     bindr (access_links spec) (\<lambda>als.
       Inr \<lparr>rt_name = t_name (topology spec), rt_management_supernet = management_supernet (pools spec),
            rt_nodes = ns, rt_links = fls @ map fst als, rt_host_networks = map snd als\<rparr>))))))"

section \<open>The repository's fabric\<close>

definition lab_fabric :: fabric_spec where
  "lab_fabric = \<lparr>fabric_schema = 1,
     topology = \<lparr>t_name = ''closcall-2s4l'', t_mtu = 1500, t_capacity = 10000000000\<rparr>,
     pools = \<lparr>p2p_supernet = ''10.0.0.0/24'', loopback_supernet = ''10.255.0.0/24'', management_supernet = ''10.100.0.0/24'',
       host_subnet_template = ''172.16.{leaf_index}.0/24''\<rparr>,
     interfaces = \<lparr>leaf_uplink_to_spine1 = ''ethernet-1/1'', leaf_uplink_to_spine2 = ''ethernet-1/2'',
       leaf_downlink_to_host = ''ethernet-1/3'', spine_port_prefix = ''ethernet-1/'', host_port = ''eth1''\<rparr>,
     nodes = \<lparr>spines = [\<lparr>sw_name = ''spine1'', sw_asn = 65101\<rparr>, \<lparr>sw_name = ''spine2'', sw_asn = 65102\<rparr>],
       leaves = [\<lparr>sw_name = ''leaf1'', sw_asn = 65001\<rparr>, \<lparr>sw_name = ''leaf2'', sw_asn = 65002\<rparr>,
         \<lparr>sw_name = ''leaf3'', sw_asn = 65003\<rparr>, \<lparr>sw_name = ''leaf4'', sw_asn = 65004\<rparr>],
       hosts = [\<lparr>h_name = ''host1'', h_leaf = ''leaf1''\<rparr>, \<lparr>h_name = ''host2'', h_leaf = ''leaf2''\<rparr>,
         \<lparr>h_name = ''host3'', h_leaf = ''leaf3''\<rparr>, \<lparr>h_name = ''host4'', h_leaf = ''leaf4''\<rparr>]\<rparr>\<rparr>"

end
