(* ===== verification/Validate.thy ===== *)
theory Validate
  imports Fabric
begin

text \<open>
  Static validation of a fabric, \<open>domain/validate.py\<close>, and what it guarantees of the allocator's result.
  Reporting is a list of strings; an exception of the allocator escapes the validator.
\<close>

section \<open>The validator\<close>

definition report_dupes :: "('a \<Rightarrow> string) \<Rightarrow> 'a list \<Rightarrow> string \<Rightarrow> string list" where
  "report_dupes show items label = map (\<lambda>x. ''duplicate '' @ label @ '': '' @ show x) (dupes {} items)"

definition asn_error :: "switch_spec \<Rightarrow> string list" where
  "asn_error sw =
     (if 64512 \<le> sw_asn sw \<and> sw_asn sw \<le> 65534 then []
      else [''ASN '' @ show_int (sw_asn sw) @ '' on '' @ sw_name sw @ '' is outside the private 16-bit range 64512-65534''])"

definition host_error :: "string list \<Rightarrow> host_spec \<Rightarrow> string list" where
  "host_error leaf_names h =
     (if h_leaf h \<in> set leaf_names then []
      else [''host '' @ h_name h @ '' references unknown leaf '' @ [apos_c] @ h_leaf h @ [apos_c]])"

definition interface_items :: "interfaces_spec \<Rightarrow> (string, string) dict" where
  "interface_items i =
     [(''leaf_uplink_to_spine1'', leaf_uplink_to_spine1 i), (''leaf_uplink_to_spine2'', leaf_uplink_to_spine2 i),
      (''leaf_downlink_to_host'', leaf_downlink_to_host i), (''spine_port_prefix'', spine_port_prefix i), (''host_port'', host_port i)]"

definition interface_error :: "string \<times> string \<Rightarrow> string list" where
  "interface_error fv = (case fv of (field, v) \<Rightarrow>
     if strip v = [] then [''interface mapping '' @ [apos_c] @ field @ [apos_c] @ '' is empty or invalid''] else [])"

definition pool_error :: "string \<times> string \<Rightarrow> string list" where
  "pool_error fv = (case fv of (field, v) \<Rightarrow> (case ip_network v of
       Inl e \<Rightarrow> [''pool '' @ field @ ''='' @ [apos_c] @ v @ [apos_c] @ '' is not a valid network: '' @
         (case e of ValueError m \<Rightarrow> m | _ \<Rightarrow> [])]
     | Inr _ \<Rightarrow> []))"

definition switches :: "fabric_spec \<Rightarrow> switch_spec list" where
  "switches spec = spines (nodes spec) @ leaves (nodes spec)"

definition all_names :: "fabric_spec \<Rightarrow> string list" where
  "all_names spec = map sw_name (switches spec) @ map h_name (hosts (nodes spec))"

definition structural_errors :: "fabric_spec \<Rightarrow> string list" where
  "structural_errors spec =
     report_dupes id (all_names spec) ''node name'' @
     report_dupes show_int (map sw_asn (switches spec)) ''ASN'' @
     concat (map asn_error (switches spec)) @
     concat (map (host_error (map sw_name (leaves (nodes spec)))) (hosts (nodes spec))) @
     concat (map interface_error (interface_items (interfaces spec))) @
     concat (map pool_error [(''p2p_supernet'', p2p_supernet (pools spec)), (''loopback_supernet'', loopback_supernet (pools spec)),
       (''management_supernet'', management_supernet (pools spec))]) @
     (if t_mtu (topology spec) \<le> 0 then [''mtu '' @ show_int (t_mtu (topology spec)) @ '' must be positive''] else []) @
     (if t_capacity (topology spec) \<le> 0
      then [''link_capacity_bps '' @ show_int (t_capacity (topology spec)) @ '' must be positive''] else [])"

definition p2p_pool_error :: "fabric_spec \<Rightarrow> string list res" where
  "p2p_pool_error spec =
     bindr (ip_network (p2p_supernet (pools spec))) (\<lambda>p2p.
       let needed = int (length (leaves (nodes spec)) * length (spines (nodes spec))); available = num_addresses p2p div 2 in
       Inr (if available < needed
         then [''p2p_supernet holds '' @ show_int available @ '' /31s but '' @ show_int needed @ '' links need one each''] else []))"

definition p2p_addresses :: "resolved_topology \<Rightarrow> string list" where
  "p2p_addresses topo = map (text_before (CHR ''/''))
     (List.map_filter ep_address (concat (map (\<lambda>l. [l_a l, l_b l]) (filter (\<lambda>l. l_kind l = Fabric_link) (rt_links topo)))))"

fun overlap_errors :: "ip_network list \<Rightarrow> string list" where
  "overlap_errors [] = []"
| "overlap_errors (a # bs) =
     map (\<lambda>b. ''host subnets '' @ show_network a @ '' and '' @ show_network b @ '' overlap'') (filter (overlaps a) bs) @
     overlap_errors bs"

definition collision_errors :: "fabric_spec \<Rightarrow> string list res" where
  "collision_errors spec =
     bindr (allocate spec) (\<lambda>topo.
     bindr (map_res (\<lambda>hn. ip_network (hn_subnet hn)) (rt_host_networks topo)) (\<lambda>subnets.
       Inr (report_dupes id (List.map_filter n_loopback (rt_nodes topo)) ''loopback'' @
            report_dupes id (map n_management (rt_nodes topo)) ''management address'' @
            report_dupes id (p2p_addresses topo) ''p2p address'' @
            overlap_errors subnets)))"

definition validate_fabric :: "fabric_spec \<Rightarrow> string list res" where
  "validate_fabric spec =
     (let e1 = structural_errors spec in
      if e1 \<noteq> [] then Inr e1
      else bindr (p2p_pool_error spec) (\<lambda>e2. if e2 \<noteq> [] then Inr e2 else collision_errors spec))"

section \<open>Lemmas\<close>

lemma report_dupes_empty [simp]: "report_dupes show items label = [] \<longleftrightarrow> distinct items"
  by (simp add: report_dupes_def dupes_empty_iff)

lemma overlap_errors_empty:
  "overlap_errors nets = [] \<longleftrightarrow> sorted_wrt (\<lambda>a b. \<not> (\<exists>n. in_net n a \<and> in_net n b)) nets"
  by (induction nets) (auto simp: filter_empty_conv overlaps_iff)

lemma enumerate_product_nth:
  assumes "length ys = 2" "i < 2 * length xs"
  shows "List.product (enumerate 1 xs) (enumerate 1 ys) ! i = ((i div 2 + 1, xs ! (i div 2)), (i mod 2 + 1, ys ! (i mod 2)))"
proof -
  have "i div 2 < length xs" "i mod 2 < 2" using assms by auto
  then show ?thesis using assms by (simp add: product_nth nth_enumerate_eq)
qed

lemma fabric_links_kind: "fabric_links spec b = Inr ls \<Longrightarrow> l \<in> set ls \<Longrightarrow> l_kind l = Fabric_link"
  unfolding fabric_links_def by (erule map_res_all) (auto simp: fabric_link_def bindr_Inr_iff Let_def split: prod.splits)

lemma access_links_kind: "access_links spec = Inr ls \<Longrightarrow> p \<in> set ls \<Longrightarrow> l_kind (fst p) = Access_link"
  unfolding access_links_def by (erule map_res_all) (auto simp: access_link_def bindr_Inr_iff Let_def split: prod.splits)

lemma allocate_Inr:
  assumes "allocate spec = Inr topo"
  obtains p2p lo mgmt ns fls als where
    "ip_network (p2p_supernet (pools spec)) = Inr p2p" "ip_network (loopback_supernet (pools spec)) = Inr lo"
    "ip_network (management_supernet (pools spec)) = Inr mgmt" "resolve_nodes spec (net_base lo) (net_base mgmt) = Inr ns"
    "fabric_links spec (net_base p2p) = Inr fls" "access_links spec = Inr als"
    "rt_nodes topo = ns" "rt_links topo = fls @ map fst als" "rt_host_networks topo = map snd als"
    "filter (\<lambda>l. l_kind l = Fabric_link) (rt_links topo) = fls"
proof -
  from assms obtain p2p lo mgmt ns fls als where a:
    "ip_network (p2p_supernet (pools spec)) = Inr p2p" "ip_network (loopback_supernet (pools spec)) = Inr lo"
    "ip_network (management_supernet (pools spec)) = Inr mgmt" "resolve_nodes spec (net_base lo) (net_base mgmt) = Inr ns"
    "fabric_links spec (net_base p2p) = Inr fls" "access_links spec = Inr als"
    and t: "rt_nodes topo = ns" "rt_links topo = fls @ map fst als" "rt_host_networks topo = map snd als"
    unfolding allocate_def bindr_Inr_iff by auto
  have "filter (\<lambda>l. l_kind l = Fabric_link) fls = fls"
    by (rule filter_True) (use fabric_links_kind [OF a(5)] in blast)
  moreover have "filter (\<lambda>l. l_kind l = Fabric_link) (map fst als) = []"
    using access_links_kind [OF a(6)] by (auto simp: filter_empty_conv)
  ultimately have "filter (\<lambda>l. l_kind l = Fabric_link) (rt_links topo) = fls"
    by (simp add: t(2))
  with a t show ?thesis using that by blast
qed

text \<open>The nodes and links of an allocation.\<close>

lemma resolve_nodes_names:
  assumes "resolve_nodes spec lo m = Inr ns"
  shows "map n_name ns = all_names spec"
proof -
  have sw: "map n_name ys = map sw_name xs" if "map_res (resolve_switch r lo m) (enumerate k xs) = Inr ys" for r k xs ys
    using that
  proof (induction xs arbitrary: k ys)
    case (Cons x xs)
    then show ?case by (auto simp: bindr_Inr_iff resolve_switch_def)
  qed simp
  have h: "map n_name ys = map h_name xs" if "map_res (resolve_host m) (enumerate k xs) = Inr ys" for k xs ys
    using that
  proof (induction xs arbitrary: k ys)
    case (Cons x xs)
    then show ?case by (auto simp: bindr_Inr_iff resolve_host_def)
  qed simp
  from assms obtain ss ls hs where
    "map_res (resolve_switch Spine lo m) (enumerate 1 (spines (nodes spec))) = Inr ss"
    "map_res (resolve_switch Leaf lo m) (enumerate (1 + length (spines (nodes spec))) (leaves (nodes spec))) = Inr ls"
    "map_res (resolve_host m) (enumerate (1 + length (spines (nodes spec)) + length (leaves (nodes spec))) (hosts (nodes spec))) = Inr hs"
    "ns = ss @ ls @ hs"
    unfolding resolve_nodes_def Let_def bindr_Inr_iff by blast
  then show ?thesis using sw h by (simp add: all_names_def switches_def)
qed

lemma host_by_leaf_in: "dict_get (host_by_leaf hs) k = Some h \<Longrightarrow> h \<in> set hs"
  unfolding host_by_leaf_def dict_comp_def fold_dict_set_get by (auto dest: find_Some_in split: option.splits)

lemma allocate_endpoints:
  assumes "allocate spec = Inr topo" and "l \<in> set (rt_links topo)"
  shows "ep_node (l_a l) \<in> set (map n_name (rt_nodes topo)) \<and> ep_node (l_b l) \<in> set (map n_name (rt_nodes topo))"
proof -
  obtain p2p lo mgmt :: ip_network and ns fls als where a: "resolve_nodes spec (net_base lo) (net_base mgmt) = Inr ns"
    "fabric_links spec (net_base p2p) = Inr fls" "access_links spec = Inr als"
    "rt_nodes topo = ns" "rt_links topo = fls @ map fst als"
    using assms(1) by (rule allocate_Inr) (rule that)
  let ?ok = "\<lambda>l. ep_node (l_a l) \<in> set (all_names spec) \<and> ep_node (l_b l) \<in> set (all_names spec)"
  have en: "snd x \<in> set xs" if "x \<in> set (enumerate k xs)" for x k and xs :: "switch_spec list"
    using that set_zip_rightD [of "fst x" "snd x" "[k..<k + length xs]" xs] by (simp add: enumerate_eq_zip)
  have "?ok l" if "l \<in> set fls" for l
    using a(2) that unfolding fabric_links_def
    by (rule map_res_all) (auto simp: fabric_link_def bindr_Inr_iff Let_def all_names_def switches_def dest!: en split: prod.splits)
  moreover have "?ok (fst p)" if "p \<in> set als" for p
  proof -
    have lh: "snd (fst x) \<in> set (leaves (nodes spec)) \<and> snd x \<in> set (hosts (nodes spec))" if "x \<in> set (leaf_hosts spec)" for x
      using that en host_by_leaf_in unfolding leaf_hosts_def by (fastforce split: option.splits)
    show ?thesis
      using a(3) that unfolding access_links_def
      by (rule map_res_all) (auto simp: access_link_def bindr_Inr_iff Let_def all_names_def switches_def dest!: lh split: prod.splits)
  qed
  ultimately show ?thesis using assms(2) unfolding a(4,5) resolve_nodes_names [OF a(1)] by auto
qed

section \<open>Properties\<close>


lemma lab_fabric_valid: "validate_fabric lab_fabric = Inr []"
  by code_simp


text \<open>C26: The address plan of a two-spine fabric: the \<open>i\<close>-th fabric link, in allocation order, gets the \<open>i\<close>-th /31
  of the point-to-point pool, even address to the leaf and the next to the spine, and when the pool
  passes the size check every such address lies inside the pool. So for two spines the pool is
  used without gaps and no two links share an address.\<close>

theorem p2p_plan:
  assumes "allocate spec = Inr topo" and "ip_network (p2p_supernet (pools spec)) = Inr p2p"
    and "length (spines (nodes spec)) = 2" and "p2p_pool_error spec = Inr []" and "net_base p2p + num_addresses p2p \<le> 4294967296"
    and "0 \<le> net_base p2p" and "fls = filter (\<lambda>l. l_kind l = Fabric_link) (rt_links topo)"
    and "i < length fls"
  shows "length fls = 2 * length (leaves (nodes spec)) \<and>
    ep_address (l_a (fls ! i)) = Some (show_ip4 (net_base p2p + 2 * int i) @ ''/31'') \<and>
    ep_address (l_b (fls ! i)) = Some (show_ip4 (net_base p2p + 2 * int i + 1) @ ''/31'') \<and>
    in_net (net_base p2p + 2 * int i) p2p \<and> in_net (net_base p2p + 2 * int i + 1) p2p"
proof -
  from assms(1) obtain p2p' where p': "ip_network (p2p_supernet (pools spec)) = Inr p2p'"
    and f: "fabric_links spec (net_base p2p') = Inr fls"
    unfolding assms(7) by (rule allocate_Inr) metis
  have p: "p2p' = p2p" using p' assms(2) by simp
  let ?L = "leaves (nodes spec)" and ?S = "spines (nodes spec)"
  have len: "length fls = 2 * length ?L"
    using map_res_length [OF f [unfolded fabric_links_def]] assms(3) by simp
  then have i: "i < 2 * length ?L" using assms(8) by simp
  have room: "2 * int (length ?L) \<le> num_addresses p2p div 2"
    using assms(2-4) by (auto simp: p2p_pool_error_def Let_def split: if_splits)
  have in_pool: "2 * int i + 1 < num_addresses p2p" using room i by linarith
  have k: "link_index (i div 2 + 1) (i mod 2 + 1) = i" by (simp add: link_index_def)
  have "fabric_link spec (net_base p2p) (i div 2 + 1, ?L ! (i div 2)) (i mod 2 + 1, ?S ! (i mod 2)) = Inr (fls ! i)"
    using map_res_nth [OF f [unfolded fabric_links_def p], of i] i assms(3) enumerate_product_nth [OF assms(3) i] by simp
  moreover have "ip_address (net_base p2p + 2 * int i) = Inr (show_ip4 (net_base p2p + 2 * int i))"
    "ip_address (net_base p2p + 2 * int i + 1) = Inr (show_ip4 (net_base p2p + 2 * int i + 1))"
    using assms(5,6) in_pool by (auto simp: ip_address_def)
  ultimately have "ep_address (l_a (fls ! i)) = Some (show_ip4 (net_base p2p + 2 * int i) @ ''/31'')"
    "ep_address (l_b (fls ! i)) = Some (show_ip4 (net_base p2p + 2 * int i + 1) @ ''/31'')"
    unfolding fabric_link_def Let_def prod.case k by (auto simp: bindr_Inr_iff dest!: sym [of _ "fls ! i"])
  then show ?thesis using len in_pool by (simp add: in_net_def net_last_def)
qed

definition lab_topology :: resolved_topology where
  "lab_topology = (case allocate lab_fabric of Inr t \<Rightarrow> t)"

lemma lab_allocate: "allocate lab_fabric = Inr lab_topology"
proof -
  have "case allocate lab_fabric of Inr _ \<Rightarrow> True | Inl _ \<Rightarrow> False" by code_simp
  then show ?thesis by (auto simp: lab_topology_def split: sum.splits)
qed

theorem p2p_plan_witness:
  "length (filter (\<lambda>l. l_kind l = Fabric_link) (rt_links lab_topology)) = 8 \<and>
   ep_address (l_a (filter (\<lambda>l. l_kind l = Fabric_link) (rt_links lab_topology) ! 3)) = Some (show_ip4 167772166 @ ''/31'')"
proof -
  let ?p = "\<lparr>net_base = 167772160, prefixlen = 24\<rparr>"
  have a: "ip_network (p2p_supernet (pools lab_fabric)) = Inr ?p" by code_simp
  have b: "p2p_pool_error lab_fabric = Inr []" by code_simp
  have c: "length (spines (nodes lab_fabric)) = 2" "length (leaves (nodes lab_fabric)) = 4" by (simp_all add: lab_fabric_def)
  have d: "net_base ?p + num_addresses ?p \<le> 4294967296" "0 \<le> net_base ?p" by code_simp+
  have e: "3 < length (filter (\<lambda>l. l_kind l = Fabric_link) (rt_links lab_topology))" unfolding lab_topology_def by code_simp
  show ?thesis using p2p_plan [OF lab_allocate a c(1) b d refl e] c by simp
qed

lemma third_spine_unlinked:
  assumes "3 \<le> length (spines (nodes spec))" and "leaves (nodes spec) \<noteq> []"
  shows "\<not> (\<exists>topo. allocate spec = Inr topo)"
proof
  assume "\<exists>topo. allocate spec = Inr topo"
  then obtain topo b fls where f: "fabric_links spec b = Inr fls" by (auto elim: allocate_Inr)
  obtain l ls where l: "leaves (nodes spec) = l # ls" using assms(2) by (cases "leaves (nodes spec)") auto
  have "(3, spines (nodes spec) ! 2) = enumerate 1 (spines (nodes spec)) ! 2"
    using assms(1) by (simp add: nth_enumerate_eq)
  then have "(3, spines (nodes spec) ! 2) \<in> set (enumerate 1 (spines (nodes spec)))"
    using assms(1) by (metis length_enumerate less_le_trans nth_mem numeral_2_eq_2 numeral_3_eq_3 lessI)
  then have "((1, l), (3, spines (nodes spec) ! 2)) \<in> set (List.product (enumerate 1 (leaves (nodes spec))) (enumerate 1 (spines (nodes spec))))"
    by (simp add: l)
  from map_res_in [OF f [unfolded fabric_links_def] this]
  show False by (auto simp: fabric_link_def uplinks_def bindr_Inr_iff Let_def)
qed

text \<open>Three or more spines crash the validator: whenever the specification is otherwise structurally sound, its
  pool large enough and it has a leaf, validation does not return a list of errors but raises
  (the uplink of spine 3 does not exist), and so does allocation.\<close>

theorem third_spine_crashes_validator:
  assumes "3 \<le> length (spines (nodes spec))" and "leaves (nodes spec) \<noteq> []"
    and "structural_errors spec = []" and "p2p_pool_error spec = Inr []"
  shows "\<exists>e. validate_fabric spec = Inl e \<and> allocate spec = Inl e"
proof -
  have "\<exists>e. allocate spec = Inl e" using third_spine_unlinked [OF assms(1,2)] by (cases "allocate spec") auto
  then show ?thesis using assms(3,4) by (auto simp: validate_fabric_def collision_errors_def)
qed

definition third_spine :: fabric_spec where
  "third_spine = lab_fabric\<lparr>nodes := (nodes lab_fabric)\<lparr>spines := spines (nodes lab_fabric) @ [\<lparr>sw_name = ''spine3'', sw_asn = 65103\<rparr>]\<rparr>\<rparr>"

theorem third_spine_crashes_validator_witness:
  "\<exists>e. validate_fabric third_spine = Inl e \<and> allocate third_spine = Inl e"
proof -
  have "3 \<le> length (spines (nodes third_spine))" "leaves (nodes third_spine) \<noteq> []"
    by (simp_all add: third_spine_def lab_fabric_def)
  moreover have "structural_errors third_spine = []" "p2p_pool_error third_spine = Inr []" by code_simp+
  ultimately show ?thesis by (rule third_spine_crashes_validator)
qed

text \<open>
  With one spine the plan skips every second /31, so the size check passes a pool that the allocation
  leaves: two leaves and a /30.
\<close>

definition single_spine :: fabric_spec where
  "single_spine = lab_fabric\<lparr>pools := (pools lab_fabric)\<lparr>p2p_supernet := ''10.0.0.0/30''\<rparr>,
     nodes := \<lparr>spines = take 1 (spines (nodes lab_fabric)), leaves = take 2 (leaves (nodes lab_fabric)),
       hosts = take 2 (hosts (nodes lab_fabric))\<rparr>\<rparr>"

lemma single_spine_leaves_pool:
  "validate_fabric single_spine = Inr [] \<and>
   (case allocate single_spine of Inr t \<Rightarrow> ep_address (l_a (rt_links t ! 1)) = Some ''10.0.0.4/31'' | Inl _ \<Rightarrow> False)"
  by code_simp

text \<open>Pools are not compared with each other: one pool for loopbacks and links passes, and both get the same address.\<close>

definition shared_pool :: fabric_spec where
  "shared_pool = lab_fabric\<lparr>pools := (pools lab_fabric)\<lparr>loopback_supernet := ''10.0.0.0/24''\<rparr>\<rparr>"

lemma shared_pool_collides:
  "validate_fabric shared_pool = Inr [] \<and>
   (case allocate shared_pool of Inr t \<Rightarrow> n_loopback (hd (rt_nodes t)) = Some ''10.0.0.1/32'' \<and>
      ep_address (l_b (hd (rt_links t))) = Some ''10.0.0.1/31'' | Inl _ \<Rightarrow> False)"
  by code_simp

text \<open>Two hosts on one leaf pass the validator; the first one gets no link.\<close>

definition crowded_leaf :: fabric_spec where
  "crowded_leaf = lab_fabric\<lparr>nodes := (nodes lab_fabric)\<lparr>hosts := hosts (nodes lab_fabric) @ [\<lparr>h_name = ''host5'', h_leaf = ''leaf1''\<rparr>]\<rparr>\<rparr>"

lemma crowded_leaf_drops_host:
  "validate_fabric crowded_leaf = Inr [] \<and>
   (case allocate crowded_leaf of Inr t \<Rightarrow> ''host1'' \<in> set (map n_name (rt_nodes t)) \<and>
      ''host1'' \<notin> set (map (ep_node \<circ> l_b) (rt_links t)) | Inl _ \<Rightarrow> False)"
  by code_simp

end
