(* ===== verification/Graph.thy ===== *)
theory Graph
  imports Validate Features
begin

text \<open>
  The typed graph of a topology, \<open>datasets/graph.py\<close>: device and interface tables, directed relations, the
  candidate links, and the attachment of features. \<open>sha\<close> is SHA-256 of a text, \<open>fr\<close> the JSON
  form of a float.
\<close>

section \<open>Tables\<close>

record device_node =
  dn_id :: string
  dn_role :: role

record interface_node =
  in_id :: string
  in_device :: string
  in_kind :: string

record typed_edge =
  te_src :: string
  te_dst :: string
  te_relation :: string
  te_link_kind :: "link_kind option"
  te_capacity :: "int option"
  te_mtu :: "int option"

record candidate_link =
  cl_key :: string
  cl_kind :: link_kind
  cl_endpoints :: "string \<times> string"

record typed_graph =
  device_nodes :: "device_node list"
  interface_nodes :: "interface_node list"
  edges :: "typed_edge list"
  candidate_links :: "candidate_link list"
  g_hash :: string

record graph_example =
  ge_topology_hash :: string
  interface_features :: "(string, (string, json) dict) dict"
  ge_schema_hash :: string

definition NODE_TYPES :: "string list" where "NODE_TYPES = [''device'', ''interface'']"
definition EDGE_RELATIONS :: "string list" where "EDGE_RELATIONS = [''contains'', ''link'']"
definition GRAPH_SCHEMA_VERSION :: int where "GRAPH_SCHEMA_VERSION = 1"

definition json_strs :: "string list \<Rightarrow> json" where "json_strs xs = JArr (map JStr xs)"

definition graph_schema_hash :: "(string \<Rightarrow> string) \<Rightarrow> (pyfloat \<Rightarrow> string) \<Rightarrow> string" where
  "graph_schema_hash sha fr = sha (dumps_sorted fr (JObj
     [(''version'', JInt GRAPH_SCHEMA_VERSION), (''node_types'', json_strs NODE_TYPES),
      (''edge_relations'', json_strs EDGE_RELATIONS), (''device_fields'', json_strs [''id'', ''role'']),
      (''interface_fields'', json_strs [''id'', ''device'', ''kind'']),
      (''edge_fields'', json_strs [''src'', ''dst'', ''relation'', ''link_kind'', ''capacity_bps'', ''mtu'']),
      (''candidate_fields'', json_strs [''key'', ''kind'', ''endpoints''])]))"

section \<open>Building\<close>

definition iface_kind :: "role \<Rightarrow> link_kind \<Rightarrow> string" where
  "iface_kind r k = (if k = Fabric_link then (if r = Leaf then ''uplink'' else ''fabric_face'')
     else if r = Leaf then ''downlink'' else ''access'')"

definition iface_id :: "resolved_endpoint \<Rightarrow> string" where
  "iface_id ep = ep_node ep @ '':'' @ ep_interface ep"

definition note_iface ::
    "(string, role) dict \<Rightarrow> link_kind \<Rightarrow> resolved_endpoint \<Rightarrow> (string, interface_node) dict \<Rightarrow> (string, interface_node) dict res" where
  "note_iface roles k ep ifaces =
     (if dict_get ifaces (iface_id ep) = None
      then bindr (dict_index roles (ep_node ep)) (\<lambda>r.
        Inr (dict_set (iface_id ep) \<lparr>in_id = iface_id ep, in_device = ep_node ep, in_kind = iface_kind r k\<rparr> ifaces))
      else Inr ifaces)"

definition note_link ::
    "(string, role) dict \<Rightarrow> resolved_link \<Rightarrow> (string, interface_node) dict \<Rightarrow> (string, interface_node) dict res" where
  "note_link roles l ifaces = bindr (note_iface roles (l_kind l) (l_a l) ifaces) (note_iface roles (l_kind l) (l_b l))"

definition link_edge :: "resolved_link \<Rightarrow> string \<Rightarrow> string \<Rightarrow> typed_edge" where
  "link_edge l x y = \<lparr>te_src = x, te_dst = y, te_relation = ''link'', te_link_kind = Some (l_kind l),
     te_capacity = Some (l_capacity l), te_mtu = Some (l_mtu l)\<rparr>"

definition link_edges :: "resolved_link \<Rightarrow> typed_edge list" where
  "link_edges l = [link_edge l (iface_id (l_a l)) (iface_id (l_b l)), link_edge l (iface_id (l_b l)) (iface_id (l_a l))]"

definition contains_edge :: "string \<times> interface_node \<Rightarrow> typed_edge" where
  "contains_edge p = \<lparr>te_src = in_device (snd p), te_dst = fst p, te_relation = ''contains'', te_link_kind = None,
     te_capacity = None, te_mtu = None\<rparr>"

definition candidate :: "resolved_link \<Rightarrow> candidate_link" where
  "candidate l = \<lparr>cl_key = l_key l, cl_kind = l_kind l, cl_endpoints = (iface_id (l_a l), iface_id (l_b l))\<rparr>"

definition json_opt :: "('a \<Rightarrow> json) \<Rightarrow> 'a option \<Rightarrow> json" where
  "json_opt f v = (case v of None \<Rightarrow> JNull | Some x \<Rightarrow> f x)"

definition hash_topology :: "(string \<Rightarrow> string) \<Rightarrow> (pyfloat \<Rightarrow> string) \<Rightarrow> typed_graph \<Rightarrow> string" where
  "hash_topology sha fr g = sha (dumps_sorted fr (JObj
     [(''devices'', JArr (map (\<lambda>d. JObj [(''id'', JStr (dn_id d)), (''role'', JStr (role_str (dn_role d)))]) (device_nodes g))),
      (''interfaces'', JArr (map (\<lambda>i. JObj [(''id'', JStr (in_id i)), (''device'', JStr (in_device i)), (''kind'', JStr (in_kind i))])
        (interface_nodes g))),
      (''edges'', JArr (map (\<lambda>e. JObj [(''src'', JStr (te_src e)), (''dst'', JStr (te_dst e)), (''relation'', JStr (te_relation e)),
          (''link_kind'', json_opt (JStr \<circ> link_kind_str) (te_link_kind e)), (''capacity_bps'', json_opt JInt (te_capacity e)),
          (''mtu'', json_opt JInt (te_mtu e))]) (edges g))),
      (''candidates'', JArr (map (\<lambda>c. JObj [(''key'', JStr (cl_key c)), (''kind'', JStr (link_kind_str (cl_kind c))),
          (''endpoints'', json_strs [fst (cl_endpoints c), snd (cl_endpoints c)])]) (candidate_links g))),
      (''schema'', JStr (graph_schema_hash sha fr))]))"

definition build_topology_graph ::
    "(string \<Rightarrow> string) \<Rightarrow> (pyfloat \<Rightarrow> string) \<Rightarrow> resolved_topology \<Rightarrow> typed_graph res" where
  "build_topology_graph sha fr topo =
     (let roles = dict_comp n_name n_role (rt_nodes topo);
          devices = sort_key dn_id (map (\<lambda>n. \<lparr>dn_id = n_name n, dn_role = n_role n\<rparr>) (rt_nodes topo)) in
      bindr (fold_res (note_link roles) (rt_links topo) []) (\<lambda>ifaces.
        let es = concat (map link_edges (rt_links topo)) @ map contains_edge ifaces;
            g = \<lparr>device_nodes = devices,
                 interface_nodes = map snd (sort_key fst ifaces),
                 edges = sort_key (\<lambda>e. (te_relation e, te_src e, te_dst e)) es,
                 candidate_links = sort_key cl_key (map candidate (rt_links topo)),
                 g_hash = []\<rparr>
        in Inr (g\<lparr>g_hash := hash_topology sha fr g\<rparr>)))"

section \<open>Features on the graph\<close>

definition IDENTITY_FEATURES :: "string list" where
  "IDENTITY_FEATURES = [''id'', ''node'', ''interface'', ''name'', ''key'']"

definition attach_node ::
    "(string, (string, json) dict) dict \<Rightarrow> interface_node \<Rightarrow> (string, (string, json) dict) dict \<Rightarrow> (string, (string, json) dict) dict res" where
  "attach_node fbi nd attached =
     (let feats = (case dict_get fbi (in_id nd) of None \<Rightarrow> [] | Some f \<Rightarrow> f) in
      if set (dict_keys feats) \<inter> set FORBIDDEN_FEATURE_COLUMNS \<noteq> {}
      then Inl (ValueError (''leakage: forbidden feature on '' @ in_id nd))
      else if \<exists>k \<in> set (dict_keys feats). k \<in> set IDENTITY_FEATURES
      then Inl (ValueError (''identity feature on '' @ in_id nd))
      else Inr (dict_set (in_id nd) feats attached))"

definition attach_features ::
    "(string \<Rightarrow> string) \<Rightarrow> (pyfloat \<Rightarrow> string) \<Rightarrow> typed_graph \<Rightarrow> (string, (string, json) dict) dict \<Rightarrow> graph_example res" where
  "attach_features sha fr g fbi =
     bindr (fold_res (attach_node fbi) (interface_nodes g) []) (\<lambda>attached.
       Inr \<lparr>ge_topology_hash = g_hash g, interface_features = attached, ge_schema_hash = schema_hash sha fr\<rparr>)"

section \<open>Lemmas\<close>

text \<open>The interface table grows by the endpoints of each link, keyed by their own id, each with its device.\<close>

definition iface_table :: "(string, role) dict \<Rightarrow> (string, interface_node) dict \<Rightarrow> bool" where
  "iface_table roles t \<longleftrightarrow> distinct (dict_keys t) \<and>
     (\<forall>(k, i) \<in> set t. in_id i = k \<and> dict_get roles (in_device i) \<noteq> None)"

lemma note_iface_cases:
  assumes "note_iface roles k ep t = Inr t'"
  obtains "t' = t" "iface_id ep \<in> fst ` set t"
  | i where "t' = t @ [(iface_id ep, i)]" "iface_id ep \<notin> fst ` set t" "in_id i = iface_id ep" "in_device i = ep_node ep"
      "dict_get roles (ep_node ep) \<noteq> None"
proof (cases "dict_get t (iface_id ep)")
  case None
  then have fresh: "iface_id ep \<notin> fst ` set t" by (simp add: map_of_eq_None_iff)
  obtain r where "dict_get roles (ep_node ep) = Some r"
    "t' = dict_set (iface_id ep) \<lparr>in_id = iface_id ep, in_device = ep_node ep, in_kind = iface_kind r k\<rparr> t"
    using assms None unfolding note_iface_def by (auto simp: bindr_Inr_iff)
  with fresh show ?thesis by (intro that(2) [of "\<lparr>in_id = iface_id ep, in_device = ep_node ep, in_kind = iface_kind r k\<rparr>"]) (simp_all add: dict_set_fresh)
next
  case (Some i)
  then have "iface_id ep \<in> fst ` set t" by (metis map_of_SomeD fst_conv imageI)
  then show ?thesis using assms Some by (intro that(1)) (simp_all add: note_iface_def)
qed

lemma note_iface_props:
  assumes "note_iface roles k ep t = Inr t'" and "iface_table roles t"
  shows "iface_table roles t'" "set (dict_keys t') = insert (iface_id ep) (set (dict_keys t))"
  by (rule note_iface_cases [OF assms(1)]; use assms(2) in \<open>auto simp: iface_table_def\<close>)+

lemma note_link_props:
  assumes "note_link roles l t = Inr t'" and "iface_table roles t"
  shows "iface_table roles t'"
    "set (dict_keys t') = {iface_id (l_a l), iface_id (l_b l)} \<union> set (dict_keys t)"
proof -
  from assms(1) obtain t1 where t1: "note_iface roles (l_kind l) (l_a l) t = Inr t1" "note_iface roles (l_kind l) (l_b l) t1 = Inr t'"
    unfolding note_link_def bindr_Inr_iff by blast
  note p1 = note_iface_props [OF t1(1) assms(2)]
  note p2 = note_iface_props [OF t1(2) p1(1)]
  show "iface_table roles t'" by (rule p2(1))
  show "set (dict_keys t') = {iface_id (l_a l), iface_id (l_b l)} \<union> set (dict_keys t)"
    unfolding p2(2) p1(2) by blast
qed

lemma fold_note_link_props:
  assumes "fold_res (note_link roles) ls t = Inr t'" and "iface_table roles t"
  shows "iface_table roles t' \<and>
    set (dict_keys t') = (\<Union>l \<in> set ls. {iface_id (l_a l), iface_id (l_b l)}) \<union> set (dict_keys t)"
  using assms
proof (induction ls arbitrary: t)
  case (Cons l ls)
  from Cons.prems(1) obtain t1 where t1: "note_link roles l t = Inr t1" "fold_res (note_link roles) ls t1 = Inr t'"
    by (auto simp: bindr_Inr_iff)
  note p = note_link_props [OF t1(1) Cons.prems(2)]
  show ?case using Cons.IH [OF t1(2) p(1)] unfolding p(2) by (auto simp del: set_map)
qed simp

lemma note_link_total:
  assumes "dict_get roles (ep_node (l_a l)) \<noteq> None" "dict_get roles (ep_node (l_b l)) \<noteq> None"
  shows "\<exists>t'. note_link roles l t = Inr t'"
proof -
  have "\<exists>t'. note_iface roles (l_kind l) ep t = Inr t'" if "dict_get roles (ep_node ep) \<noteq> None" for ep t
    using that by (auto simp: note_iface_def dict_index_def)
  then show ?thesis using assms unfolding note_link_def bindr_Inr_iff by metis
qed

lemma fold_note_link_total:
  assumes "\<forall>l \<in> set ls. dict_get roles (ep_node (l_a l)) \<noteq> None \<and> dict_get roles (ep_node (l_b l)) \<noteq> None"
  shows "\<exists>t'. fold_res (note_link roles) ls t = Inr t'"
  using assms
proof (induction ls arbitrary: t)
  case (Cons l ls)
  obtain t1 where "note_link roles l t = Inr t1" using note_link_total [of roles l t] Cons.prems by auto
  then show ?case using Cons.IH [of t1] Cons.prems by simp
qed simp

lemma build_Inr:
  assumes "build_topology_graph sha fr topo = Inr g"
  obtains t where "iface_table (dict_comp n_name n_role (rt_nodes topo)) t"
    "set (dict_keys t) = (\<Union>l \<in> set (rt_links topo). {iface_id (l_a l), iface_id (l_b l)})"
    "interface_nodes g = map snd (sort_key fst t)"
    "set (edges g) = (\<Union>l \<in> set (rt_links topo). set (link_edges l)) \<union> contains_edge ` set t"
    "candidate_links g = sort_key cl_key (map candidate (rt_links topo))"
proof -
  from assms obtain t where t: "fold_res (note_link (dict_comp n_name n_role (rt_nodes topo))) (rt_links topo) [] = Inr t"
    and g: "interface_nodes g = map snd (sort_key fst t)"
      "set (edges g) = (\<Union>l \<in> set (rt_links topo). set (link_edges l)) \<union> contains_edge ` set t"
      "candidate_links g = sort_key cl_key (map candidate (rt_links topo))"
    unfolding build_topology_graph_def Let_def bindr_Inr_iff by auto
  have "iface_table (dict_comp n_name n_role (rt_nodes topo)) []" by (simp add: iface_table_def)
  from fold_note_link_props [OF t this] show ?thesis using g that by auto
qed

lemma dict_comp_get_iff: "dict_get (dict_comp k v xs) q \<noteq> None \<longleftrightarrow> q \<in> k ` set xs"
proof -
  have "dict_get (dict_comp k v xs) q \<noteq> None \<longleftrightarrow> q \<in> set (dict_keys (dict_comp k v xs))"
    by (simp add: map_of_eq_None_iff)
  then show ?thesis unfolding dict_comp_def fold_dict_set_keys by simp
qed

section \<open>Properties\<close>

text \<open>C38: The graph is well formed: interface ids are distinct and sorted, and are exactly the link endpoints; every
  interface hangs on a device of the topology by one containment edge; every link edge joins two
  interfaces of the graph and comes with its reverse, same kind, capacity and MTU; and there is
  one candidate per physical link, so no link is pruned.\<close>

theorem graph_well_formed:
  assumes "build_topology_graph sha fr topo = Inr g"
  shows "distinct (map in_id (interface_nodes g)) \<and> sorted (map in_id (interface_nodes g)) \<and>
    set (map in_id (interface_nodes g)) = (\<Union>l \<in> set (rt_links topo). {iface_id (l_a l), iface_id (l_b l)}) \<and>
    (\<forall>i \<in> set (interface_nodes g). in_device i \<in> set (map n_name (rt_nodes topo)) \<and>
       (\<exists>!e. e \<in> set (edges g) \<and> te_relation e = ''contains'' \<and> te_dst e = in_id i) \<and>
       (\<exists>e \<in> set (edges g). te_relation e = ''contains'' \<and> te_src e = in_device i \<and> te_dst e = in_id i)) \<and>
    (\<forall>e \<in> set (edges g). te_relation e = ''link'' \<longrightarrow>
       te_src e \<in> set (map in_id (interface_nodes g)) \<and> te_dst e \<in> set (map in_id (interface_nodes g)) \<and>
       e\<lparr>te_src := te_dst e, te_dst := te_src e\<rparr> \<in> set (edges g)) \<and>
    length (candidate_links g) = length (rt_links topo) \<and>
    (\<forall>l \<in> set (rt_links topo). candidate l \<in> set (candidate_links g))"
proof -
  let ?roles = "dict_comp n_name n_role (rt_nodes topo)"
  obtain t where t: "iface_table ?roles t"
    "set (dict_keys t) = (\<Union>l \<in> set (rt_links topo). {iface_id (l_a l), iface_id (l_b l)})"
    "interface_nodes g = map snd (sort_key fst t)"
    "set (edges g) = (\<Union>l \<in> set (rt_links topo). set (link_edges l)) \<union> contains_edge ` set t"
    "candidate_links g = sort_key cl_key (map candidate (rt_links topo))"
    using assms by (rule build_Inr)
  have key: "in_id i = k" "in_device i \<in> set (map n_name (rt_nodes topo))" if "(k, i) \<in> set t" for k i
    using t(1) that dict_comp_get_iff [of n_name n_role "rt_nodes topo"] unfolding iface_table_def by auto
  have "map in_id (map snd (sort_key fst t)) = map fst (sort_key fst t)"
    using key(1) by (auto intro: map_cong)
  then have ids: "map in_id (interface_nodes g) = map fst (sort_key fst t)" unfolding t(3) by simp
  have d: "distinct (map in_id (interface_nodes g))"
    using t(1) unfolding ids iface_table_def by (simp add: distinct_map)
  have s: "sorted (map in_id (interface_nodes g))" unfolding ids by simp
  have st: "set (map in_id (interface_nodes g)) = (\<Union>l \<in> set (rt_links topo). {iface_id (l_a l), iface_id (l_b l)})"
    unfolding ids using t(2) by simp
  have c: "in_device i \<in> set (map n_name (rt_nodes topo)) \<and>
      (\<exists>!e. e \<in> set (edges g) \<and> te_relation e = ''contains'' \<and> te_dst e = in_id i) \<and>
      (\<exists>e \<in> set (edges g). te_relation e = ''contains'' \<and> te_src e = in_device i \<and> te_dst e = in_id i)"
    if i: "i \<in> set (interface_nodes g)" for i
  proof -
    obtain k where k: "(k, i) \<in> set t" using i unfolding t(3) by auto
    let ?e = "contains_edge (k, i)"
    have e: "?e \<in> set (edges g)" unfolding t(4) using k by blast
    have e': "te_relation ?e = ''contains''" "te_dst ?e = in_id i" "te_src ?e = in_device i"
      using key(1) [OF k] by (simp_all add: contains_edge_def)
    have u: "e' = ?e" if "e' \<in> set (edges g)" "te_relation e' = ''contains''" "te_dst e' = in_id i" for e'
    proof -
      from that(1,2) obtain p where p: "p \<in> set t" "e' = contains_edge p"
        unfolding t(4) by (auto simp: link_edges_def link_edge_def)
      then have "fst p = k" using that(3) key(1) [OF k] by (simp add: contains_edge_def)
      then have "p = (k, i)"
        using p(1) k t(1) unfolding iface_table_def by (metis eq_key_imp_eq_value prod.collapse)
      then show ?thesis using p(2) by simp
    qed
    show ?thesis using key(2) [OF k] e e' u by blast
  qed
  have l: "te_src e \<in> set (map in_id (interface_nodes g)) \<and> te_dst e \<in> set (map in_id (interface_nodes g)) \<and>
      e\<lparr>te_src := te_dst e, te_dst := te_src e\<rparr> \<in> set (edges g)" if "e \<in> set (edges g)" "te_relation e = ''link''" for e
    using that unfolding st t(4) by (auto simp: link_edges_def link_edge_def contains_edge_def)
  show ?thesis using d s st c l unfolding t(5) by simp
qed

lemma allocated_graph:
  assumes "allocate spec = Inr topo"
  shows "\<exists>g. build_topology_graph sha fr topo = Inr g \<and>
    candidate_links g = sort_key cl_key (map candidate (rt_links topo)) \<and>
    map dn_id (device_nodes g) = sort (map n_name (rt_nodes topo))"
proof -
  have "\<forall>l \<in> set (rt_links topo). dict_get (dict_comp n_name n_role (rt_nodes topo)) (ep_node (l_a l)) \<noteq> None \<and>
      dict_get (dict_comp n_name n_role (rt_nodes topo)) (ep_node (l_b l)) \<noteq> None"
    unfolding dict_comp_get_iff using allocate_endpoints [OF assms] by simp
  then have "\<exists>t. fold_res (note_link (dict_comp n_name n_role (rt_nodes topo))) (rt_links topo) [] = Inr t"
    by (rule fold_note_link_total)
  moreover have "map dn_id (sort_key dn_id (map (\<lambda>n. \<lparr>dn_id = n_name n, dn_role = n_role n\<rparr>) ns)) = sort (map n_name ns)" for ns
    by (simp add: map_sort_key comp_def)
  ultimately show ?thesis
    unfolding build_topology_graph_def Let_def by (elim exE, intro exI conjI) (simp_all only: bindr_simps, simp_all)
qed

text \<open>Every allocated fabric has a graph: building it from an allocation never fails, and its candidates are the
  fabric and access links of the allocation, one each.\<close>

theorem allocated_graph_total:
  assumes "allocate spec = Inr topo"
  shows "\<exists>g. build_topology_graph sha fr topo = Inr g \<and>
    candidate_links g = sort_key cl_key (map candidate (rt_links topo)) \<and>
    map dn_id (device_nodes g) = sort (map n_name (rt_nodes topo))"
  using assms by (rule allocated_graph)

theorem allocated_graph_total_witness:
  "\<exists>g. build_topology_graph (\<lambda>_. []) (\<lambda>_. []) lab_topology = Inr g"
  using allocated_graph_total [OF lab_allocate] by blast

theorem graph_well_formed_witness:
  "\<exists>g. build_topology_graph (\<lambda>_. []) (\<lambda>_. []) lab_topology = Inr g \<and> distinct (map in_id (interface_nodes g))"
proof -
  obtain g where "build_topology_graph (\<lambda>_. []) (\<lambda>_. []) lab_topology = Inr g"
    using allocated_graph [OF lab_allocate] by blast
  then show ?thesis using graph_well_formed by blast
qed

lemma fold_attach:
  "fold_res (attach_node fbi) ns d = Inr d' \<longleftrightarrow>
     (\<forall>nd \<in> set ns. set (dict_keys (case dict_get fbi (in_id nd) of None \<Rightarrow> [] | Some f \<Rightarrow> f)) \<inter>
        (set FORBIDDEN_FEATURE_COLUMNS \<union> set IDENTITY_FEATURES) = {}) \<and>
     d' = fold (\<lambda>nd. dict_set (in_id nd) (case dict_get fbi (in_id nd) of None \<Rightarrow> [] | Some f \<Rightarrow> f)) ns d"
proof (induction ns arbitrary: d)
  case (Cons nd ns)
  let ?f = "case dict_get fbi (in_id nd) of None \<Rightarrow> [] | Some f \<Rightarrow> f"
  have a: "attach_node fbi nd d = (if set (dict_keys ?f) \<inter> (set FORBIDDEN_FEATURE_COLUMNS \<union> set IDENTITY_FEATURES) = {}
      then Inr (dict_set (in_id nd) ?f d) else attach_node fbi nd d)"
    "set (dict_keys ?f) \<inter> (set FORBIDDEN_FEATURE_COLUMNS \<union> set IDENTITY_FEATURES) \<noteq> {} \<Longrightarrow> \<exists>e. attach_node fbi nd d = Inl e"
    unfolding attach_node_def Let_def by (auto simp del: set_map)
  show ?case
  proof (cases "set (dict_keys ?f) \<inter> (set FORBIDDEN_FEATURE_COLUMNS \<union> set IDENTITY_FEATURES) = {}")
    case True
    then have "attach_node fbi nd d = Inr (dict_set (in_id nd) ?f d)" using a(1) by metis
    then show ?thesis using True Cons.IH by (simp del: set_map)
  next
    case False
    then obtain e where "attach_node fbi nd d = Inl e" using a(2) by blast
    then show ?thesis using False by (simp del: set_map)
  qed
qed auto

text \<open>Attaching features keeps identity and outcome columns out: it succeeds exactly when no interface of the
  graph is given a forbidden or an identity feature, and then every interface of the graph, and
  nothing else, carries the features supplied for it (none if none were).\<close>

theorem attach_features_spec:
  "(\<exists>ex. attach_features sha fr g fbi = Inr ex \<and>
      set (dict_keys (interface_features ex)) = set (map in_id (interface_nodes g)) \<and>
      (\<forall>nd \<in> set (interface_nodes g). dict_get (interface_features ex) (in_id nd) =
         Some (case dict_get fbi (in_id nd) of None \<Rightarrow> [] | Some f \<Rightarrow> f))) \<longleftrightarrow>
   (\<forall>nd \<in> set (interface_nodes g). \<forall>f. dict_get fbi (in_id nd) = Some f \<longrightarrow>
      set (dict_keys f) \<inter> (set FORBIDDEN_FEATURE_COLUMNS \<union> set IDENTITY_FEATURES) = {})"
proof -
  let ?feats = "\<lambda>nd. case dict_get fbi (in_id nd) of None \<Rightarrow> [] | Some f \<Rightarrow> f"
  let ?d = "fold (\<lambda>nd. dict_set (in_id nd) (?feats nd)) (interface_nodes g) []"
  have k: "set (dict_keys ?d) = set (map in_id (interface_nodes g))" unfolding fold_dict_set_keys by simp
  have v: "dict_get ?d (in_id nd) = Some (?feats nd)" if "nd \<in> set (interface_nodes g)" for nd
  proof -
    have "find (\<lambda>x. in_id x = in_id nd) (rev (interface_nodes g)) \<noteq> None"
      using that by (auto simp: find_None_iff)
    then show ?thesis unfolding fold_dict_set_get by (auto dest: find_Some_in split: option.splits)
  qed
  have ok: "(\<exists>ex. attach_features sha fr g fbi = Inr ex \<and> interface_features ex = ?d) \<longleftrightarrow>
      (\<forall>nd \<in> set (interface_nodes g). set (dict_keys (?feats nd)) \<inter> (set FORBIDDEN_FEATURE_COLUMNS \<union> set IDENTITY_FEATURES) = {})"
    and only: "attach_features sha fr g fbi = Inr ex \<Longrightarrow> interface_features ex = ?d" for ex
    unfolding attach_features_def bindr_Inr_iff fold_attach by auto
  have e: "set (dict_keys (?feats nd)) \<inter> X = {} \<longleftrightarrow> (\<forall>f. dict_get fbi (in_id nd) = Some f \<longrightarrow> set (dict_keys f) \<inter> X = {})" for nd X
    by (cases "dict_get fbi (in_id nd)") (simp_all del: set_map)
  show ?thesis unfolding e [symmetric] ok [symmetric]
  proof
    assume "\<exists>ex. attach_features sha fr g fbi = Inr ex \<and> interface_features ex = ?d"
    then obtain ex where ex: "attach_features sha fr g fbi = Inr ex" "interface_features ex = ?d" by blast
    show "\<exists>ex. attach_features sha fr g fbi = Inr ex \<and>
      set (dict_keys (interface_features ex)) = set (map in_id (interface_nodes g)) \<and>
      (\<forall>nd \<in> set (interface_nodes g). dict_get (interface_features ex) (in_id nd) = Some (?feats nd))"
      by (rule exI [of _ ex], unfold ex(2), intro conjI ballI) (rule ex(1), rule k, erule v)
  next
    assume "\<exists>ex. attach_features sha fr g fbi = Inr ex \<and>
      set (dict_keys (interface_features ex)) = set (map in_id (interface_nodes g)) \<and>
      (\<forall>nd \<in> set (interface_nodes g). dict_get (interface_features ex) (in_id nd) = Some (?feats nd))"
    then obtain ex where "attach_features sha fr g fbi = Inr ex" by blast
    then show "\<exists>ex. attach_features sha fr g fbi = Inr ex \<and> interface_features ex = ?d" using only by blast
  qed
qed

definition demo_graph :: typed_graph where
  "demo_graph = \<lparr>device_nodes = [\<lparr>dn_id = ''leaf1'', dn_role = Leaf\<rparr>],
     interface_nodes = [\<lparr>in_id = ''leaf1:e1'', in_device = ''leaf1'', in_kind = ''uplink''\<rparr>], edges = [], candidate_links = [], g_hash = []\<rparr>"

theorem attach_features_spec_witness:
  "(\<exists>ex. attach_features id (\<lambda>_. []) demo_graph [(''leaf1:e1'', [(''util_ratio'', JFloat 1)])] = Inr ex) \<and>
   \<not> (\<exists>ex. attach_features id (\<lambda>_. []) demo_graph [(''leaf1:e1'', [(''label'', JInt 1)])] = Inr ex \<and>
      set (dict_keys (interface_features ex)) = set (map in_id (interface_nodes demo_graph)) \<and>
      (\<forall>nd \<in> set (interface_nodes demo_graph). dict_get (interface_features ex) (in_id nd) =
         Some (case dict_get [(''leaf1:e1'', [(''label'', JInt 1)])] (in_id nd) of None \<Rightarrow> [] | Some f \<Rightarrow> f)))"
  unfolding attach_features_spec
  using attach_features_spec [of id "\<lambda>_. []" demo_graph "[(''leaf1:e1'', [(''util_ratio'', JFloat 1)])]"]
  by (simp add: demo_graph_def FORBIDDEN_FEATURE_COLUMNS_def IDENTITY_FEATURES_def) blast

end
