(* ===== verification/Datasets.thy ===== *)
theory Datasets
  imports IpAddr
begin

text \<open>
  Splits and dataset manifests: \<open>datasets/splits.py\<close> and \<open>datasets/manifest.py\<close>. \<open>sha\<close> is SHA-256 of a text,
  \<open>fr\<close> the JSON form of a float. A dash outside Latin-1 in an error message is written as a hyphen.
\<close>

section \<open>Splits\<close>

definition PROTOCOL :: string where "PROTOCOL = ''location-inductive''"
definition SPLIT_VERSION :: int where "SPLIT_VERSION = 1"

definition LOCATION_INDUCTIVE_POLICY :: "(string, string) dict" where
  "LOCATION_INDUCTIVE_POLICY = [(''leaf1'', ''train''), (''leaf2'', ''validation''), (''leaf3'', ''test''), (''leaf4'', ''test'')]"

record incident_ref =
  ir_id :: string
  ir_link :: string
  ir_leaf :: string
  ir_family :: int
  ir_batch :: string
  ir_onset :: pyfloat

record purge_params =
  lookback_s :: pyfloat
  persistence_s :: pyfloat
  purge_cooldown_s :: pyfloat

definition gap_s :: "purge_params \<Rightarrow> pyfloat" where
  "gap_s p = lookback_s p + persistence_s p + purge_cooldown_s p"

definition DEFAULT_PURGE :: purge_params where
  "DEFAULT_PURGE = \<lparr>lookback_s = 30, persistence_s = 30, purge_cooldown_s = 30\<rparr>"

record split_manifest =
  sm_protocol :: string
  sm_version :: int
  assignments :: "(string, string) dict"
  link_groups :: "(string, string list) dict"
  sm_counts :: "(string, nat) dict"
  purge_gap_s :: pyfloat
  sm_hash :: string

definition hash_manifest ::
    "(string \<Rightarrow> string) \<Rightarrow> (pyfloat \<Rightarrow> string) \<Rightarrow> string \<Rightarrow> int \<Rightarrow> (string, string list) dict \<Rightarrow> pyfloat \<Rightarrow> string" where
  "hash_manifest sha fr protocol version groups gap = sha (dumps_sorted fr (JObj
     [(''protocol'', JStr protocol), (''version'', JInt version),
      (''link_groups'', JObj (map (\<lambda>(k, v). (k, JArr (map JStr (sort v)))) groups)), (''purge_gap_s'', JFloat gap)]))"

text \<open>The first loop: the split of each incident, and of each link.\<close>

definition assign_incident ::
    "(string, string) dict \<Rightarrow> incident_ref \<Rightarrow> (string, string) dict \<times> (string, string) dict \<Rightarrow>
     ((string, string) dict \<times> (string, string) dict) res" where
  "assign_incident policy inc st =
     (case st of (asg, link_split) \<Rightarrow>
        case dict_get policy (ir_leaf inc) of
          None \<Rightarrow> Inl (ValueError (''no split policy for leaf '' @ py_repr (ir_leaf inc)))
        | Some split \<Rightarrow>
            let leak = (case dict_get link_split (ir_link inc) of None \<Rightarrow> None | Some prev \<Rightarrow> if prev \<noteq> split then Some prev else None) in
            (case leak of
               Some prev \<Rightarrow> Inl (ValueError (''E06 leakage: link '' @ py_repr (ir_link inc) @ '' in two splits ('' @ prev @ '', '' @ split @ '')''))
             | None \<Rightarrow> Inr (dict_set (ir_id inc) split asg, dict_set (ir_link inc) split link_split)))"

definition family :: "incident_ref \<Rightarrow> int \<times> string" where "family inc = (ir_family inc, ir_batch inc)"

text \<open>The second loop: one split per repeat family.\<close>

definition check_family ::
    "(string, string) dict \<Rightarrow> incident_ref \<Rightarrow> (int \<times> string, string) dict \<Rightarrow> (int \<times> string, string) dict res" where
  "check_family asg inc fam =
     bindr (dict_index asg (ir_id inc)) (\<lambda>s.
       case dict_get fam (family inc) of
         None \<Rightarrow> Inr (dict_set (family inc) s fam)
       | Some prev \<Rightarrow>
           if prev \<noteq> s
           then Inl (ValueError (''repeat family ('' @ show_int (ir_family inc) @ '', '' @ py_repr (ir_batch inc) @ '') straddles splits ('' @
             prev @ '', '' @ s @ '') - must be one split''))
           else Inr (dict_set (family inc) s fam))"

text \<open>\<open>groups[split].add(link)\<close> on a \<open>defaultdict(set)\<close>; a set is a list without repetition.\<close>

definition add_group :: "(string, string) dict \<Rightarrow> incident_ref \<Rightarrow> (string, string list) dict \<Rightarrow> (string, string list) dict res" where
  "add_group asg inc groups =
     bindr (dict_index asg (ir_id inc)) (\<lambda>s.
       Inr (dict_set s (List.insert (ir_link inc) (case dict_get groups s of None \<Rightarrow> [] | Some g \<Rightarrow> g)) groups))"

definition counter :: "string list \<Rightarrow> (string, nat) dict" where
  "counter xs = fold (\<lambda>x d. dict_set x (case dict_get d x of None \<Rightarrow> 1 | Some n \<Rightarrow> n + 1) d) xs []"

definition assemble_location_inductive ::
    "(string \<Rightarrow> string) \<Rightarrow> (pyfloat \<Rightarrow> string) \<Rightarrow> incident_ref list \<Rightarrow> (string, string) dict \<Rightarrow> purge_params \<Rightarrow> int \<Rightarrow> split_manifest res" where
  "assemble_location_inductive sha fr incidents policy purge version =
     bindr (fold_res (assign_incident policy) incidents ([], [])) (\<lambda>(asg, _).
     bindr (fold_res (check_family asg) incidents []) (\<lambda>_.
     bindr (fold_res (add_group asg) incidents []) (\<lambda>groups.
       let lg = map (\<lambda>(k, v). (k, sort v)) groups in
       Inr \<lparr>sm_protocol = PROTOCOL, sm_version = version, assignments = asg, link_groups = lg,
            sm_counts = counter (map snd asg), purge_gap_s = gap_s purge,
            sm_hash = hash_manifest sha fr PROTOCOL version lg (gap_s purge)\<rparr>)))"

section \<open>Dataset manifests\<close>

record dataset_manifest =
  dataset_kind :: string
  source_run_ids :: "string list"
  split_protocol :: string
  split_manifest_hash :: string
  dm_topology_hash :: string
  config_hash :: string
  dm_feature_schema_hash :: string
  dm_graph_schema_hash :: string
  code_revision :: string
  dependency_lock_hash :: string
  image_digests :: "(string, string) dict"
  master_seed :: int
  seeds :: "(string, int) dict"
  exclusions :: "string list"
  creation_command :: string
  content_hashes :: "(string, string) dict"
  manifest_hash :: string

definition REQUIRED_NONEMPTY :: "string list" where
  "REQUIRED_NONEMPTY = [''dataset_kind'', ''split_protocol'', ''split_manifest_hash'', ''topology_hash'', ''config_hash'',
     ''feature_schema_hash'', ''code_revision'', ''dependency_lock_hash'', ''creation_command'']"

definition jstr_dict :: "(string, string) dict \<Rightarrow> json" where
  "jstr_dict d = JObj (map (\<lambda>(k, v). (k, JStr v)) d)"

definition manifest_body :: "dataset_manifest \<Rightarrow> (string, json) dict" where
  "manifest_body m =
     [(''dataset_kind'', JStr (dataset_kind m)), (''source_run_ids'', JArr (map JStr (source_run_ids m))),
      (''split_protocol'', JStr (split_protocol m)), (''split_manifest_hash'', JStr (split_manifest_hash m)),
      (''topology_hash'', JStr (dm_topology_hash m)), (''config_hash'', JStr (config_hash m)),
      (''feature_schema_hash'', JStr (dm_feature_schema_hash m)), (''graph_schema_hash'', JStr (dm_graph_schema_hash m)),
      (''code_revision'', JStr (code_revision m)), (''dependency_lock_hash'', JStr (dependency_lock_hash m)),
      (''image_digests'', jstr_dict (image_digests m)), (''master_seed'', JInt (master_seed m)),
      (''seeds'', JObj (map (\<lambda>(k, v). (k, JInt v)) (seeds m))), (''exclusions'', JArr (map JStr (exclusions m))),
      (''creation_command'', JStr (creation_command m)), (''content_hashes'', jstr_dict (content_hashes m))]"

definition falsy :: "json option \<Rightarrow> bool" where
  "falsy v = (case v of None \<Rightarrow> True | Some (JStr s) \<Rightarrow> s = [] | Some (JArr xs) \<Rightarrow> xs = [] | Some (JObj ps) \<Rightarrow> ps = []
     | Some (JInt i) \<Rightarrow> i = 0 | Some (JFloat x) \<Rightarrow> x = 0 | Some (JBool b) \<Rightarrow> \<not> b | Some JNull \<Rightarrow> True)"

definition repr_list :: "string list \<Rightarrow> string" where
  "repr_list xs = ''['' @ join '', '' (map py_repr xs) @ '']''"

text \<open>\<open>build_manifest\<close> on the fields of \<open>m\<close>, whose own hash is still empty.\<close>

definition build_manifest :: "(string \<Rightarrow> string) \<Rightarrow> (pyfloat \<Rightarrow> string) \<Rightarrow> dataset_manifest \<Rightarrow> dataset_manifest res" where
  "build_manifest sha fr m =
     (let body = manifest_body m; missing = filter (\<lambda>k. falsy (dict_get body k)) REQUIRED_NONEMPTY in
      if missing \<noteq> [] then Inl (ValueError (CHR 0xA7 # ''9.4 manifest missing required fields: '' @ repr_list missing))
      else if source_run_ids m = [] then Inl (ValueError (CHR 0xA7 # ''9.4 manifest requires at least one source run id''))
      else Inr (m\<lparr>manifest_hash := sha (dumps_sorted fr (JObj body))\<rparr>))"

section \<open>Loops that keep a key to one value\<close>

lemma fold_res_check:
  assumes step: "\<And>i d. i \<in> set xs \<Longrightarrow> (\<exists>d'. f i d = Inr d') \<longleftrightarrow> ok i \<and> (\<forall>q. dict_get (g d) (k i) = Some q \<longrightarrow> q = v i)"
    and upd: "\<And>i d d'. i \<in> set xs \<Longrightarrow> f i d = Inr d' \<Longrightarrow> g d' = dict_set (k i) (v i) (g d)"
  shows "(\<exists>d'. fold_res f xs d = Inr d') \<longleftrightarrow>
    (\<forall>i \<in> set xs. ok i \<and> (\<forall>q. dict_get (g d) (k i) = Some q \<longrightarrow> q = v i)) \<and>
    (\<forall>i \<in> set xs. \<forall>j \<in> set xs. k i = k j \<longrightarrow> v i = v j)"
  using assms
proof (induction xs arbitrary: d)
  case (Cons x xs)
  show ?case
  proof (cases "\<exists>d1. f x d = Inr d1")
    case True
    then obtain d1 where d1: "f x d = Inr d1" ..
    have g: "g d1 = dict_set (k x) (v x) (g d)" using Cons.prems(2) [OF _ d1] by simp
    have x: "ok x \<and> (\<forall>q. dict_get (g d) (k x) = Some q \<longrightarrow> q = v x)"
      using Cons.prems(1) [of x d] True by simp
    have e: "(\<forall>q. (if k i = k x then Some (v x) else dict_get (g d) (k i)) = Some q \<longrightarrow> q = v i) \<longleftrightarrow>
        (k i = k x \<longrightarrow> v i = v x) \<and> (\<forall>q. dict_get (g d) (k i) = Some q \<longrightarrow> q = v i)" for i
      using x by auto
    have c: "(\<forall>i \<in> set (x # xs). \<forall>j \<in> set (x # xs). k i = k j \<longrightarrow> v i = v j) \<longleftrightarrow>
        (\<forall>i \<in> set xs. k i = k x \<longrightarrow> v i = v x) \<and> (\<forall>i \<in> set xs. \<forall>j \<in> set xs. k i = k j \<longrightarrow> v i = v j)"
    proof (intro iffI conjI ballI impI)
      fix i j
      assume r: "(\<forall>i \<in> set xs. k i = k x \<longrightarrow> v i = v x) \<and> (\<forall>i \<in> set xs. \<forall>j \<in> set xs. k i = k j \<longrightarrow> v i = v j)"
        and ij: "i \<in> set (x # xs)" "j \<in> set (x # xs)" "k i = k j"
      from ij(1,2) consider "i = x" "j = x" | "i = x" "j \<in> set xs" | "i \<in> set xs" "j = x" | "i \<in> set xs" "j \<in> set xs" by auto
      then show "v i = v j" by cases (use r ij(3) in \<open>simp, metis, metis, blast\<close>)
    next
      assume l: "\<forall>i \<in> set (x # xs). \<forall>j \<in> set (x # xs). k i = k j \<longrightarrow> v i = v j"
      show "v i = v x" if "i \<in> set xs" "k i = k x" for i
        by (rule l [rule_format]) (use that in simp_all)
      show "v i = v j" if "i \<in> set xs" "j \<in> set xs" "k i = k j" for i j
        by (rule l [rule_format]) (use that in simp_all)
    qed
    have "(\<exists>d'. fold_res f (x # xs) d = Inr d') \<longleftrightarrow> (\<exists>d'. fold_res f xs d1 = Inr d')" using d1 by simp
    also have "\<dots> \<longleftrightarrow> (\<forall>i \<in> set xs. ok i \<and> (\<forall>q. dict_get (g d1) (k i) = Some q \<longrightarrow> q = v i)) \<and>
        (\<forall>i \<in> set xs. \<forall>j \<in> set xs. k i = k j \<longrightarrow> v i = v j)"
      by (rule Cons.IH) (use Cons.prems in auto)
    also have "\<dots> \<longleftrightarrow> (\<forall>i \<in> set (x # xs). ok i \<and> (\<forall>q. dict_get (g d) (k i) = Some q \<longrightarrow> q = v i)) \<and>
        (\<forall>i \<in> set (x # xs). \<forall>j \<in> set (x # xs). k i = k j \<longrightarrow> v i = v j)"
      unfolding g dict_get_set e c using x by auto
    finally show ?thesis .
  next
    case False
    then obtain e where "f x d = Inl e" by (cases "f x d") auto
    moreover have "\<not> (ok x \<and> (\<forall>q. dict_get (g d) (k x) = Some q \<longrightarrow> q = v x))"
      using Cons.prems(1) [of x d] False by simp
    ultimately show ?thesis by auto
  qed
qed simp

section \<open>The split loops\<close>

definition split_of :: "(string, string) dict \<Rightarrow> incident_ref \<Rightarrow> string option" where
  "split_of policy i = dict_get policy (ir_leaf i)"

lemma assign_step:
  "(\<exists>d'. assign_incident policy i d = Inr d') \<longleftrightarrow>
     split_of policy i \<noteq> None \<and> (\<forall>q. dict_get (snd d) (ir_link i) = Some q \<longrightarrow> q = the (split_of policy i))"
  "assign_incident policy i d = Inr d' \<Longrightarrow>
     d' = (dict_set (ir_id i) (the (split_of policy i)) (fst d), dict_set (ir_link i) (the (split_of policy i)) (snd d))"
  by (cases d, auto simp: assign_incident_def split_of_def Let_def split: option.splits if_splits)+

lemma fold_assign:
  "fold_res (assign_incident policy) xs d = Inr d' \<Longrightarrow>
     fst d' = fold (\<lambda>i. dict_set (ir_id i) (the (split_of policy i))) xs (fst d)"
  by (induction xs arbitrary: d) (auto simp: bindr_Inr_iff dest!: assign_step(2))

lemma the_pairs:
  assumes "\<forall>i \<in> S. f i \<noteq> None"
  shows "(\<forall>i \<in> S. \<forall>j \<in> S. r i j \<longrightarrow> the (f i) = the (f j)) \<longleftrightarrow> (\<forall>i \<in> S. \<forall>j \<in> S. r i j \<longrightarrow> f i = f j)"
proof -
  have "the (f i) = the (f j) \<longleftrightarrow> f i = f j" if "i \<in> S" "j \<in> S" for i j
    using assms that by (cases "f i"; cases "f j") auto
  then show ?thesis by (simp cong: ball_cong)
qed

lemma assign_total:
  "(\<exists>d'. fold_res (assign_incident policy) xs ([], []) = Inr d') \<longleftrightarrow>
     (\<forall>i \<in> set xs. split_of policy i \<noteq> None) \<and>
     (\<forall>i \<in> set xs. \<forall>j \<in> set xs. ir_link i = ir_link j \<longrightarrow> split_of policy i = split_of policy j)"
proof -
  have "(\<exists>d'. fold_res (assign_incident policy) xs ([], []) = Inr d') \<longleftrightarrow>
     (\<forall>i \<in> set xs. split_of policy i \<noteq> None \<and>
        (\<forall>q. dict_get (snd ([] :: (string, string) dict, [] :: (string, string) dict)) (ir_link i) = Some q \<longrightarrow> q = the (split_of policy i))) \<and>
     (\<forall>i \<in> set xs. \<forall>j \<in> set xs. ir_link i = ir_link j \<longrightarrow> the (split_of policy i) = the (split_of policy j))"
    by (rule fold_res_check [where g = snd and ok = "\<lambda>i. split_of policy i \<noteq> None"])
      (rule assign_step(1), drule assign_step(2), simp)
  then show ?thesis using the_pairs [of "set xs" "split_of policy" "\<lambda>i j. ir_link i = ir_link j"] by auto
qed

text \<open>With distinct ids the assignment reads back, incident by incident.\<close>

lemma assigned:
  assumes "distinct (map ir_id xs)" and "i \<in> set xs"
  shows "dict_get (fold (\<lambda>i. dict_set (ir_id i) (s i)) xs []) (ir_id i) = Some (s i)"
proof -
  have "fold (\<lambda>i. dict_set (ir_id i) (s i)) xs [] = map (\<lambda>i. (ir_id i, s i)) xs"
    using fold_dict_set_fresh [of ir_id xs "[]" s] assms(1) by simp
  moreover have "distinct (map fst (map (\<lambda>i. (ir_id i, s i)) xs))" using assms(1) by (simp add: comp_def)
  ultimately show ?thesis using assms(2) by (simp add: map_of_eq_Some_iff)
qed

lemma family_total:
  assumes "\<forall>i \<in> set xs. dict_get asg (ir_id i) = Some (s i)"
  shows "(\<exists>d'. fold_res (check_family asg) xs [] = Inr d') \<longleftrightarrow>
    (\<forall>i \<in> set xs. \<forall>j \<in> set xs. family i = family j \<longrightarrow> s i = s j)"
proof -
  have "(\<exists>d'. fold_res (check_family asg) xs [] = Inr d') \<longleftrightarrow>
     (\<forall>i \<in> set xs. True \<and> (\<forall>q. dict_get (id []) (family i) = Some q \<longrightarrow> q = s i)) \<and>
     (\<forall>i \<in> set xs. \<forall>j \<in> set xs. family i = family j \<longrightarrow> s i = s j)"
    by (rule fold_res_check [where g = id])
      (use assms in \<open>auto simp: check_family_def dict_index_def split: option.splits if_splits\<close>)
  then show ?thesis by simp
qed

definition links_in :: "(string, string list) dict \<Rightarrow> string \<Rightarrow> string set" where
  "links_in d q = (case dict_get d q of None \<Rightarrow> {} | Some g \<Rightarrow> set g)"

lemma fold_groups:
  assumes "\<forall>i \<in> set xs. dict_get asg (ir_id i) = Some (s i)"
  shows "\<exists>d'. fold_res (add_group asg) xs d = Inr d' \<and>
    (\<forall>q. links_in d' q = links_in d q \<union> ir_link ` {i \<in> set xs. s i = q})"
  using assms
proof (induction xs arbitrary: d)
  case (Cons x xs)
  let ?d = "dict_set (s x) (List.insert (ir_link x) (case dict_get d (s x) of None \<Rightarrow> [] | Some g \<Rightarrow> g)) d"
  have step: "add_group asg x d = Inr ?d" using Cons.prems by (simp add: add_group_def dict_index_def)
  have l: "links_in ?d q = links_in d q \<union> (if s x = q then {ir_link x} else {})" for q
    by (auto simp: links_in_def split: option.splits)
  obtain d' where d': "fold_res (add_group asg) xs ?d = Inr d'"
    "\<forall>q. links_in d' q = links_in ?d q \<union> ir_link ` {i \<in> set xs. s i = q}"
    using Cons.IH [of ?d] Cons.prems by auto
  have "links_in d' q = links_in d q \<union> ir_link ` {i \<in> set (x # xs). s i = q}" for q
    using d'(2) [rule_format, of q] unfolding l by auto
  then show ?case using step d'(1) by simp
qed simp

section \<open>Properties\<close>

text \<open>The split guard is exact: over incidents with distinct ids, a location-inductive split is assembled exactly
  when every leaf has a policy, no physical link falls in two splits and no repeat family straddles
  splits; anything else raises.\<close>

theorem split_guard_exact:
  assumes "distinct (map ir_id incidents)"
  shows "(\<exists>m. assemble_location_inductive sha fr incidents policy purge version = Inr m) \<longleftrightarrow>
    (\<forall>i \<in> set incidents. split_of policy i \<noteq> None) \<and>
    (\<forall>i \<in> set incidents. \<forall>j \<in> set incidents. ir_link i = ir_link j \<longrightarrow> split_of policy i = split_of policy j) \<and>
    (\<forall>i \<in> set incidents. \<forall>j \<in> set incidents. family i = family j \<longrightarrow> split_of policy i = split_of policy j)"
proof -
  let ?s = "\<lambda>i. the (split_of policy i)"
  let ?A = "\<lambda>d. fold_res (assign_incident policy) incidents ([], []) = Inr d"
  have asg: "\<forall>i \<in> set incidents. dict_get (fst d) (ir_id i) = Some (?s i)" if "?A d" for d
    using fold_assign [OF that] assigned [OF assms, of _ ?s] by simp
  have one: "(\<exists>m. assemble_location_inductive sha fr incidents policy purge version = Inr m) \<longleftrightarrow>
      (\<exists>d. ?A d \<and> (\<exists>d'. fold_res (check_family (fst d)) incidents [] = Inr d'))"
  proof
    assume "\<exists>d. ?A d \<and> (\<exists>d'. fold_res (check_family (fst d)) incidents [] = Inr d')"
    then obtain d d' where d: "?A d" "fold_res (check_family (fst d)) incidents [] = Inr d'" by blast
    obtain gs where "fold_res (add_group (fst d)) incidents [] = Inr gs"
      using fold_groups [OF asg [OF d(1)]] by blast
    with d show "\<exists>m. assemble_location_inductive sha fr incidents policy purge version = Inr m"
      by (simp add: assemble_location_inductive_def case_prod_beta Let_def)
  qed (auto simp: assemble_location_inductive_def bindr_Inr_iff case_prod_beta)
  also have "\<dots> \<longleftrightarrow> (\<exists>d. ?A d) \<and> (\<forall>i \<in> set incidents. \<forall>j \<in> set incidents. family i = family j \<longrightarrow> ?s i = ?s j)"
    using family_total [OF asg] by blast
  finally show ?thesis unfolding assign_total using the_pairs [of "set incidents" "split_of policy" "\<lambda>i j. family i = family j"] by blast
qed

definition demo_incident :: "string \<Rightarrow> string \<Rightarrow> string \<Rightarrow> int \<Rightarrow> incident_ref" where
  "demo_incident i l lf f = \<lparr>ir_id = i, ir_link = l, ir_leaf = lf, ir_family = f, ir_batch = ''b'', ir_onset = 0\<rparr>"

theorem split_guard_exact_witness:
  "\<not> (\<exists>m. assemble_location_inductive id (\<lambda>_. []) [demo_incident ''i1'' ''l'' ''leaf1'' 1, demo_incident ''i2'' ''l'' ''leaf3'' 2]
      LOCATION_INDUCTIVE_POLICY DEFAULT_PURGE 1 = Inr m)"
proof -
  have "distinct (map ir_id [demo_incident ''i1'' ''l'' ''leaf1'' 1, demo_incident ''i2'' ''l'' ''leaf3'' 2])"
    by (simp add: demo_incident_def)
  from split_guard_exact [OF this, of id "\<lambda>_. []" LOCATION_INDUCTIVE_POLICY DEFAULT_PURGE 1]
  show ?thesis by (simp add: demo_incident_def split_of_def LOCATION_INDUCTIVE_POLICY_def)
qed

text \<open>C29: An assembled split leaks nothing: over incidents with distinct ids every incident has the split of its leaf,
  each group of the manifest holds exactly the links of its incidents, sorted, and the groups of two
  splits share no physical link.\<close>

theorem split_no_leakage:
  assumes "distinct (map ir_id incidents)"
    and "assemble_location_inductive sha fr incidents policy purge version = Inr m"
  shows "(\<forall>i \<in> set incidents. dict_get (assignments m) (ir_id i) = split_of policy i) \<and>
    (\<forall>s ls. dict_get (link_groups m) s = Some ls \<longrightarrow> sorted ls \<and> set ls = ir_link ` {i \<in> set incidents. split_of policy i = Some s}) \<and>
    (\<forall>s t ls lt. dict_get (link_groups m) s = Some ls \<longrightarrow> dict_get (link_groups m) t = Some lt \<longrightarrow> s \<noteq> t \<longrightarrow> set ls \<inter> set lt = {})"
proof -
  let ?s = "\<lambda>i. the (split_of policy i)"
  obtain d gs where d: "fold_res (assign_incident policy) incidents ([], []) = Inr d"
    and gs: "fold_res (add_group (fst d)) incidents [] = Inr gs"
    and m: "assignments m = fst d" "link_groups m = map (\<lambda>(k, v). (k, sort v)) gs"
    using assms(2) by (auto simp: assemble_location_inductive_def bindr_Inr_iff case_prod_beta Let_def)
  have pol: "\<forall>i \<in> set incidents. split_of policy i \<noteq> None"
    and link: "\<forall>i \<in> set incidents. \<forall>j \<in> set incidents. ir_link i = ir_link j \<longrightarrow> split_of policy i = split_of policy j"
    using assign_total [of policy incidents] d by blast+
  have asg: "\<forall>i \<in> set incidents. dict_get (fst d) (ir_id i) = Some (?s i)"
    using fold_assign [OF d] assigned [OF assms(1), of _ ?s] by simp
  have links: "links_in gs q = ir_link ` {i \<in> set incidents. ?s i = q}" for q
    using fold_groups [OF asg, of "[]"] gs by (auto simp: links_in_def)
  have get: "dict_get (link_groups m) q = map_option sort (dict_get gs q)" for q
    unfolding m by (simp add: map_of_map)
  have grp: "sorted ls \<and> set ls = ir_link ` {i \<in> set incidents. split_of policy i = Some q}"
    if q: "dict_get (link_groups m) q = Some ls" for q ls
  proof -
    obtain v where v: "dict_get gs q = Some v" "sort v = ls" using q get [of q] by (cases "dict_get gs q") auto
    have "set v = ir_link ` {i \<in> set incidents. ?s i = q}" using links [of q] v(1) by (simp add: links_in_def)
    moreover have "{i \<in> set incidents. ?s i = q} = {i \<in> set incidents. split_of policy i = Some q}" using pol by force
    ultimately show ?thesis unfolding v(2) [symmetric] by simp
  qed
  have disj: "set ls \<inter> set lt = {}"
    if "dict_get (link_groups m) q = Some ls" "dict_get (link_groups m) t = Some lt" "q \<noteq> t" for q t ls lt
    using grp [OF that(1)] grp [OF that(2)] that(3) link by fastforce
  show ?thesis using asg pol grp disj unfolding m(1) by auto
qed

text \<open>A repeated incident id hides a leak: the link \<open>l\<close> ends up in the groups of both train and test.\<close>

definition repeated_ids :: "incident_ref list" where
  "repeated_ids = [demo_incident ''i'' ''l'' ''leaf1'' 1, demo_incident ''i'' ''k'' ''leaf3'' 1, demo_incident ''j'' ''l'' ''leaf1'' 2]"

lemma repeated_id_leaks:
  "case assemble_location_inductive id (\<lambda>_. []) repeated_ids LOCATION_INDUCTIVE_POLICY DEFAULT_PURGE 1 of
     Inr m \<Rightarrow> link_groups m = [(''test'', [''k'', ''l'']), (''train'', [''l''])] | Inl _ \<Rightarrow> False"
  by code_simp

definition demo_incidents :: "incident_ref list" where
  "demo_incidents = [demo_incident ''i1'' ''l1'' ''leaf1'' 1, demo_incident ''i2'' ''l1'' ''leaf1'' 1, demo_incident ''i3'' ''l3'' ''leaf3'' 2]"

definition demo_split :: split_manifest where
  "demo_split = (case assemble_location_inductive id (\<lambda>_. []) demo_incidents LOCATION_INDUCTIVE_POLICY DEFAULT_PURGE 1 of Inr m \<Rightarrow> m)"

lemma demo_split: "assemble_location_inductive id (\<lambda>_. []) demo_incidents LOCATION_INDUCTIVE_POLICY DEFAULT_PURGE 1 = Inr demo_split"
proof -
  have "case assemble_location_inductive id (\<lambda>_. []) demo_incidents LOCATION_INDUCTIVE_POLICY DEFAULT_PURGE 1 of Inr _ \<Rightarrow> True | Inl _ \<Rightarrow> False"
    by code_simp
  then show ?thesis by (auto simp: demo_split_def split: sum.splits)
qed

theorem split_no_leakage_witness:
  "dict_get (assignments demo_split) ''i3'' = Some ''test''"
proof -
  have "distinct (map ir_id demo_incidents)" by (simp add: demo_incidents_def demo_incident_def)
  from split_no_leakage [OF this demo_split, THEN conjunct1] show ?thesis
    by (simp add: demo_incidents_def demo_incident_def split_of_def LOCATION_INDUCTIVE_POLICY_def)
qed

section \<open>The manifest hash\<close>

definition dicts_distinct :: "dataset_manifest \<Rightarrow> bool" where
  "dicts_distinct m \<longleftrightarrow> distinct (dict_keys (image_digests m)) \<and> distinct (dict_keys (seeds m)) \<and> distinct (dict_keys (content_hashes m))"

text \<open>Equal up to the insertion order of the three dictionaries and the hash itself.\<close>

definition same_dataset :: "dataset_manifest \<Rightarrow> dataset_manifest \<Rightarrow> bool" where
  "same_dataset m n \<longleftrightarrow>
     m\<lparr>image_digests := [], seeds := [], content_hashes := [], manifest_hash := []\<rparr> =
     n\<lparr>image_digests := [], seeds := [], content_hashes := [], manifest_hash := []\<rparr> \<and>
     dict_get (image_digests m) = dict_get (image_digests n) \<and> dict_get (seeds m) = dict_get (seeds n) \<and>
     dict_get (content_hashes m) = dict_get (content_hashes n)"

lemma keys_map_snd: "map fst (map (\<lambda>(k, v). (k, f v)) d) = map fst d"
  by auto

lemma canon_dict_inj:
  assumes "canon (JObj (map (\<lambda>(k, v). (k, f v)) d)) = canon (JObj (map (\<lambda>(k, v). (k, f v)) e))"
    and "distinct (dict_keys d)" "distinct (dict_keys e)" and inj: "\<And>x y. canon (f x) = canon (f y) \<Longrightarrow> x = y"
  shows "dict_get d = dict_get e"
proof
  fix k
  have "map_option canon (dict_get (map (\<lambda>(k, v). (k, f v)) d) k) = map_option canon (dict_get (map (\<lambda>(k, v). (k, f v)) e) k)"
    by (rule canon_JObj_get [OF assms(1)]) (simp_all only: keys_map_snd assms(2,3))
  then show "dict_get d k = dict_get e k"
    using inj by (cases "dict_get d k"; cases "dict_get e k") (auto simp: map_of_map)
qed

lemma canon_strs_inj: "map (canon \<circ> JStr) xs = map (canon \<circ> JStr) ys \<Longrightarrow> xs = ys"
  by (rule map_injective [of "canon \<circ> JStr"]) (auto simp: inj_def)

lemma body_keys: "distinct (map fst (manifest_body m))"
  by (simp add: manifest_body_def)

lemma wf_map_dict: "distinct (dict_keys e) \<Longrightarrow> (\<And>v. wf_json (f v)) \<Longrightarrow> wf_json (JObj (map (\<lambda>(k, v). (k, f v)) e))"
  by (simp only: wf_json.simps keys_map_snd) auto

lemma wf_body: "dicts_distinct m \<Longrightarrow> wf_json (JObj (manifest_body m))"
proof -
  assume d: "dicts_distinct m"
  have "wf_json (jstr_dict (image_digests m))" "wf_json (JObj (map (\<lambda>(k, v). (k, JInt v)) (seeds m)))"
    "wf_json (jstr_dict (content_hashes m))"
    unfolding jstr_dict_def by (rule wf_map_dict; use d in \<open>simp add: dicts_distinct_def\<close>)+
  then show ?thesis
    unfolding wf_json.simps(2) [of "manifest_body m"] by (simp add: manifest_body_def del: wf_json.simps(2)) 
qed

lemma no_float_body: "no_float (JObj (manifest_body m))"
  by (auto simp: manifest_body_def jstr_dict_def)

lemma canon_body_same:
  assumes eq: "canon (JObj (manifest_body m)) = canon (JObj (manifest_body n))"
    and d: "dicts_distinct m" "dicts_distinct n"
  shows "same_dataset m n"
proof -
  note get = canon_JObj_get [OF eq body_keys body_keys]
  have "dataset_kind m = dataset_kind n" "split_protocol m = split_protocol n" "split_manifest_hash m = split_manifest_hash n"
    "dm_topology_hash m = dm_topology_hash n" "config_hash m = config_hash n" "dm_feature_schema_hash m = dm_feature_schema_hash n"
    "dm_graph_schema_hash m = dm_graph_schema_hash n" "code_revision m = code_revision n"
    "dependency_lock_hash m = dependency_lock_hash n" "master_seed m = master_seed n" "creation_command m = creation_command n"
    using get [of "''dataset_kind''"] get [of "''split_protocol''"] get [of "''split_manifest_hash''"] get [of "''topology_hash''"]
      get [of "''config_hash''"] get [of "''feature_schema_hash''"] get [of "''graph_schema_hash''"] get [of "''code_revision''"]
      get [of "''dependency_lock_hash''"] get [of "''master_seed''"] get [of "''creation_command''"]
    by (simp_all add: manifest_body_def)
  moreover have "source_run_ids m = source_run_ids n" "exclusions m = exclusions n"
    using get [of "''source_run_ids''"] get [of "''exclusions''"] by (simp_all add: manifest_body_def canon_strs_inj)
  moreover have "dict_get (image_digests m) = dict_get (image_digests n)" "dict_get (content_hashes m) = dict_get (content_hashes n)"
    "dict_get (seeds m) = dict_get (seeds n)"
    using get [of "''image_digests''"] get [of "''content_hashes''"] get [of "''seeds''"] d
    by (auto simp: manifest_body_def jstr_dict_def dicts_distinct_def simp del: canon.simps(2) intro!: canon_dict_inj)
  ultimately show ?thesis by (simp add: same_dataset_def)
qed

text \<open>The manifest hash pins every input: two manifests that were built and carry the same hash have the same
  fields, up to the insertion order of their dictionaries, unless SHA-256 collides on their two
  canonical texts. So a drift in any input is a new hash.\<close>

theorem manifest_hash_covers:
  assumes "build_manifest sha fr m = Inr m'" and "build_manifest sha fr n = Inr n'" and "manifest_hash m' = manifest_hash n'"
    and "dicts_distinct m" and "dicts_distinct n"
    and "sha (dumps_sorted fr (JObj (manifest_body m))) = sha (dumps_sorted fr (JObj (manifest_body n))) \<Longrightarrow>
      dumps_sorted fr (JObj (manifest_body m)) = dumps_sorted fr (JObj (manifest_body n))"
  shows "same_dataset m' n'"
proof -
  have h: "m' = m\<lparr>manifest_hash := sha (dumps_sorted fr (JObj (manifest_body m)))\<rparr>"
    "n' = n\<lparr>manifest_hash := sha (dumps_sorted fr (JObj (manifest_body n)))\<rparr>"
    using assms(1,2) by (auto simp: build_manifest_def Let_def split: if_splits)
  have "sha (dumps_sorted fr (JObj (manifest_body m))) = sha (dumps_sorted fr (JObj (manifest_body n)))"
    using assms(3) unfolding h by simp
  then have "dumps_sorted fr (JObj (manifest_body m)) = dumps_sorted fr (JObj (manifest_body n))"
    by (rule assms(6))
  then have "canon (JObj (manifest_body m)) = canon (JObj (manifest_body n))"
    by (rule dumps_sorted_inj_no_float [OF no_float_body no_float_body wf_body wf_body, OF assms(4,5)])
  then have "same_dataset m n" using assms(4,5) by (rule canon_body_same)
  then show ?thesis unfolding h same_dataset_def by simp
qed

definition demo_dataset :: "(string, int) dict \<Rightarrow> dataset_manifest" where
  "demo_dataset sds = \<lparr>dataset_kind = ''k'', source_run_ids = [''r''], split_protocol = ''p'', split_manifest_hash = ''s'', dm_topology_hash = ''t'',
     config_hash = ''c'', dm_feature_schema_hash = ''f'', dm_graph_schema_hash = ''g'', code_revision = ''1'', dependency_lock_hash = ''d'',
     image_digests = [], master_seed = 7, seeds = sds, exclusions = [], creation_command = ''make'', content_hashes = [], manifest_hash = []\<rparr>"

theorem manifest_hash_covers_witness:
  "same_dataset (demo_dataset [(''b'', 2), (''a'', 1)]) (demo_dataset [(''a'', 1), (''b'', 2)])"
proof -
  let ?m = "demo_dataset [(''b'', 2), (''a'', 1)]" and ?n = "demo_dataset [(''a'', 1), (''b'', 2)]"
  let ?h = "dumps_sorted frac_repr (JObj (manifest_body ?m))"
  have e: "dumps_sorted frac_repr (JObj (manifest_body ?n)) = ?h"
    by (simp add: dumps_sorted_def manifest_body_def demo_dataset_def)
  have b: "build_manifest id frac_repr ?m = Inr (?m\<lparr>manifest_hash := ?h\<rparr>)" "build_manifest id frac_repr ?n = Inr (?n\<lparr>manifest_hash := ?h\<rparr>)"
    using e by (simp_all add: build_manifest_def Let_def REQUIRED_NONEMPTY_def falsy_def manifest_body_def demo_dataset_def)
  have "same_dataset (?m\<lparr>manifest_hash := ?h\<rparr>) (?n\<lparr>manifest_hash := ?h\<rparr>)"
    by (rule manifest_hash_covers [OF b]) (simp_all add: dicts_distinct_def demo_dataset_def)
  then show ?thesis by (simp add: same_dataset_def demo_dataset_def)
qed

end
