(* ===== verification/Chaos.thy ===== *)
theory Chaos
  imports IpAddr
begin

text \<open>
  Fault injection: the write-ahead ledger of \<open>chaos/ledger.py\<close> and the fault plugins of
  \<open>chaos/faults.py\<close>. The ledger file is its text; \<open>fr\<close> and \<open>fp\<close> print and read a JSON float. A line whose
  members have other JSON types than \<open>append\<close> writes is outside the model and is rejected. The
  commands a plugin sends to the lab are values; what the lab does with them is a parameter.
\<close>

section \<open>Ledger records\<close>

datatype phase = PLANNED | INJECTING | ACTIVE | CLEARING | CLEARED | SETTLED | FAILED | QUARANTINED

definition phase_str :: "phase \<Rightarrow> string" where
  "phase_str p = (case p of PLANNED \<Rightarrow> ''planned'' | INJECTING \<Rightarrow> ''injecting'' | ACTIVE \<Rightarrow> ''active'' | CLEARING \<Rightarrow> ''clearing''
     | CLEARED \<Rightarrow> ''cleared'' | SETTLED \<Rightarrow> ''settled'' | FAILED \<Rightarrow> ''failed'' | QUARANTINED \<Rightarrow> ''quarantined'')"

definition ALL_PHASES :: "phase list" where
  "ALL_PHASES = [PLANNED, INJECTING, ACTIVE, CLEARING, CLEARED, SETTLED, FAILED, QUARANTINED]"

definition phase_of :: "string \<Rightarrow> phase res" where
  "phase_of s = (case find (\<lambda>p. phase_str p = s) ALL_PHASES of
     None \<Rightarrow> Inl (ValueError (py_repr s @ '' is not a valid Phase'')) | Some p \<Rightarrow> Inr p)"

definition UNRECONCILED :: "phase list" where
  "UNRECONCILED = [PLANNED, INJECTING, ACTIVE, CLEARING]"

record ledger_record =
  lr_injection_id :: string
  lr_fault_class :: string
  lr_phase :: phase
  lr_target :: "(string, string) dict"
  lr_cleanup :: "(string, string) dict"
  lr_event_time :: pyfloat
  lr_monotonic :: pyfloat
  lr_simulated :: bool
  lr_detail :: "(string, json) dict"

definition now_record ::
    "pyfloat \<Rightarrow> pyfloat \<Rightarrow> string \<Rightarrow> string \<Rightarrow> phase \<Rightarrow> (string, string) dict \<Rightarrow> (string, string) dict \<Rightarrow>
     (string, json) dict option \<Rightarrow> ledger_record" where
  "now_record wall mt i fc ph target cleanup detail =
     \<lparr>lr_injection_id = i, lr_fault_class = fc, lr_phase = ph, lr_target = target, lr_cleanup = cleanup,
      lr_event_time = wall, lr_monotonic = mt, lr_simulated = True,
      lr_detail = (case detail of None \<Rightarrow> [] | Some d \<Rightarrow> d)\<rparr>"

definition json_of_strs :: "(string, string) dict \<Rightarrow> json" where
  "json_of_strs d = JObj (map (\<lambda>(k, v). (k, JStr v)) d)"

definition asdict :: "ledger_record \<Rightarrow> json" where
  "asdict r = JObj
     [(''injection_id'', JStr (lr_injection_id r)), (''fault_class'', JStr (lr_fault_class r)),
      (''phase'', JStr (phase_str (lr_phase r))), (''target'', json_of_strs (lr_target r)),
      (''cleanup'', json_of_strs (lr_cleanup r)), (''event_time'', JFloat (lr_event_time r)),
      (''monotonic'', JFloat (lr_monotonic r)), (''simulated'', JBool (lr_simulated r)), (''detail'', JObj (lr_detail r))]"

section \<open>The file\<close>

text \<open>The file before the first append does not exist.\<close>

definition ledger_append :: "(pyfloat \<Rightarrow> string) \<Rightarrow> ledger_record \<Rightarrow> string option \<Rightarrow> string option" where
  "ledger_append fr r file = Some ((case file of None \<Rightarrow> [] | Some t \<Rightarrow> t) @ dumps fr (asdict r) @ [newline_c])"

text \<open>\<open>str.splitlines\<close>; a blank line inside a carriage return and line feed pair is skipped by the reader anyway.\<close>

definition is_line_break :: "char \<Rightarrow> bool" where
  "is_line_break c \<longleftrightarrow> (let n = of_char c :: nat in (10 \<le> n \<and> n \<le> 13) \<or> (28 \<le> n \<and> n \<le> 30) \<or> n = 133)"

fun splitlines :: "string \<Rightarrow> string list" where
  "splitlines [] = []"
| "splitlines (c # s) =
     (if is_line_break c then [] # splitlines s
      else case splitlines s of [] \<Rightarrow> [[c]] | l # ls \<Rightarrow> (c # l) # ls)"

definition LEDGER_FIELDS :: "string list" where
  "LEDGER_FIELDS = [''injection_id'', ''fault_class'', ''phase'', ''target'', ''cleanup'', ''event_time'', ''monotonic'', ''simulated'', ''detail'']"

definition mistyped :: "'a res" where "mistyped = Inl (TypeError ''ledger record'')"

definition json_str :: "json \<Rightarrow> string res" where "json_str j = (case j of JStr s \<Rightarrow> Inr s | _ \<Rightarrow> mistyped)"
definition json_float :: "json \<Rightarrow> pyfloat res" where "json_float j = (case j of JFloat x \<Rightarrow> Inr x | _ \<Rightarrow> mistyped)"
definition json_bool :: "json \<Rightarrow> bool res" where "json_bool j = (case j of JBool b \<Rightarrow> Inr b | _ \<Rightarrow> mistyped)"
definition json_dict :: "json \<Rightarrow> (string, json) dict res" where "json_dict j = (case j of JObj ps \<Rightarrow> Inr ps | _ \<Rightarrow> mistyped)"

definition json_strs :: "json \<Rightarrow> (string, string) dict res" where
  "json_strs j = bindr (json_dict j) (map_res (\<lambda>(k, v). bindr (json_str v) (\<lambda>s. Inr (k, s))))"

text \<open>A missing argument without default is a \<open>TypeError\<close> of the constructor, as is an unknown one.\<close>

definition arg :: "(string, json) dict \<Rightarrow> string \<Rightarrow> json res" where
  "arg d k = (case dict_get d k of None \<Rightarrow> Inl (TypeError (''missing argument '' @ k)) | Some v \<Rightarrow> Inr v)"

definition record_of_json :: "json \<Rightarrow> ledger_record res" where
  "record_of_json j =
     bindr (json_dict j) (\<lambda>d.
     bindr (dict_index d ''phase'') (\<lambda>p.
     bindr (json_str p) (\<lambda>ps.
     bindr (phase_of ps) (\<lambda>ph.
       if \<not> set (dict_keys d) \<subseteq> set LEDGER_FIELDS then Inl (TypeError ''unexpected keyword argument'')
       else
         bindr (bindr (arg d ''injection_id'') json_str) (\<lambda>i.
         bindr (bindr (arg d ''fault_class'') json_str) (\<lambda>fc.
         bindr (bindr (arg d ''target'') json_strs) (\<lambda>target.
         bindr (bindr (arg d ''cleanup'') json_strs) (\<lambda>cleanup.
         bindr (bindr (arg d ''event_time'') json_float) (\<lambda>et.
         bindr (bindr (arg d ''monotonic'') json_float) (\<lambda>mt.
         bindr (case dict_get d ''simulated'' of None \<Rightarrow> Inr True | Some v \<Rightarrow> json_bool v) (\<lambda>sim.
         bindr (case dict_get d ''detail'' of None \<Rightarrow> Inr [] | Some v \<Rightarrow> json_dict v) (\<lambda>det.
           Inr \<lparr>lr_injection_id = i, lr_fault_class = fc, lr_phase = ph, lr_target = target, lr_cleanup = cleanup,
                lr_event_time = et, lr_monotonic = mt, lr_simulated = sim, lr_detail = det\<rparr>))))))))))))"

definition ledger_records :: "(string \<Rightarrow> pyfloat) \<Rightarrow> string option \<Rightarrow> ledger_record list res" where
  "ledger_records fp file =
     (case file of None \<Rightarrow> Inr []
      | Some t \<Rightarrow> map_res (\<lambda>line. bindr (loads fp line) record_of_json) (filter (\<lambda>line. strip line \<noteq> []) (splitlines t)))"

definition outstanding :: "(string \<Rightarrow> pyfloat) \<Rightarrow> string option \<Rightarrow> ledger_record list res" where
  "outstanding fp file =
     bindr (ledger_records fp file) (\<lambda>rs.
       Inr (filter (\<lambda>r. lr_phase r \<in> set UNRECONCILED) (map snd (dict_comp lr_injection_id (\<lambda>r. r) rs))))"

section \<open>Fault plugins\<close>

definition FAULT_TAXONOMY :: "(string, string \<times> string) dict" where
  "FAULT_TAXONOMY =
     [(''admin_shutdown'', ''gnmi admin-state disable'', ''configuration-caused shutdown''),
      (''carrier_loss'', ''veth link set down'', ''physical connectivity loss abstraction''),
      (''intermittent_link'', ''repeated carrier transitions'', ''link flap abstraction''),
      (''rate_limited_uplink'', ''tc tbf bandwidth shaping'', ''bandwidth bottleneck/congestion''),
      (''impaired_link'', ''tc netem loss/delay'', ''lossy/latent link''),
      (''telemetry_gap'', ''stop gnmic collector'', ''observation failure''),
      (''healthy_control'', ''no-op'', ''paired negative control'')]"

record fault =
  fault_class :: string
  f_node :: string
  iface_netdev :: string
  iface_srl :: string

text \<open>A command sent to the lab: \<open>sh -c\<close> or \<open>sr_cli\<close> inside a node's container, or a docker command line.\<close>

datatype command =
    Sh string string
  | SrCli string string
  | Docker "string list"

definition container :: "string \<Rightarrow> string" where "container name = ''clab-closcall-2s4l-'' @ name"

definition argv :: "command \<Rightarrow> string list \<times> string option" where
  "argv c = (case c of
     Sh nd cmd \<Rightarrow> ([''docker'', ''exec'', ''-u'', ''root'', container nd, ''sh'', ''-c'', cmd], None)
   | SrCli nd script \<Rightarrow> ([''docker'', ''exec'', ''-i'', ''-u'', ''root'', container nd, ''sr_cli''], Some script)
   | Docker args \<Rightarrow> (args, None))"

definition link_set :: "fault \<Rightarrow> string \<Rightarrow> string" where
  "link_set f dir = ''ip link set '' @ iface_netdev f @ '' '' @ dir"

definition admin_cmd :: "fault \<Rightarrow> string \<Rightarrow> string" where
  "admin_cmd f st = ''set / interface '' @ iface_srl f @ '' admin-state '' @ st"

definition cleanup_payload :: "fault \<Rightarrow> (string, string) dict" where
  "cleanup_payload f =
     (let fc = fault_class f in
      if fc = ''admin_shutdown'' then [(''kind'', ''srl''), (''cmd'', admin_cmd f ''enable'')]
      else if fc \<in> {''carrier_loss'', ''intermittent_link''} then [(''kind'', ''sh''), (''cmd'', link_set f ''up'')]
      else if fc \<in> {''rate_limited_uplink'', ''impaired_link''}
      then [(''kind'', ''sh''), (''cmd'', ''tc qdisc del dev '' @ iface_netdev f @ '' root'')]
      else if fc = ''telemetry_gap'' then [(''kind'', ''docker''), (''cmd'', ''docker start closcall-gnmic'')]
      else [(''kind'', ''noop''), (''cmd'', [])])"

text \<open>A candidate transaction of the CLI.\<close>

definition srl_commit :: "string \<Rightarrow> string" where
  "srl_commit cmd = ''enter candidate'' @ [newline_c] @ cmd @ [newline_c] @ ''commit now'' @ [newline_c]"

definition fault_apply :: "fault \<Rightarrow> command list" where
  "fault_apply f =
     (let fc = fault_class f; nd = f_node f in
      if fc = ''admin_shutdown'' then [SrCli nd (srl_commit (admin_cmd f ''disable''))]
      else if fc = ''carrier_loss'' then [Sh nd (link_set f ''down'')]
      else if fc = ''intermittent_link''
      then concat (replicate 3 [Sh nd (link_set f ''down''), Sh nd ''sleep 1'', Sh nd (link_set f ''up''), Sh nd ''sleep 1''])
      else if fc = ''rate_limited_uplink''
      then [Sh nd (''tc qdisc add dev '' @ iface_netdev f @ '' root tbf rate 1mbit burst 32kbit latency 400ms'')]
      else if fc = ''impaired_link''
      then [Sh nd (''tc qdisc add dev '' @ iface_netdev f @ '' root netem loss 30% delay 20ms'')]
      else if fc = ''telemetry_gap'' then [Docker [''docker'', ''stop'', ''closcall-gnmic'']]
      else [])"

definition fault_clear :: "fault \<Rightarrow> command list" where
  "fault_clear f =
     (let payload = cleanup_payload f; kind = the (dict_get payload ''kind''); cmd = the (dict_get payload ''cmd'') in
      if kind = ''srl'' then [SrCli (f_node f) (srl_commit cmd)]
      else if kind = ''sh'' then [Sh (f_node f) cmd]
      else if kind = ''docker'' then [Docker (filter (\<lambda>w. w \<noteq> []) (split_on (CHR '' '') cmd))]
      else [])"

text \<open>The condition is observed with a command whose output is the parameter \<open>out\<close>.\<close>

definition verify_onset :: "(command \<Rightarrow> string) \<Rightarrow> fault \<Rightarrow> bool" where
  "verify_onset out f =
     (let fc = fault_class f; nd = f_node f;
          qdisc = out (Sh nd (''tc qdisc show dev '' @ iface_netdev f)) in
      if fc \<in> {''admin_shutdown'', ''carrier_loss''}
      then contains (out (SrCli nd (''info from state interface '' @ iface_srl f @ '' oper-state'' @ [newline_c]))) ''down''
      else if fc = ''intermittent_link'' then True
      else if fc \<in> {''rate_limited_uplink'', ''impaired_link''}
      then contains qdisc (if fc = ''rate_limited_uplink'' then ''tbf'' else ''netem'')
      else if fc = ''telemetry_gap''
      then strip (out (Docker [''docker'', ''inspect'', ''-f'', ''{{.State.Running}}'', ''closcall-gnmic''])) = ''false''
      else True)"

section \<open>Reading the ledger back\<close>

definition ledger_text :: "(pyfloat \<Rightarrow> string) \<Rightarrow> ledger_record list \<Rightarrow> string option" where
  "ledger_text fr rs = fold (ledger_append fr) rs None"

definition wf_record :: "ledger_record \<Rightarrow> bool" where
  "wf_record r \<longleftrightarrow> distinct (dict_keys (lr_target r)) \<and> distinct (dict_keys (lr_cleanup r)) \<and> wf_json (JObj (lr_detail r))"

lemma phase_of_str: "phase_of (phase_str p) = Inr p"
  by (cases p) (simp_all add: phase_of_def ALL_PHASES_def phase_str_def)

lemma json_strs_of: "json_strs (json_of_strs d) = Inr d"
proof -
  have "map_res (\<lambda>(k, v). bindr (json_str v) (\<lambda>s. Inr (k, s))) (map (\<lambda>(k, v). (k, JStr v)) d) = Inr d"
    by (induction d) (auto simp: json_str_def)
  then show ?thesis by (simp add: json_strs_def json_of_strs_def json_dict_def)
qed

lemma record_of_asdict: "record_of_json (asdict r) = Inr r"
  by (simp add: record_of_json_def asdict_def json_dict_def dict_index_def json_str_def phase_of_str LEDGER_FIELDS_def
      arg_def json_strs_of json_float_def json_bool_def)

lemma wf_asdict: "wf_record r \<Longrightarrow> wf_json (asdict r)"
proof -
  assume r: "wf_record r"
  have "wf_json (json_of_strs d)" if "distinct (dict_keys d)" for d
  proof -
    have "map fst (map (\<lambda>(k, v). (k, JStr v)) d) = dict_keys d" by auto
    then have "distinct (map fst (map (\<lambda>(k, v). (k, JStr v)) d))" using that by (simp only:)
    then show ?thesis unfolding json_of_strs_def wf_json.simps(2) by auto
  qed
  then have "wf_json (json_of_strs (lr_target r))" "wf_json (json_of_strs (lr_cleanup r))" "wf_json (JObj (lr_detail r))"
    using r by (simp_all add: wf_record_def del: wf_json.simps(2))
  then show ?thesis by (subst asdict_def, subst wf_json.simps(2)) (simp del: wf_json.simps(2))
qed

lemma printable_no_break: "printable c \<Longrightarrow> \<not> is_line_break c"
  by (auto simp: printable_def is_line_break_def Let_def)

lemma splitlines_line: "\<forall>c \<in> set l. \<not> is_line_break c \<Longrightarrow> splitlines (l @ newline_c # s) = l # splitlines s"
  by (induction l) (auto simp: is_line_break_def Let_def)

lemma dumps_nonblank: "strip (dumps fr (asdict r)) \<noteq> []"
proof -
  obtain s where s: "dumps fr (asdict r) = CHR ''{'' # s" by (simp add: asdict_def)
  have "\<not> is_space (CHR ''{'')" by (simp add: is_space_def Let_def)
  then have "dropWhile is_space (rev (CHR ''{'' # s)) \<noteq> []" by (auto simp: dropWhile_eq_Nil_conv)
  then show ?thesis using \<open>\<not> is_space (CHR ''{'')\<close> unfolding s strip_def by simp
qed

lemma splitlines_append_record:
  assumes "float_law fr fp"
  shows "splitlines (dumps fr (asdict r) @ newline_c # s) = dumps fr (asdict r) # splitlines s"
  using printable_dumps [OF assms] by (intro splitlines_line) (auto dest: printable_no_break)

lemma ledger_text_snoc: "ledger_text fr (rs @ [r]) = ledger_append fr r (ledger_text fr rs)"
  by (simp add: ledger_text_def)

lemma ledger_text_concat:
  "rs \<noteq> [] \<Longrightarrow> ledger_text fr rs = Some (concat (map (\<lambda>r. dumps fr (asdict r) @ [newline_c]) rs))"
proof (induction rs rule: rev_induct)
  case (snoc r rs)
  then show ?case
    unfolding ledger_text_snoc by (cases "rs = []") (simp_all add: ledger_append_def, simp add: ledger_text_def)
qed simp

lemma ledger_read_back:
  assumes law: "float_law fr fp" and wf: "\<forall>r \<in> set rs. wf_record r"
  shows "ledger_records fp (ledger_text fr rs) = Inr rs"
proof (cases "rs = []")
  case True
  then show ?thesis by (simp add: ledger_text_def ledger_records_def)
next
  case False
  have "map_res (\<lambda>line. bindr (loads fp line) record_of_json)
      (filter (\<lambda>line. strip line \<noteq> []) (splitlines (concat (map (\<lambda>r. dumps fr (asdict r) @ [newline_c]) rs)))) = Inr rs"
    using wf
  proof (induction rs)
    case (Cons r rs)
    then show ?case
      by (simp add: splitlines_append_record [OF law] dumps_nonblank loads_dumps [OF law wf_asdict] record_of_asdict)
  qed simp
  then show ?thesis unfolding ledger_text_concat [OF False] ledger_records_def by simp
qed

section \<open>Properties\<close>

lemma dict_comp_last:
  "r \<in> set (map snd (dict_comp k (\<lambda>x. x) xs)) \<longleftrightarrow> (\<exists>pre post. xs = pre @ r # post \<and> (\<forall>x \<in> set post. k x \<noteq> k r))"
proof -
  have d: "distinct (dict_keys (dict_comp k (\<lambda>x. x) xs))"
    unfolding dict_comp_def by (rule fold_dict_set_distinct) simp
  have kv: "q = k v" if "(q, v) \<in> set (dict_comp k (\<lambda>x. x) xs)" for q v
    using map_of_is_SomeI [OF d that] unfolding dict_comp_def fold_dict_set_get
    by (auto dest: find_Some_in split: option.splits)
  have "r \<in> set (map snd (dict_comp k (\<lambda>x. x) xs)) \<longleftrightarrow> dict_get (dict_comp k (\<lambda>x. x) xs) (k r) = Some r"
    using d kv by (auto simp: map_of_eq_Some_iff) (force intro: rev_image_eqI)
  also have "\<dots> \<longleftrightarrow> find (\<lambda>x. k x = k r) (rev xs) = Some r"
    unfolding dict_comp_def fold_dict_set_get by (simp split: option.splits)
  also have "\<dots> \<longleftrightarrow> (\<exists>pre post. xs = pre @ r # post \<and> (\<forall>x \<in> set post. k x \<noteq> k r))"
  proof
    assume "find (\<lambda>x. k x = k r) (rev xs) = Some r"
    then obtain i where i: "i < length xs" "rev xs ! i = r" "\<forall>j < i. k (rev xs ! j) \<noteq> k r"
      unfolding find_Some_iff by auto
    let ?n = "length xs - Suc i"
    have "xs = take ?n xs @ xs ! ?n # drop (Suc ?n) xs" using i(1) by (intro id_take_nth_drop) simp
    moreover have "xs ! ?n = r" using i(1,2) by (simp add: rev_nth)
    moreover have "\<forall>x \<in> set (drop (Suc ?n) xs). k x \<noteq> k r"
    proof
      fix x assume "x \<in> set (drop (Suc ?n) xs)"
      then obtain m where m: "m < length xs - Suc ?n" "x = xs ! (Suc ?n + m)" by (auto simp: in_set_conv_nth)
      let ?j = "length xs - Suc (Suc ?n + m)"
      have "?j < i" using m i(1) by auto
      moreover have "length xs - Suc ?j = Suc ?n + m" using m i(1) by auto
      then have "rev xs ! ?j = x" using m i(1) by (simp add: rev_nth)
      moreover note calculation
      ultimately show "k x \<noteq> k r" using i(3) by blast
    qed
    ultimately show "\<exists>pre post. xs = pre @ r # post \<and> (\<forall>x \<in> set post. k x \<noteq> k r)" by metis
  next
    assume "\<exists>pre post. xs = pre @ r # post \<and> (\<forall>x \<in> set post. k x \<noteq> k r)"
    then obtain pre post where x: "xs = pre @ r # post" "\<forall>x \<in> set post. k x \<noteq> k r" by blast
    have "find (\<lambda>x. k x = k r) (rev post @ ys) = find (\<lambda>x. k x = k r) ys" for ys
      using x(2) by (induction post arbitrary: ys) auto
    then show "find (\<lambda>x. k x = k r) (rev xs) = Some r" unfolding x(1) by simp
  qed
  finally show ?thesis .
qed

text \<open>C40: The ledger reads back what was written: appending records one by one and reading the file gives the same
  records in the same order, and the outstanding injections are exactly the records that are the
  last of their injection and in a phase that owes a cleanup, with the stored payload. So no
  injection is forgotten between its planned record and its last one.\<close>

theorem ledger_replay:
  assumes "float_law fr fp" and "\<forall>r \<in> set rs. wf_record r"
  shows "ledger_records fp (ledger_text fr rs) = Inr rs \<and>
    (\<exists>out. outstanding fp (ledger_text fr rs) = Inr out \<and>
      (\<forall>r. r \<in> set out \<longleftrightarrow> lr_phase r \<in> set UNRECONCILED \<and>
        (\<exists>pre post. rs = pre @ r # post \<and> (\<forall>x \<in> set post. lr_injection_id x \<noteq> lr_injection_id r))))"
proof -
  have b: "ledger_records fp (ledger_text fr rs) = Inr rs" using assms by (rule ledger_read_back)
  have "r \<in> set (filter (\<lambda>r. lr_phase r \<in> set UNRECONCILED) (map snd (dict_comp lr_injection_id (\<lambda>r. r) rs))) \<longleftrightarrow>
      lr_phase r \<in> set UNRECONCILED \<and> (\<exists>pre post. rs = pre @ r # post \<and> (\<forall>x \<in> set post. lr_injection_id x \<noteq> lr_injection_id r))" for r
    using dict_comp_last [of r lr_injection_id rs] by (simp only: set_filter mem_Collect_eq conj_commute)
  then show ?thesis using b unfolding outstanding_def by auto
qed

definition demo_ledger :: "ledger_record list" where
  "demo_ledger = map (\<lambda>(i, p). now_record 0 0 i ''carrier_loss'' p [(''node'', ''leaf1'')] [(''kind'', ''sh'')] None)
     [(''a'', PLANNED), (''b'', PLANNED), (''a'', ACTIVE), (''b'', CLEARED)]"

theorem ledger_replay_witness:
  "\<exists>out. outstanding frac_read (ledger_text frac_repr demo_ledger) = Inr out \<and> set out = {demo_ledger ! 2}"
proof -
  have wf: "\<forall>r \<in> set demo_ledger. wf_record r" by (simp add: demo_ledger_def now_record_def wf_record_def)
  obtain out where out: "outstanding frac_read (ledger_text frac_repr demo_ledger) = Inr out"
    "\<And>r. r \<in> set out \<longleftrightarrow> lr_phase r \<in> set UNRECONCILED \<and>
      (\<exists>pre post. demo_ledger = pre @ r # post \<and> (\<forall>x \<in> set post. lr_injection_id x \<noteq> lr_injection_id r))"
    using ledger_replay [OF frac_law wf] by blast
  have "r \<in> set out \<longleftrightarrow> r = demo_ledger ! 2" for r
    unfolding out(2)
    by (auto simp: demo_ledger_def now_record_def UNRECONCILED_def Cons_eq_append_conv)
  with out(1) show ?thesis by auto
qed

text \<open>
  A torn last line, the trace of a crash in the middle of an append, makes the whole ledger
  unreadable, the earlier records included.
\<close>

definition torn_ledger :: "string option" where
  "torn_ledger = map_option (\<lambda>t. take (length t - 20) t) (ledger_text frac_repr (take 2 demo_ledger))"

lemma torn_ledger_unreadable: "ledger_records frac_read torn_ledger = Inl (ValueError ''JSONDecodeError'')"
  by code_simp

section \<open>Clearing undoes applying\<close>

text \<open>What the lab's state is to the plugins: interfaces set down, root queueing disciplines, disabled ports, collector.\<close>

record lab =
  links_down :: "(string \<times> string) set"
  qdisc :: "string \<times> string \<Rightarrow> string option"
  admin_disabled :: "(string \<times> string) set"
  collector_up :: bool

text \<open>
  The documented behaviour of \<open>ip link\<close>, \<open>tc qdisc\<close>, the CLI's admin state and \<open>docker start/stop\<close> on the
  interface of a fault.
\<close>

definition lab_laws :: "(command \<Rightarrow> lab \<Rightarrow> lab) \<Rightarrow> fault \<Rightarrow> bool" where
  "lab_laws run f \<longleftrightarrow>
     (let nd = f_node f; dev = (nd, iface_netdev f); port = (nd, iface_srl f) in
      (\<forall>s. run (Sh nd (link_set f ''down'')) s = s\<lparr>links_down := insert dev (links_down s)\<rparr>) \<and>
      (\<forall>s. run (Sh nd (link_set f ''up'')) s = s\<lparr>links_down := links_down s - {dev}\<rparr>) \<and>
      (\<forall>s. run (Sh nd ''sleep 1'') s = s) \<and>
      (\<forall>s spec. qdisc s dev = None \<longrightarrow>
         run (Sh nd (''tc qdisc add dev '' @ iface_netdev f @ '' root '' @ spec)) s = s\<lparr>qdisc := (qdisc s)(dev := Some spec)\<rparr>) \<and>
      (\<forall>s. run (Sh nd (''tc qdisc del dev '' @ iface_netdev f @ '' root'')) s = s\<lparr>qdisc := (qdisc s)(dev := None)\<rparr>) \<and>
      (\<forall>s. run (SrCli nd (srl_commit (admin_cmd f ''disable''))) s = s\<lparr>admin_disabled := insert port (admin_disabled s)\<rparr>) \<and>
      (\<forall>s. run (SrCli nd (srl_commit (admin_cmd f ''enable''))) s = s\<lparr>admin_disabled := admin_disabled s - {port}\<rparr>) \<and>
      (\<forall>s. run (Docker [''docker'', ''stop'', ''closcall-gnmic'']) s = s\<lparr>collector_up := False\<rparr>) \<and>
      (\<forall>s. run (Docker [''docker'', ''start'', ''closcall-gnmic'']) s = s\<lparr>collector_up := True\<rparr>))"

text \<open>Clearing undoes applying, for every fault class, the unknown ones included: on a lab whose tools behave as
  documented and where the target is healthy, running the commands of \<open>apply\<close> and then those of
  \<open>clear\<close>, which are the ones the write-ahead payload stores, gives back the very same lab.\<close>

theorem clear_undoes_apply:
  assumes "lab_laws run f"
    and "(f_node f, iface_netdev f) \<notin> links_down s" and "qdisc s (f_node f, iface_netdev f) = None"
    and "(f_node f, iface_srl f) \<notin> admin_disabled s" and "collector_up s"
  shows "fold run (fault_apply f @ fault_clear f) s = s"
proof -
  note laws = assms(1) [unfolded lab_laws_def Let_def]
  have docker: "filter (\<lambda>w. w \<noteq> []) (split_on (CHR '' '') ''docker start closcall-gnmic'') = [''docker'', ''start'', ''closcall-gnmic'']"
    by code_simp
  consider "fault_class f = ''admin_shutdown''" | "fault_class f = ''carrier_loss''" | "fault_class f = ''intermittent_link''"
    | "fault_class f = ''rate_limited_uplink''" | "fault_class f = ''impaired_link''" | "fault_class f = ''telemetry_gap''"
    | "fault_class f \<notin> {''admin_shutdown'', ''carrier_loss'', ''intermittent_link'', ''rate_limited_uplink'', ''impaired_link'', ''telemetry_gap''}"
    by blast
  then show ?thesis
  proof cases
    case 1
    then have c: "fault_apply f @ fault_clear f =
        [SrCli (f_node f) (srl_commit (admin_cmd f ''disable'')), SrCli (f_node f) (srl_commit (admin_cmd f ''enable''))]"
      by (simp add: fault_apply_def fault_clear_def cleanup_payload_def Let_def)
    show ?thesis unfolding c using laws assms(4) by simp
  next
    case 2
    then have c: "fault_apply f @ fault_clear f = [Sh (f_node f) (link_set f ''down''), Sh (f_node f) (link_set f ''up'')]"
      by (simp add: fault_apply_def fault_clear_def cleanup_payload_def Let_def)
    show ?thesis unfolding c using laws assms(2) by simp
  next
    case 3
    then have c: "fault_apply f @ fault_clear f =
        concat (replicate 3 [Sh (f_node f) (link_set f ''down''), Sh (f_node f) ''sleep 1'', Sh (f_node f) (link_set f ''up''), Sh (f_node f) ''sleep 1'']) @
        [Sh (f_node f) (link_set f ''up'')]"
      by (simp add: fault_apply_def fault_clear_def cleanup_payload_def Let_def)
    show ?thesis unfolding c using laws assms(2) by (simp add: numeral_3_eq_3)
  next
    case 4
    then have c: "fault_apply f @ fault_clear f =
        [Sh (f_node f) (''tc qdisc add dev '' @ iface_netdev f @ '' root '' @ ''tbf rate 1mbit burst 32kbit latency 400ms''),
         Sh (f_node f) (''tc qdisc del dev '' @ iface_netdev f @ '' root'')]"
      by (simp add: fault_apply_def fault_clear_def cleanup_payload_def Let_def)
    have "(qdisc s)((f_node f, iface_netdev f) := None) = qdisc s" using assms(3) by auto
    then show ?thesis unfolding c using laws assms(3) by simp
  next
    case 5
    then have c: "fault_apply f @ fault_clear f =
        [Sh (f_node f) (''tc qdisc add dev '' @ iface_netdev f @ '' root '' @ ''netem loss 30% delay 20ms''),
         Sh (f_node f) (''tc qdisc del dev '' @ iface_netdev f @ '' root'')]"
      by (simp add: fault_apply_def fault_clear_def cleanup_payload_def Let_def)
    have "(qdisc s)((f_node f, iface_netdev f) := None) = qdisc s" using assms(3) by auto
    then show ?thesis unfolding c using laws assms(3) by simp
  next
    case 6
    then have c: "fault_apply f @ fault_clear f =
        [Docker [''docker'', ''stop'', ''closcall-gnmic''], Docker [''docker'', ''start'', ''closcall-gnmic'']]"
      by (simp add: fault_apply_def fault_clear_def cleanup_payload_def Let_def docker)
    show ?thesis unfolding c using laws assms(5) by simp
  next
    case 7
    then show ?thesis by (simp add: fault_apply_def fault_clear_def cleanup_payload_def Let_def)
  qed
qed

definition demo_fault :: fault where
  "demo_fault = \<lparr>fault_class = ''carrier_loss'', f_node = ''leaf1'', iface_netdev = ''e1-1'', iface_srl = ''ethernet-1/1''\<rparr>"

text \<open>A lab that understands the commands for that one interface.\<close>

definition demo_lab_run :: "command \<Rightarrow> lab \<Rightarrow> lab" where
  "demo_lab_run c s =
     (let dev = (''leaf1'', ''e1-1''); port = (''leaf1'', ''ethernet-1/1'') in
      case c of
        Sh n cmd \<Rightarrow>
          if cmd = link_set demo_fault ''down'' then s\<lparr>links_down := insert dev (links_down s)\<rparr>
          else if cmd = link_set demo_fault ''up'' then s\<lparr>links_down := links_down s - {dev}\<rparr>
          else if startswith cmd ''tc qdisc add dev e1-1 root ''
          then s\<lparr>qdisc := (qdisc s)(dev := Some (drop (length ''tc qdisc add dev e1-1 root '') cmd))\<rparr>
          else if cmd = ''tc qdisc del dev e1-1 root'' then s\<lparr>qdisc := (qdisc s)(dev := None)\<rparr>
          else s
      | SrCli n script \<Rightarrow>
          if script = srl_commit (admin_cmd demo_fault ''disable'') then s\<lparr>admin_disabled := insert port (admin_disabled s)\<rparr>
          else if script = srl_commit (admin_cmd demo_fault ''enable'') then s\<lparr>admin_disabled := admin_disabled s - {port}\<rparr>
          else s
      | Docker args \<Rightarrow>
          if args = [''docker'', ''stop'', ''closcall-gnmic''] then s\<lparr>collector_up := False\<rparr>
          else if args = [''docker'', ''start'', ''closcall-gnmic''] then s\<lparr>collector_up := True\<rparr> else s)"

theorem clear_undoes_apply_witness:
  "fold demo_lab_run (fault_apply demo_fault @ fault_clear demo_fault)
     \<lparr>links_down = {}, qdisc = (\<lambda>_. None), admin_disabled = {}, collector_up = True\<rparr> =
   \<lparr>links_down = {}, qdisc = (\<lambda>_. None), admin_disabled = {}, collector_up = True\<rparr>"
  by (rule clear_undoes_apply)
    (simp_all add: lab_laws_def demo_lab_run_def demo_fault_def link_set_def admin_cmd_def srl_commit_def startswith_def Let_def)

end
