(* ===== verification/Telemetry.thy ===== *)
theory Telemetry
  imports IpAddr
begin

text \<open>
  Counter series and syslog lines: \<open>telemetry/counters.py\<close> and \<open>telemetry/syslog.py\<close>. The syslog pattern is
  the deterministic reading of its regular expression: no part of it can give back characters to
  the next one and still match.
\<close>

section \<open>Counter deltas\<close>

definition COUNTER_MAX :: int where "COUNTER_MAX = 2 ^ 64"

datatype quality = Q_OK | Q_RESET | Q_GAP | Q_DUPLICATE

record csample =
  c_time :: pyfloat
  c_value :: int

record delta =
  start_time :: pyfloat
  end_time :: pyfloat
  d_delta :: int
  rate_per_s :: "pyfloat option"
  d_quality :: quality

text \<open>One pass of the loop after the first sample: the delta it emits and the new \<open>prev\<close>.\<close>

definition delta_step :: "pyfloat \<Rightarrow> csample \<Rightarrow> csample \<Rightarrow> delta \<times> csample" where
  "delta_step max_gap prev s =
     (let dt = c_time s - c_time prev;
          d = \<lparr>start_time = c_time prev, end_time = c_time s, d_delta = 0, rate_per_s = None, d_quality = Q_DUPLICATE\<rparr> in
      if dt \<le> 0 then (d, if c_time s = c_time prev then s else prev)
      else if c_value s < c_value prev then (d\<lparr>d_delta := c_value s, d_quality := Q_RESET\<rparr>, s)
      else let dv = c_value s - c_value prev in
        if max_gap < dt then (d\<lparr>d_delta := dv, d_quality := Q_GAP\<rparr>, s)
        else (d\<lparr>d_delta := dv, rate_per_s := Some (of_int dv / dt), d_quality := Q_OK\<rparr>, s))"

fun deltas_from :: "pyfloat \<Rightarrow> csample \<Rightarrow> csample list \<Rightarrow> delta list" where
  "deltas_from max_gap prev [] = []"
| "deltas_from max_gap prev (s # ss) = (let (d, prev') = delta_step max_gap prev s in d # deltas_from max_gap prev' ss)"

definition counter_deltas :: "csample list \<Rightarrow> pyfloat \<Rightarrow> delta list" where
  "counter_deltas samples max_gap = (case samples of [] \<Rightarrow> [] | s # ss \<Rightarrow> deltas_from max_gap s ss)"

section \<open>Syslog\<close>

definition SEVERITIES :: "string list" where
  "SEVERITIES = [''emergency'', ''alert'', ''critical'', ''error'', ''warning'', ''notice'', ''informational'', ''debug'']"

record log_event =
  le_raw :: string
  le_node :: "string option"
  le_facility :: "nat option"
  le_severity :: "string option"
  le_tag :: "string option"
  le_event_time :: "string option"
  le_received_at :: pyfloat

definition is_upper :: "char \<Rightarrow> bool" where "is_upper c \<longleftrightarrow> 65 \<le> (of_char c :: nat) \<and> (of_char c :: nat) \<le> 90"
definition is_lower :: "char \<Rightarrow> bool" where "is_lower c \<longleftrightarrow> 97 \<le> (of_char c :: nat) \<and> (of_char c :: nat) \<le> 122"

text \<open>A greedy class with a length range: what it takes and what is left.\<close>

definition take_class :: "(char \<Rightarrow> bool) \<Rightarrow> nat \<Rightarrow> nat option \<Rightarrow> string \<Rightarrow> (string \<times> string) option" where
  "take_class P lo hi s =
     (let all = takeWhile P s; got = (case hi of None \<Rightarrow> all | Some n \<Rightarrow> take n all) in
      if length got < lo then None else Some (got, drop (length got) s))"

definition take_char :: "char \<Rightarrow> string \<Rightarrow> string option" where
  "take_char c s = (case s of [] \<Rightarrow> None | x # xs \<Rightarrow> if x = c then Some xs else None)"

definition seq2 :: "(string \<times> string) option \<Rightarrow> (string \<Rightarrow> (string \<times> string) option) \<Rightarrow> (string \<times> string) option" where
  "seq2 a f = (case a of None \<Rightarrow> None | Some (x, r) \<Rightarrow> (case f r of None \<Rightarrow> None | Some (y, r') \<Rightarrow> Some (x @ y, r')))"

definition colon_two :: "string \<Rightarrow> (string \<times> string) option" where
  "colon_two s = seq2 (map_option (\<lambda>r. ([CHR '':''], r)) (take_char (CHR '':'') s)) (take_class is_digit 2 (Some 2))"

definition take_ts :: "string \<Rightarrow> (string \<times> string) option" where
  "take_ts s =
     seq2 (seq2 (seq2 (seq2 (seq2 (seq2 (seq2 (take_class is_upper 1 (Some 1) s)
       (take_class is_lower 2 (Some 2))) (take_class is_space 1 None)) (take_class is_digit 1 (Some 2)))
       (take_class is_space 1 None)) (take_class is_digit 2 (Some 2))) colon_two) colon_two"

text \<open>The optional bracketed process id, the optional colon and the blanks before the message.\<close>

definition after_tag :: "string \<Rightarrow> string" where
  "after_tag s =
     (let no_pid = s;
          pid = Option.bind (take_char (CHR ''['') s) (\<lambda>r. Option.bind (take_class is_digit 1 None r) (\<lambda>(_, r'). take_char (CHR '']'') r'));
          r = (case pid of None \<Rightarrow> no_pid | Some r' \<Rightarrow> r');
          r2 = (case take_char (CHR '':'') r of None \<Rightarrow> r | Some r' \<Rightarrow> r')
      in dropWhile is_space r2)"

definition is_tag_char :: "char \<Rightarrow> bool" where
  "is_tag_char c \<longleftrightarrow> c \<noteq> CHR '':'' \<and> c \<noteq> CHR ''['' \<and> \<not> is_space c"

text \<open>Priority, time stamp, host and tag of a line that matches.\<close>

definition rfc3164 :: "string \<Rightarrow> (string \<times> string \<times> string \<times> string) option" where
  "rfc3164 line =
     Option.bind (take_char (CHR ''<'') line) (\<lambda>r1.
     Option.bind (take_class is_digit 1 (Some 3) r1) (\<lambda>(pri, r2).
     Option.bind (take_char (CHR ''>'') r2) (\<lambda>r3.
     Option.bind (take_ts r3) (\<lambda>(ts, r4).
     Option.bind (take_class is_space 1 None r4) (\<lambda>(_, r5).
     Option.bind (take_class (\<lambda>c. \<not> is_space c) 1 None r5) (\<lambda>(host, r6).
     Option.bind (take_class is_space 1 None r6) (\<lambda>(_, r7).
     Option.bind (take_class is_tag_char 1 None r7) (\<lambda>(tag, r8).
       if newline_c \<in> set (after_tag r8) then None else Some (pri, ts, host, tag)))))))))"

definition rstrip_newlines :: "string \<Rightarrow> string" where
  "rstrip_newlines s = rev (dropWhile (\<lambda>c. c = newline_c) (rev s))"

definition normalize :: "string \<Rightarrow> pyfloat \<Rightarrow> log_event" where
  "normalize raw received_at =
     (case rfc3164 (rstrip_newlines raw) of
        None \<Rightarrow> \<lparr>le_raw = raw, le_node = None, le_facility = None, le_severity = None, le_tag = None, le_event_time = None,
          le_received_at = received_at\<rparr>
      | Some (pri, ts, host, tag) \<Rightarrow>
          let p = read_nat pri; sev_idx = p mod 8 in
          \<lparr>le_raw = raw, le_node = Some host, le_facility = Some (p div 8),
           le_severity = (if sev_idx < length SEVERITIES then Some (SEVERITIES ! sev_idx) else None),
           le_tag = Some tag, le_event_time = Some ts, le_received_at = received_at\<rparr>)"

section \<open>Lemmas\<close>

lemma delta_step_quality:
  "d_quality (fst (delta_step g p s)) =
     (if c_time s \<le> c_time p then Q_DUPLICATE else if c_value s < c_value p then Q_RESET
      else if g < c_time s - c_time p then Q_GAP else Q_OK)"
  by (simp add: delta_step_def Let_def)

lemma delta_step_rate:
  "rate_per_s (fst (delta_step g p s)) =
     (if d_quality (fst (delta_step g p s)) = Q_OK then Some (of_int (c_value s - c_value p) / (c_time s - c_time p)) else None)"
  by (simp add: delta_step_def Let_def)

lemma length_deltas_from: "length (deltas_from g p ss) = length ss"
  by (induction ss arbitrary: p) (simp_all add: Let_def case_prod_beta)

lemma deltas_from_ok:
  assumes "0 \<le> c_value p" "\<forall>s \<in> set ss. 0 \<le> c_value s" "d \<in> set (deltas_from g p ss)"
  shows "0 \<le> d_delta d \<and>
    (rate_per_s d \<noteq> None \<longleftrightarrow> d_quality d = Q_OK) \<and>
    (d_quality d = Q_OK \<longrightarrow> start_time d < end_time d \<and> end_time d - start_time d \<le> g \<and>
       (\<exists>r. rate_per_s d = Some r \<and> 0 \<le> r \<and> r * (end_time d - start_time d) = of_int (d_delta d)))"
  using assms
proof (induction ss arbitrary: p)
  case (Cons s ss)
  show ?case
  proof (cases "d = fst (delta_step g p s)")
    case True
    then show ?thesis using Cons.prems(1,2) unfolding True by (auto simp: delta_step_def Let_def)
  next
    case False
    have "0 \<le> c_value (snd (delta_step g p s))" using Cons.prems(1,2) by (simp add: delta_step_def Let_def)
    with False show ?thesis using Cons.IH [of "snd (delta_step g p s)"] Cons.prems by (simp add: Let_def case_prod_beta)
  qed
qed simp

lemma deltas_from_sum:
  "sorted_wrt (\<lambda>a b. c_time a < c_time b \<and> c_value a \<le> c_value b) (p # ss) \<Longrightarrow>
    sum_list (map d_delta (deltas_from g p ss)) = c_value (last (p # ss)) - c_value p"
proof (induction ss arbitrary: p)
  case (Cons s ss)
  have "snd (delta_step g p s) = s" "d_delta (fst (delta_step g p s)) = c_value s - c_value p"
    using Cons.prems by (auto simp: delta_step_def Let_def)
  then show ?case using Cons.IH [of s] Cons.prems by (simp add: Let_def case_prod_beta)
qed simp

section \<open>Properties\<close>

text \<open>No rate is fabricated: every sample after the first yields one delta, deltas of non-negative counters are
  non-negative, and a rate is present exactly on deltas of quality OK, where time moved forward by
  at most the allowed gap and the rate times the interval is the delta.\<close>

theorem counter_rates_sound:
  assumes "\<forall>s \<in> set samples. 0 \<le> c_value s"
  shows "length (counter_deltas samples g) = length samples - 1 \<and>
    (\<forall>d \<in> set (counter_deltas samples g). 0 \<le> d_delta d \<and> (rate_per_s d \<noteq> None \<longleftrightarrow> d_quality d = Q_OK) \<and>
      (d_quality d = Q_OK \<longrightarrow> start_time d < end_time d \<and> end_time d - start_time d \<le> g \<and>
         (\<exists>r. rate_per_s d = Some r \<and> 0 \<le> r \<and> r * (end_time d - start_time d) = of_int (d_delta d))))"
proof (cases samples)
  case (Cons s ss)
  then show ?thesis
    using assms deltas_from_ok [of s ss _ g] by (simp add: counter_deltas_def length_deltas_from)
qed (simp add: counter_deltas_def)

theorem counter_rates_sound_witness:
  "length (counter_deltas [\<lparr>c_time = 0, c_value = 5\<rparr>, \<lparr>c_time = 10, c_value = 25\<rparr>, \<lparr>c_time = 100, c_value = 3\<rparr>] 30) = 2"
proof -
  have "\<forall>s \<in> set [\<lparr>c_time = 0, c_value = 5\<rparr>, \<lparr>c_time = 10, c_value = 25\<rparr>, \<lparr>c_time = 100, c_value = 3\<rparr>]. 0 \<le> c_value s" by simp
  from counter_rates_sound [OF this, of 30, THEN conjunct1] show ?thesis by simp
qed

text \<open>Deltas conserve the counter: over samples in time order whose value never drops, gaps included, the deltas
  add up to the last value minus the first.\<close>

theorem counter_deltas_conserve:
  assumes "sorted_wrt (\<lambda>a b. c_time a < c_time b \<and> c_value a \<le> c_value b) samples" and "samples \<noteq> []"
  shows "sum_list (map d_delta (counter_deltas samples g)) = c_value (last samples) - c_value (hd samples)"
  using assms deltas_from_sum by (cases samples) (auto simp: counter_deltas_def)

theorem counter_deltas_conserve_witness:
  "sum_list (map d_delta (counter_deltas [\<lparr>c_time = 0, c_value = 5\<rparr>, \<lparr>c_time = 90, c_value = 25\<rparr>] 30)) = 20"
proof -
  have "sorted_wrt (\<lambda>a b. c_time a < c_time b \<and> c_value a \<le> c_value b) [\<lparr>c_time = 0, c_value = 5\<rparr>, \<lparr>c_time = 90, c_value = 25\<rparr>]" by simp
  from counter_deltas_conserve [OF this, of 30] show ?thesis by simp
qed

text \<open>Normalising a log line never loses it: the raw text and the receive time are kept whatever the line is, the
  fields are all present or all absent, and when present the severity is one of the eight names and
  priority is eight times the facility plus its index.\<close>

theorem normalize_keeps_raw:
  "le_raw (normalize raw t) = raw \<and> le_received_at (normalize raw t) = t \<and>
   ((le_node (normalize raw t) = None) = (rfc3164 (rstrip_newlines raw) = None)) \<and>
   (case rfc3164 (rstrip_newlines raw) of
      None \<Rightarrow> le_facility (normalize raw t) = None \<and> le_severity (normalize raw t) = None \<and> le_tag (normalize raw t) = None \<and>
        le_event_time (normalize raw t) = None
    | Some (pri, ts, host, tag) \<Rightarrow> (\<exists>i f. i < 8 \<and> le_severity (normalize raw t) = Some (SEVERITIES ! i) \<and>
        le_facility (normalize raw t) = Some f \<and> read_nat pri = 8 * f + i) \<and>
        le_node (normalize raw t) = Some host \<and> le_tag (normalize raw t) = Some tag \<and> le_event_time (normalize raw t) = Some ts)"
proof (cases "rfc3164 (rstrip_newlines raw)")
  case (Some m)
  obtain pri ts host tag where m: "m = (pri, ts, host, tag)" by (cases m)
  have len: "length SEVERITIES = 8" by (simp add: SEVERITIES_def)
  have "read_nat pri mod 8 < 8" "read_nat pri = 8 * (read_nat pri div 8) + read_nat pri mod 8" by simp_all
  then show ?thesis using Some len unfolding m
    by (simp add: normalize_def Let_def) (rule exI [of _ "read_nat pri mod 8"], simp)
qed (simp add: normalize_def)

lemma normalize_example:
  "normalize (''<165>Jul  3 04:05:06 leaf1 sr_linux[12]: port down'' @ [newline_c]) 7 =
     \<lparr>le_raw = ''<165>Jul  3 04:05:06 leaf1 sr_linux[12]: port down'' @ [newline_c], le_node = Some ''leaf1'', le_facility = Some 20,
      le_severity = Some ''notice'', le_tag = Some ''sr_linux'', le_event_time = Some ''Jul  3 04:05:06'', le_received_at = 7\<rparr>"
  by code_simp

end
