(* ===== verification/Web.thy ===== *)
theory Web
  imports UiProtocol
begin

text \<open>
  The HTTP surface: sessions (\<open>api/auth.py\<close>), the API with its role, CSRF and ownership checks
  (\<open>api/app.py\<close>) and the browser routes (\<open>api/ui.py\<close>). A route is a constructor, a request its cookies
  and headers, a response what the handler returns; rendering a template is the page with its
  context. The JWT library, Argon2, the clocks and the random CSRF token are fields of \<open>web\<close>; an
  arrow in a message is written as a hyphen and a greater sign.
\<close>

section \<open>Sessions\<close>

definition COOKIE_NAME :: string where "COOKIE_NAME = ''closcall_session''"
definition CSRF_COOKIE :: string where "CSRF_COOKIE = ''closcall_csrf''"
definition DEFAULT_TTL_S :: int where "DEFAULT_TTL_S = 900"

record principal =
  pr_user_id :: string
  pr_role :: string

text \<open>\<open>int(x)\<close> of a time stamp.\<close>

definition truncate_s :: "pyfloat \<Rightarrow> int" where
  "truncate_s x = (if 0 \<le> x then \<lfloor>x\<rfloor> else - \<lfloor>- x\<rfloor>)"

type_synonym claims = "(string, json) dict"

definition session_claims :: "string \<Rightarrow> string \<Rightarrow> pyfloat \<Rightarrow> int \<Rightarrow> claims" where
  "session_claims uid rl now ttl_s =
     [(''sub'', JStr uid), (''role'', JStr rl), (''iat'', JInt (truncate_s now)), (''exp'', JInt (truncate_s (now + of_int ttl_s)))]"

definition mint_token :: "(claims \<Rightarrow> string \<Rightarrow> string) \<Rightarrow> string \<Rightarrow> string \<Rightarrow> string \<Rightarrow> pyfloat \<Rightarrow> int \<Rightarrow> string" where
  "mint_token jwt_encode uid rl secret now ttl_s =
     jwt_encode (session_claims uid rl now ttl_s) secret"

definition principal_of :: "claims \<Rightarrow> principal option" where
  "principal_of payload =
     (case (dict_get payload ''sub'', dict_get payload ''role'') of
        (Some (JStr sub), Some (JStr rl)) \<Rightarrow> Some \<lparr>pr_user_id = sub, pr_role = rl\<rparr>
      | _ \<Rightarrow> None)"

definition verify_token ::
    "(string \<Rightarrow> string \<Rightarrow> claims option) \<Rightarrow> (json \<Rightarrow> int res) \<Rightarrow> string \<Rightarrow> string \<Rightarrow> pyfloat \<Rightarrow> principal option res" where
  "verify_token jwt_decode to_int token secret at_time =
     (case jwt_decode token secret of
        None \<Rightarrow> Inr None
      | Some payload \<Rightarrow>
          bindr (py_int to_int (case dict_get payload ''exp'' of None \<Rightarrow> JInt 0 | Some v \<Rightarrow> v)) (\<lambda>expiry.
            if expiry < truncate_s at_time then Inr None else Inr (principal_of payload)))"

text \<open>\<open>argon_verify\<close> is \<open>None\<close> when the library raises: a mismatch or a malformed hash.\<close>

definition verify_password :: "(string \<Rightarrow> string \<Rightarrow> bool option) \<Rightarrow> string \<Rightarrow> string \<Rightarrow> bool" where
  "verify_password argon_verify h pw = (case argon_verify h pw of None \<Rightarrow> False | Some b \<Rightarrow> b)"

record cookie =
  ck_name :: string
  ck_value :: string
  ck_httponly :: bool
  ck_secure :: bool
  ck_samesite :: string
  ck_path :: string

definition session_cookie :: "string \<Rightarrow> cookie" where
  "session_cookie v = \<lparr>ck_name = COOKIE_NAME, ck_value = v, ck_httponly = True, ck_secure = True, ck_samesite = ''strict'', ck_path = ''/''\<rparr>"

section \<open>Requests and responses\<close>

record request =
  rq_cookies :: "(string, string) dict"
  rq_csrf_header :: "string option"
  rq_accept :: string

datatype route =
    Login string string
  | Logout
  | Me
  | Get_incident string
  | Ack string
  | Ui_login
  | Ui_root
  | Ui_dashboard
  | Ui_journey
  | Ui_incidents
  | Ui_case string
  | Ui_approve string
  | Ui_reject string
  | Ui_edit string

datatype response =
    Json_response "(string \<times> string) list" "cookie list" "string list"
  | Redirect nat string
  | Page string
  | Incidents_page "incident_summary list"
  | Case_page case_file
  | Case_panel "case_file option" string

record 'd web =
  secret :: string
  clock :: pyfloat
  jwt_encode :: "claims \<Rightarrow> string \<Rightarrow> string"
  jwt_decode :: "string \<Rightarrow> string \<Rightarrow> claims option"
  to_int :: "json \<Rightarrow> int res"
  argon_verify :: "string \<Rightarrow> string \<Rightarrow> bool option"
  users :: "string \<Rightarrow> user option res"
  api_incident :: "string \<Rightarrow> (string \<times> string list) option"
  new_csrf :: string
  dev_of :: "'d device"
  env_of :: env
  commit1_ok :: bool
  later :: int
  iso_fmt :: "int \<Rightarrow> string"
  dt_str :: "int \<Rightarrow> string"
  json_repr :: "json option \<Rightarrow> string"
  json_str_of :: "json \<Rightarrow> string"
  sha256 :: "string \<Rightarrow> string"
  float_repr :: "pyfloat \<Rightarrow> string"

section \<open>Dependencies\<close>

definition current_principal :: "'d web \<Rightarrow> request \<Rightarrow> principal res" where
  "current_principal wb rq =
     (let unauthenticated = Inl (HTTPException 401 ''authentication required'') in
      case dict_get (rq_cookies rq) COOKIE_NAME of
        None \<Rightarrow> unauthenticated
      | Some token \<Rightarrow>
          if token = [] then unauthenticated
          else bindr (verify_token (jwt_decode wb) (to_int wb) token (secret wb) (clock wb)) (\<lambda>p.
            case p of None \<Rightarrow> unauthenticated | Some q \<Rightarrow> Inr q))"

definition require :: "'d web \<Rightarrow> string list \<Rightarrow> request \<Rightarrow> principal res" where
  "require wb roles rq =
     bindr (current_principal wb rq) (\<lambda>p.
       if pr_role p \<notin> set roles then Inl (HTTPException 403 ''insufficient role'') else Inr p)"

definition READERS :: "string list" where "READERS = [''viewer'', ''operator'', ''approver'']"

text \<open>\<open>compare_digest\<close> of two strings raises \<open>TypeError\<close> unless both are ASCII.\<close>

definition is_ascii :: "string \<Rightarrow> bool" where "is_ascii s \<longleftrightarrow> list_all (\<lambda>c. (of_char c :: nat) < 128) s"

definition csrf :: "request \<Rightarrow> unit res" where
  "csrf rq =
     (case (dict_get (rq_cookies rq) CSRF_COOKIE, rq_csrf_header rq) of
        (Some c, Some h) \<Rightarrow>
          if c = [] \<or> h = [] then Inl (HTTPException 403 ''CSRF token missing or invalid'')
          else if \<not> is_ascii c \<or> \<not> is_ascii h then Inl (TypeError ''comparing strings with non-ASCII characters is not supported'')
          else if c \<noteq> h then Inl (HTTPException 403 ''CSRF token missing or invalid'') else Inr ()
      | _ \<Rightarrow> Inl (HTTPException 403 ''CSRF token missing or invalid''))"

definition authorized_incident :: "'d web \<Rightarrow> string \<Rightarrow> principal \<Rightarrow> string res" where
  "authorized_incident wb i p =
     (case api_incident wb i of
        None \<Rightarrow> Inl (HTTPException 404 ''not found'')
      | Some (iid, us) \<Rightarrow> if pr_user_id p \<notin> set us then Inl (HTTPException 404 ''not found'') else Inr iid)"

definition authz :: "string \<Rightarrow> string \<Rightarrow> unit res" where
  "authz i uid = (if is_authorized i uid then Inr () else Inl (HTTPException 404 ''not found''))"

section \<open>Handlers\<close>

definition login :: "'d web \<Rightarrow> string \<Rightarrow> string \<Rightarrow> response res" where
  "login wb username password =
     bindr (users wb username) (\<lambda>u.
       let invalid = Inl (HTTPException 401 ''invalid credentials'') in
       case u of
         None \<Rightarrow> invalid
       | Some usr \<Rightarrow>
           if \<not> verify_password (argon_verify wb) (password_hash usr) password then invalid
           else
             let token = mint_token (jwt_encode wb) (user_id usr) (role usr) (secret wb) (clock wb) DEFAULT_TTL_S in
             Inr (Json_response [(''user_id'', user_id usr), (''role'', role usr), (''csrf_token'', new_csrf wb)]
               [session_cookie token,
                \<lparr>ck_name = CSRF_COOKIE, ck_value = new_csrf wb, ck_httponly = False, ck_secure = True, ck_samesite = ''strict'', ck_path = ''/''\<rparr>] []))"

definition case_of :: "'d web \<Rightarrow> db \<Rightarrow> string \<Rightarrow> case_file option res" where
  "case_of wb d i = get_case_file (iso_fmt wb) (dt_str wb) (json_repr wb) (json_str_of wb) d i"

text \<open>The routes of the API.\<close>

definition api_route :: "'d web \<Rightarrow> request \<Rightarrow> route \<Rightarrow> response res" where
  "api_route wb rq rt =
     (case rt of
        Login username password \<Rightarrow> login wb username password
      | Logout \<Rightarrow> bindr (current_principal wb rq) (\<lambda>_. Inr (Json_response [(''status'', ''logged_out'')] [] [COOKIE_NAME, CSRF_COOKIE]))
      | Me \<Rightarrow> bindr (current_principal wb rq) (\<lambda>p. Inr (Json_response [(''user_id'', pr_user_id p), (''role'', pr_role p)] [] []))
      | Get_incident i \<Rightarrow>
          bindr (require wb READERS rq) (\<lambda>p. bindr (authorized_incident wb i p) (\<lambda>iid. Inr (Json_response [(''id'', iid)] [] [])))
      | Ack i \<Rightarrow>
          bindr (require wb [''operator''] rq) (\<lambda>p. bindr (csrf rq) (\<lambda>_.
          bindr (authorized_incident wb i p) (\<lambda>iid. Inr (Json_response [(''acked'', iid)] [] []))))
      | _ \<Rightarrow> Inl (HTTPException 404 ''Not Found''))"

text \<open>The browser pages that change nothing.\<close>

definition ui_page :: "'d web \<Rightarrow> request \<Rightarrow> route \<Rightarrow> db \<Rightarrow> response res" where
  "ui_page wb rq rt d =
     (case rt of
        Ui_login \<Rightarrow> Inr (Page ''login.html'')
      | Ui_root \<Rightarrow> Inr (Redirect 302 ''/ui/'')
      | Ui_dashboard \<Rightarrow> bindr (require wb READERS rq) (\<lambda>_. Inr (Page ''dashboard.html''))
      | Ui_journey \<Rightarrow> bindr (require wb READERS rq) (\<lambda>_. Inr (Page ''gates.html''))
      | Ui_incidents \<Rightarrow>
          bindr (require wb READERS rq) (\<lambda>p. Inr (Incidents_page (list_incidents (iso_fmt wb) (json_str_of wb) d (pr_user_id p))))
      | Ui_case i \<Rightarrow>
          bindr (require wb READERS rq) (\<lambda>p. bindr (authz i (pr_user_id p)) (\<lambda>_. bindr (case_of wb d i) (\<lambda>c.
            case c of None \<Rightarrow> Inl (HTTPException 404 ''not found'') | Some cf \<Rightarrow> Inr (Case_page cf))))
      | _ \<Rightarrow> Inl (HTTPException 404 ''Not Found''))"

text \<open>The guards of a state-changing route, in the order the dependencies are solved.\<close>

definition ui_guard :: "'d web \<Rightarrow> request \<Rightarrow> string \<Rightarrow> principal res" where
  "ui_guard wb rq i =
     bindr (require wb [''approver''] rq) (\<lambda>p. bindr (csrf rq) (\<lambda>_. bindr (authz i (pr_user_id p)) (\<lambda>_. Inr p)))"

definition panel :: "'d web \<Rightarrow> db \<Rightarrow> string \<Rightarrow> string \<Rightarrow> response res" where
  "panel wb d i msg = bindr (case_of wb d i) (\<lambda>c. Inr (Case_panel c msg))"

definition ui_approve :: "'d web \<Rightarrow> request \<Rightarrow> string \<Rightarrow> 'd world \<Rightarrow> response res \<times> 'd world" where
  "ui_approve wb rq i w =
     (case ui_guard wb rq i of
        Inl e \<Rightarrow> (Inl e, w)
      | Inr p \<Rightarrow>
          (case approve_and_execute (dev_of wb) (env_of wb) (commit1_ok wb) (later wb) i (pr_user_id p) w of
             (Inl (SideDoorRejected m), w') \<Rightarrow> (Inl (HTTPException 403 m), w')
           | (Inl e, w') \<Rightarrow> (Inl e, w')
           | (Inr outcome, w') \<Rightarrow> (panel wb (w_db w') i (''approved -> executor: '' @ outcome), w')))"

definition ui_reject :: "'d web \<Rightarrow> request \<Rightarrow> string \<Rightarrow> 'd world \<Rightarrow> response res \<times> 'd world" where
  "ui_reject wb rq i w =
     (case bindr (ui_guard wb rq i) (\<lambda>p. reject i (pr_user_id p) (w_db w)) of
        Inl e \<Rightarrow> (Inl e, w)
      | Inr d' \<Rightarrow> (panel wb d' i ''rejected - no execution'', w\<lparr>w_db := d'\<rparr>))"

definition ui_edit :: "'d web \<Rightarrow> request \<Rightarrow> string \<Rightarrow> 'd world \<Rightarrow> response res \<times> 'd world" where
  "ui_edit wb rq i w =
     (case bindr (ui_guard wb rq i) (\<lambda>p. edit_plan (sha256 wb) (float_repr wb) (to_int wb) i (pr_user_id p) (w_db w)) of
        Inl e \<Rightarrow> (Inl e, w)
      | Inr (digest, d') \<Rightarrow>
          (panel wb d' i (''edited -> new plan digest '' @ take 12 digest @ '' needs approval''), w\<lparr>w_db := d'\<rparr>))"

text \<open>Whether the path of a route starts with \<open>/ui\<close>.\<close>

fun is_ui :: "route \<Rightarrow> bool" where
  "is_ui (Login _ _) = False"
| "is_ui Logout = False"
| "is_ui Me = False"
| "is_ui (Get_incident _) = False"
| "is_ui (Ack _) = False"
| "is_ui _ = True"

definition handle :: "'d web \<Rightarrow> request \<Rightarrow> route \<Rightarrow> 'd world \<Rightarrow> response res \<times> 'd world" where
  "handle wb rq rt w =
     (case rt of
        Ui_approve i \<Rightarrow> ui_approve wb rq i w
      | Ui_reject i \<Rightarrow> ui_reject wb rq i w
      | Ui_edit i \<Rightarrow> ui_edit wb rq i w
      | _ \<Rightarrow> (if is_ui rt then ui_page wb rq rt (w_db w) else api_route wb rq rt, w))"

text \<open>The exception handler: a browser page without a session is sent to the login page.\<close>

definition auth_redirect :: "request \<Rightarrow> route \<Rightarrow> response res \<Rightarrow> response res" where
  "auth_redirect rq rt r =
     (case r of
        Inl (HTTPException status d) \<Rightarrow>
          if status = 401 \<and> is_ui rt \<and> contains (rq_accept rq) ''text/html'' then Inr (Redirect 303 ''/ui/login'') else r
      | _ \<Rightarrow> r)"

definition serve :: "'d web \<Rightarrow> request \<Rightarrow> route \<Rightarrow> 'd world \<Rightarrow> response res \<times> 'd world" where
  "serve wb rq rt w = (case handle wb rq rt w of (r, w') \<Rightarrow> (auth_redirect rq rt r, w'))"

section \<open>What a passed guard means\<close>

text \<open>The request carries a session token that decodes under the server's secret, has not expired and names a role.\<close>

definition session_of :: "'d web \<Rightarrow> request \<Rightarrow> principal \<Rightarrow> bool" where
  "session_of wb rq p \<longleftrightarrow>
     (\<exists>token payload expiry. dict_get (rq_cookies rq) COOKIE_NAME = Some token \<and> token \<noteq> [] \<and>
        jwt_decode wb token (secret wb) = Some payload \<and>
        py_int (to_int wb) (case dict_get payload ''exp'' of None \<Rightarrow> JInt 0 | Some v \<Rightarrow> v) = Inr expiry \<and>
        truncate_s (clock wb) \<le> expiry \<and> principal_of payload = Some p)"

lemma verify_token_Some:
  "verify_token dec ti token sec t = Inr (Some p) \<longleftrightarrow>
     (\<exists>payload expiry. dec token sec = Some payload \<and>
        py_int ti (case dict_get payload ''exp'' of None \<Rightarrow> JInt 0 | Some v \<Rightarrow> v) = Inr expiry \<and>
        truncate_s t \<le> expiry \<and> principal_of payload = Some p)"
  unfolding verify_token_def bindr_Inr_iff
  by (cases "dec token sec") (auto simp: bindr_Inr_iff not_less)

lemma current_principal_iff: "current_principal wb rq = Inr p \<longleftrightarrow> session_of wb rq p"
proof -
  have o: "bindr m (\<lambda>q. case q of None \<Rightarrow> Inl e | Some q' \<Rightarrow> Inr q') = Inr p \<longleftrightarrow> m = Inr (Some p)" for m e
    by (auto simp: bindr_Inr_iff split: option.splits)
  show ?thesis
    unfolding current_principal_def session_of_def Let_def
    by (cases "dict_get (rq_cookies rq) COOKIE_NAME") (auto simp: o verify_token_Some simp del: not_less)
qed

definition csrf_match :: "request \<Rightarrow> bool" where
  "csrf_match rq \<longleftrightarrow> (\<exists>c. c \<noteq> [] \<and> is_ascii c \<and> dict_get (rq_cookies rq) CSRF_COOKIE = Some c \<and> rq_csrf_header rq = Some c)"

lemma csrf_iff: "csrf rq = Inr u \<longleftrightarrow> csrf_match rq"
  by (auto simp: csrf_def csrf_match_def split: option.splits)

lemma require_iff: "require wb roles rq = Inr p \<longleftrightarrow> session_of wb rq p \<and> pr_role p \<in> set roles"
  by (auto simp: require_def bindr_Inr_iff current_principal_iff)

lemma ui_guard_iff:
  "ui_guard wb rq i = Inr p \<longleftrightarrow> session_of wb rq p \<and> pr_role p = ''approver'' \<and> csrf_match rq"
  by (auto simp: ui_guard_def bindr_Inr_iff require_iff csrf_iff authz_def is_authorized_def)

section \<open>Properties\<close>

lemma handle_change:
  assumes "handle wb rq rt w = (r, w')" and "w' \<noteq> w"
  obtains i p where "rt \<in> {Ui_approve i, Ui_reject i, Ui_edit i}" "ui_guard wb rq i = Inr p"
proof -
  have "\<exists>i. rt \<in> {Ui_approve i, Ui_reject i, Ui_edit i}"
    using assms by (cases rt) (auto simp: handle_def)
  then obtain i where i: "rt \<in> {Ui_approve i, Ui_reject i, Ui_edit i}" by blast
  have "\<exists>p. ui_guard wb rq i = Inr p"
  proof (rule ccontr)
    assume "\<not> (\<exists>p. ui_guard wb rq i = Inr p)"
    then obtain e where "ui_guard wb rq i = Inl e" by (cases "ui_guard wb rq i") auto
    then have "w' = w" using assms(1) i by (auto simp: handle_def ui_approve_def ui_reject_def ui_edit_def)
    with assms(2) show False ..
  qed
  then show ?thesis using i that by blast
qed

lemma serve_world: "snd (serve wb rq rt w) = snd (handle wb rq rt w)"
  by (simp add: serve_def case_prod_beta)

text \<open>C11: Nothing changes without an approver: a request after which the database, the device or the trace differ is
  an approve, reject or edit of the browser routes that carried a session token which decodes under
  the server's secret, has not expired and names the role approver, and whose CSRF cookie and header
  are the same non-empty text.\<close>

theorem web_change_needs_approver:
  assumes "serve wb rq rt w = (r, w')" and "w' \<noteq> w"
  shows "\<exists>i p. rt \<in> {Ui_approve i, Ui_reject i, Ui_edit i} \<and> session_of wb rq p \<and> pr_role p = ''approver'' \<and> csrf_match rq"
proof -
  obtain r0 where "handle wb rq rt w = (r0, w')"
    using assms(1) serve_world [of wb rq rt w] by (cases "handle wb rq rt w") simp
  then obtain i p where "rt \<in> {Ui_approve i, Ui_reject i, Ui_edit i}" "ui_guard wb rq i = Inr p"
    using assms(2) by (rule handle_change)
  then show ?thesis unfolding ui_guard_iff by blast
qed


text \<open>C13: A minted session is accepted until it expires and not a second longer: with a JWT library that decodes
  the claims it encoded under the same secret, verifying a minted token gives back the user and role
  exactly while the clock has not passed the whole second of its expiry, and nothing afterwards.\<close>

theorem session_roundtrip:
  assumes "jdec (jenc (session_claims uid rl now ttl) sec) sec = Some (session_claims uid rl now ttl)"
  shows "verify_token jdec to_i (mint_token jenc uid rl sec now ttl) sec t =
    Inr (if truncate_s t \<le> truncate_s (now + of_int ttl) then Some \<lparr>pr_user_id = uid, pr_role = rl\<rparr> else None)"
proof -
  have "jdec (mint_token jenc uid rl sec now ttl) sec = Some (session_claims uid rl now ttl)"
    unfolding mint_token_def by (rule assms)
  then show ?thesis by (simp add: verify_token_def session_claims_def py_int_def principal_of_def)
qed

text \<open>A library that signs by prefixing the secret to the JSON text of the claims.\<close>

definition demo_jenc :: "claims \<Rightarrow> string \<Rightarrow> string" where
  "demo_jenc payload s = s @ dumps frac_repr (JObj payload)"

definition demo_jdec :: "string \<Rightarrow> string \<Rightarrow> claims option" where
  "demo_jdec token s = (if startswith token s then case loads frac_read (drop (length s) token) of Inr (JObj ps) \<Rightarrow> Some ps | _ \<Rightarrow> None
     else None)"

lemma demo_jwt_law: "demo_jdec (demo_jenc (session_claims uid rl now ttl) sec) sec = Some (session_claims uid rl now ttl)"
proof -
  have "wf_json (JObj (session_claims uid rl now ttl))" by (simp add: session_claims_def)
  from loads_dumps [OF frac_law this] show ?thesis
    by (simp add: demo_jdec_def demo_jenc_def startswith_def del: dumps.simps)
qed

theorem session_roundtrip_witness:
  "verify_token demo_jdec (\<lambda>_. Inl StopIteration) (mint_token demo_jenc ''alice'' ''approver'' ''s3cret'' 1000 900) ''s3cret'' 1901 = Inr None"
  using session_roundtrip [where jdec = demo_jdec and jenc = demo_jenc and to_i = "\<lambda>_. Inl StopIteration" and t = 1901,
      OF demo_jwt_law [of "''alice''" "''approver''" 1000 900 "''s3cret''"]]
  by (simp add: truncate_s_def)

text \<open>The approval walk of the protocol theory, through the browser route.\<close>

definition demo_web :: "string web" where
  "demo_web = \<lparr>secret = ''s3cret'', clock = 1000, jwt_encode = demo_jenc, jwt_decode = demo_jdec, to_int = (\<lambda>_. Inl StopIteration),
     argon_verify = (\<lambda>h p. Some (h = p)), users = (\<lambda>_. Inr None), api_incident = (\<lambda>_. None), new_csrf = ''c'', dev_of = demo_device,
     env_of = all_ok, commit1_ok = True, later = 9, iso_fmt = (\<lambda>_. []), dt_str = (\<lambda>_. []), json_repr = (\<lambda>_. []),
     json_str_of = (\<lambda>_. []), sha256 = demo_sha, float_repr = demo_fr\<rparr>"

definition demo_token :: string where
  "demo_token = demo_jenc (session_claims ''alice'' ''approver'' 1000 900) ''s3cret''"

definition demo_request :: request where
  "demo_request = \<lparr>rq_cookies = [(COOKIE_NAME, demo_token), (CSRF_COOKIE, ''c'')], rq_csrf_header = Some ''c'', rq_accept = ''text/html''\<rparr>"

lemma demo_guard: "ui_guard demo_web demo_request i = Inr \<lparr>pr_user_id = ''alice'', pr_role = ''approver''\<rparr>"
proof -
  have "demo_token \<noteq> []" by (simp add: demo_token_def demo_jenc_def)
  moreover have "COOKIE_NAME \<noteq> CSRF_COOKIE" by code_simp
  moreover have "is_ascii ''c''" by code_simp
  moreover have "demo_jdec demo_token ''s3cret'' = Some (session_claims ''alice'' ''approver'' 1000 900)"
    unfolding demo_token_def by (rule demo_jwt_law)
  ultimately show ?thesis
    unfolding ui_guard_iff session_of_def csrf_match_def
    by (simp add: demo_request_def demo_web_def) (simp add: session_claims_def py_int_def principal_of_def truncate_s_def)
qed

lemma demo_serve: "\<exists>r. serve demo_web demo_request (Ui_approve ''0'') seed_world = (r, approved_world)"
proof -
  have "approve_and_execute (dev_of demo_web) (env_of demo_web) (commit1_ok demo_web) (later demo_web) ''0'' ''alice'' seed_world =
      (Inr ''succeeded'', approved_world)"
    using approved_run by (simp add: demo_web_def)
  then show ?thesis by (simp add: serve_def handle_def ui_approve_def demo_guard)
qed

theorem web_change_needs_approver_witness:
  "\<exists>p. session_of demo_web demo_request p \<and> pr_role p = ''approver'' \<and> csrf_match demo_request"
proof -
  obtain r where r: "serve demo_web demo_request (Ui_approve ''0'') seed_world = (r, approved_world)"
    using demo_serve by blast
  have "w_trace approved_world \<noteq> []" "w_trace seed_world = []" by code_simp+
  then have "approved_world \<noteq> seed_world" by metis
  from web_change_needs_approver [OF r this] show ?thesis by blast
qed


end
