(* ===== verification/Traffic.thy ===== *)
theory Traffic
  imports IpAddr
begin

text \<open>
  Collective-shaped traffic: the flow plan and the aggregate of \<open>traffic/generator.py\<close>, and the command
  sequence \<open>traffic/lab.py\<close> sends to the hosts. Running a flow is the parameter \<open>runner\<close>; starting the
  background traffic is its sequence of \<open>docker exec\<close> commands, the one second of sleep left out.
\<close>

section \<open>Plans\<close>

record traffic_profile =
  tp_name :: string
  tp_pattern :: string
  streams_per_flow :: int
  target_bitrate_bps :: int
  tp_duration_s :: int
  tp_seed :: int
  incast_target :: "string option"
  tp_impaired :: bool

record flow =
  fl_src :: string
  fl_dst :: string
  fl_streams :: int
  fl_port :: int

record flow_result =
  fr_flow :: flow
  observed_bps :: pyfloat
  retransmits :: int
  rtt_ms :: pyfloat
  completed :: bool

record traffic_result =
  tr_profile :: string
  tr_seed :: int
  tr_requested_bps :: int
  tr_observed_bps :: pyfloat
  tr_flows :: nat
  tr_completed :: nat
  tr_retransmits :: int
  tr_rtt_ms_mean :: pyfloat

definition number_flows :: "traffic_profile \<Rightarrow> (string \<times> string) list \<Rightarrow> flow list" where
  "number_flows p pairs =
     map (\<lambda>(i, (src, dst)). \<lparr>fl_src = src, fl_dst = dst, fl_streams = streams_per_flow p, fl_port = 5200 + tp_seed p mod 100 + int i\<rparr>)
       (enumerate 0 pairs)"

definition plan_flows :: "traffic_profile \<Rightarrow> string list \<Rightarrow> flow list res" where
  "plan_flows p hosts =
     (let ordered = sort hosts in
      if tp_pattern p = ''incast''
      then bindr (case incast_target p of
             Some (c # cs) \<Rightarrow> Inr (c # cs)
           | _ \<Rightarrow> (case ordered of [] \<Rightarrow> Inl IndexError | h # _ \<Rightarrow> Inr h)) (\<lambda>target.
             Inr (number_flows p (map (\<lambda>src. (src, target)) (filter (\<lambda>h. h \<noteq> target) ordered))))
      else if tp_pattern p = ''all_to_all''
      then Inr (number_flows p (filter (\<lambda>(src, dst). src \<noteq> dst) (List.product ordered ordered)))
      else Inl (ValueError (''unknown pattern '' @ py_repr (tp_pattern p))))"

definition run_traffic :: "(flow \<Rightarrow> traffic_profile \<Rightarrow> flow_result) \<Rightarrow> traffic_profile \<Rightarrow> string list \<Rightarrow> traffic_result res" where
  "run_traffic runner p hosts =
     bindr (plan_flows p hosts) (\<lambda>flows.
       let results = map (\<lambda>f. runner f p) flows;
           rtts = filter (\<lambda>r. 0 < r) (map rtt_ms results)
       in Inr \<lparr>tr_profile = tp_name p, tr_seed = tp_seed p, tr_requested_bps = target_bitrate_bps p * int (length flows),
            tr_observed_bps = sum_list (map observed_bps results), tr_flows = length flows,
            tr_completed = length (filter completed results), tr_retransmits = sum_list (map retransmits results),
            tr_rtt_ms_mean = (if rtts \<noteq> [] then sum_list rtts / of_nat (length rtts) else 0)\<rparr>)"

section \<open>Commands to the hosts\<close>

definition HOSTS :: "string list" where "HOSTS = [''host1'', ''host2'', ''host3'', ''host4'']"
definition FABRIC_MTU :: int where "FABRIC_MTU = 1500"

definition host_container :: "string \<Rightarrow> string" where "host_container h = ''clab-closcall-2s4l-'' @ h"

definition host_ip :: "string \<Rightarrow> string res" where
  "host_ip h = (if h = [] then Inl IndexError else Inr (''172.16.'' @ [last h] @ ''.10''))"

text \<open>A \<open>docker exec\<close> in a host's container; \<open>dx_detach\<close> runs it in the background.\<close>

record dexec =
  dx_host :: string
  dx_args :: "string list"
  dx_detach :: bool

definition dexec_argv :: "dexec \<Rightarrow> string list" where
  "dexec_argv d = [''docker'', ''exec''] @ (if dx_detach d then [''-d''] else []) @ [host_container (dx_host d)] @ dx_args d"

definition prepare_hosts :: "string list \<Rightarrow> dexec list" where
  "prepare_hosts hs = map (\<lambda>h. \<lparr>dx_host = h, dx_args = [''ip'', ''link'', ''set'', ''dev'', ''eth1'', ''mtu'', show_int FABRIC_MTU],
     dx_detach = False\<rparr>) hs"

definition stop_traffic :: "string list \<Rightarrow> dexec list" where
  "stop_traffic hs = map (\<lambda>h. \<lparr>dx_host = h, dx_args = [''pkill'', ''-f'', ''iperf3''], dx_detach = False\<rparr>) hs"

definition server_cmd :: "string \<times> int \<Rightarrow> dexec" where
  "server_cmd s = \<lparr>dx_host = fst s, dx_args = [''iperf3'', ''-s'', ''-p'', show_int (snd s)], dx_detach = True\<rparr>"

definition client_cmd :: "traffic_profile \<Rightarrow> int \<Rightarrow> flow \<Rightarrow> dexec res" where
  "client_cmd p duration f = bindr (host_ip (fl_dst f)) (\<lambda>ip.
     Inr \<lparr>dx_host = fl_src f, dx_args = [''iperf3'', ''-c'', ip, ''-p'', show_int (fl_port f), ''-P'', show_int (fl_streams f),
       ''-t'', show_int duration, ''-b'', show_int (target_bitrate_bps p)], dx_detach = True\<rparr>)"

text \<open>The commands issued before an exception stay issued; the result is them and what is raised, if anything.\<close>

fun run_cmds :: "dexec res list \<Rightarrow> dexec list \<times> exn option" where
  "run_cmds [] = ([], None)"
| "run_cmds (c # cs) = (case c of Inl e \<Rightarrow> ([], Some e) | Inr d \<Rightarrow> (case run_cmds cs of (ds, e) \<Rightarrow> (d # ds, e)))"

definition start_background_traffic :: "traffic_profile \<Rightarrow> int \<Rightarrow> string list \<Rightarrow> dexec list \<times> exn option" where
  "start_background_traffic p duration hs =
     (let before_plan = map Inr (prepare_hosts hs @ stop_traffic hs) in
      case plan_flows p hs of
        Inl e \<Rightarrow> run_cmds (before_plan @ [Inl e])
      | Inr flows \<Rightarrow>
          run_cmds (before_plan @ map (Inr \<circ> server_cmd) (sorted_list_of_set ((\<lambda>f. (fl_dst f, fl_port f)) ` set flows)) @
            map (client_cmd p duration) flows))"

section \<open>Lemmas\<close>

lemma number_flows_ports: "map fl_port (number_flows p ps) = map (\<lambda>i. 5200 + tp_seed p mod 100 + int i) [0..<length ps]"
  by (rule nth_equalityI) (simp_all add: number_flows_def nth_enumerate_eq case_prod_beta)

lemma number_flows_pairs: "map (\<lambda>f. (fl_src f, fl_dst f)) (number_flows p ps) = ps"
  by (rule nth_equalityI) (simp_all add: number_flows_def nth_enumerate_eq case_prod_beta)

lemma number_flows_distinct: "distinct (map fl_port (number_flows p ps))"
  unfolding number_flows_ports by (simp add: distinct_map inj_on_def)

lemma plan_flows_cases:
  assumes "plan_flows p hs = Inr flows"
  shows "\<exists>ps. flows = number_flows p ps \<and> tp_pattern p \<in> {''all_to_all'', ''incast''} \<and>
    (tp_pattern p = ''all_to_all'' \<longrightarrow> ps = filter (\<lambda>(src, dst). src \<noteq> dst) (List.product (sort hs) (sort hs))) \<and>
    (tp_pattern p = ''incast'' \<longrightarrow> (\<exists>t. ps = map (\<lambda>src. (src, t)) (filter (\<lambda>h. h \<noteq> t) (sort hs))))"
proof -
  consider (incast) "tp_pattern p = ''incast''" | (all) "tp_pattern p = ''all_to_all''"
    using assms by (auto simp: plan_flows_def Let_def split: if_splits)
  then show ?thesis
  proof cases
    case incast
    then obtain t where "flows = number_flows p (map (\<lambda>src. (src, t)) (filter (\<lambda>h. h \<noteq> t) (sort hs)))"
      using assms by (auto simp: plan_flows_def Let_def bindr_Inr_iff)
    with incast show ?thesis by auto
  next
    case all
    then have "flows = number_flows p (filter (\<lambda>(src, dst). src \<noteq> dst) (List.product (sort hs) (sort hs)))"
      using assms by (simp add: plan_flows_def Let_def)
    with all show ?thesis by auto
  qed
qed

lemma run_cmds_Inr: "run_cmds (map Inr ds @ cs) = (case run_cmds cs of (es, e) \<Rightarrow> (ds @ es, e))"
  by (induction ds) (simp_all add: case_prod_beta)

section \<open>Properties\<close>

text \<open>The flow plan is sound: whatever the pattern, no host talks to itself, every flow has its own port, the ports
  are consecutive from the seed-derived base, and the plan does not depend on the order the hosts are
  given in. All-to-all over distinct hosts plans every ordered pair of different hosts exactly once.\<close>

theorem plan_flows_sound:
  assumes "plan_flows p hs = Inr flows"
  shows "distinct (map fl_port flows) \<and> map fl_port flows = map (\<lambda>i. 5200 + tp_seed p mod 100 + int i) [0..<length flows] \<and>
    (\<forall>f \<in> set flows. fl_src f \<noteq> fl_dst f \<and> fl_src f \<in> set hs) \<and>
    plan_flows p (sort hs) = Inr flows \<and>
    (tp_pattern p = ''all_to_all'' \<and> distinct hs \<longrightarrow>
       distinct (map (\<lambda>f. (fl_src f, fl_dst f)) flows) \<and>
       set (map (\<lambda>f. (fl_src f, fl_dst f)) flows) = {(a, b). a \<in> set hs \<and> b \<in> set hs \<and> a \<noteq> b})"
proof -
  obtain ps where f: "flows = number_flows p ps"
    and a: "tp_pattern p = ''all_to_all'' \<longrightarrow> ps = filter (\<lambda>(src, dst). src \<noteq> dst) (List.product (sort hs) (sort hs))"
    and i: "tp_pattern p = ''incast'' \<longrightarrow> (\<exists>t. ps = map (\<lambda>src. (src, t)) (filter (\<lambda>h. h \<noteq> t) (sort hs)))"
    and pat: "tp_pattern p \<in> {''all_to_all'', ''incast''}"
    using plan_flows_cases [OF assms] by blast
  have len: "length flows = length ps" unfolding f by (simp add: number_flows_def)
  have ports: "map fl_port flows = map (\<lambda>i. 5200 + tp_seed p mod 100 + int i) [0..<length flows]"
    unfolding len unfolding f by (rule number_flows_ports)
  have pairs: "map (\<lambda>f. (fl_src f, fl_dst f)) flows = ps" unfolding f by (rule number_flows_pairs)
  have ps: "\<forall>q \<in> set ps. fst q \<noteq> snd q \<and> fst q \<in> set hs" using pat a i by auto
  have st: "fl_src f \<noteq> fl_dst f \<and> fl_src f \<in> set hs" if "f \<in> set flows" for f
  proof -
    have "(fl_src f, fl_dst f) \<in> set ps" unfolding pairs [symmetric] using that by simp
    then show ?thesis using ps by auto
  qed
  have all: "distinct ps \<and> set ps = {(a, b). a \<in> set hs \<and> b \<in> set hs \<and> a \<noteq> b}" if "tp_pattern p = ''all_to_all''" "distinct hs"
    using a that by (auto simp: distinct_product)
  have so: "plan_flows p (sort hs) = plan_flows p hs" by (simp add: plan_flows_def Let_def sorted_sort_id)
  have d: "distinct (map fl_port flows)" unfolding f by (rule number_flows_distinct)
  show ?thesis unfolding so pairs by (intro conjI impI ballI d ports) (use assms st all in auto)
qed

definition demo_profile :: "string \<Rightarrow> traffic_profile" where
  "demo_profile pat = \<lparr>tp_name = ''t'', tp_pattern = pat, streams_per_flow = 4, target_bitrate_bps = 1000000, tp_duration_s = 30, tp_seed = 142,
     incast_target = None, tp_impaired = False\<rparr>"

theorem plan_flows_sound_witness:
  "\<exists>flows. plan_flows (demo_profile ''all_to_all'') HOSTS = Inr flows \<and> distinct (map fl_port flows)"
proof -
  have "\<exists>flows. plan_flows (demo_profile ''all_to_all'') HOSTS = Inr flows" by (simp add: plan_flows_def demo_profile_def Let_def)
  then show ?thesis using plan_flows_sound by blast
qed

text \<open>Servers first: whatever the plan, the command that starts the server of a flow is issued before any client, and
  the commands issued up to there hold no client at all.\<close>

theorem servers_before_clients:
  assumes "plan_flows p hs = Inr flows" and "f \<in> set flows"
  shows "\<exists>pre post. fst (start_background_traffic p duration hs) = pre @ post \<and>
    server_cmd (fl_dst f, fl_port f) \<in> set pre \<and>
    (\<forall>c \<in> set pre. \<forall>g \<in> set flows. \<forall>d. client_cmd p duration g = Inr d \<longrightarrow> c \<noteq> d)"
proof -
  let ?S = "sorted_list_of_set ((\<lambda>f. (fl_dst f, fl_port f)) ` set flows)"
  let ?pre = "prepare_hosts hs @ stop_traffic hs @ map server_cmd ?S"
  have "start_background_traffic p duration hs =
      run_cmds (map Inr ?pre @ map (client_cmd p duration) flows)"
    using assms(1) by (simp add: start_background_traffic_def)
  then have eq: "fst (start_background_traffic p duration hs) = ?pre @ fst (run_cmds (map (client_cmd p duration) flows))"
    unfolding run_cmds_Inr by (simp add: case_prod_beta)
  have srv: "server_cmd (fl_dst f, fl_port f) \<in> set ?pre" using assms(2) by simp
  have "c \<noteq> d" if "c \<in> set ?pre" "client_cmd p duration g = Inr d" for c d g
    using that by (auto simp: prepare_hosts_def stop_traffic_def server_cmd_def client_cmd_def bindr_Inr_iff)
  with eq srv show ?thesis by blast
qed

theorem servers_before_clients_witness:
  "\<exists>pre post. fst (start_background_traffic (demo_profile ''all_to_all'') 60 [''host1'', ''host2'']) = pre @ post \<and>
    server_cmd (''host2'', 5242) \<in> set pre"
proof -
  let ?p = "demo_profile ''all_to_all''"
  have p: "plan_flows ?p [''host1'', ''host2''] =
      Inr [\<lparr>fl_src = ''host1'', fl_dst = ''host2'', fl_streams = 4, fl_port = 5242\<rparr>, \<lparr>fl_src = ''host2'', fl_dst = ''host1'', fl_streams = 4, fl_port = 5243\<rparr>]"
    by code_simp
  have m: "\<lparr>fl_src = ''host1'', fl_dst = ''host2'', fl_streams = 4, fl_port = 5242\<rparr> \<in>
     set [\<lparr>fl_src = ''host1'', fl_dst = ''host2'', fl_streams = 4, fl_port = 5242\<rparr>, \<lparr>fl_src = ''host2'', fl_dst = ''host1'', fl_streams = 4, fl_port = 5243\<rparr>]"
    by simp
  show ?thesis using servers_before_clients [OF p m, of 60] by (simp only: flow.simps) blast
qed

text \<open>Only the last character of a host's name selects its address: the tenth host is given that of host 0.\<close>

lemma host_ip_last_digit: "host_ip ''host10'' = Inr ''172.16.0.10'' \<and> host_ip ''host1'' = host_ip ''host11''"
  by (simp add: host_ip_def)

end
