(* ===== verification/Ops.thy ===== *)
theory Ops
  imports IpAddr
begin

text \<open>
  Settings, logging and the database address: \<open>config/settings.py\<close>, \<open>observability/logging.py\<close> and
  \<open>db/engine.py\<close>. The environment is a dictionary in the order the process lists it. What
  pydantic-settings accepts for a known variable is modelled for the two fields the class declares;
  \<open>str_of\<close> is \<open>str\<close> of a value the JSON encoder does not know, \<open>stamp\<close> the ISO form of a record's
  creation time.
\<close>

section \<open>Settings\<close>

definition ENV_PREFIX :: string where "ENV_PREFIX = ''CLOSCALL_''"

definition upper :: "string \<Rightarrow> string" where
  "upper s = map (\<lambda>c. let n = of_char c :: nat in if 97 \<le> n \<and> n \<le> 122 then char_of (n - 32) else c) s"

definition MODEL_FIELDS :: "string list" where "MODEL_FIELDS = [''environment'', ''logging'']"

text \<open>\<open>s.split(''__'', 1)[0]\<close>.\<close>

fun before_dunder :: "string \<Rightarrow> string" where
  "before_dunder (a # b # s) = (if a = CHR ''_'' \<and> b = CHR ''_'' then [] else a # before_dunder (b # s))"
| "before_dunder s = s"

definition unknown_variables :: "(string, string) dict \<Rightarrow> string list" where
  "unknown_variables env =
     sort (filter (\<lambda>k. startswith k ENV_PREFIX \<and> before_dunder (drop (length ENV_PREFIX) k) \<notin> set (map upper MODEL_FIELDS)) (dict_keys env))"

text \<open>\<open>Settings()\<close> is what pydantic builds: a parameter.\<close>

definition load_settings :: "((string, string) dict \<Rightarrow> 's res) \<Rightarrow> (string, string) dict \<Rightarrow> 's res" where
  "load_settings Settings env =
     (let unknown = unknown_variables env in
      if unknown \<noteq> [] then Inl (ValueError (''unknown environment variables: '' @ join '', '' unknown)) else Settings env)"

section \<open>Database address\<close>

definition env_get :: "(string, string) dict \<Rightarrow> string \<Rightarrow> string \<Rightarrow> string" where
  "env_get env k dflt = (case dict_get env k of None \<Rightarrow> dflt | Some v \<Rightarrow> v)"

definition db_url :: "(string, string) dict \<Rightarrow> bool \<Rightarrow> string" where
  "db_url env async_driver =
     (let pw = env_get env ''CLOSCALL_DB_PASSWORD'' ''closcall_dev_pw'';
          host = env_get env ''CLOSCALL_DB_HOST'' ''127.0.0.1'';
          port = env_get env ''CLOSCALL_DB_PORT'' ''15432'';
          driver = (if async_driver then ''postgresql+asyncpg'' else ''postgresql'')
      in driver @ ''://closcall:'' @ pw @ ''@'' @ host @ '':'' @ port @ ''/closcall'')"

section \<open>Logging\<close>

text \<open>The attributes of a plain record; anything else came in through \<open>extra\<close>.\<close>

definition STANDARD_ATTRS :: "string list" where
  "STANDARD_ATTRS = [''name'', ''msg'', ''args'', ''levelname'', ''levelno'', ''pathname'', ''filename'', ''module'', ''exc_info'', ''exc_text'',
     ''stack_info'', ''lineno'', ''funcName'', ''created'', ''msecs'', ''relativeCreated'', ''thread'', ''threadName'', ''processName'',
     ''process'', ''message'', ''asctime'', ''taskName'']"

record log_record =
  lg_stamp :: string
  lg_level :: string
  lg_name :: string
  lg_message :: string
  lg_attrs :: "(string, json) dict"
  lg_exception :: "string option"

text \<open>The values of \<open>extra\<close> are the JSON values they encode to.\<close>

definition log_payload :: "log_record \<Rightarrow> (string, json) dict" where
  "log_payload r =
     (let base = [(''timestamp'', JStr (lg_stamp r)), (''level'', JStr (lg_level r)), (''logger'', JStr (lg_name r)), (''message'', JStr (lg_message r))];
          p = fold (\<lambda>(k, v) d. if k \<notin> set STANDARD_ATTRS then dict_set k v d else d) (lg_attrs r) base
      in case lg_exception r of None \<Rightarrow> p | Some t \<Rightarrow> dict_set ''exception'' (JStr t) p)"

definition format_record :: "(pyfloat \<Rightarrow> string) \<Rightarrow> log_record \<Rightarrow> string" where
  "format_record fr r = dumps fr (JObj (log_payload r))"

section \<open>Properties\<close>

text \<open>A misspelt variable is never ignored: loading the settings raises exactly when some variable with the
  prefix names no field before its first double underscore, or when pydantic itself raises; the
  message lists the offenders.\<close>

theorem settings_reject_unknown:
  "load_settings S env =
     (if \<exists>k \<in> set (dict_keys env). startswith k ''CLOSCALL_'' \<and>
          before_dunder (drop 9 k) \<notin> {''ENVIRONMENT'', ''LOGGING''}
      then Inl (ValueError (''unknown environment variables: '' @ join '', '' (unknown_variables env))) else S env)"
proof -
  have u: "set (map upper MODEL_FIELDS) = {''ENVIRONMENT'', ''LOGGING''}" by code_simp
  have l: "length ENV_PREFIX = 9" by (simp add: ENV_PREFIX_def)
  have "unknown_variables env \<noteq> [] \<longleftrightarrow> (\<exists>k \<in> set (dict_keys env). startswith k ''CLOSCALL_'' \<and>
      before_dunder (drop 9 k) \<notin> {''ENVIRONMENT'', ''LOGGING''})"
  proof -
    have "unknown_variables env \<noteq> [] \<longleftrightarrow> set (unknown_variables env) \<noteq> {}" by simp
    then show ?thesis unfolding unknown_variables_def u l set_sort by (auto simp: ENV_PREFIX_def)
  qed
  then show ?thesis unfolding load_settings_def Let_def by presburger
qed

text \<open>Adding the attributes of \<open>extra\<close>: the loop of \<open>format\<close>.\<close>

lemma extras_distinct:
  "distinct (dict_keys d) \<Longrightarrow> distinct (dict_keys (fold (\<lambda>(k, v) d. if k \<notin> X then dict_set k v d else d) as d))"
  by (induction as arbitrary: d) (auto simp del: AList.update.simps)

lemma dict_set_all: "\<forall>p \<in> set d. P (snd p) \<Longrightarrow> P v \<Longrightarrow> \<forall>p \<in> set (dict_set k v d). P (snd p)"
  by (induction d) auto

lemma extras_all:
  "\<forall>p \<in> set as. P (snd p) \<Longrightarrow> \<forall>p \<in> set d. P (snd p) \<Longrightarrow>
   \<forall>p \<in> set (fold (\<lambda>(k, v) d. if k \<notin> X then dict_set k v d else d) as d). P (snd p)"
proof (induction as arbitrary: d)
  case (Cons a as)
  obtain k v where a: "a = (k, v)" by (cases a)
  have "\<forall>p \<in> set (if k \<notin> X then dict_set k v d else d). P (snd p)"
    using Cons.prems a dict_set_all [of d P v k] by auto
  then show ?case using Cons.IH Cons.prems(1) by (simp add: a)
qed simp

lemma extras_get:
  "distinct (dict_keys as) \<Longrightarrow> k \<notin> X \<Longrightarrow>
   dict_get (fold (\<lambda>(k, v) d. if k \<notin> X then dict_set k v d else d) as d) k = (case dict_get as k of Some v \<Rightarrow> Some v | None \<Rightarrow> dict_get d k)"
proof (induction as arbitrary: d)
  case (Cons a as)
  obtain k' v where a: "a = (k', v)" by (cases a)
  have n: "dict_get as k' = None" using Cons.prems(1) by (simp add: a map_of_eq_None_iff)
  show ?case using Cons.IH Cons.prems n by (cases "k = k'") (simp_all add: a split: option.split)
qed simp

lemma payload_distinct: "distinct (dict_keys (log_payload r))"
  by (cases "lg_exception r") (simp_all add: log_payload_def Let_def extras_distinct)

lemma payload_wf: "\<forall>p \<in> set (lg_attrs r). wf_json (snd p) \<Longrightarrow> \<forall>p \<in> set (log_payload r). wf_json (snd p)"
proof -
  assume w: "\<forall>p \<in> set (lg_attrs r). wf_json (snd p)"
  let ?base = "[(''timestamp'', JStr (lg_stamp r)), (''level'', JStr (lg_level r)), (''logger'', JStr (lg_name r)), (''message'', JStr (lg_message r))]"
  let ?p = "fold (\<lambda>(k, v) d. if k \<notin> set STANDARD_ATTRS then dict_set k v d else d) (lg_attrs r) ?base"
  have p: "\<forall>p \<in> set ?p. wf_json (snd p)" by (rule extras_all [OF w]) simp
  have "\<forall>p \<in> set (dict_set ''exception'' (JStr t) ?p). wf_json (snd p)" for t by (rule dict_set_all [OF p]) simp
  with p show ?thesis unfolding log_payload_def Let_def by (simp only: split: option.split) blast
qed

lemma payload_get:
  assumes "distinct (dict_keys (lg_attrs r))" and "k \<notin> set STANDARD_ATTRS" and "k = ''exception'' \<longrightarrow> lg_exception r = None"
    and "dict_get (lg_attrs r) k = Some v"
  shows "dict_get (log_payload r) k = Some v"
  using extras_get [OF assms(1,2)] assms(3,4) by (cases "lg_exception r") (simp_all add: log_payload_def Let_def)

text \<open>A record is written as one line, and the line reads back as its payload, which holds every \<open>extra\<close> attribute
  with its value (\<open>exception\<close> excepted when the record carries one of its own).\<close>

theorem log_line_roundtrip:
  assumes "float_law fr fp" and "\<forall>p \<in> set (lg_attrs r). wf_json (snd p)"
  shows "newline_c \<notin> set (format_record fr r) \<and> loads fp (format_record fr r) = Inr (JObj (log_payload r)) \<and>
    (\<forall>k v. dict_get (lg_attrs r) k = Some v \<and> distinct (dict_keys (lg_attrs r)) \<and>
       k \<notin> set STANDARD_ATTRS \<and> (k = ''exception'' \<longrightarrow> lg_exception r = None) \<longrightarrow> dict_get (log_payload r) k = Some v)"
proof (intro conjI allI impI)
  show "newline_c \<notin> set (format_record fr r)"
  proof
    assume "newline_c \<in> set (format_record fr r)"
    then have "printable newline_c" unfolding format_record_def by (rule printable_dumps [OF assms(1)])
    then show False by (simp add: printable_def)
  qed
  have "wf_json (JObj (log_payload r))" using payload_distinct payload_wf [OF assms(2)] by simp
  then show "loads fp (format_record fr r) = Inr (JObj (log_payload r))"
    unfolding format_record_def by (rule loads_dumps [OF assms(1)])
qed (blast intro: payload_get)

theorem log_line_roundtrip_witness:
  "newline_c \<notin> set (format_record frac_repr \<lparr>lg_stamp = ''t'', lg_level = ''INFO'', lg_name = ''n'', lg_message = [newline_c],
     lg_attrs = [(''incident'', JInt 7), (''args'', JNull)], lg_exception = None\<rparr>)"
proof -
  have "\<forall>p \<in> set (lg_attrs \<lparr>lg_stamp = ''t'', lg_level = ''INFO'', lg_name = ''n'', lg_message = [newline_c],
     lg_attrs = [(''incident'', JInt 7), (''args'', JNull)], lg_exception = None\<rparr>). wf_json (snd p)" by simp
  from log_line_roundtrip [OF frac_law this] show ?thesis by (rule conjunct1)
qed

text \<open>The variable the database address is built from is itself unknown to the settings: a process cannot have both.\<close>

lemma db_password_rejected:
  "load_settings S [(''CLOSCALL_DB_PASSWORD'', pw)] = Inl (ValueError ''unknown environment variables: CLOSCALL_DB_PASSWORD'')"
proof -
  have "unknown_variables [(''CLOSCALL_DB_PASSWORD'', [])] = [''CLOSCALL_DB_PASSWORD'']" by code_simp
  then have "unknown_variables [(''CLOSCALL_DB_PASSWORD'', pw)] = [''CLOSCALL_DB_PASSWORD'']" by (simp add: unknown_variables_def)
  then show ?thesis by (simp add: load_settings_def)
qed

text \<open>An \<open>extra\<close> named like one of the four base members replaces it.\<close>

lemma extra_shadows_level:
  "dict_get (log_payload \<lparr>lg_stamp = [], lg_level = ''ERROR'', lg_name = [], lg_message = [], lg_attrs = [(''level'', JStr ''INFO'')],
     lg_exception = None\<rparr>) ''level'' = Some (JStr ''INFO'')"
  by code_simp

end
