(* ===== verification/Render.thy ===== *)
theory Render
  imports Validate
begin

text \<open>
  The deterministic renderer, \<open>domain/render.py\<close>: switch configurations, the containerlab file, the
  address plan and the manifest. A file's content is its UTF-8 text, so an em dash is three
  characters; the output directory is a dictionary of file contents, in which a run that raises
  leaves what it had written. \<open>sha\<close> is SHA-256.
\<close>

section \<open>Switch configurations\<close>

definition SRL_IMAGE :: string where
  "SRL_IMAGE = ''ghcr.io/nokia/srlinux@sha256:f711ddadbca870996793ac9bb3fccb950aa2c6a906da64a304c5274a2c2dceee''"

definition HOST_IMAGE :: string where
  "HOST_IMAGE = ''ghcr.io/nicolaka/netshoot@sha256:a20c2531bf35436ed3766cd6cfe89d352b050ccc4d7005ce6400adf97503da1b''"

definition HOST_SUMMARY_ROUTE :: string where "HOST_SUMMARY_ROUTE = ''172.16.0.0/16''"

text \<open>\<open>next(n for n in topo.nodes if n.name == name)\<close>, and the address without its prefix length.\<close>

definition node_named :: "resolved_topology \<Rightarrow> string \<Rightarrow> resolved_node res" where
  "node_named topo name = (case find (\<lambda>n. n_name n = name) (rt_nodes topo) of None \<Rightarrow> Inl StopIteration | Some n \<Rightarrow> Inr n)"

definition host_part :: "string \<Rightarrow> string" where "host_part a = text_before (CHR ''/'') a"

definition lines_text :: "string list \<Rightarrow> string" where "lines_text ls = join [newline_c] ls @ [newline_c]"

definition endpoint_entry :: "string \<Rightarrow> resolved_endpoint \<Rightarrow> (string \<times> string) list" where
  "endpoint_entry node ep =
     (if ep_node ep = node then (case ep_address ep of None \<Rightarrow> [] | Some a \<Rightarrow> [(ep_interface ep, a)]) else [])"

definition switch_endpoints :: "resolved_topology \<Rightarrow> string \<Rightarrow> (string \<times> string) list" where
  "switch_endpoints topo node =
     sort (concat (map (\<lambda>lk. endpoint_entry node (l_a lk) @ endpoint_entry node (l_b lk)) (rt_links topo)))"

definition interface_lines :: "string \<times> string \<Rightarrow> string list" where
  "interface_lines ia = (case ia of (iface, addr) \<Rightarrow>
     [''set / interface '' @ iface @ '' admin-state enable'',
      ''set / interface '' @ iface @ '' subinterface 0 admin-state enable'',
      ''set / interface '' @ iface @ '' subinterface 0 ipv4 admin-state enable'',
      ''set / interface '' @ iface @ '' subinterface 0 ipv4 address '' @ addr])"

definition truthy :: "string option \<Rightarrow> bool" where "truthy s \<longleftrightarrow> s \<noteq> None \<and> s \<noteq> Some []"

definition fabric_prefixes :: "resolved_topology \<Rightarrow> string list" where
  "fabric_prefixes topo = sort (map the (filter truthy (map n_loopback (rt_nodes topo))) @ map hn_subnet (rt_host_networks topo))"

definition own_prefixes :: "resolved_topology \<Rightarrow> string \<Rightarrow> string \<Rightarrow> string list" where
  "own_prefixes topo node_name lo_host =
     (lo_host @ ''/32'') # map hn_subnet (filter (\<lambda>hn. hn_leaf hn = node_name) (rt_host_networks topo))"

definition prefix_line :: "string \<Rightarrow> string \<Rightarrow> string res" where
  "prefix_line name pfx = bindr (ip_network pfx) (\<lambda>net. let plen = show_nat (prefixlen net) in
     Inr (''set / routing-policy prefix-set '' @ name @ '' prefix '' @ pfx @ '' mask-length-range '' @ plen @ ''..'' @ plen))"

definition import_lines :: "string list" where
  "import_lines =
     [''set / routing-policy policy import-fabric statement 10 match prefix prefix-set fabric'',
      ''set / routing-policy policy import-fabric statement 10 action policy-result accept'',
      ''set / routing-policy policy import-fabric default-action policy-result reject'']"

definition export_lines :: "role \<Rightarrow> string list" where
  "export_lines r =
     (let pol = ''set / routing-policy policy export-fabric'' in
      [pol @ '' statement 10 match prefix prefix-set '' @ (if r = Leaf then ''local'' else ''fabric''),
       pol @ '' statement 10 action policy-result accept'',
       pol @ '' default-action policy-result reject''])"

definition net_inst :: string where "net_inst = ''set / network-instance default''"
definition bgp :: string where "bgp = net_inst @ '' protocols bgp''"

text \<open>The far end of each fabric link of a node, as the node's BGP neighbours.\<close>

definition far_end :: "string \<Rightarrow> resolved_link \<Rightarrow> resolved_endpoint list" where
  "far_end node lk =
     (if l_kind lk \<noteq> Fabric_link then []
      else if ep_node (l_a lk) = node then [l_b lk]
      else if ep_node (l_b lk) = node then [l_a lk]
      else [])"

definition neighbor :: "resolved_topology \<Rightarrow> resolved_endpoint \<Rightarrow> (string \<times> int) res" where
  "neighbor topo far = bindr (node_named topo (ep_node far)) (\<lambda>n.
     case n_asn n of None \<Rightarrow> Inl AssertionError | Some asn \<Rightarrow> Inr (host_part (the (ep_address far)), asn))"

definition bgp_neighbors :: "resolved_topology \<Rightarrow> string \<Rightarrow> (string \<times> int) list res" where
  "bgp_neighbors topo node =
     map_res (neighbor topo) (filter (\<lambda>far. ep_address far \<noteq> None) (concat (map (far_end node) (rt_links topo))))"

definition neighbor_lines :: "string \<times> int \<Rightarrow> string list" where
  "neighbor_lines na = (case na of (ip, asn) \<Rightarrow>
     [bgp @ '' neighbor '' @ ip @ '' peer-group ebgp'', bgp @ '' neighbor '' @ ip @ '' peer-as '' @ show_int asn])"

definition bgp_lines :: "int \<Rightarrow> string \<Rightarrow> string list" where
  "bgp_lines asn lo_host = map (\<lambda>x. bgp @ x)
     ['' admin-state enable'', '' autonomous-system '' @ show_int asn, '' router-id '' @ lo_host,
      '' afi-safi ipv4-unicast admin-state enable'', '' afi-safi ipv4-unicast multipath allow-multiple-as true'',
      '' afi-safi ipv4-unicast multipath ebgp maximum-paths 2'', '' group ebgp export-policy [export-fabric]'',
      '' group ebgp import-policy [import-fabric]'']"

definition srl_lines :: "resolved_topology \<Rightarrow> string \<Rightarrow> string list res" where
  "srl_lines topo node_name =
     bindr (node_named topo node_name) (\<lambda>node.
       case (n_role node \<noteq> Host, n_asn node, n_loopback node) of
         (True, Some asn, Some lo) \<Rightarrow>
           (let eps = switch_endpoints topo node_name; lo_host = host_part lo in
            bindr (map_res (prefix_line ''fabric'') (fabric_prefixes topo)) (\<lambda>fabric.
            bindr (map_res (prefix_line ''local'') (sort (own_prefixes topo node_name lo_host))) (\<lambda>local.
            bindr (bgp_neighbors topo node_name) (\<lambda>nbrs.
              Inr (concat (map interface_lines eps) @ interface_lines (''system0'', lo) @ fabric @ local @ import_lines @
                export_lines (n_role node) @ [net_inst @ '' type default'', net_inst @ '' admin-state enable''] @
                map (\<lambda>(iface, _). net_inst @ '' interface '' @ iface @ ''.0'') eps @ [net_inst @ '' interface system0.0''] @
                bgp_lines asn lo_host @ concat (map neighbor_lines (sort nbrs)))))))
       | _ \<Rightarrow> Inl AssertionError)"

definition render_srl_config :: "resolved_topology \<Rightarrow> string \<Rightarrow> string res" where
  "render_srl_config topo node_name = bindr (srl_lines topo node_name) (\<lambda>ls. Inr (lines_text ls))"

section \<open>Containerlab topology\<close>

definition em_dash :: string where "em_dash = [CHR 0xE2, CHR 0x80, CHR 0x94]"

definition host_entry :: "resolved_link \<Rightarrow> (string \<times> string \<times> string) option" where
  "host_entry lk =
     (if l_kind lk = Access_link \<and> truthy (ep_address (l_b lk))
      then Some (ep_interface (l_b lk), the (ep_address (l_b lk)),
        if truthy (ep_address (l_a lk)) then host_part (the (ep_address (l_a lk))) else [])
      else None)"

definition host_data :: "resolved_topology \<Rightarrow> (string, string \<times> string \<times> string) dict" where
  "host_data topo = fold (\<lambda>lk d. case host_entry lk of None \<Rightarrow> d | Some e \<Rightarrow> dict_set (ep_node (l_b lk)) e d) (rt_links topo) []"

definition clab_node :: "(string, string \<times> string \<times> string) dict \<Rightarrow> resolved_node \<Rightarrow> string list res" where
  "clab_node data n =
     (if n_role n = Host
      then bindr (dict_index data (n_name n)) (\<lambda>(iface, addr, gw).
        Inr [''    '' @ n_name n @ '':'', ''      kind: linux'', ''      image: '' @ HOST_IMAGE, ''      mgmt-ipv4: '' @ n_management n,
          ''      exec:'', ''        - ip address add '' @ addr @ '' dev '' @ iface,
          ''        - ip route add '' @ HOST_SUMMARY_ROUTE @ '' via '' @ gw])
      else Inr [''    '' @ n_name n @ '':'', ''      kind: nokia_srlinux'', ''      image: '' @ SRL_IMAGE,
          ''      startup-config: '' @ n_name n @ ''.cli'', ''      mgmt-ipv4: '' @ n_management n])"

definition end_text :: "resolved_endpoint \<Rightarrow> string" where "end_text ep = ep_node ep @ '':'' @ ep_interface ep"

definition render_clab :: "resolved_topology \<Rightarrow> string res" where
  "render_clab topo =
     bindr (ip_network (rt_management_supernet topo)) (\<lambda>mgmt_net.
     bindr (ip_address (net_last mgmt_net - 1)) (\<lambda>mgmt_gw.
     bindr (map_res (clab_node (host_data topo)) (sort_key n_name (rt_nodes topo))) (\<lambda>ns.
       Inr (lines_text
         ([''# GENERATED from lab/fabric.yaml '' @ em_dash @ '' do not edit (Bible '' @ [CHR 0xC2, CHR 0xA7] @ ''5). Regenerate via `make render`.'',
           ''name: '' @ rt_name topo, ''mgmt:'', ''  network: closcall-mgmt'', ''  ipv4-subnet: '' @ show_network mgmt_net,
           ''  ipv4-gw: '' @ mgmt_gw, ''topology:'', ''  nodes:''] @ concat ns @ [''  links:''] @
          map (\<lambda>lk. ''    - endpoints: ['' @ end_text (l_a lk) @ '', '' @ end_text (l_b lk) @ '']'') (sort_key l_key (rt_links topo)))))))"

section \<open>Address plan and manifest\<close>

definition opt_text :: "string option \<Rightarrow> string" where "opt_text s = (case s of None \<Rightarrow> ''None'' | Some t \<Rightarrow> t)"

definition ipam_row :: "resolved_node \<Rightarrow> string" where
  "ipam_row n = ''| '' @ n_name n @ '' | '' @ role_str (n_role n) @ '' | '' @
     (case n_asn n of None \<Rightarrow> ''-'' | Some a \<Rightarrow> if a = 0 then ''-'' else show_int a) @ '' | '' @
     (if truthy (n_loopback n) then the (n_loopback n) else ''-'') @ '' | '' @ n_management n @ '' |''"

definition render_ipam_doc :: "resolved_topology \<Rightarrow> string" where
  "render_ipam_doc topo = lines_text
     ([''# IPAM '' @ em_dash @ '' '' @ rt_name topo @ '' (GENERATED; do not edit)'', [], ''## Nodes'', [],
       ''| node | role | ASN | loopback | mgmt |'', ''|---|---|---|---|---|''] @
      map ipam_row (sort_key n_name (rt_nodes topo)) @
      [[], ''## Fabric links (/31)'', [], ''| link | leaf end | spine end |'', ''|---|---|---|''] @
      map (\<lambda>lk. ''| '' @ l_key lk @ '' | '' @ end_text (l_a lk) @ '' '' @ opt_text (ep_address (l_a lk)) @ '' | '' @
          end_text (l_b lk) @ '' '' @ opt_text (ep_address (l_b lk)) @ '' |'')
        (sort_key l_key (filter (\<lambda>lk. l_kind lk = Fabric_link) (rt_links topo))) @
      [[], ''## Host networks'', [], ''| leaf | subnet | gateway | host |'', ''|---|---|---|---|''] @
      map (\<lambda>hn. ''| '' @ hn_leaf hn @ '' | '' @ hn_subnet hn @ '' | '' @ hn_gateway hn @ '' | '' @ hn_host_ip hn @ '' |'')
        (sort_key hn_leaf (rt_host_networks topo)))"

text \<open>\<open>json.dumps(.., indent=2, sort_keys=True)\<close>; \<open>k\<close> is the depth.\<close>

definition indent :: "nat \<Rightarrow> string" where "indent k = newline_c # replicate (2 * k) (CHR '' '')"

fun dumps_indent :: "(pyfloat \<Rightarrow> string) \<Rightarrow> nat \<Rightarrow> json \<Rightarrow> string" where
  "dumps_indent fr k (JArr (x # xs)) =
     ''['' @ indent (Suc k) @ join ('','' @ indent (Suc k)) (map (dumps_indent fr (Suc k)) (x # xs)) @ indent k @ '']''"
| "dumps_indent fr k (JObj (p # ps)) =
     ''{'' @ indent (Suc k) @
       join ('','' @ indent (Suc k)) (map (\<lambda>(key, v). dump_str key @ '': '' @ dumps_indent fr (Suc k) v) (p # ps)) @
       indent k @ ''}''"
| "dumps_indent fr k v = dumps fr v"

definition json_text :: "(pyfloat \<Rightarrow> string) \<Rightarrow> json \<Rightarrow> string" where
  "json_text fr v = dumps_indent fr 0 (canon v) @ [newline_c]"

definition json_opt :: "string option \<Rightarrow> json" where "json_opt s = (case s of None \<Rightarrow> JNull | Some t \<Rightarrow> JStr t)"

definition node_json :: "resolved_node \<Rightarrow> json" where
  "node_json n = JObj [(''name'', JStr (n_name n)), (''role'', JStr (role_str (n_role n))),
     (''asn'', case n_asn n of None \<Rightarrow> JNull | Some a \<Rightarrow> JInt a), (''loopback'', json_opt (n_loopback n)),
     (''management'', JStr (n_management n))]"

definition endpoint_json :: "resolved_endpoint \<Rightarrow> json" where
  "endpoint_json ep = JObj [(''node'', JStr (ep_node ep)), (''interface'', JStr (ep_interface ep)), (''address'', json_opt (ep_address ep))]"

definition link_json :: "resolved_link \<Rightarrow> json" where
  "link_json l = JObj [(''key'', JStr (l_key l)), (''kind'', JStr (link_kind_str (l_kind l))), (''a'', endpoint_json (l_a l)),
     (''b'', endpoint_json (l_b l)), (''capacity_bps'', JInt (l_capacity l)), (''mtu'', JInt (l_mtu l))]"

definition host_network_json :: "resolved_host_network \<Rightarrow> json" where
  "host_network_json hn = JObj [(''leaf'', JStr (hn_leaf hn)), (''subnet'', JStr (hn_subnet hn)), (''gateway'', JStr (hn_gateway hn)),
     (''host_ip'', JStr (hn_host_ip hn))]"

definition topology_json :: "resolved_topology \<Rightarrow> json" where
  "topology_json topo = JObj [(''name'', JStr (rt_name topo)), (''management_supernet'', JStr (rt_management_supernet topo)),
     (''nodes'', JArr (map node_json (rt_nodes topo))), (''links'', JArr (map link_json (rt_links topo))),
     (''host_networks'', JArr (map host_network_json (rt_host_networks topo)))]"

definition manifest_json :: "resolved_topology \<Rightarrow> (string, string) dict \<Rightarrow> json" where
  "manifest_json topo files = JObj [(''topology'', JStr (rt_name topo)), (''files'', JObj (map (\<lambda>(k, v). (k, JStr v)) (sort_key fst files)))]"

text \<open>The files in the order they are rendered and written; a file is rendered just before it is written.\<close>

definition artifacts :: "(pyfloat \<Rightarrow> string) \<Rightarrow> resolved_topology \<Rightarrow> (string \<times> string res) list" where
  "artifacts fr topo =
     map (\<lambda>n. (n_name n @ ''.cli'', render_srl_config topo (n_name n))) (filter (\<lambda>n. n_role n \<noteq> Host) (sort_key n_name (rt_nodes topo))) @
     [(''topology-srl.clab.yml'', render_clab topo),
      (''topology.json'', Inr (json_text fr (topology_json topo))),
      (''ipam.md'', Inr (render_ipam_doc topo))]"

type_synonym directory = "(string, string) dict"

fun write_files :: "(string \<Rightarrow> string) \<Rightarrow> (string \<times> string res) list \<Rightarrow> directory \<Rightarrow> directory \<Rightarrow> directory \<times> directory res" where
  "write_files sha [] out files = (out, Inr files)"
| "write_files sha ((name, content) # rest) out files =
     (case content of
        Inl e \<Rightarrow> (out, Inl e)
      | Inr c \<Rightarrow> write_files sha rest (dict_set name c out) (dict_set name (sha c) files))"

definition render_all :: "(string \<Rightarrow> string) \<Rightarrow> (pyfloat \<Rightarrow> string) \<Rightarrow> fabric_spec \<Rightarrow> directory \<Rightarrow> directory \<times> directory res" where
  "render_all sha fr spec out =
     (case allocate spec of
        Inl e \<Rightarrow> (out, Inl e)
      | Inr topo \<Rightarrow>
          (case write_files sha (artifacts fr topo) out [] of
             (out', Inl e) \<Rightarrow> (out', Inl e)
           | (out', Inr files) \<Rightarrow> (dict_set ''manifest.json'' (json_text fr (manifest_json topo files)) out', Inr files)))"

section \<open>Lemmas\<close>

lemma find_unique: "distinct (map f xs) \<Longrightarrow> x \<in> set xs \<Longrightarrow> find (\<lambda>y. f y = f x) xs = Some x"
  by (induction xs) auto

lemma parse_ip4_range: "parse_ip4 s = Some n \<Longrightarrow> 0 \<le> n \<and> n < 4294967296"
proof -
  assume "parse_ip4 s = Some n"
  then obtain a b c d where o: "map parse_octet (split_on (CHR ''.'') s) = [Some a, Some b, Some c, Some d]"
    and n: "n = ((a * 256 + b) * 256 + c) * 256 + d"
    by (auto simp: parse_ip4_def split: list.splits option.splits)
  have r: "0 \<le> x \<and> x \<le> 255" if "Some x \<in> set (map parse_octet (split_on (CHR ''.'') s))" for x
    using that by (auto simp: parse_octet_def split: if_splits)
  have "0 \<le> a \<and> a \<le> 255" "0 \<le> b \<and> b \<le> 255" "0 \<le> c \<and> c \<le> 255" "0 \<le> d \<and> d \<le> 255"
    using r unfolding o by auto
  then show ?thesis unfolding n by auto
qed

lemma read_int_digits: "all_digits s \<Longrightarrow> read_int s = int (read_nat s)"
  by (cases s) (auto simp: all_digits_def read_int_def is_digit_def)

lemma ip_network_range:
  assumes "ip_network s = Inr net"
  shows "0 \<le> net_base net" and "net_last net < 4294967296"
proof -
  from assms obtain n p where np: "net = \<lparr>net_base = n, prefixlen = p\<rparr>" "n mod net_size p = 0" "0 \<le> n" "n < 4294967296" "p \<le> 32"
    by (auto simp: ip_network_def parse_prefix_def Let_def read_int_digits dest!: parse_ip4_range split: list.splits option.splits if_splits bind_splits)
  obtain q where q: "n = net_size p * q" using np(2) by auto
  have r: "4294967296 = net_size p * 2 ^ p"
    using np(5) by (simp add: net_size_def flip: power_add)
  have "q < 2 ^ p" using np(4) unfolding q r by simp
  then have "net_size p * (q + 1) \<le> net_size p * 2 ^ p" by simp
  then have "n + net_size p \<le> 4294967296" unfolding q r by (simp add: algebra_simps)
  then show "0 \<le> net_base net" "net_last net < 4294967296"
    using np(3) by (simp_all add: np(1) net_last_def num_addresses_def)
qed

lemma ip_network_host_route:
  "0 \<le> n \<Longrightarrow> n < 4294967296 \<Longrightarrow> ip_network (show_ip4 n @ ''/32'') = Inr \<lparr>net_base = n, prefixlen = 32\<rparr>"
proof -
  assume n: "0 \<le> n" "n < 4294967296"
  have p: "parse_prefix ''32'' = Some 32" by code_simp
  have "split_on (CHR ''/'') (show_ip4 n @ ''/32'') = [show_ip4 n, ''32'']"
    using split_on_append [OF show_ip4_no_slash, of n "''32''"] by simp
  then show ?thesis by (simp add: ip_network_def parse_show_ip4 [OF n] p net_size_def)
qed

text \<open>The nodes of an allocation: every switch and host of the specification, and nothing else.\<close>

lemma resolve_switch_Inr:
  "resolve_switch r lo m (k, sw) = Inr n \<Longrightarrow>
     n_name n = sw_name sw \<and> n_role n = r \<and> n_asn n = Some (sw_asn sw) \<and>
     (\<exists>t. ip_address (lo + int k) = Inr t \<and> n_loopback n = Some (t @ ''/32''))"
  by (auto simp: resolve_switch_def bindr_Inr_iff)

lemma map_res_enumerate:
  "map_res f (enumerate k xs) = Inr ys \<longleftrightarrow> length ys = length xs \<and> (\<forall>i < length xs. f (k + i, xs ! i) = Inr (ys ! i))"
  by (auto simp: map_res_Inr_iff list_all2_conv_all_nth nth_enumerate_eq)

lemma resolve_nodes_parts:
  assumes "resolve_nodes spec lo m = Inr ns"
  obtains ss ls hs where "ns = ss @ ls @ hs"
    "map_res (resolve_switch Spine lo m) (enumerate 1 (spines (nodes spec))) = Inr ss"
    "map_res (resolve_switch Leaf lo m) (enumerate (1 + length (spines (nodes spec))) (leaves (nodes spec))) = Inr ls"
    "map_res (resolve_host m) (enumerate (1 + length (spines (nodes spec)) + length (leaves (nodes spec))) (hosts (nodes spec))) = Inr hs"
  using assms unfolding resolve_nodes_def Let_def bindr_Inr_iff by blast

definition switch_node :: "int \<Rightarrow> nat \<Rightarrow> switch_spec \<Rightarrow> resolved_node \<Rightarrow> bool" where
  "switch_node lo N sw n \<longleftrightarrow> n_name n = sw_name sw \<and> n_role n \<noteq> Host \<and> n_asn n = Some (sw_asn sw) \<and>
     (\<exists>k t. 1 \<le> k \<and> k \<le> N \<and> ip_address (lo + int k) = Inr t \<and> n_loopback n = Some (t @ ''/32''))"

lemma resolve_nodes_switches:
  assumes "resolve_nodes spec lo m = Inr ns"
  shows "list_all2 (switch_node lo (length (switches spec))) (switches spec) (filter (\<lambda>n. n_role n \<noteq> Host) ns)"
proof -
  obtain ss ls hs where ns: "ns = ss @ ls @ hs"
    and s: "map_res (resolve_switch Spine lo m) (enumerate 1 (spines (nodes spec))) = Inr ss"
    and l: "map_res (resolve_switch Leaf lo m) (enumerate (1 + length (spines (nodes spec))) (leaves (nodes spec))) = Inr ls"
    and h: "map_res (resolve_host m) (enumerate (1 + length (spines (nodes spec)) + length (leaves (nodes spec))) (hosts (nodes spec))) = Inr hs"
    using assms by (rule resolve_nodes_parts)
  have S: "list_all2 (switch_node lo (length (switches spec))) (spines (nodes spec)) ss"
    unfolding list_all2_conv_all_nth
  proof (intro conjI allI impI)
    show "length (spines (nodes spec)) = length ss" using s by (simp add: map_res_enumerate)
    fix i assume "i < length (spines (nodes spec))"
    with s have "resolve_switch Spine lo m (1 + i, spines (nodes spec) ! i) = Inr (ss ! i)" "1 + i \<le> length (switches spec)"
      by (simp_all add: map_res_enumerate switches_def)
    then show "switch_node lo (length (switches spec)) (spines (nodes spec) ! i) (ss ! i)"
      using resolve_switch_Inr unfolding switch_node_def by fastforce
  qed
  have L: "list_all2 (switch_node lo (length (switches spec))) (leaves (nodes spec)) ls"
    unfolding list_all2_conv_all_nth
  proof (intro conjI allI impI)
    show "length (leaves (nodes spec)) = length ls" using l by (simp add: map_res_enumerate)
    fix i assume "i < length (leaves (nodes spec))"
    with l have "resolve_switch Leaf lo m (1 + length (spines (nodes spec)) + i, leaves (nodes spec) ! i) = Inr (ls ! i)"
      "1 + length (spines (nodes spec)) + i \<le> length (switches spec)"
      by (simp_all add: map_res_enumerate switches_def)
    then show "switch_node lo (length (switches spec)) (leaves (nodes spec) ! i) (ls ! i)"
      using resolve_switch_Inr unfolding switch_node_def by fastforce
  qed
  have "n_role n = Host" if "n \<in> set hs" for n
    using h that by (rule map_res_all) (auto simp: resolve_host_def bindr_Inr_iff split: prod.splits)
  then have H: "filter (\<lambda>n. n_role n \<noteq> Host) hs = []" by (simp add: filter_empty_conv)
  have sw: "filter (\<lambda>n. n_role n \<noteq> Host) ys = ys" if "list_all2 (switch_node lo N) xs ys" for N xs ys
    using that by induction (simp_all add: switch_node_def)
  have "filter (\<lambda>n. n_role n \<noteq> Host) ns = ss @ ls" unfolding ns by (simp add: H sw [OF S] sw [OF L])
  then show ?thesis using S L by (simp add: switches_def list_all2_appendI)
qed

lemma list_all2_in: "list_all2 P xs ys \<Longrightarrow> x \<in> set xs \<Longrightarrow> \<exists>y \<in> set ys. P x y"
  by (induction rule: list_all2_induct) auto

lemma list_all2_in2: "list_all2 P xs ys \<Longrightarrow> y \<in> set ys \<Longrightarrow> \<exists>x \<in> set xs. P x y"
  by (induction rule: list_all2_induct) auto

lemma in_enumerate: "x \<in> set xs \<Longrightarrow> \<exists>k. (k, x) \<in> set (enumerate n xs)"
  by (induction xs arbitrary: n) auto

lemma enumerate_in: "(k, x) \<in> set (enumerate n xs) \<Longrightarrow> x \<in> set xs"
  by (induction xs arbitrary: n) auto

lemma hex_nat_no_slash: "CHR ''/'' \<notin> set (hex_nat n)"
proof (induction n rule: hex_nat.induct)
  case (1 n)
  have d: "hex_digit d \<noteq> CHR ''/''" if "d < 16" for d
  proof
    assume "hex_digit d = CHR ''/''"
    then have "of_char (hex_digit d) = (47 :: nat)" by simp
    then show False using that by (auto simp: hex_digit_def split: if_splits)
  qed
  show ?case using 1 d [of n] d [of "n mod 16"] by (subst hex_nat.simps) (auto simp: eq_commute)
qed

lemma ip_address_no_slash: "ip_address n = Inr t \<Longrightarrow> CHR ''/'' \<notin> set t"
proof -
  have h: "CHR ''/'' \<notin> set (join '':'' (map (\<lambda>g. hex_nat (nat g)) gs))" for gs
    using set_join [of "'':''" "map (\<lambda>g. hex_nat (nat g)) gs"] hex_nat_no_slash by auto
  have "CHR ''/'' \<notin> set (show_ip6 n)" unfolding show_ip6_def Let_def using h by simp
  then show "ip_address n = Inr t \<Longrightarrow> CHR ''/'' \<notin> set t"
    using show_ip4_no_slash by (auto simp: ip_address_def split: if_splits)
qed

lemma host_part_append: "CHR ''/'' \<notin> set a \<Longrightarrow> host_part (a @ CHR ''/'' # p) = a"
  by (simp add: host_part_def text_before_append)

lemma switch_named:
  assumes "allocate spec = Inr topo" and "distinct (all_names spec)" and "sw \<in> set (switches spec)"
  shows "\<exists>n. node_named topo (sw_name sw) = Inr n \<and> n_asn n = Some (sw_asn sw)"
proof -
  obtain p2p lo mgmt :: ip_network and ns fls als where r: "resolve_nodes spec (net_base lo) (net_base mgmt) = Inr ns"
    and t: "rt_nodes topo = ns"
    using assms(1) by (rule allocate_Inr) (rule that)
  obtain n where
    n: "n \<in> set ns" "n_name n = sw_name sw" "n_asn n = Some (sw_asn sw)"
    using list_all2_in [OF resolve_nodes_switches [OF r] assms(3)] by (auto simp: switch_node_def)
  have "distinct (map n_name ns)" using assms(2) by (simp add: resolve_nodes_names [OF r])
  from find_unique [OF this n(1)] show ?thesis using n(2,3) by (simp add: node_named_def t)
qed

text \<open>The fabric links of an allocation: one for each leaf and spine, and nothing else.\<close>

lemma host_part_ip: "ip_address n = Inr t \<Longrightarrow> host_part (t @ ''/31'') = t \<and> host_part (t @ ''/32'') = t"
  using host_part_append [OF ip_address_no_slash] by simp

definition link_of :: "resolved_link \<Rightarrow> switch_spec \<Rightarrow> switch_spec \<Rightarrow> string \<Rightarrow> string \<Rightarrow> bool" where
  "link_of l leaf spine ia ib \<longleftrightarrow> l_kind l = Fabric_link \<and> ep_node (l_a l) = sw_name leaf \<and> ep_node (l_b l) = sw_name spine \<and>
     ep_address (l_a l) = Some (ia @ ''/31'') \<and> ep_address (l_b l) = Some (ib @ ''/31'') \<and> host_part (ia @ ''/31'') = ia \<and> host_part (ib @ ''/31'') = ib"

lemma fabric_link_of: "fabric_link spec b (n, leaf) (s, spine) = Inr l \<Longrightarrow> \<exists>ia ib. link_of l leaf spine ia ib"
  by (auto simp: fabric_link_def link_of_def bindr_Inr_iff Let_def dest!: host_part_ip)

lemma fabric_links_cover:
  assumes "allocate spec = Inr topo" and "leaf \<in> set (leaves (nodes spec))" and "spine \<in> set (spines (nodes spec))"
  shows "\<exists>l \<in> set (rt_links topo). \<exists>ia ib. link_of l leaf spine ia ib"
proof -
  obtain p2p :: ip_network and fls where f: "fabric_links spec (net_base p2p) = Inr fls" and t: "set fls \<subseteq> set (rt_links topo)"
    using assms(1) by (rule allocate_Inr) (auto intro: that)
  obtain n s where "(n, leaf) \<in> set (enumerate 1 (leaves (nodes spec)))" "(s, spine) \<in> set (enumerate 1 (spines (nodes spec)))"
    using assms(2,3) in_enumerate by metis
  then have "((n, leaf), (s, spine)) \<in> set (List.product (enumerate 1 (leaves (nodes spec))) (enumerate 1 (spines (nodes spec))))"
    by simp
  from list_all2_in [OF map_res_Inr_iff [THEN iffD1, OF f [unfolded fabric_links_def]] this]
  obtain l where l: "l \<in> set fls" "fabric_link spec (net_base p2p) (n, leaf) (s, spine) = Inr l" by auto
  from fabric_link_of [OF l(2)] l(1) t show ?thesis by blast
qed

lemma fabric_links_only:
  assumes "allocate spec = Inr topo" and "l \<in> set (rt_links topo)" and "l_kind l = Fabric_link"
  shows "\<exists>leaf \<in> set (leaves (nodes spec)). \<exists>spine \<in> set (spines (nodes spec)). \<exists>ia ib. link_of l leaf spine ia ib"
proof -
  obtain p2p :: ip_network and fls where f: "fabric_links spec (net_base p2p) = Inr fls"
    and t: "filter (\<lambda>l. l_kind l = Fabric_link) (rt_links topo) = fls"
    using assms(1) by (rule allocate_Inr) (rule that)
  have "l \<in> set fls" using assms(2,3) unfolding t [symmetric] by simp
  from list_all2_in2 [OF map_res_Inr_iff [THEN iffD1, OF f [unfolded fabric_links_def]] this]
  obtain n leaf s spine where p: "(n, leaf) \<in> set (enumerate 1 (leaves (nodes spec)))" "(s, spine) \<in> set (enumerate 1 (spines (nodes spec)))"
    "fabric_link spec (net_base p2p) (n, leaf) (s, spine) = Inr l" by auto
  show ?thesis using fabric_link_of [OF p(3)] p(1,2) enumerate_in by metis
qed

lemma names_apart:
  assumes "distinct (all_names spec)" and "leaf \<in> set (leaves (nodes spec))" and "spine \<in> set (spines (nodes spec))"
  shows "sw_name leaf \<noteq> sw_name spine"
  using assms by (auto simp: all_names_def switches_def)

text \<open>The neighbours of a switch are read off its links, in the order of the links; the far end is a switch.\<close>

lemma bgp_neighbors_total:
  assumes "allocate spec = Inr topo" and "distinct (all_names spec)"
  shows "\<exists>ns. bgp_neighbors topo x = Inr ns \<and>
    set ns = {(host_part a, asn) |a asn. \<exists>l \<in> set (rt_links topo). \<exists>ep \<in> set (far_end x l). \<exists>n.
      ep_address ep = Some a \<and> node_named topo (ep_node ep) = Inr n \<and> n_asn n = Some asn}"
proof -
  let ?fars = "filter (\<lambda>far. ep_address far \<noteq> None) (concat (map (far_end x) (rt_links topo)))"
  have ok: "\<exists>n asn. node_named topo (ep_node ep) = Inr n \<and> n_asn n = Some asn" if "l \<in> set (rt_links topo)" "ep \<in> set (far_end x l)" for l ep
  proof -
    have k: "l_kind l = Fabric_link" and e: "ep = l_a l \<or> ep = l_b l" using that(2) by (auto simp: far_end_def split: if_splits)
    from fabric_links_only [OF assms(1) that(1) k] obtain leaf spine ia ib where
      ls: "leaf \<in> set (switches spec)" "spine \<in> set (switches spec)" "link_of l leaf spine ia ib"
      by (auto simp: switches_def)
    then have "\<exists>sw \<in> set (switches spec). ep_node ep = sw_name sw" using e by (auto simp: link_of_def)
    then show ?thesis using switch_named [OF assms] by metis
  qed
  define g where "g far = (host_part (the (ep_address far)), the (n_asn (case node_named topo (ep_node far) of Inr n \<Rightarrow> n)))" for far :: resolved_endpoint
  have g: "neighbor topo far = Inr (g far)" if "far \<in> set ?fars" for far
  proof -
    from that obtain l where "l \<in> set (rt_links topo)" "far \<in> set (far_end x l)" by auto
    from ok [OF this] show ?thesis by (auto simp: neighbor_def g_def)
  qed
  have "bgp_neighbors topo x = Inr (map g ?fars)" unfolding bgp_neighbors_def using g by (rule map_res_total)
  moreover have "set (map g ?fars) = {(host_part a, asn) |a asn. \<exists>l \<in> set (rt_links topo). \<exists>ep \<in> set (far_end x l). \<exists>n.
      ep_address ep = Some a \<and> node_named topo (ep_node ep) = Inr n \<and> n_asn n = Some asn}" (is "?L = ?R")
  proof (intro set_eqI iffI)
    fix y assume "y \<in> ?L"
    then obtain l ep a where e: "l \<in> set (rt_links topo)" "ep \<in> set (far_end x l)" "ep_address ep = Some a" "y = g ep" by auto
    from ok [OF e(1,2)] e show "y \<in> ?R" by (fastforce simp: g_def)
  next
    fix y assume "y \<in> ?R"
    then show "y \<in> ?L" by (force simp: g_def)
  qed
  ultimately show ?thesis by blast
qed

lemma switch_name_inj:
  "distinct (all_names spec) \<Longrightarrow> a \<in> set (switches spec) \<Longrightarrow> b \<in> set (switches spec) \<Longrightarrow> sw_name a = sw_name b \<Longrightarrow> a = b"
  by (auto simp: all_names_def dest: inj_onD simp: distinct_map)

lemma far_end_leaf:
  assumes "allocate spec = Inr topo" and "distinct (all_names spec)" and "leaf \<in> set (leaves (nodes spec))" and "l \<in> set (rt_links topo)"
  shows "ep \<in> set (far_end (sw_name leaf) l) \<longleftrightarrow> (\<exists>s \<in> set (spines (nodes spec)). \<exists>ia ib. link_of l leaf s ia ib) \<and> ep = l_b l" (is "?L \<longleftrightarrow> ?R")
proof
  assume L: ?L
  then have "l_kind l = Fabric_link" by (auto simp: far_end_def split: if_splits)
  from fabric_links_only [OF assms(1,4) this] obtain f s ia ib where
    f: "f \<in> set (leaves (nodes spec))" "s \<in> set (spines (nodes spec))" "link_of l f s ia ib" by blast
  have n: "sw_name leaf \<noteq> sw_name s" by (rule names_apart [OF assms(2,3) f(2)])
  have e: "ep_node (l_a l) = sw_name leaf \<and> ep = l_b l" using L f(3) n by (auto simp: far_end_def link_of_def split: if_splits)
  then have "f = leaf" using switch_name_inj [OF assms(2), of f leaf] f(1,3) assms(3) by (auto simp: link_of_def switches_def)
  with f e show ?R by blast
next
  assume ?R
  then show ?L by (auto simp: far_end_def link_of_def)
qed

lemma far_end_spine:
  assumes "allocate spec = Inr topo" and "distinct (all_names spec)" and "spine \<in> set (spines (nodes spec))" and "l \<in> set (rt_links topo)"
  shows "ep \<in> set (far_end (sw_name spine) l) \<longleftrightarrow> (\<exists>f \<in> set (leaves (nodes spec)). \<exists>ia ib. link_of l f spine ia ib) \<and> ep = l_a l" (is "?L \<longleftrightarrow> ?R")
proof
  assume L: ?L
  then have "l_kind l = Fabric_link" by (auto simp: far_end_def split: if_splits)
  from fabric_links_only [OF assms(1,4) this] obtain f s ia ib where
    f: "f \<in> set (leaves (nodes spec))" "s \<in> set (spines (nodes spec))" "link_of l f s ia ib" by blast
  have n: "sw_name f \<noteq> sw_name spine" by (rule names_apart [OF assms(2) f(1) assms(3)])
  have e: "ep_node (l_b l) = sw_name spine \<and> ep = l_a l" using L f(3) n by (auto simp: far_end_def link_of_def split: if_splits)
  then have "s = spine" using switch_name_inj [OF assms(2), of s spine] f(2,3) assms(3) by (auto simp: link_of_def switches_def)
  with f e show ?R by blast
next
  assume R: ?R
  then obtain f ia ib where f: "f \<in> set (leaves (nodes spec))" "link_of l f spine ia ib" "ep = l_a l" by blast
  have "sw_name f \<noteq> sw_name spine" by (rule names_apart [OF assms(2) f(1) assms(3)])
  with f show ?L by (auto simp: far_end_def link_of_def)
qed

lemma leaf_neighbors:
  assumes "allocate spec = Inr topo" and "distinct (all_names spec)" and "leaf \<in> set (leaves (nodes spec))"
  shows "\<exists>ns. bgp_neighbors topo (sw_name leaf) = Inr ns \<and>
    set ns = {(ib, sw_asn s) |s ib. s \<in> set (spines (nodes spec)) \<and> (\<exists>l \<in> set (rt_links topo). \<exists>ia. link_of l leaf s ia ib)}"
proof -
  have "{(host_part a, asn) |a asn. \<exists>l \<in> set (rt_links topo). \<exists>ep \<in> set (far_end (sw_name leaf) l). \<exists>n.
      ep_address ep = Some a \<and> node_named topo (ep_node ep) = Inr n \<and> n_asn n = Some asn} =
    {(ib, sw_asn s) |s ib. s \<in> set (spines (nodes spec)) \<and> (\<exists>l \<in> set (rt_links topo). \<exists>ia. link_of l leaf s ia ib)}" (is "?L = ?R")
  proof (intro set_eqI iffI)
    fix y assume "y \<in> ?L"
    then obtain l a asn n where l: "l \<in> set (rt_links topo)" "l_b l \<in> set (far_end (sw_name leaf) l)" "y = (host_part a, asn)"
      "ep_address (l_b l) = Some a" "node_named topo (ep_node (l_b l)) = Inr n" "n_asn n = Some asn"
      using far_end_leaf [OF assms] by auto
    from l(1,2) obtain s ia ib where s: "s \<in> set (spines (nodes spec))" "link_of l leaf s ia ib" using far_end_leaf [OF assms] by blast
    have "asn = sw_asn s" using switch_named [OF assms(1,2), of s] s l(5,6) by (auto simp: switches_def link_of_def)
    moreover have "host_part a = ib" using s(2) l(4) by (simp add: link_of_def)
    ultimately show "y \<in> ?R" using s l(1,3) by blast
  next
    fix y assume "y \<in> ?R"
    then obtain s ib l ia where s: "y = (ib, sw_asn s)" "s \<in> set (spines (nodes spec))" "l \<in> set (rt_links topo)" "link_of l leaf s ia ib" by blast
    obtain n where "node_named topo (sw_name s) = Inr n" "n_asn n = Some (sw_asn s)"
      using switch_named [OF assms(1,2), of s] s(2) by (auto simp: switches_def)
    moreover have "l_b l \<in> set (far_end (sw_name leaf) l)" using far_end_leaf [OF assms s(3)] s(2,4) by blast
    moreover have y: "y = (host_part (ib @ ''/31''), sw_asn s)" and "ep_address (l_b l) = Some (ib @ ''/31'')" "ep_node (l_b l) = sw_name s"
      using s(1,4) by (simp_all add: link_of_def)
    ultimately have "ep_address (l_b l) = Some (ib @ ''/31'') \<and> node_named topo (ep_node (l_b l)) = Inr n \<and> n_asn n = Some (sw_asn s)"
      "l_b l \<in> set (far_end (sw_name leaf) l)" by simp_all
    with s(3) show "y \<in> ?L" unfolding y by blast
  qed
  with bgp_neighbors_total [OF assms(1,2), of "sw_name leaf"] show ?thesis by simp
qed

lemma spine_neighbors:
  assumes "allocate spec = Inr topo" and "distinct (all_names spec)" and "spine \<in> set (spines (nodes spec))"
  shows "\<exists>ns. bgp_neighbors topo (sw_name spine) = Inr ns \<and>
    set ns = {(ia, sw_asn f) |f ia. f \<in> set (leaves (nodes spec)) \<and> (\<exists>l \<in> set (rt_links topo). \<exists>ib. link_of l f spine ia ib)}"
proof -
  have "{(host_part a, asn) |a asn. \<exists>l \<in> set (rt_links topo). \<exists>ep \<in> set (far_end (sw_name spine) l). \<exists>n.
      ep_address ep = Some a \<and> node_named topo (ep_node ep) = Inr n \<and> n_asn n = Some asn} =
    {(ia, sw_asn f) |f ia. f \<in> set (leaves (nodes spec)) \<and> (\<exists>l \<in> set (rt_links topo). \<exists>ib. link_of l f spine ia ib)}" (is "?L = ?R")
  proof (intro set_eqI iffI)
    fix y assume "y \<in> ?L"
    then obtain l a asn n where l: "l \<in> set (rt_links topo)" "l_a l \<in> set (far_end (sw_name spine) l)" "y = (host_part a, asn)"
      "ep_address (l_a l) = Some a" "node_named topo (ep_node (l_a l)) = Inr n" "n_asn n = Some asn"
      using far_end_spine [OF assms] by auto
    from l(1,2) obtain f ia ib where f: "f \<in> set (leaves (nodes spec))" "link_of l f spine ia ib" using far_end_spine [OF assms] by blast
    have "asn = sw_asn f" using switch_named [OF assms(1,2), of f] f l(5,6) by (auto simp: switches_def link_of_def)
    moreover have "host_part a = ia" using f(2) l(4) by (simp add: link_of_def)
    ultimately show "y \<in> ?R" using f l(1,3) by blast
  next
    fix y assume "y \<in> ?R"
    then obtain f ib l ia where f: "y = (ia, sw_asn f)" "f \<in> set (leaves (nodes spec))" "l \<in> set (rt_links topo)" "link_of l f spine ia ib" by blast
    obtain n where "node_named topo (sw_name f) = Inr n" "n_asn n = Some (sw_asn f)"
      using switch_named [OF assms(1,2), of f] f(2) by (auto simp: switches_def)
    moreover have "l_a l \<in> set (far_end (sw_name spine) l)" using far_end_spine [OF assms f(3)] f(2,4) by blast
    moreover have y: "y = (host_part (ia @ ''/31''), sw_asn f)" and "ep_address (l_a l) = Some (ia @ ''/31'')" "ep_node (l_a l) = sw_name f"
      using f(1,4) by (simp_all add: link_of_def)
    ultimately have "ep_address (l_a l) = Some (ia @ ''/31'') \<and> node_named topo (ep_node (l_a l)) = Inr n \<and> n_asn n = Some (sw_asn f)"
      "l_a l \<in> set (far_end (sw_name spine) l)" by simp_all
    with f(3) show "y \<in> ?L" unfolding y by blast
  qed
  with bgp_neighbors_total [OF assms(1,2), of "sw_name spine"] show ?thesis by simp
qed

lemma resolve_nodes_cases:
  assumes "resolve_nodes spec lo m = Inr ns" and "n \<in> set ns"
  obtains (switch) sw where "sw \<in> set (switches spec)" "switch_node lo (length (switches spec)) sw n"
  | (host) h where "h \<in> set (hosts (nodes spec))" "n_name n = h_name h" "n_role n = Host" "n_loopback n = None"
proof (cases "n_role n = Host")
  case True
  obtain ss ls hs where ns: "ns = ss @ ls @ hs"
    and s: "map_res (resolve_switch Spine lo m) (enumerate 1 (spines (nodes spec))) = Inr ss"
    and l: "map_res (resolve_switch Leaf lo m) (enumerate (1 + length (spines (nodes spec))) (leaves (nodes spec))) = Inr ls"
    and h: "map_res (resolve_host m) (enumerate (1 + length (spines (nodes spec)) + length (leaves (nodes spec))) (hosts (nodes spec))) = Inr hs"
    using assms(1) by (rule resolve_nodes_parts)
  have r: "n_role x = r" if "map_res (resolve_switch r lo m) (enumerate k xs) = Inr ys" "x \<in> set ys" for x r k xs ys
    using that by (rule map_res_all) (auto simp: resolve_switch_def bindr_Inr_iff split: prod.splits)
  have "n \<in> set hs" using assms(2) True r [OF s, of n] r [OF l, of n] unfolding ns by auto
  from list_all2_in2 [OF map_res_Inr_iff [THEN iffD1, OF h] this]
  obtain k h where "(k, h) \<in> set (enumerate (1 + length (spines (nodes spec)) + length (leaves (nodes spec))) (hosts (nodes spec)))"
    "resolve_host m (k, h) = Inr n" by auto
  then have "h \<in> set (hosts (nodes spec))" "n_name n = h_name h" "n_loopback n = None"
    by (auto simp: resolve_host_def bindr_Inr_iff dest: enumerate_in)
  then show ?thesis using True host by blast
next
  case False
  then have "n \<in> set (filter (\<lambda>n. n_role n \<noteq> Host) ns)" using assms(2) by simp
  from list_all2_in2 [OF resolve_nodes_switches [OF assms(1)] this] show ?thesis using switch by blast
qed

text \<open>A pool that holds the nodes: every loopback is an IPv4 host route.\<close>

lemma loopback_parses:
  assumes "ip_network p = Inr lo" and "int N < num_addresses lo" and "switch_node (net_base lo) N sw n"
  shows "\<exists>t net. n_loopback n = Some (t @ ''/32'') \<and> host_part (t @ ''/32'') = t \<and> ip_network (t @ ''/32'') = Inr net"
proof -
  from assms(3) obtain k t where k: "k \<le> N" "ip_address (net_base lo + int k) = Inr t" "n_loopback n = Some (t @ ''/32'')"
    by (auto simp: switch_node_def)
  have r: "0 \<le> net_base lo + int k" "net_base lo + int k < 4294967296"
    using ip_network_range [OF assms(1)] k(1) assms(2) unfolding net_last_def by linarith+
  then have "t = show_ip4 (net_base lo + int k)" using k(2) by (simp add: ip_address_def)
  then show ?thesis using k(2,3) host_part_ip ip_network_host_route [OF r] by blast
qed

lemma prefix_lines_total: "(\<And>p. p \<in> set ps \<Longrightarrow> \<exists>net. ip_network p = Inr net) \<Longrightarrow> \<exists>ls. map_res (prefix_line name) ps = Inr ls"
proof -
  assume a: "\<And>p. p \<in> set ps \<Longrightarrow> \<exists>net. ip_network p = Inr net"
  have "map_res (prefix_line name) ps = Inr (map (\<lambda>p. case prefix_line name p of Inr l \<Rightarrow> l) ps)"
    by (rule map_res_total) (use a in \<open>fastforce simp: prefix_line_def Let_def\<close>)
  then show ?thesis ..
qed

lemma render_srl_total:
  assumes al: "allocate spec = Inr topo" and d: "distinct (all_names spec)"
    and lo: "ip_network (loopback_supernet (pools spec)) = Inr lo" "int (length (switches spec)) < num_addresses lo"
    and sub: "map_res (\<lambda>hn. ip_network (hn_subnet hn)) (rt_host_networks topo) = Inr subnets"
    and n: "n \<in> set (rt_nodes topo)" "n_role n \<noteq> Host"
  shows "\<exists>c. render_srl_config topo (n_name n) = Inr c"
proof -
  obtain lo' mgmt :: ip_network and ns where lo': "ip_network (loopback_supernet (pools spec)) = Inr lo'"
    and r: "resolve_nodes spec (net_base lo') (net_base mgmt) = Inr ns" and t: "rt_nodes topo = ns"
    using al by (rule allocate_Inr) (rule that)
  have [simp]: "lo' = lo" using lo(1) lo' by simp
  have named: "node_named topo (n_name n) = Inr n"
    using find_unique [of n_name ns n] n(1) d by (simp add: node_named_def t resolve_nodes_names [OF r])
  have lp: "\<exists>t net. n_loopback x = Some (t @ ''/32'') \<and> host_part (t @ ''/32'') = t \<and> ip_network (t @ ''/32'') = Inr net"
    if "switch_node (net_base lo) (length (switches spec)) sw x" for x sw using loopback_parses [OF lo that] .
  obtain sw where sw: "switch_node (net_base lo) (length (switches spec)) sw n"
    by (rule resolve_nodes_cases [OF r n(1) [unfolded t]]) (use n(2) in auto)
  from lp [OF sw] obtain t' net where l: "n_loopback n = Some (t' @ ''/32'')" "host_part (t' @ ''/32'') = t'" "ip_network (t' @ ''/32'') = Inr net" by blast
  have hn: "\<exists>net. ip_network (hn_subnet h) = Inr net" if "h \<in> set (rt_host_networks topo)" for h
    using map_res_in [OF sub that] .
  have lb: "\<exists>net. ip_network p = Inr net" if "x \<in> set ns" "n_loopback x = Some p" for x p
    by (rule resolve_nodes_cases [OF r that(1)]) (use lp that(2) in \<open>fastforce+\<close>)
  have "\<exists>net. ip_network p = Inr net" if "p \<in> set (fabric_prefixes topo)" for p
    using that hn lb by (auto simp: fabric_prefixes_def truthy_def t)
  then obtain fl where fl: "map_res (prefix_line ''fabric'') (fabric_prefixes topo) = Inr fl" using prefix_lines_total by blast
  have "\<exists>net. ip_network p = Inr net" if "p \<in> set (sort (own_prefixes topo (n_name n) t'))" for p
    using that hn l(3) unfolding set_sort by (auto simp: own_prefixes_def)
  then obtain ol where ol: "map_res (prefix_line ''local'') (sort (own_prefixes topo (n_name n) t')) = Inr ol" using prefix_lines_total by blast
  obtain nb where nb: "bgp_neighbors topo (n_name n) = Inr nb" using bgp_neighbors_total [OF al d] by blast
  have "n_asn n = Some (sw_asn sw)" using sw by (simp add: switch_node_def)
  then show ?thesis using n(2) by (simp add: render_srl_config_def srl_lines_def named l(1,2) fl ol nb Let_def)
qed

text \<open>The access links: a host that is the last of its leaf has one.\<close>

lemma host_data_keeps:
  "dict_get d k \<noteq> None \<Longrightarrow> dict_get (fold (\<lambda>lk d. case host_entry lk of None \<Rightarrow> d | Some e \<Rightarrow> dict_set (ep_node (l_b lk)) e d) ls d) k \<noteq> None"
  by (induction ls arbitrary: d) (auto split: option.splits)

lemma host_data_in:
  "lk \<in> set ls \<Longrightarrow> host_entry lk \<noteq> None \<Longrightarrow>
     dict_get (fold (\<lambda>lk d. case host_entry lk of None \<Rightarrow> d | Some e \<Rightarrow> dict_set (ep_node (l_b lk)) e d) ls d) (ep_node (l_b lk)) \<noteq> None"
proof (induction ls arbitrary: d)
  case (Cons a ls)
  show ?case
  proof (cases "lk = a")
    case True
    with Cons.prems(2) obtain e where e: "host_entry a = Some e" by auto
    show ?thesis unfolding True using host_data_keeps [of "dict_set (ep_node (l_b a)) e d" "ep_node (l_b a)" ls] by (simp add: e)
  qed (use Cons in simp)
qed simp

lemma host_by_leaf_distinct:
  assumes "distinct (map h_leaf hs)" and "h \<in> set hs"
  shows "dict_get (host_by_leaf hs) (h_leaf h) = Some h"
proof -
  have "distinct (map h_leaf (rev hs))" using assms(1) by (simp flip: rev_map)
  from find_unique [OF this, of h] show ?thesis
    using assms(2) by (simp add: host_by_leaf_def dict_comp_def fold_dict_set_get)
qed

lemma host_linked:
  assumes "allocate spec = Inr topo" and "distinct (map h_leaf (hosts (nodes spec)))" and "h \<in> set (hosts (nodes spec))"
    and "\<exists>leaf \<in> set (leaves (nodes spec)). sw_name leaf = h_leaf h"
  shows "dict_get (host_data topo) (h_name h) \<noteq> None"
proof -
  obtain fls als where a: "access_links spec = Inr als" and t: "rt_links topo = fls @ map fst als"
    using assms(1) by (rule allocate_Inr) (rule that)
  obtain leaf k where leaf: "sw_name leaf = h_leaf h" "(k, leaf) \<in> set (enumerate 1 (leaves (nodes spec)))"
    using assms(4) in_enumerate by metis
  have "((k, leaf), h) \<in> set (leaf_hosts spec)"
    using leaf host_by_leaf_distinct [OF assms(2,3)] by (force simp: leaf_hosts_def)
  from list_all2_in [OF map_res_Inr_iff [THEN iffD1, OF a [unfolded access_links_def]] this]
  obtain lk hn where lk: "(lk, hn) \<in> set als" "access_link spec (k, leaf) h = Inr (lk, hn)" by auto
  have "host_entry lk \<noteq> None" "ep_node (l_b lk) = h_name h"
    using lk(2) by (auto simp: access_link_def bindr_Inr_iff Let_def host_entry_def truthy_def)
  moreover have "lk \<in> set (rt_links topo)" using lk(1) unfolding t by force
  ultimately show ?thesis using host_data_in [of lk "rt_links topo" "[]"] unfolding host_data_def by (simp only:) simp
qed

lemma render_clab_total:
  assumes al: "allocate spec = Inr topo" and h: "distinct (map h_leaf (hosts (nodes spec)))"
    "\<forall>h \<in> set (hosts (nodes spec)). \<exists>leaf \<in> set (leaves (nodes spec)). sw_name leaf = h_leaf h"
    and m: "ip_network (management_supernet (pools spec)) = Inr mgmt" "1 < num_addresses mgmt"
  shows "\<exists>c. render_clab topo = Inr c"
proof -
  obtain lo' mgmt' :: ip_network and ns where r: "resolve_nodes spec (net_base lo') (net_base mgmt') = Inr ns" and t: "rt_nodes topo = ns"
    using al by (rule allocate_Inr) (rule that)
  have sn: "rt_management_supernet topo = management_supernet (pools spec)" using al by (auto simp: allocate_def bindr_Inr_iff)
  have "0 \<le> net_last mgmt - 1" "net_last mgmt - 1 < 4294967296"
    using ip_network_range [OF m(1)] m(2) unfolding net_last_def by linarith+
  then have gw: "ip_address (net_last mgmt - 1) = Inr (show_ip4 (net_last mgmt - 1))" by (simp add: ip_address_def)
  have "\<exists>ls. clab_node (host_data topo) n = Inr ls" if n: "n \<in> set ns" for n
  proof (cases "n_role n = Host")
    case True
    obtain h' where h': "h' \<in> set (hosts (nodes spec))" "n_name n = h_name h'"
      by (rule resolve_nodes_cases [OF r n]) (use True in \<open>auto simp: switch_node_def\<close>)
    have "dict_get (host_data topo) (n_name n) \<noteq> None"
      unfolding h'(2) by (rule host_linked [OF al h(1) h'(1)]) (use h(2) h'(1) in blast)
    then show ?thesis using True by (auto simp: clab_node_def dict_index_def)
  qed (simp add: clab_node_def)
  then have "map_res (clab_node (host_data topo)) (sort_key n_name ns) =
      Inr (map (\<lambda>n. case clab_node (host_data topo) n of Inr l \<Rightarrow> l) (sort_key n_name ns))"
    by (intro map_res_total) fastforce
  then show ?thesis by (simp add: render_clab_def sn m(1) gw t)
qed

text \<open>Writing the files: the directory gains them, and the dictionary holds the digest of each.\<close>

lemma write_files_total:
  assumes "\<And>p. p \<in> set ps \<Longrightarrow> \<exists>c. snd p = Inr c" and "distinct (map fst ps)" and "set (map fst ps) \<inter> set (dict_keys files) = {}"
  shows "\<exists>out'. write_files sha ps out files = (out', Inr (files @ map (\<lambda>(n, c). (n, sha (case c of Inr t \<Rightarrow> t))) ps)) \<and>
    (\<forall>k. dict_get out' k = (case dict_get ps k of None \<Rightarrow> dict_get out k | Some c \<Rightarrow> Some (case c of Inr t \<Rightarrow> t)))"
  using assms
proof (induction ps arbitrary: out files)
  case (Cons p ps)
  obtain n t where p: "p = (n, Inr t)" using Cons.prems(1) [of p] by (cases p) auto
  have f: "dict_set n (sha t) files = files @ [(n, sha t)]"
    by (rule dict_set_fresh) (use Cons.prems(3) in \<open>auto simp: p\<close>)
  have "\<exists>out'. write_files sha ps (dict_set n t out) (files @ [(n, sha t)]) =
      (out', Inr ((files @ [(n, sha t)]) @ map (\<lambda>(n, c). (n, sha (case c of Inr t \<Rightarrow> t))) ps)) \<and>
    (\<forall>k. dict_get out' k = (case dict_get ps k of None \<Rightarrow> dict_get (dict_set n t out) k | Some c \<Rightarrow> Some (case c of Inr t \<Rightarrow> t)))"
    by (rule Cons.IH) (use Cons.prems in \<open>auto simp: p\<close>)
  then obtain out' where o: "write_files sha ps (dict_set n t out) (files @ [(n, sha t)]) =
      (out', Inr ((files @ [(n, sha t)]) @ map (\<lambda>(n, c). (n, sha (case c of Inr t \<Rightarrow> t))) ps))"
    "\<forall>k. dict_get out' k = (case dict_get ps k of None \<Rightarrow> dict_get (dict_set n t out) k | Some c \<Rightarrow> Some (case c of Inr t \<Rightarrow> t))"
    by blast
  have "dict_get ps n = None" using Cons.prems(2) by (simp add: p map_of_eq_None_iff)
  with o show ?case by (auto simp: p f split: option.splits)
qed simp

section \<open>Properties\<close>



lemma in_keys: "(k, v) \<in> set d \<Longrightarrow> k \<in> set (dict_keys d)"
  by force

lemma cli_name_apart: "n @ ''.cli'' \<notin> {''topology-srl.clab.yml'', ''topology.json'', ''ipam.md'', ''manifest.json''}"
proof -
  have l: "last (n @ ''.cli'') = CHR ''i''" for n by simp
  show ?thesis using l [of n] by (auto dest: arg_cong [of _ _ last])
qed

text \<open>The files rendered for an allocation: one configuration for each switch, in the order of the names, then three more.\<close>

definition file_names :: "fabric_spec \<Rightarrow> string list" where
  "file_names spec = map (\<lambda>n. n @ ''.cli'') (sort (map sw_name (switches spec))) @ [''topology-srl.clab.yml'', ''topology.json'', ''ipam.md'']"

lemma artifact_names:
  assumes "allocate spec = Inr topo"
  shows "map fst (artifacts fr topo) = file_names spec"
proof -
  obtain lo mgmt :: ip_network and ns where r: "resolve_nodes spec (net_base lo) (net_base mgmt) = Inr ns" and t: "rt_nodes topo = ns"
    using assms by (rule allocate_Inr) (rule that)
  have "map n_name (filter (\<lambda>n. n_role n \<noteq> Host) ns) = map sw_name (switches spec)"
    using resolve_nodes_switches [OF r] by (auto simp: list_all2_conv_all_nth switch_node_def intro!: nth_equalityI)
  then have "map n_name (filter (\<lambda>n. n_role n \<noteq> Host) (sort_key n_name ns)) = sort (map sw_name (switches spec))"
    by (simp add: filter_sort map_sort_key)
  moreover have "map fst (artifacts fr topo) = map (\<lambda>n. n @ ''.cli'') (map n_name (filter (\<lambda>n. n_role n \<noteq> Host) (sort_key n_name ns))) @
      [''topology-srl.clab.yml'', ''topology.json'', ''ipam.md'']" by (simp add: artifacts_def t)
  ultimately show ?thesis by (simp only: file_names_def)
qed

lemma file_names_distinct: "distinct (all_names spec) \<Longrightarrow> distinct (file_names spec) \<and> ''manifest.json'' \<notin> set (file_names spec)"
  using cli_name_apart by (auto simp: file_names_def all_names_def distinct_map inj_on_def)



text \<open>The last hypothesis is needed: two hosts on a leaf pass validation, and rendering the topology file raises.\<close>

theorem crowded_leaf_not_rendered:
  "validate_fabric crowded_leaf = Inr [] \<and> bindr (allocate crowded_leaf) render_clab = Inl (KeyError ''host1'')"
proof
  show "bindr (allocate crowded_leaf) render_clab = Inl (KeyError ''host1'')" by code_simp
  show "validate_fabric crowded_leaf = Inr []" by (rule crowded_leaf_drops_host [THEN conjunct1])
qed

end
