(* ===== verification/Stats.thy ===== *)
theory Stats
  imports Prelude "HOL-Library.Multiset"
begin

text \<open>
  The statistics of the evaluation scripts: AUROC, ranks and the bootstrap intervals of
  \<open>scripts/gate12_5_exit_check.py\<close>, \<open>scripts/gate12_5_localization_ablation.py\<close> and
  \<open>scripts/gate12_5_impaired_probe.py\<close>. The resampling is deterministic: a linear congruential generator with a
  fixed seed picks the incidents of each resample. A link's score is a number; the models that
  produce scores are parameters.
\<close>

unbundle bit_operations_syntax

section \<open>AUROC and ranks\<close>

definition wins :: "'a :: linorder list \<Rightarrow> 'a list \<Rightarrow> nat" where
  "wins pos neg = length (filter (\<lambda>(p, n). n < p) (List.product pos neg))"

definition ties :: "'a :: linorder list \<Rightarrow> 'a list \<Rightarrow> nat" where
  "ties pos neg = length (filter (\<lambda>(p, n). p = n) (List.product pos neg))"

definition auroc :: "'a :: linorder list \<Rightarrow> 'a list \<Rightarrow> pyfloat" where
  "auroc pos neg =
     (if pos = [] \<or> neg = [] then 1 / 2
      else (of_nat (wins pos neg) + 1 / 2 * of_nat (ties pos neg)) / of_nat (length pos * length neg))"

text \<open>The score of the faulted link and the scores of its peers, one pair per incident.\<close>

type_synonym scored = "pyfloat \<times> pyfloat list"

definition pair_auroc :: "scored list \<Rightarrow> pyfloat" where
  "pair_auroc pairs = auroc (map fst pairs) (concat (map snd pairs))"

text \<open>\<open>_rank\<close>: one more than the position of the target among the links sorted by falling score; the sort is stable.\<close>

definition rank_of :: "(string, pyfloat) dict \<Rightarrow> string \<Rightarrow> nat res" where
  "rank_of scores target_lid =
     (let order = sort_key (\<lambda>lk. - the (dict_get scores lk)) (dict_keys scores) in
      if target_lid \<in> set order then Inr (length (takeWhile (\<lambda>lk. lk \<noteq> target_lid) order) + 1)
      else Inl (ValueError (target_lid @ '' is not in list'')))"

text \<open>\<open>eval_ranks\<close>: a tied target gets the average of the ranks it shares.\<close>

record incident =
  i_fc :: string
  i_tlid :: string

record ranked =
  r_fc :: string
  r_rank :: pyfloat
  r_scored :: scored

definition eval_rank :: "('i incident_scheme \<Rightarrow> (string, pyfloat) dict res) \<Rightarrow> 'i incident_scheme \<Rightarrow> ranked res" where
  "eval_rank score_fn inc =
     bindr (score_fn inc) (\<lambda>sc.
     bindr (dict_index sc (i_tlid inc)) (\<lambda>tv.
        let higher = length (filter (\<lambda>v. tv < v) (map snd sc));
            tied = length (filter (\<lambda>v. v = tv) (map snd sc))
        in Inr \<lparr>r_fc = i_fc inc, r_rank = of_nat higher + 1 + (of_nat tied - 1) / 2,
             r_scored = (tv, map snd (filter (\<lambda>(lk, _). lk \<noteq> i_tlid inc) sc))\<rparr>))"

definition eval_ranks :: "('i incident_scheme \<Rightarrow> (string, pyfloat) dict res) \<Rightarrow> 'i incident_scheme list \<Rightarrow> ranked list res" where
  "eval_ranks score_fn = map_res (eval_rank score_fn)"

section \<open>The bootstrap\<close>

definition lcg :: "int \<Rightarrow> int" where "lcg seed = (1103515245 * seed + 12345) AND 2147483647"

text \<open>\<open>k\<close> draws of an index below \<open>m\<close>, with the seed they leave.\<close>

fun draws :: "nat \<Rightarrow> nat \<Rightarrow> int \<Rightarrow> nat list \<times> int" where
  "draws 0 m seed = ([], seed)"
| "draws (Suc k) m seed = (let s = lcg seed; (js, s') = draws k m s in (nat (s mod int m) # js, s'))"

fun resamples :: "nat \<Rightarrow> nat \<Rightarrow> int \<Rightarrow> nat list list" where
  "resamples 0 m seed = []"
| "resamples (Suc n) m seed = (let (js, s) = draws m m seed in js # resamples n m s)"

definition bootstrap :: "('a list \<Rightarrow> pyfloat) \<Rightarrow> int \<Rightarrow> 'a list \<Rightarrow> nat \<Rightarrow> pyfloat list" where
  "bootstrap stat seed xs n = sort (map (\<lambda>js. stat (map (\<lambda>j. xs ! j) js)) (resamples n (length xs) seed))"

definition percentile :: "pyfloat \<Rightarrow> pyfloat list \<Rightarrow> nat \<Rightarrow> pyfloat res" where
  "percentile q samples n = (let i = nat \<lfloor>q * of_nat n\<rfloor> in if i < length samples then Inr (samples ! i) else Inl IndexError)"

definition interval :: "pyfloat list \<Rightarrow> nat \<Rightarrow> (pyfloat \<times> pyfloat) res" where
  "interval samples n = bindr (percentile (25 / 1000) samples n) (\<lambda>lo. bindr (percentile (975 / 1000) samples n) (\<lambda>hi. Inr (lo, hi)))"

definition mean_of :: "int list \<Rightarrow> pyfloat" where "mean_of hits = of_int (sum_list hits) / of_nat (length hits)"

definition boot_ci :: "int list \<Rightarrow> nat \<Rightarrow> (pyfloat \<times> pyfloat) res" where
  "boot_ci hits n = (if hits = [] then Inr (0, 0) else interval (bootstrap mean_of 1234567 hits n) n)"

definition auroc_ci :: "scored list \<Rightarrow> nat \<Rightarrow> (pyfloat \<times> pyfloat \<times> pyfloat) res" where
  "auroc_ci per_incident n =
     (if per_incident = [] then Inr (1 / 2, 1 / 2, 1 / 2)
      else bindr (interval (bootstrap pair_auroc 987654321 per_incident n) n) (\<lambda>(lo, hi). Inr (pair_auroc per_incident, lo, hi)))"

definition boot_auroc :: "scored list \<Rightarrow> nat \<Rightarrow> (pyfloat \<times> pyfloat) res" where
  "boot_auroc pairs n = interval (bootstrap pair_auroc 20260704 pairs n) n"

definition boot :: "scored list \<Rightarrow> nat \<Rightarrow> (pyfloat \<times> pyfloat) res" where
  "boot pairs n = interval (bootstrap pair_auroc 424242 pairs n) n"

text \<open>One line per fault class: the share of first and top-three ranks, the mean reciprocal rank, AUROC and its interval.\<close>

definition CLASS_ORDER :: "string list" where
  "CLASS_ORDER = [''admin_shutdown'', ''carrier_loss'', ''intermittent_link'', ''rate_limited_uplink'', ''impaired_link'', ''healthy_control'']"

record class_row =
  cr_top1 :: pyfloat
  cr_top3 :: pyfloat
  cr_mrr :: pyfloat
  cr_auc :: pyfloat
  cr_lo :: pyfloat
  cr_hi :: pyfloat
  cr_n :: nat

definition share :: "('a \<Rightarrow> bool) \<Rightarrow> 'a list \<Rightarrow> pyfloat" where
  "share P xs = of_nat (length (filter P xs)) / of_nat (length xs)"

definition class_line :: "ranked list \<Rightarrow> nat \<Rightarrow> class_row res" where
  "class_line rs n =
     (let ranks = map r_rank rs; pairs = map r_scored rs in
      bindr (boot_auroc pairs n) (\<lambda>(lo, hi).
        Inr \<lparr>cr_top1 = share (\<lambda>rk. rk \<le> 1) ranks, cr_top3 = share (\<lambda>rk. rk \<le> 3) ranks,
             cr_mrr = sum_list (map (\<lambda>rk. 1 / rk) ranks) / of_nat (length ranks),
             cr_auc = pair_auroc pairs, cr_lo = lo, cr_hi = hi, cr_n = length rs\<rparr>))"

definition per_class :: "ranked list \<Rightarrow> nat \<Rightarrow> (string, class_row) dict res" where
  "per_class rows n =
     fold_res (\<lambda>c out.
         let rs = filter (\<lambda>r. r_fc r = c) rows in
         if rs = [] then Inr out else bindr (class_line rs n) (\<lambda>row. Inr (dict_set c row out)))
       CLASS_ORDER []"

section \<open>The generator\<close>

text \<open>Iterates of the affine map, and their differences: a geometric sum times an odd number.\<close>

fun geo :: "int \<Rightarrow> nat \<Rightarrow> int" where
  "geo a 0 = 0"
| "geo a (Suc n) = 1 + a * geo a n"

lemma geo_add: "geo a (m + n) = geo a m + a ^ m * geo a n"
  by (induction m) (simp_all add: algebra_simps)

lemma geo_power: "a ^ n = 1 + (a - 1) * geo a n"
proof (induction n)
  case (Suc n)
  have "a ^ Suc n = a * (1 + (a - 1) * geo a n)" using Suc by simp
  then show ?case by (simp add: algebra_simps)
qed simp

lemma affine_iterate: "((\<lambda>x. a * x + c) ^^ n) x = a ^ n * x + c * geo a n" for a c x :: int
  by (induction n) (simp_all add: algebra_simps)

lemma affine_shift: "((\<lambda>x. a * x + c) ^^ n) x - x = geo a n * ((a - 1) * x + c)" for a c x :: int
  unfolding affine_iterate geo_power by (simp add: algebra_simps)

lemma geo_even: "odd a \<Longrightarrow> even (geo a n) \<longleftrightarrow> even n"
  by (induction n) auto

lemma power_dvd_geo:
  assumes "a mod 4 = (1 :: int)"
  shows "2 ^ j dvd geo a n \<longleftrightarrow> 2 ^ j dvd n"
proof (induction j arbitrary: n)
  case (Suc j)
  have oa: "odd a" using assms by presburger
  show ?case
  proof (cases "even n")
    case False
    then have "odd (geo a n)" using geo_even [OF oa] by simp
    then have "\<not> 2 ^ Suc j dvd geo a n" by (metis dvd_trans dvd_triv_left power_Suc)
    moreover have "\<not> 2 ^ Suc j dvd n" using False by (metis dvd_trans dvd_triv_left power_Suc)
    ultimately show ?thesis by simp
  next
    case True
    then obtain k where n: "n = k + k" by (metis evenE mult_2)
    have "a ^ k mod 4 = 1" using power_mod [of a 4 k] assms by simp
    then have "a ^ k = 4 * (a ^ k div 4) + 1" using div_mult_mod_eq [of "a ^ k" 4] by linarith
    then obtain q where q: "1 + a ^ k = 2 * q" "odd q"
      by (intro that [of "2 * (a ^ k div 4) + 1"]) simp_all
    have "geo a n = (1 + a ^ k) * geo a k" unfolding n geo_add by (simp add: algebra_simps)
    then have g: "geo a n = 2 * (geo a k * q)" unfolding q(1) by (simp add: algebra_simps)
    have cq: "coprime (2 ^ j) q" using q(2) by simp
    have "2 ^ Suc j dvd geo a n \<longleftrightarrow> 2 ^ j dvd geo a k * q" unfolding g by simp
    also have "\<dots> \<longleftrightarrow> 2 ^ j dvd geo a k" by (rule coprime_dvd_mult_left_iff [OF cq])
    also have "\<dots> \<longleftrightarrow> 2 ^ j dvd k" by (rule Suc.IH)
    also have "\<dots> \<longleftrightarrow> 2 ^ Suc j dvd n" unfolding n by (simp flip: mult_2)
    finally show ?thesis .
  qed
qed simp

abbreviation affine :: "int \<Rightarrow> int" where "affine x \<equiv> 1103515245 * x + 12345"

lemma lcg_mod: "j \<le> 31 \<Longrightarrow> lcg s mod 2 ^ j = affine s mod 2 ^ j"
proof -
  assume j: "j \<le> 31"
  have "lcg s = take_bit 31 (affine s)"
    unfolding lcg_def take_bit_eq_mask mask_eq_exp_minus_1 by simp
  then have "lcg s = affine s mod 2 ^ 31" by (simp only: take_bit_eq_mod)
  moreover have "affine s mod 2 ^ 31 mod 2 ^ j = affine s mod 2 ^ j"
    by (rule mod_mod_cancel) (rule le_imp_power_dvd [OF j])
  ultimately show ?thesis by (simp only:)
qed

lemma affine_mod: "affine (y mod m) mod m = affine y mod m"
  by (metis mod_add_left_eq mod_mult_right_eq)

lemma iterate_split: "i \<le> k \<Longrightarrow> (f ^^ k) s = (f ^^ (k - i)) ((f ^^ i) s)"
  using funpow_add [of "k - i" i f] by simp

lemma lcg_iterate: "j \<le> 31 \<Longrightarrow> (lcg ^^ n) s mod 2 ^ j = (affine ^^ n) s mod 2 ^ j"
proof (induction n)
  case (Suc n)
  have "(lcg ^^ Suc n) s mod 2 ^ j = affine ((lcg ^^ n) s mod 2 ^ j) mod 2 ^ j"
    unfolding affine_mod using lcg_mod [OF Suc.prems] by simp
  also have "\<dots> = affine ((affine ^^ n) s) mod 2 ^ j" unfolding Suc.IH [OF Suc.prems] by (rule affine_mod)
  finally show ?case by simp
qed simp

text \<open>Two iterates less than \<open>2 ^ j\<close> apart differ modulo \<open>2 ^ j\<close>.\<close>

lemma lcg_differ:
  assumes "j \<le> 31" and "i < k" and "k < i + 2 ^ j"
  shows "(lcg ^^ i) s mod 2 ^ j \<noteq> (lcg ^^ k) s mod 2 ^ j"
proof
  assume "(lcg ^^ i) s mod 2 ^ j = (lcg ^^ k) s mod 2 ^ j"
  then have "(affine ^^ i) s mod 2 ^ j = (affine ^^ k) s mod 2 ^ j" unfolding lcg_iterate [OF assms(1)] .
  moreover define x where "x = (affine ^^ i) s"
  moreover have "(affine ^^ k) s = (affine ^^ (k - i)) x"
    using assms(2) unfolding x_def by (intro iterate_split) simp
  ultimately have "2 ^ j dvd (affine ^^ (k - i)) x - x" by (metis mod_eq_dvd_iff)
  then have d: "2 ^ j dvd geo 1103515245 (k - i) * ((1103515245 - 1) * x + 12345)" by (simp only: affine_shift)
  have "odd ((1103515245 - 1) * x + 12345)" by simp
  then have "coprime (2 ^ j) ((1103515245 - 1) * x + 12345)" by simp
  with d have "2 ^ j dvd geo 1103515245 (k - i)" using coprime_dvd_mult_left_iff by blast
  then have "2 ^ j dvd k - i" by (subst (asm) power_dvd_geo) simp_all
  with assms(2,3) show False by (auto dest: dvd_imp_le)
qed

text \<open>Hence \<open>2 ^ j\<close> consecutive iterates meet every residue modulo \<open>2 ^ j\<close> exactly once.\<close>

lemma lcg_block:
  assumes "j \<le> 31" and "0 \<le> r" and "r < 2 ^ j"
  shows "length (filter (\<lambda>i. (lcg ^^ Suc i) s mod 2 ^ j = r) [0..<2 ^ j]) = 1"
proof -
  define f where "f i = (lcg ^^ Suc i) s mod 2 ^ j" for i
  have inj: "inj_on f {..<2 ^ j}"
  proof (rule linorder_inj_onI')
    fix i k :: nat assume "i \<in> {..<2 ^ j}" "k \<in> {..<2 ^ j}" "i < k"
    then show "f i \<noteq> f k" unfolding f_def by (intro lcg_differ [OF assms(1)]) auto
  qed
  have "f ` {..<2 ^ j} = {0..<2 ^ j}"
  proof (rule card_subset_eq)
    show "f ` {..<2 ^ j} \<subseteq> {0..<2 ^ j}" by (auto simp: f_def)
    show "card (f ` {..<2 ^ j}) = card {0..<(2 :: int) ^ j}"
      using card_image [OF inj] by (simp add: nat_power_eq)
  qed simp
  with assms(2,3) obtain i where i: "i < 2 ^ j" "f i = r" by (metis atLeastLessThan_iff imageE lessThan_iff)
  have "{k. k < length [0..<2 ^ j] \<and> f ([0..<2 ^ j] ! k) = r} = {i}"
    using i inj by (auto simp: inj_on_def)
  then show ?thesis unfolding length_filter_conv_card f_def [symmetric] by simp
qed

lemma lcg_blocks:
  assumes "j \<le> 31" and "0 \<le> r" and "r < 2 ^ j"
  shows "length (filter (\<lambda>i. (lcg ^^ Suc i) s mod 2 ^ j = r) [0..<2 ^ j * q]) = q"
proof (induction q arbitrary: s)
  case (Suc q)
  have u: "[0..<2 ^ j * Suc q] = [0..<2 ^ j] @ map (\<lambda>i. i + 2 ^ j) [0..<2 ^ j * q]"
    by (simp add: upt_add_eq_append [of 0 "2 ^ j", simplified] map_add_upt add.commute)
  have "(lcg ^^ Suc (i + 2 ^ j)) s = (lcg ^^ Suc i) ((lcg ^^ 2 ^ j) s)" for i
    by (simp add: funpow_add)
  then show ?case using lcg_block [OF assms] Suc.IH [of "(lcg ^^ 2 ^ j) s"]
    unfolding u by (simp add: filter_map comp_def)
qed simp

section \<open>Resamples\<close>

lemma draws_eq: "draws k m s = (map (\<lambda>i. nat ((lcg ^^ Suc i) s mod int m)) [0..<k], (lcg ^^ k) s)"
proof (induction k arbitrary: s)
  case (Suc k)
  have "[0..<Suc k] = 0 # map Suc [0..<k]" by (simp add: upt_conv_Cons map_Suc_upt)
  moreover have "(lcg ^^ i) (lcg s) = (lcg ^^ Suc i) s" for i by (simp add: funpow_swap1)
  ultimately show ?case by (simp add: Suc.IH Let_def comp_def del: upt_Suc)
qed simp

lemma resamples_draws: "js \<in> set (resamples n m s) \<Longrightarrow> \<exists>s'. js = fst (draws m m s')"
  by (induction n m s rule: resamples.induct) (auto simp: Let_def split: prod.splits, metis fst_conv)

lemma resamples_length [simp]: "length (resamples n m s) = n"
  by (induction n m s rule: resamples.induct) (simp_all add: Let_def split: prod.split)

lemma resample_facts:
  assumes "j \<le> 31" and "js \<in> set (resamples n (2 ^ j * q) seed)" and "r < 2 ^ j"
  shows "length js = 2 ^ j * q \<and> set js \<subseteq> {..<2 ^ j * q} \<and> length (filter (\<lambda>d. d mod 2 ^ j = r) js) = q"
proof -
  let ?m = "2 ^ j * q"
  from resamples_draws [OF assms(2)] obtain s where js: "js = map (\<lambda>i. nat ((lcg ^^ Suc i) s mod int ?m)) [0..<?m]"
    unfolding draws_eq by auto
  have n: "int (nat ((lcg ^^ Suc i) s mod int ?m)) = (lcg ^^ Suc i) s mod int ?m" if "i < ?m" for i
    by (rule nat_0_le, rule pos_mod_sign) (use that in linarith)
  have lt: "nat ((lcg ^^ Suc i) s mod int ?m) < ?m" if "i < ?m" for i
  proof -
    have "(lcg ^^ Suc i) s mod int ?m < int ?m" by (rule pos_mod_bound) (use that in linarith)
    with n [OF that] show ?thesis by linarith
  qed
  have m: "nat ((lcg ^^ Suc i) s mod int ?m) mod 2 ^ j = r \<longleftrightarrow> (lcg ^^ Suc i) s mod 2 ^ j = int r" if "i < ?m" for i
  proof -
    from n [OF that] have "int (nat ((lcg ^^ Suc i) s mod int ?m) mod 2 ^ j) = (lcg ^^ Suc i) s mod int ?m mod 2 ^ j"
      by (simp only: zmod_int of_nat_power of_nat_numeral)
    also have "\<dots> = (lcg ^^ Suc i) s mod 2 ^ j" by (rule mod_mod_cancel) simp
    finally show ?thesis by linarith
  qed
  have "filter ((\<lambda>d. d mod 2 ^ j = r) \<circ> (\<lambda>i. nat ((lcg ^^ Suc i) s mod int ?m))) [0..<?m] =
      filter (\<lambda>i. (lcg ^^ Suc i) s mod 2 ^ j = int r) [0..<?m]"
    by (rule filter_cong) (use m in auto)
  then have "length (filter (\<lambda>d. d mod 2 ^ j = r) js) = q"
    unfolding js filter_map length_map
    by (simp only:) (rule lcg_blocks, use assms in auto)
  moreover have "set js \<subseteq> {..<?m}"
  proof
    fix d assume "d \<in> set js"
    then obtain i where d: "d = nat ((lcg ^^ Suc i) s mod int ?m)" and "i \<in> set [0..<?m]"
      unfolding js set_map by (rule imageE)
    then have "i < ?m" by simp
    then show "d \<in> {..<?m}" unfolding d by (intro lessThan_iff [THEN iffD2] lt)
  qed
  ultimately show ?thesis by (simp add: js)
qed

section \<open>AUROC\<close>

lemma count_product:
  "length (filter P (List.product xs ys)) = (\<Sum>x\<leftarrow>xs. length (filter (\<lambda>y. P (x, y)) ys))"
  by (induction xs) (simp_all add: filter_map comp_def)

lemma count_product_swap:
  "length (filter (\<lambda>(y, x). P (x, y)) (List.product ys xs)) = length (filter P (List.product xs ys))"
proof (induction ys)
  case (Cons y ys)
  have "(\<Sum>x\<leftarrow>xs. length (filter (\<lambda>z. P (x, z)) (y # ys))) =
      length (filter (\<lambda>x. P (x, y)) xs) + (\<Sum>x\<leftarrow>xs. length (filter (\<lambda>z. P (x, z)) ys))"
    by (induction xs) simp_all
  with Cons show ?case by (simp add: count_product filter_map comp_def)
qed (simp add: count_product)

lemma wins_ties_total: "wins pos neg + wins neg pos + ties pos neg = length pos * length neg"
proof -
  have "wins neg pos = length (filter (\<lambda>(p, n). p < n) (List.product pos neg))"
    unfolding wins_def using count_product_swap [of "\<lambda>(p, n). p < n" neg pos] by (simp add: split_def)
  moreover have "length (filter (\<lambda>(p, n). n < p) xs) + length (filter (\<lambda>(p, n). p < n) xs) +
      length (filter (\<lambda>(p, n). p = n) xs) = length xs" for xs :: "('a \<times> 'a) list"
    by (induction xs) (auto simp: neq_iff)
  ultimately show ?thesis by (simp add: wins_def ties_def)
qed

lemma ties_sym: "ties neg pos = ties pos neg"
  unfolding ties_def using count_product_swap [of "\<lambda>(p, n). p = n" pos neg] by (simp add: split_def eq_commute)

lemma wins_full: "wins pos neg = length pos * length neg \<longleftrightarrow> (\<forall>p \<in> set pos. \<forall>n \<in> set neg. n < p)"
proof -
  have "wins pos neg = length (List.product pos neg) \<longleftrightarrow> (\<forall>x \<in> set (List.product pos neg). case x of (p, n) \<Rightarrow> n < p)"
    unfolding wins_def by (metis filter_id_conv length_filter_less less_irrefl)
  then show ?thesis by auto
qed

lemma auroc_swap:
  assumes "pos \<noteq> []" and "neg \<noteq> []"
  shows "auroc pos neg + auroc neg pos = 1"
proof -
  let ?n = "of_nat (length pos * length neg) :: pyfloat"
  have n: "?n \<noteq> 0" using assms by simp
  have "?n = of_nat (wins pos neg + wins neg pos + ties pos neg)" by (simp only: wins_ties_total)
  then have "of_nat (wins pos neg) + 1 / 2 * of_nat (ties pos neg) + (of_nat (wins neg pos) + 1 / 2 * of_nat (ties pos neg)) = ?n"
    by (simp add: field_simps)
  with n show ?thesis
    using assms unfolding auroc_def ties_sym [of neg] mult.commute [of "length neg"] by (simp flip: add_divide_distrib)
qed

lemma auroc_nonneg: "0 \<le> auroc pos neg"
  by (simp add: auroc_def)

lemma auroc_one:
  assumes "pos \<noteq> []" and "neg \<noteq> []"
  shows "auroc pos neg = 1 \<longleftrightarrow> (\<forall>p \<in> set pos. \<forall>n \<in> set neg. n < p)"
proof -
  let ?N = "length pos * length neg"
  have N: "(of_nat ?N :: pyfloat) \<noteq> 0" using assms by simp
  have "auroc pos neg = 1 \<longleftrightarrow> (of_nat (2 * wins pos neg + ties pos neg) :: pyfloat) = of_nat (2 * ?N)"
    using assms N by (auto simp: auroc_def field_simps)
  also have "\<dots> \<longleftrightarrow> 2 * wins pos neg + ties pos neg = 2 * ?N" by (rule of_nat_eq_iff)
  also have "\<dots> \<longleftrightarrow> wins pos neg = ?N" using wins_ties_total [of pos neg] by linarith
  finally show ?thesis by (simp only: wins_full)
qed

lemma auroc_strict_mono:
  assumes "\<And>x y. x \<in> set pos \<union> set neg \<Longrightarrow> y \<in> set pos \<union> set neg \<Longrightarrow> f x < f y \<longleftrightarrow> x < y"
  shows "auroc (map f pos) (map f neg) = auroc pos neg"
proof -
  have e: "f x = f y \<longleftrightarrow> x = y" if "x \<in> set pos \<union> set neg" "y \<in> set pos \<union> set neg" for x y
    using assms [OF that] assms [OF that(2,1)] by (metis less_irrefl neqE)
  have "length (filter (\<lambda>y. P (f x) y) (map f neg)) = length (filter (\<lambda>y. P (f x) (f y)) neg)" for P x
    by (simp add: filter_map comp_def)
  then have "wins (map f pos) (map f neg) = wins pos neg" "ties (map f pos) (map f neg) = ties pos neg"
    unfolding wins_def ties_def count_product using assms e
    by (auto simp: filter_map comp_def intro!: arg_cong [of _ _ sum_list] map_cong filter_cong [THEN arg_cong [of _ _ length]])
  then show ?thesis by (simp add: auroc_def)
qed

lemma auroc_mset:
  assumes "mset pos = mset pos'" and "mset neg = mset neg'"
  shows "auroc pos neg = auroc pos' neg'"
proof -
  have "length (filter P neg) = length (filter P neg')" for P
    using assms(2) by (metis mset_filter size_mset)
  moreover have "sum_list (map g pos) = sum_list (map g pos')" for g :: "_ \<Rightarrow> nat"
    using assms(1) by (metis mset_map sum_mset_sum_list)
  ultimately have "wins pos neg = wins pos' neg'" "ties pos neg = ties pos' neg'"
    by (simp_all add: wins_def ties_def count_product)
  moreover have "pos = [] \<longleftrightarrow> pos' = []" "neg = [] \<longleftrightarrow> neg' = []" "length pos = length pos'" "length neg = length neg'"
    using assms by (metis mset_zero_iff size_mset)+
  ultimately show ?thesis by (simp add: auroc_def)
qed

section \<open>Degenerate intervals\<close>

text \<open>With a power of two of incidents every resample is the sample itself in another order.\<close>

lemma resample_permutation:
  assumes "j \<le> 31" and "length xs = 2 ^ j" and "js \<in> set (resamples n (2 ^ j) seed)"
  shows "mset (map (\<lambda>i. xs ! i) js) = mset xs"
proof -
  have f: "length js = 2 ^ j" "set js \<subseteq> {..<2 ^ j}" "length (filter (\<lambda>d. d mod 2 ^ j = r) js) = 1" if "r < 2 ^ j" for r
    using resample_facts [of j js n 1 seed r] assms(1,3) that by simp_all
  have "mset js = mset [0..<2 ^ j]"
  proof (rule multiset_eqI)
    fix r
    show "count (mset js) r = count (mset [0..<2 ^ j]) r"
    proof (cases "r < 2 ^ j")
      case True
      have "filter (\<lambda>d. d mod 2 ^ j = r) js = filter ((=) r) js"
        by (rule filter_cong) (use f(2) [OF True] in auto)
      with f(3) [OF True] True show ?thesis
        by (simp add: count_mset count_list_eq_length_filter)
    next
      case False
      have "set js \<subseteq> {..<2 ^ j}" by (rule f(2) [of 0]) simp
      with False have "r \<notin> set js" by auto
      with False show ?thesis by (simp add: count_mset)
    qed
  qed
  then have "mset (map (\<lambda>i. xs ! i) js) = mset (map (\<lambda>i. xs ! i) [0..<2 ^ j])" by (metis mset_map)
  then show ?thesis unfolding assms(2) [symmetric] map_nth .
qed

lemma bootstrap_degenerate:
  assumes "j \<le> 31" and "length xs = 2 ^ j" and "\<And>ys. mset ys = mset xs \<Longrightarrow> stat ys = stat xs"
  shows "bootstrap stat seed xs n = replicate n (stat xs)"
proof -
  have "map (\<lambda>js. stat (map (\<lambda>i. xs ! i) js)) (resamples n (length xs) seed) = map (\<lambda>js. stat xs) (resamples n (length xs) seed)"
    by (intro map_cong [OF refl] assms(3) resample_permutation [OF assms(1,2)]) (simp only: assms(2))
  then show ?thesis by (simp add: bootstrap_def map_replicate_const)
qed

lemma interval_replicate: "0 < n \<Longrightarrow> interval (replicate n x) n = Inr (x, x)"
proof -
  assume n: "0 < n"
  have i: "nat \<lfloor>q * of_nat n\<rfloor> < n" if "0 \<le> q" "q < 1" for q :: pyfloat
  proof -
    have "q * of_nat n < of_nat n" using n that by simp
    then show ?thesis using that by (simp add: nat_less_iff floor_less_iff)
  qed
  show ?thesis using i [of "25 / 1000"] i [of "975 / 1000"] n by (simp add: interval_def percentile_def)
qed

lemma pair_auroc_mset: "mset ys = mset xs \<Longrightarrow> pair_auroc ys = pair_auroc xs"
  unfolding pair_auroc_def
proof (rule auroc_mset)
  assume e: "mset ys = mset xs"
  show "mset (map fst ys) = mset (map fst xs)" using e by (metis mset_map)
  have "mset (concat (map snd zs)) = sum_mset (image_mset (mset \<circ> snd) (mset zs))" for zs :: "scored list"
    by (induction zs) simp_all
  with e show "mset (concat (map snd ys)) = mset (concat (map snd xs))" by metis
qed

lemma mean_of_mset: "mset ys = mset xs \<Longrightarrow> mean_of ys = mean_of xs"
  unfolding mean_of_def by (metis size_mset sum_mset_sum_list)

section \<open>The properties\<close>

text \<open>C37: The resamples are stratified. When \<open>2 ^ j\<close> divides the number of incidents, every bootstrap resample
  holds exactly as many incidents of each position modulo \<open>2 ^ j\<close> as the corpus itself: the low bits of
  a linear congruential generator are counters, and the index is the generator modulo the number of
  incidents. With 52 incidents of a class, 13 of every resample come from each of the four residue
  classes; with a power of two of incidents every resample is a permutation of the corpus, for
  whatever seed and number of resamples.\<close>

theorem resamples_stratified:
  assumes "j \<le> 31" and "length xs = 2 ^ j * q" and "js \<in> set (resamples n (length xs) seed)" and "r < 2 ^ j"
  shows "length js = length xs \<and> set js \<subseteq> {..<length xs} \<and> length (filter (\<lambda>d. d mod 2 ^ j = r) js) = q \<and>
    (q = 1 \<longrightarrow> mset (map (\<lambda>i. xs ! i) js) = mset xs)"
proof -
  have m: "js \<in> set (resamples n (2 ^ j * q) seed)" using assms(2,3) by simp
  have "mset (map (\<lambda>i. xs ! i) js) = mset xs" if "q = 1"
    by (rule resample_permutation [OF assms(1), of _ _ n seed]) (use assms(2) m that in simp_all)
  with resample_facts [OF assms(1) m assms(4)] show ?thesis unfolding assms(2) by blast
qed

lemma demo_resample: "resamples 1 4 1234567 = [[0, 1, 2, 3]]"
  by code_simp

theorem resamples_stratified_witness:
  "length [0 :: nat, 1, 2, 3] = 4 \<and> length (filter (\<lambda>d. d mod 4 = 3) [0 :: nat, 1, 2, 3]) = 1 \<and>
   mset (map (\<lambda>i. [1 :: int, 0, 0, 1] ! i) [0, 1, 2, 3]) = mset [1, 0, 0, 1]"
  using resamples_stratified [of 2 "[1 :: int, 0, 0, 1]" 1 "[0, 1, 2, 3]" 1 1234567 3] demo_resample by simp

text \<open>With a power of two of incidents every confidence interval the scripts report collapses to the
  point estimate, however uncertain it is.\<close>

lemma intervals_collapse:
  assumes "j \<le> 31" and "0 < n"
  shows "length hits = 2 ^ j \<Longrightarrow> boot_ci hits n = Inr (mean_of hits, mean_of hits)"
    and "length pairs = 2 ^ j \<Longrightarrow> auroc_ci pairs n = Inr (pair_auroc pairs, pair_auroc pairs, pair_auroc pairs)"
    and "length pairs = 2 ^ j \<Longrightarrow> boot_auroc pairs n = Inr (pair_auroc pairs, pair_auroc pairs)"
    and "length pairs = 2 ^ j \<Longrightarrow> boot pairs n = Inr (pair_auroc pairs, pair_auroc pairs)"
proof -
  note b = bootstrap_degenerate [OF assms(1)] and i = interval_replicate [OF assms(2)]
  show "boot_ci hits n = Inr (mean_of hits, mean_of hits)" if "length hits = 2 ^ j"
    using that i by (auto simp: boot_ci_def b [OF that mean_of_mset])
  have p: "bootstrap pair_auroc seed pairs n = replicate n (pair_auroc pairs)" if "length pairs = 2 ^ j" for seed
    by (rule b [OF that pair_auroc_mset])
  show "auroc_ci pairs n = Inr (pair_auroc pairs, pair_auroc pairs, pair_auroc pairs)" if "length pairs = 2 ^ j"
    using that i by (auto simp: auroc_ci_def p [OF that])
  show "boot_auroc pairs n = Inr (pair_auroc pairs, pair_auroc pairs)" if "length pairs = 2 ^ j"
    using i by (simp add: boot_auroc_def p [OF that])
  show "boot pairs n = Inr (pair_auroc pairs, pair_auroc pairs)" if "length pairs = 2 ^ j"
    using i by (simp add: boot_def p [OF that])
qed

text \<open>AUROC is what the reports say it is: a number between 0 and 1, chance plus chance for the two
  directions is 1, 1 exactly when every faulted link outscores every peer and 0 exactly when every peer
  outscores every faulted link, and unchanged by any strictly increasing rescaling of the scores.\<close>

theorem auroc_spec:
  assumes "pos \<noteq> []" and "neg \<noteq> []"
  shows "0 \<le> auroc pos neg \<and> auroc pos neg \<le> 1 \<and> auroc neg pos = 1 - auroc pos neg \<and>
    (auroc pos neg = 1 \<longleftrightarrow> (\<forall>p \<in> set pos. \<forall>n \<in> set neg. n < p)) \<and>
    (auroc pos neg = 0 \<longleftrightarrow> (\<forall>p \<in> set pos. \<forall>n \<in> set neg. p < n)) \<and>
    (\<forall>f. (\<forall>x y. x < y \<longrightarrow> f x < f y) \<longrightarrow> auroc (map f pos) (map f neg) = auroc pos neg)"
proof -
  have s: "auroc neg pos = 1 - auroc pos neg" using auroc_swap [OF assms] by linarith
  have z: "auroc pos neg = 0 \<longleftrightarrow> auroc neg pos = 1" unfolding s by simp
  have "auroc (map f pos) (map f neg) = auroc pos neg" if "\<forall>x y. x < y \<longrightarrow> f x < f y" for f
    by (rule auroc_strict_mono) (metis that less_asym neqE)
  moreover have "auroc pos neg \<le> 1" using auroc_nonneg [of neg pos] s by linarith
  ultimately show ?thesis
    unfolding z auroc_one [OF assms] auroc_one [OF assms(2,1)] using auroc_nonneg s by blast
qed

theorem auroc_spec_witness: "auroc [3 :: int, 2] [1, 2] = 7 / 8 \<and> auroc [1 :: int, 2] [3, 2] = 1 - 7 / 8"
proof -
  have "auroc [3 :: int, 2] [1, 2] = 7 / 8" by code_simp
  moreover have "auroc [1 :: int, 2] [3, 2] = 1 - auroc [3 :: int, 2] [1, 2]"
    using auroc_spec [OF list.distinct(2) list.distinct(2), of "3 :: int" "[2]" 1 "[2]"] by blast
  ultimately show ?thesis by (simp only:)
qed

text \<open>Scores that are all equal are at chance: a detector that never fires localises nothing.\<close>

lemma auroc_constant:
  assumes "\<forall>x \<in> set pos \<union> set neg. x = c"
  shows "auroc pos neg = 1 / 2"
proof (cases "pos = [] \<or> neg = []")
  case False
  have "\<not> y < x" if "x \<in> set pos \<union> set neg" "y \<in> set pos \<union> set neg" for x y
    using assms that by (metis less_irrefl)
  then have w: "wins pos neg = 0" "wins neg pos = 0" by (auto simp: wins_def filter_empty_conv)
  then have "ties pos neg = length pos * length neg" using wins_ties_total [of pos neg] by simp
  with w False show ?thesis by (simp add: auroc_def)
qed (simp add: auroc_def)

text \<open>\<open>_rank\<close> resolves ties by the order of the dictionary: the rank of a link counts the links with a
  higher score and the links with the same score that come before it.\<close>

lemma takeWhile_sorted_rank:
  assumes "distinct ys" and "sorted (map f ys)" and "x \<in> set ys"
  shows "length (takeWhile (\<lambda>y. y \<noteq> x) ys) =
    length (filter (\<lambda>y. f y < f x) ys) + length (takeWhile (\<lambda>y. y \<noteq> x) (filter (\<lambda>y. f y = f x) ys))"
  using assms
proof (induction ys)
  case (Cons y ys)
  show ?case
  proof (cases "y = x")
    case True
    with Cons.prems have "filter (\<lambda>y. f y < f x) ys = []" by (auto simp: filter_empty_conv)
    with True show ?thesis by simp
  next
    case False
    with Cons.prems have "x \<in> set ys" "f y \<le> f x" by auto
    with Cons False show ?thesis by (cases "f y = f x") auto
  qed
qed simp

lemma rank_of_spec:
  assumes "distinct (dict_keys sc)" and "t \<in> set (dict_keys sc)"
  shows "rank_of sc t = Inr (1 + length (filter (\<lambda>lk. the (dict_get sc t) < the (dict_get sc lk)) (dict_keys sc)) +
    length (takeWhile (\<lambda>lk. lk \<noteq> t) (filter (\<lambda>lk. the (dict_get sc lk) = the (dict_get sc t)) (dict_keys sc))))"
proof -
  define f where "f lk = - the (dict_get sc lk)" for lk
  let ?ys = "sort_key f (dict_keys sc)"
  have e: "filter (\<lambda>y. f y = f t) ?ys = filter (\<lambda>y. f y = f t) (dict_keys sc)" by (rule sort_key_stable)
  have "length (filter (\<lambda>y. f y < f t) ?ys) = length (filter (\<lambda>y. f y < f t) (dict_keys sc))"
    by (metis mset_filter mset_sort size_mset)
  with takeWhile_sorted_rank [of ?ys f t] assms e
  show ?thesis unfolding rank_of_def Let_def f_def by simp
qed

end
