(* ===== verification/Signal.thy ===== *)
theory Signal
  imports Stats Graph
begin

text \<open>
  The exit-criteria check of the corpus, \<open>scripts/gate12_5_exit_check.py\<close>, and the rule baseline of
  \<open>scripts/gate12_5_localization_ablation.py\<close>: the names of the window files, the features of an endpoint
  window, the degradation scores of the links, and the verdict. A file is its name with the rows of
  its table (time, metric, value); reading Parquet and the report text are left out.
\<close>

section \<open>File names\<close>

function replace_all :: "string \<Rightarrow> string \<Rightarrow> string \<Rightarrow> string" where
  "replace_all old new s =
     (if s = [] then []
      else if old \<noteq> [] \<and> startswith s old then new @ replace_all old new (drop (length old) s)
      else hd s # replace_all old new (tl s))"
  by pat_completeness auto
termination by (relation "measure (\<lambda>(old, new, s). length s)") auto

declare replace_all.simps [simp del]

text \<open>\<open>s.split(sep, 1)\<close> as the parts before and after the first separator.\<close>

fun split_first :: "string \<Rightarrow> string \<Rightarrow> (string \<times> string) option" where
  "split_first sep [] = (if sep = [] then Some ([], []) else None)"
| "split_first sep (c # s) =
     (if startswith (c # s) sep then Some ([], drop (length sep) (c # s))
      else map_option (\<lambda>(a, b). (c # a, b)) (split_first sep s))"

text \<open>\<open>s.rsplit(".", 1)[0]\<close>: the text before the last dot.\<close>

definition before_last_dot :: "string \<Rightarrow> string" where
  "before_last_dot s =
     (if CHR ''.'' \<in> set s then rev (tl (dropWhile (\<lambda>c. c \<noteq> CHR ''.'') (rev s))) else s)"

definition incident_prefix :: string where "incident_prefix = ''incident-''"

text \<open>The collector's name for the window of an endpoint.\<close>

definition window_name :: "string \<Rightarrow> string \<Rightarrow> string" where
  "window_name inj_id iid =
     incident_prefix @ inj_id @ ''--'' @ replace_all ''/'' ''_'' (replace_all '':'' ''-'' iid) @ ''.parquet''"

definition incident_of :: "string \<Rightarrow> string" where
  "incident_of name =
     (let s = drop (length incident_prefix) name in case split_first ''--'' s of None \<Rightarrow> s | Some (a, _) \<Rightarrow> a)"

definition endpoint_of :: "string \<Rightarrow> string res" where
  "endpoint_of name =
     (case split_first ''--'' (before_last_dot (drop (length incident_prefix) name)) of
        None \<Rightarrow> Inl IndexError
      | Some (_, b) \<Rightarrow> Inr (replace_all ''-ethernet-1_'' '':ethernet-1/'' b))"

text \<open>The pattern \<open>incident-*--*.parquet\<close>.\<close>

definition incident_name :: "string \<Rightarrow> bool" where
  "incident_name name \<longleftrightarrow> prefix incident_prefix name \<and> suffix ''.parquet'' name \<and>
     contains (take (length name - 17) (drop (length incident_prefix) name)) ''--''"

section \<open>Features of an endpoint window\<close>

type_synonym table_row = "pyfloat \<times> string \<times> pyfloat"

definition metric_points :: "table_row list \<Rightarrow> string \<Rightarrow> (pyfloat \<times> pyfloat) list" where
  "metric_points rows m = map (\<lambda>(t, _, v). (t, v)) (filter (\<lambda>(_, k, _). k = m) rows)"

definition window_delta :: "table_row list \<Rightarrow> string \<Rightarrow> pyfloat" where
  "window_delta rows m =
     (let pts = sort (metric_points rows m) in
      if length pts < 2 then 0
      else let d = snd (last pts) - snd (hd pts) in if 0 \<le> d then d else snd (last pts))"

definition window_span :: "table_row list \<Rightarrow> pyfloat" where
  "window_span rows =
     (if length rows < 2 then 1 else let ts = sort (map fst rows) in max (last ts - hd ts) 1)"

definition SIGNAL_FEATURES :: "string list" where
  "SIGNAL_FEATURES = [''util_out'', ''util_in'', ''discards'', ''errors'', ''oper_down'']"

definition endpoint_features :: "table_row list \<Rightarrow> (string, pyfloat) dict" where
  "endpoint_features rows =
     (let s = window_span rows;
          oper = map snd (metric_points rows ''oper_state'');
          oper_min = (if oper = [] then 1 else Min (set oper)) in
      [(''util_out'', window_delta rows ''out_octets'' * 8 / s),
       (''util_in'', window_delta rows ''in_octets'' * 8 / s),
       (''discards'', window_delta rows ''in_discarded_packets'' + window_delta rows ''out_discarded_packets''),
       (''errors'', window_delta rows ''in_error_packets'' + window_delta rows ''out_error_packets''),
       (''oper_down'', 1 - oper_min)])"

section \<open>Features of the links\<close>

text \<open>\<open>link_map\<close>: the fabric link of an endpoint, named by its sorted endpoints.\<close>

definition link_id :: "candidate_link \<Rightarrow> string" where
  "link_id l = join ''|'' (sort [fst (cl_endpoints l), snd (cl_endpoints l)])"

definition link_map :: "typed_graph \<Rightarrow> (string, string) dict" where
  "link_map g =
     fold (\<lambda>l m. if cl_kind l \<noteq> Fabric_link then m
                 else dict_set (snd (cl_endpoints l)) (link_id l) (dict_set (fst (cl_endpoints l)) (link_id l) m))
       (candidate_links g) []"

type_synonym link_feats = "(string, (string, pyfloat) dict) dict"

definition add_endpoint :: "(string, string) dict \<Rightarrow> string \<times> table_row list \<Rightarrow> link_feats \<Rightarrow> link_feats res" where
  "add_endpoint lmap f feats =
     bindr (endpoint_of (fst f)) (\<lambda>iid.
       case dict_get lmap iid of
         None \<Rightarrow> Inr feats
       | Some lid \<Rightarrow>
           let fe = endpoint_features (snd f);
               cur = (case dict_get feats lid of Some d \<Rightarrow> d | None \<Rightarrow> map (\<lambda>k. (k, 0)) SIGNAL_FEATURES)
           in bindr (map_res (\<lambda>k. bindr (dict_index cur k) (\<lambda>c. bindr (dict_index fe k) (\<lambda>x. Inr (k, max c x)))) SIGNAL_FEATURES)
                (\<lambda>d. Inr (dict_set lid d feats)))"

definition link_features :: "(string, string) dict \<Rightarrow> (string \<times> table_row list) list \<Rightarrow> link_feats res" where
  "link_features lmap files = fold_res (add_endpoint lmap) files []"

section \<open>Scores\<close>

definition median :: "pyfloat list \<Rightarrow> pyfloat res" where
  "median data =
     (let d = sort data; n = length d in
      if n = 0 then Inl (ValueError ''no median for empty data'')
      else if odd n then Inr (d ! (n div 2))
      else Inr ((d ! (n div 2 - 1) + d ! (n div 2)) / 2))"

definition centre_scale :: "pyfloat list \<Rightarrow> (pyfloat \<times> pyfloat) res" where
  "centre_scale peers =
     bindr (median peers) (\<lambda>med. bindr (median (map (\<lambda>p. \<bar>p - med\<bar>) peers)) (\<lambda>m.
       Inr (med, if m = 0 then 1 / 10 ^ 9 else m)))"

definition robust_z :: "pyfloat \<Rightarrow> pyfloat list \<Rightarrow> pyfloat res" where
  "robust_z x peers = bindr (centre_scale peers) (\<lambda>(med, mad). Inr (\<bar>x - med\<bar> / (14826 / 10000 * mad)))"

definition feat :: "link_feats \<Rightarrow> string \<Rightarrow> string \<Rightarrow> pyfloat res" where
  "feat feats lid f = bindr (dict_index feats lid) (\<lambda>d. dict_index d f)"

definition peer_z :: "link_feats \<Rightarrow> string \<Rightarrow> string \<Rightarrow> pyfloat res" where
  "peer_z feats lid f =
     bindr (map_res (\<lambda>lk. feat feats lk f) (filter (\<lambda>lk. lk \<noteq> lid) (dict_keys feats))) (\<lambda>peers.
     bindr (centre_scale peers) (\<lambda>(med, mad).
     bindr (feat feats lid f) (\<lambda>x. Inr ((x - med) / (14826 / 10000 * mad)))))"

definition degrading :: "string \<Rightarrow> pyfloat" where
  "degrading f = (if f \<in> {''util_out'', ''util_in''} then -1 else 1)"

definition degradation_score :: "link_feats \<Rightarrow> string \<Rightarrow> pyfloat res" where
  "degradation_score feats lid =
     fold_res (\<lambda>f s. bindr (peer_z feats lid f) (\<lambda>z.
         Inr (s + (if f = ''oper_down'' then 5 else 1) * max 0 (z * degrading f))))
       SIGNAL_FEATURES 0"

definition score_links :: "(link_feats \<Rightarrow> string \<Rightarrow> 'a res) \<Rightarrow> link_feats \<Rightarrow> (string, 'a) dict res" where
  "score_links score feats = map_res (\<lambda>lid. bindr (score feats lid) (\<lambda>s. Inr (lid, s))) (dict_keys feats)"

definition degradation_scores :: "link_feats \<Rightarrow> (string, pyfloat) dict res" where
  "degradation_scores = score_links degradation_score"

text \<open>\<open>target_ranks\<close>: the largest deviation in any direction, and in the degrading direction.\<close>

definition largest_z :: "(string \<Rightarrow> pyfloat \<Rightarrow> pyfloat) \<Rightarrow> link_feats \<Rightarrow> string \<Rightarrow> pyfloat res" where
  "largest_z h feats lid = fold_res (\<lambda>f a. bindr (peer_z feats lid f) (\<lambda>z. Inr (max a (h f z)))) SIGNAL_FEATURES 0"

definition target_ranks :: "link_feats \<Rightarrow> string \<Rightarrow> (nat \<times> nat) option res" where
  "target_ranks feats target_lid =
     (if target_lid \<notin> set (dict_keys feats) \<or> length feats < 2 then Inr None
      else
        bindr (score_links (largest_z (\<lambda>f z. \<bar>z\<bar>)) feats) (\<lambda>naive.
        bindr (score_links (largest_z (\<lambda>f z. max 0 (z * degrading f))) feats) (\<lambda>directed.
        bindr (rank_of naive target_lid) (\<lambda>a. bindr (rank_of directed target_lid) (\<lambda>b. Inr (Some (a, b)))))))"

section \<open>The verdict\<close>

definition FAULTED :: "string list" where
  "FAULTED = [''admin_shutdown'', ''carrier_loss'', ''intermittent_link'', ''rate_limited_uplink'', ''impaired_link'']"

definition GRAY :: "string list" where "GRAY = [''rate_limited_uplink'', ''impaired_link'']"

text \<open>The interval of each class with data: \<open>(lo, hi)\<close>.\<close>

definition control_honest :: "(string, pyfloat \<times> pyfloat) dict \<Rightarrow> bool" where
  "control_honest results =
     (let (lo, hi) = (case dict_get results ''healthy_control'' of None \<Rightarrow> (0, 1) | Some i \<Rightarrow> i)
      in lo \<le> 1 / 2 \<and> 1 / 2 \<le> hi)"

definition separable :: "(string, pyfloat \<times> pyfloat) dict \<Rightarrow> string \<Rightarrow> bool" where
  "separable results c = (1 / 2 < (case dict_get results c of None \<Rightarrow> 0 | Some (lo, hi) \<Rightarrow> lo))"

definition exit_outcome :: "bool \<Rightarrow> (string, pyfloat \<times> pyfloat) dict \<Rightarrow> string" where
  "exit_outcome integrity_ok results =
     (let n_sep = length (filter (separable results) FAULTED); gray_sep = filter (separable results) GRAY in
      if \<not> (integrity_ok \<and> control_honest results) then ''STOP''
      else if 4 \<le> n_sep \<and> 1 \<le> length gray_sep then ''QUALIFIED PASS''
      else ''STOP'')"

section \<open>The rule baseline\<close>

record abl_incident = incident +
  i_leaf :: string
  i_split :: string
  i_node_feat :: "(string, pyfloat list) dict"
  i_node_down :: "(string, bool) dict"

definition rule_score :: "(string, string \<times> string) dict \<Rightarrow> abl_incident \<Rightarrow> (string, pyfloat) dict res" where
  "rule_score links inc =
     map_res (\<lambda>(lid, a, b).
         bindr (dict_index (i_node_down inc) a) (\<lambda>da.
         bindr (if da then Inr True else dict_index (i_node_down inc) b) (\<lambda>d.
         Inr (lid, if d then 1 else 0))))
       links"

text \<open>The feature matrix of the candidate links: the vectors of the two endpoints, and with \<open>relative\<close> their
  deviation from the median of the links, column by column; a matrix with rows of different
  lengths is rejected. The labels mark the faulted link.\<close>

definition column_scale :: "pyfloat list list \<Rightarrow> nat \<Rightarrow> (pyfloat \<times> pyfloat) res" where
  "column_scale X k =
     bindr (median (map (\<lambda>r. r ! k) X)) (\<lambda>med.
     bindr (median (map (\<lambda>r. \<bar>r ! k - med\<bar>) X)) (\<lambda>mad. Inr (med, mad)))"

definition link_row :: "abl_incident \<Rightarrow> (string, string \<times> string) dict \<Rightarrow> bool \<Rightarrow> (pyfloat list list \<times> int list \<times> string list) res" where
  "link_row inc links relative =
     bindr (map_res (\<lambda>(lid, a, b). bindr (dict_index (i_node_feat inc) a) (\<lambda>x. bindr (dict_index (i_node_feat inc) b) (\<lambda>y. Inr (x @ y)))) links) (\<lambda>X.
       let w = (case X of [] \<Rightarrow> 0 | r # _ \<Rightarrow> length r);
           y = map (\<lambda>lid. if lid = i_tlid inc then 1 else 0) (dict_keys links);
           lids = dict_keys links
       in
       if \<not> list_all (\<lambda>r. length r = w) X then Inl (ValueError ''inhomogeneous shape'')
       else if \<not> relative then Inr (X, y, lids)
       else bindr (map_res (column_scale X) [0..<w]) (\<lambda>cs.
         Inr (map (\<lambda>r. r @ map (\<lambda>(x, med, mad). (x - med) / (14826 / 10000 * mad + 1 / 10 ^ 9)) (zip r cs)) X, y, lids)))"

section \<open>Names\<close>

lemma replace_all_Nil [simp]: "replace_all old new [] = []"
  by (simp add: replace_all.simps)

lemma replace_char: "replace_all [c] [d] s = map (\<lambda>x. if x = c then d else x) s"
proof (induction s)
  case (Cons x s)
  then show ?case by (subst replace_all.simps) (simp add: startswith_def)
qed simp

lemma replace_char_absent: "c \<notin> set s \<Longrightarrow> replace_all [c] [d] s = s"
  unfolding replace_char by (rule map_idI) auto

lemma replace_skip: "x \<notin> set s \<Longrightarrow> replace_all (x # old) new (s @ t) = s @ replace_all (x # old) new t"
proof (induction s)
  case (Cons c s)
  then show ?case by (subst replace_all.simps) (auto simp: startswith_def)
qed simp

lemma replace_here: "old \<noteq> [] \<Longrightarrow> replace_all old new (old @ t) = new @ replace_all old new t"
  by (subst replace_all.simps) (simp add: startswith_def)

lemma replace_absent: "x \<notin> set s \<Longrightarrow> replace_all (x # old) new s = s"
  using replace_skip [of x s old new "[]"] by simp

text \<open>The separator is not met inside a text that neither contains it nor ends with its first character.\<close>

lemma split_first_dashes:
  "\<not> contains a ''--'' \<Longrightarrow> a = [] \<or> last a \<noteq> CHR ''-'' \<Longrightarrow> split_first ''--'' (a @ ''--'' @ b) = Some (a, b)"
proof (induction a)
  case Nil
  then show ?case by (simp add: startswith_def)
next
  case (Cons c a)
  have "\<not> startswith ((c # a) @ ''--'' @ b) ''--''"
    using Cons.prems by (cases a) (auto simp: startswith_def)
  moreover have "split_first ''--'' (a @ ''--'' @ b) = Some (a, b)"
    by (rule Cons.IH) (use Cons.prems in \<open>auto split: if_splits\<close>)
  ultimately show ?case by simp
qed

lemma before_last_dot_parquet: "before_last_dot (s @ ''.parquet'') = s"
  by (simp add: before_last_dot_def)

text \<open>The checks read back what the collector wrote into a file name: the incident up to the first double
  dash, which no identifier contains, and the endpoint after it, colon and slash restored, for a node
  name without the characters the encoding uses.\<close>

theorem window_name_roundtrip:
  assumes "\<not> contains inj_id ''--''" and "inj_id = [] \<or> last inj_id \<noteq> CHR ''-''"
    and "set nd \<inter> {CHR ''-'', CHR '':'', CHR ''/''} = {}" and "set port \<inter> {CHR ''-'', CHR '':'', CHR ''/''} = {}"
  shows "incident_of (window_name inj_id (nd @ '':ethernet-1/'' @ port)) = inj_id \<and>
    endpoint_of (window_name inj_id (nd @ '':ethernet-1/'' @ port)) = Inr (nd @ '':ethernet-1/'' @ port)"
proof -
  let ?e = "nd @ ''-ethernet-1_'' @ port"
  have "replace_all '':'' ''-'' (nd @ '':ethernet-1/'' @ port) = nd @ ''-ethernet-1/'' @ port"
    using assms(3,4) by (auto simp: replace_char intro!: map_idI)
  moreover have "replace_all ''/'' ''_'' (nd @ ''-ethernet-1/'' @ port) = ?e"
    using assms(3,4) by (auto simp: replace_char intro!: map_idI)
  ultimately have n: "window_name inj_id (nd @ '':ethernet-1/'' @ port) = incident_prefix @ inj_id @ ''--'' @ ?e @ ''.parquet''"
    unfolding window_name_def by (simp only:)
  have d: "drop (length incident_prefix) (incident_prefix @ x) = x" for x by simp
  have b: "before_last_dot (inj_id @ ''--'' @ ?e @ ''.parquet'') = inj_id @ ''--'' @ ?e"
    using before_last_dot_parquet [of "inj_id @ ''--'' @ ?e"] by (simp only: append_assoc)
  have "replace_all ''-ethernet-1_'' '':ethernet-1/'' ?e = nd @ '':ethernet-1/'' @ port"
  proof -
    have "CHR ''-'' \<notin> set nd" "CHR ''-'' \<notin> set port" using assms(3,4) by auto
    then show ?thesis by (simp only: replace_skip replace_here replace_absent list.distinct not_False_eq_True)
  qed
  then show ?thesis
    unfolding n incident_of_def endpoint_of_def d b Let_def split_first_dashes [OF assms(1,2)] by simp
qed

theorem window_name_roundtrip_witness:
  "endpoint_of (window_name ''3f2a-91'' ''leaf1:ethernet-1/49'') = Inr ''leaf1:ethernet-1/49''"
  using window_name_roundtrip [of "''3f2a-91''" "''leaf1''" "''49''"] by (simp add: startswith_def)

section \<open>The rule is at chance on faults that leave the interfaces up\<close>

lemma rule_score_up:
  assumes "\<forall>(lid, a, b) \<in> set links. dict_get (i_node_down inc) a = Some False \<and> dict_get (i_node_down inc) b = Some False"
  shows "rule_score links inc = Inr (map (\<lambda>l. (fst l, 0)) links)"
  unfolding rule_score_def
  by (rule map_res_total) (use assms in \<open>auto simp: dict_index_def\<close>)

lemma eval_rank_tied:
  assumes "score inc = Inr (map (\<lambda>l. (fst l, 0)) links)" and "i_tlid inc \<in> fst ` set links"
  shows "eval_rank score inc = Inr \<lparr>r_fc = i_fc inc, r_rank = (of_nat (length links) + 1) / 2,
    r_scored = (0, map (\<lambda>_. 0) (filter (\<lambda>l. fst l \<noteq> i_tlid inc) links))\<rparr>"
proof -
  let ?sc = "map (\<lambda>l. (fst l, 0 :: pyfloat)) links"
  have "dict_get ?sc (i_tlid inc) = Some 0"
    using assms(2) by (induction links) auto
  moreover have "map snd ?sc = replicate (length links) 0" by (simp add: comp_def map_replicate_const)
  moreover have "filter (\<lambda>v. 0 < v) (replicate k (0 :: pyfloat)) = []" "filter (\<lambda>v. v = 0) (replicate k (0 :: pyfloat)) = replicate k 0" for k
    by (simp_all add: filter_replicate)
  moreover have "map snd (filter (\<lambda>(lk, _). lk \<noteq> i_tlid inc) ?sc) = map (\<lambda>_. 0) (filter (\<lambda>l. fst l \<noteq> i_tlid inc) links)"
    by (simp add: filter_map comp_def split_def)
  ultimately show ?thesis
    unfolding eval_rank_def assms(1) bindr_simps dict_index_def by (simp add: Let_def field_simps)
qed

lemma bootstrap_constant:
  assumes "\<And>ys. set ys \<subseteq> set xs \<Longrightarrow> ys \<noteq> [] \<or> xs = [] \<Longrightarrow> stat ys = c"
  shows "bootstrap stat seed xs n = replicate n c"
proof -
  have "map (\<lambda>js. stat (map (\<lambda>j. xs ! j) js)) (resamples n (length xs) seed) = map (\<lambda>_. c) (resamples n (length xs) seed)"
  proof (rule map_cong [OF refl])
    fix js assume "js \<in> set (resamples n (length xs) seed)"
    then have "set js \<subseteq> {..<length xs} \<and> length js = length xs"
      using resample_facts [of 0 js n "length xs" seed 0] by simp
    then show "stat (map (\<lambda>j. xs ! j) js) = c" by (intro assms) (auto dest: nth_mem)
  qed
  then show ?thesis by (simp add: bootstrap_def map_replicate_const)
qed

lemma pair_auroc_zero: "\<forall>p \<in> set ps. fst p = 0 \<and> (\<forall>x \<in> set (snd p). x = 0) \<Longrightarrow> pair_auroc ps = 1 / 2"
  unfolding pair_auroc_def by (rule auroc_constant [of _ _ 0]) auto

text \<open>The operational-state rule is exactly at chance on a fault that leaves every interface up, whatever
  link was faulted: over incidents none of whose endpoints was seen down, every faulted link gets the
  middle rank, AUROC is one half, and so are both ends of its interval.\<close>

theorem rule_at_chance:
  assumes "\<forall>inc \<in> set test. i_tlid inc \<in> fst ` set links \<and>
      (\<forall>(lid, a, b) \<in> set links. dict_get (i_node_down inc) a = Some False \<and> dict_get (i_node_down inc) b = Some False)"
    and "0 < n"
  shows "\<exists>rows. eval_ranks (rule_score links) test = Inr rows \<and> length rows = length test \<and>
    (\<forall>r \<in> set rows. r_rank r = (of_nat (length links) + 1) / 2) \<and>
    pair_auroc (map r_scored rows) = 1 / 2 \<and> boot_auroc (map r_scored rows) n = Inr (1 / 2, 1 / 2)"
proof -
  define g where "g inc = \<lparr>r_fc = i_fc inc, r_rank = (of_nat (length links) + 1) / 2,
    r_scored = (0 :: pyfloat, map (\<lambda>_. 0) (filter (\<lambda>l. fst l \<noteq> i_tlid inc) links))\<rparr>" for inc :: abl_incident
  have "eval_ranks (rule_score links) test = Inr (map g test)"
    unfolding eval_ranks_def
    by (rule map_res_total) (use assms(1) in \<open>auto simp: g_def intro!: eval_rank_tied rule_score_up\<close>)
  moreover have z: "\<forall>p \<in> set (map r_scored (map g test)). fst p = 0 \<and> (\<forall>x \<in> set (snd p). x = 0)"
    by (auto simp: g_def)
  then have "bootstrap pair_auroc 20260704 (map r_scored (map g test)) n = replicate n (1 / 2)"
    by (intro bootstrap_constant pair_auroc_zero) blast
  then have "boot_auroc (map r_scored (map g test)) n = Inr (1 / 2, 1 / 2)"
    unfolding boot_auroc_def by (simp only: interval_replicate [OF assms(2)])
  ultimately show ?thesis using pair_auroc_zero [OF z]
    by (intro exI [of _ "map g test"]) (simp add: g_def)
qed

definition demo_incident :: abl_incident where
  "demo_incident = \<lparr>i_fc = ''impaired_link'', i_tlid = ''L2'', i_leaf = ''leaf3'', i_split = ''test'', i_node_feat = [],
     i_node_down = [(''a'', False), (''b'', False), (''c'', False), (''d'', False)]\<rparr>"

theorem rule_at_chance_witness:
  "\<exists>rows. eval_ranks (rule_score [(''L1'', ''a'', ''b''), (''L2'', ''c'', ''d'')]) [demo_incident] = Inr rows \<and>
     (\<forall>r \<in> set rows. r_rank r = 3 / 2) \<and> boot_auroc (map r_scored rows) 2000 = Inr (1 / 2, 1 / 2)"
proof -
  have "\<forall>inc \<in> set [demo_incident]. i_tlid inc \<in> fst ` set [(''L1'', ''a'', ''b''), (''L2'', ''c'', ''d'')] \<and>
      (\<forall>(lid, a, b) \<in> set [(''L1'', ''a'', ''b''), (''L2'', ''c'', ''d'')].
         dict_get (i_node_down inc) a = Some False \<and> dict_get (i_node_down inc) b = Some False)"
    by (simp add: demo_incident_def)
  from rule_at_chance [OF this, of 2000] show ?thesis by auto
qed

section \<open>Links that look alike\<close>

lemma median_replicate: "0 < n \<Longrightarrow> median (replicate n x) = Inr x"
proof -
  assume n: "0 < n"
  have "sort (replicate n x) = replicate n x" by (rule sorted_sort_id) simp
  moreover have "n div 2 < n" "n div 2 - 1 < n" using n by linarith+
  ultimately show ?thesis using n by (simp add: median_def Let_def)
qed

lemma peer_z_alike:
  assumes "\<forall>lk \<in> set (dict_keys feats). feat feats lk f = Inr c" and "lid \<in> set (dict_keys feats)"
    and "\<exists>lk \<in> set (dict_keys feats). lk \<noteq> lid"
  shows "peer_z feats lid f = Inr 0"
proof -
  let ?others = "filter (\<lambda>lk. lk \<noteq> lid) (dict_keys feats)"
  have "map_res (\<lambda>lk. feat feats lk f) ?others = Inr (map (\<lambda>_. c) ?others)"
    by (rule map_res_total) (use assms(1) in auto)
  then have p: "map_res (\<lambda>lk. feat feats lk f) ?others = Inr (replicate (length ?others) c)"
    by (simp only: map_replicate_const)
  have "?others \<noteq> []" using assms(3) by (auto simp: filter_empty_conv)
  then have n: "0 < length ?others" by (simp only: length_greater_0_conv not_False_eq_True)
  have "centre_scale (replicate (length ?others) c) = Inr (c, 1 / 10 ^ 9)"
    unfolding centre_scale_def by (simp only: median_replicate [OF n] bindr_simps map_replicate) simp
  moreover have "feat feats lid f = Inr c" using assms(1,2) by blast
  ultimately show ?thesis unfolding peer_z_def p by simp
qed

text \<open>When no link differs from its peers every score is zero, and \<open>_rank\<close> reports the position of the link in
  the dictionary: the first link listed counts as localised, the others do not.\<close>

lemma alike_ranked_by_position:
  assumes "\<forall>lk \<in> set (dict_keys feats). \<forall>f \<in> set SIGNAL_FEATURES. feat feats lk f = Inr (c f)"
    and "distinct (dict_keys feats)" and "2 \<le> length feats" and "t \<in> set (dict_keys feats)"
  shows "\<exists>sc. degradation_scores feats = Inr sc \<and>
    rank_of sc t = Inr (1 + length (takeWhile (\<lambda>lk. lk \<noteq> t) (dict_keys feats)))"
proof -
  have other: "\<exists>lk \<in> set (dict_keys feats). lk \<noteq> lid" for lid
  proof (rule ccontr)
    assume "\<not> ?thesis"
    then have "set (dict_keys feats) \<subseteq> {lid}" by auto
    then have "card (set (dict_keys feats)) \<le> 1" by (metis card_mono card.empty card_insert_if empty_iff finite.emptyI finite_insert One_nat_def)
    with assms(2,3) distinct_card [OF assms(2)] show False by simp
  qed
  let ?sc = "map (\<lambda>lid. (lid, 0 :: pyfloat)) (dict_keys feats)"
  have "degradation_score feats lid = Inr 0" if "lid \<in> set (dict_keys feats)" for lid
  proof -
    have "peer_z feats lid f = Inr 0" if "f \<in> set SIGNAL_FEATURES" for f
      using assms(1) that \<open>lid \<in> set (dict_keys feats)\<close> other by (intro peer_z_alike) auto
    then show ?thesis by (simp add: degradation_score_def SIGNAL_FEATURES_def)
  qed
  then have "degradation_scores feats = Inr ?sc"
    unfolding degradation_scores_def score_links_def by (intro map_res_total) auto
  moreover have k: "dict_keys ?sc = dict_keys feats" by (simp add: comp_def)
  moreover have g: "the (dict_get ?sc lk) = 0" if "lk \<in> set (dict_keys feats)" for lk
    using that by (simp only: map_of_map_restrict restrict_map_def if_True o_def option.sel)
  have "rank_of ?sc t = Inr (1 + length (takeWhile (\<lambda>lk. lk \<noteq> t) (dict_keys feats)))"
    using rank_of_spec [of ?sc t] assms(2,4) g unfolding k by (simp cong: filter_cong)
  ultimately show ?thesis by blast
qed

text \<open>A corpus without control incidents counts as one whose control is honest.\<close>

lemma missing_control_is_honest: "dict_get results ''healthy_control'' = None \<Longrightarrow> control_honest results"
  by (simp add: control_honest_def)

end
