(* ===== verification/Corpus.thy ===== *)
theory Corpus
  imports Signal Chaos
begin

text \<open>
  The resumable corpus runner \<open>scripts/corpus_run.py\<close> and its verifier \<open>scripts/corpus_verify.py\<close>. The
  evaluation tables, the window files and the lab form the world; \<open>tools\<close> holds what the scripts take from
  libraries (SHA-256, the ISO form of a time, the Parquet codec), \<open>lab\<close> what they observe (a command's
  output, the clock, Prometheus, the free disk space). A file is its bytes under its path from the
  repository root; a UUID is a number, \<open>str\<close> of it its digits. The trace lists the commits of the status of an
  injection and the commands sent to the lab, in order.
\<close>

section \<open>Tables, tools and world\<close>

record campaign =
  ca_id :: nat
  ca_key :: string
  ca_revision :: string
  ca_seed :: int
  ca_status :: string

record injection =
  fi_id :: nat
  fi_campaign :: nat
  fi_class :: string
  fi_shard :: string
  fi_target :: "(string, string) dict"
  fi_parameters :: "(string, json) dict"
  fi_traffic_seed :: int
  fi_fault_seed :: int
  fi_status :: string
  fi_simulated :: bool
  fi_observed_at :: "pyfloat option"

record truth_label =
  gl_injection :: nat
  gl_json :: json
  gl_hash :: string

record artifact =
  ar_kind :: string
  ar_uri :: string
  ar_sha256 :: string
  ar_byte_size :: nat

record corpus_db =
  campaigns :: "campaign list"
  injections :: "injection list"
  labels :: "truth_label list"
  artifacts :: "artifact list"
  c_next :: nat

record tools =
  t_sha :: "string \<Rightarrow> string"
  t_fr :: "pyfloat \<Rightarrow> string"
  t_iso :: "pyfloat \<Rightarrow> string"
  t_date :: "pyfloat \<Rightarrow> string"
  t_float :: "string \<Rightarrow> pyfloat res"
  t_write :: "raw_row list \<Rightarrow> string"
  t_names :: "string \<Rightarrow> string list"
  t_rows :: "string \<Rightarrow> nat"

record 'l lab =
  lab_exec :: "command \<Rightarrow> 'l \<Rightarrow> string res \<times> 'l"
  lab_sleep :: "nat \<Rightarrow> 'l \<Rightarrow> 'l"
  lab_now :: "'l \<Rightarrow> pyfloat"
  lab_fetch :: "'l \<Rightarrow> string \<Rightarrow> string \<Rightarrow> string \<Rightarrow> pyfloat \<Rightarrow> pyfloat \<Rightarrow> series list"
  lab_free_gib :: "'l \<Rightarrow> pyfloat"

datatype corpus_event = Committed nat string | Ran command

record 'l cworld =
  cw_lab :: 'l
  cw_db :: corpus_db
  cw_files :: "(string, string) dict"
  cw_trace :: "corpus_event list"

text \<open>A step that may raise; on an exception the world stays as the step left it.\<close>

type_synonym ('a, 'l) step = "'l cworld \<Rightarrow> 'a res \<times> 'l cworld"

definition ret :: "'a \<Rightarrow> ('a, 'l) step" where "ret a w = (Inr a, w)"

definition bindw :: "('a, 'l) step \<Rightarrow> ('a \<Rightarrow> ('b, 'l) step) \<Rightarrow> ('b, 'l) step" where
  "bindw m f w = (case m w of (Inl e, w1) \<Rightarrow> (Inl e, w1) | (Inr a, w1) \<Rightarrow> f a w1)"

definition run_cmd :: "'l lab \<Rightarrow> command \<Rightarrow> (string, 'l) step" where
  "run_cmd lb c w =
     (case lab_exec lb c (cw_lab w) of (r, l) \<Rightarrow> (r, w\<lparr>cw_lab := l, cw_trace := cw_trace w @ [Ran c]\<rparr>))"

fun run_cmds :: "'l lab \<Rightarrow> command list \<Rightarrow> (unit, 'l) step" where
  "run_cmds lb [] w = (Inr (), w)"
| "run_cmds lb (c # cs) w = bindw (run_cmd lb c) (\<lambda>_. run_cmds lb cs) w"

definition sleepw :: "'l lab \<Rightarrow> nat \<Rightarrow> (unit, 'l) step" where
  "sleepw lb s w = (Inr (), w\<lparr>cw_lab := lab_sleep lb s (cw_lab w)\<rparr>)"

definition noww :: "'l lab \<Rightarrow> (pyfloat, 'l) step" where
  "noww lb w = (Inr (lab_now lb (cw_lab w)), w)"

section \<open>The runner's plan\<close>

definition CLASSES :: "string list" where
  "CLASSES = [''admin_shutdown'', ''carrier_loss'', ''intermittent_link'', ''rate_limited_uplink'', ''impaired_link'', ''healthy_control'']"

definition LEAVES :: "string list" where "LEAVES = [''leaf1'', ''leaf2'', ''leaf3'', ''leaf4'']"

definition UPLINKS :: "(string \<times> string) list" where
  "UPLINKS = [(''e1-1'', ''ethernet-1/1''), (''e1-2'', ''ethernet-1/2'')]"

definition CAMPAIGN_KEY :: string where "CAMPAIGN_KEY = ''gate8-full-corpus-v2''"

definition split_of :: "string \<Rightarrow> string" where
  "split_of leaf = (if leaf \<in> {''leaf1'', ''leaf2''} then ''train'' else ''test'')"

definition gray :: "string \<Rightarrow> bool" where "gray fc \<longleftrightarrow> fc \<in> {''rate_limited_uplink'', ''impaired_link''}"

definition sr_info :: "string \<Rightarrow> string \<Rightarrow> command" where
  "sr_info nd iface = Docker [''docker'', ''exec'', ''-u'', ''root'', container nd, ''sr_cli'',
     ''info from state interface '' @ iface @ '' oper-state'']"

definition qdisc_count :: "string \<Rightarrow> string \<Rightarrow> command" where
  "qdisc_count nd netdev = Docker [''docker'', ''exec'', ''-u'', ''root'', container nd, ''sh'', ''-c'',
     ''tc qdisc show dev '' @ netdev @ '' | grep -cE '' @ [apos_c] @ ''netem|tbf'' @ [apos_c] @ '' || true'']"

definition clean_between :: "'l lab \<Rightarrow> string \<Rightarrow> string \<Rightarrow> (bool, 'l) step" where
  "clean_between lb nd netdev =
     bindw (run_cmd lb (sr_info nd (replace_all ''e1-'' ''ethernet-1/'' netdev))) (\<lambda>up.
     bindw (run_cmd lb (qdisc_count nd netdev)) (\<lambda>out.
     ret (contains up ''up'' \<and> strip out \<in> {''0'', []})))"

definition oper_state :: "'l lab \<Rightarrow> string \<Rightarrow> string \<Rightarrow> (string, 'l) step" where
  "oper_state lb nd iface =
     bindw (run_cmd lb (sr_info nd iface)) (\<lambda>out.
     ret (if contains out ''down'' then ''down'' else if contains out ''up'' then ''up'' else ''unknown''))"

text \<open>\<open>verify_onset\<close> runs at most one command; its verdict on the output is the model of \<open>chaos/faults.py\<close>.\<close>

definition onset_command :: "fault \<Rightarrow> command option" where
  "onset_command f =
     (let fc = fault_class f; nd = f_node f in
      if fc \<in> {''admin_shutdown'', ''carrier_loss''}
      then Some (SrCli nd (''info from state interface '' @ iface_srl f @ '' oper-state'' @ [newline_c]))
      else if fc \<in> {''rate_limited_uplink'', ''impaired_link''} then Some (Sh nd (''tc qdisc show dev '' @ iface_netdev f))
      else if fc = ''telemetry_gap''
      then Some (Docker [''docker'', ''inspect'', ''-f'', ''{{.State.Running}}'', ''closcall-gnmic''])
      else None)"

definition observe_onset :: "'l lab \<Rightarrow> fault \<Rightarrow> (bool, 'l) step" where
  "observe_onset lb f =
     (if fault_class f = ''healthy_control'' then ret True
      else case onset_command f of
        None \<Rightarrow> ret (verify_onset (\<lambda>_. []) f)
      | Some c \<Rightarrow> bindw (run_cmd lb c) (\<lambda>out. ret (verify_onset (\<lambda>_. out) f)))"

section \<open>The runner\<close>

text \<open>\<open>campaign_id\<close>: the campaign with the key, created when it is missing.\<close>

definition campaign_id :: "corpus_db \<Rightarrow> nat \<times> corpus_db" where
  "campaign_id d =
     (case find (\<lambda>c. ca_key c = CAMPAIGN_KEY) (campaigns d) of
        Some c \<Rightarrow> (ca_id c, d)
      | None \<Rightarrow> (c_next d, d\<lparr>campaigns := campaigns d @ [\<lparr>ca_id = c_next d, ca_key = CAMPAIGN_KEY,
           ca_revision = ''gate8'', ca_seed = 1337, ca_status = ''running''\<rparr>], c_next := Suc (c_next d)\<rparr>))"

definition target_of :: "string \<Rightarrow> string \<Rightarrow> (string, string) dict" where
  "target_of leaf iface = [(''node'', leaf), (''interface'', iface), (''link'', leaf @ '':'' @ iface)]"

definition open_injection :: "nat \<Rightarrow> string \<Rightarrow> string \<Rightarrow> string \<Rightarrow> string \<Rightarrow> int \<Rightarrow> (nat, 'l) step" where
  "open_injection cid fc leaf iface split seed w =
     (let d = cw_db w; i = c_next d in
      (Inr i, w\<lparr>cw_db := d\<lparr>injections := injections d @
          [\<lparr>fi_id = i, fi_campaign = cid, fi_class = fc, fi_shard = leaf, fi_target = target_of leaf iface,
            fi_parameters = [(''split'', JStr split)], fi_traffic_seed = seed, fi_fault_seed = seed,
            fi_status = ''injecting'', fi_simulated = True, fi_observed_at = None\<rparr>], c_next := Suc i\<rparr>,
        cw_trace := cw_trace w @ [Committed i ''injecting'']\<rparr>))"

text \<open>\<open>CaptureResult\<close>: path, hash and size; the table is written before it is hashed.\<close>

definition window_path :: "tools \<Rightarrow> string \<Rightarrow> pyfloat \<Rightarrow> nat \<Rightarrow> string" where
  "window_path tk topo read_at i =
     ''data/raw_telemetry/campaign='' @ CAMPAIGN_KEY @ ''/topo='' @ topo @ ''/date='' @ t_date tk read_at @
     ''/incident-'' @ show_nat i @ ''.parquet''"

definition capture :: "'l lab \<Rightarrow> tools \<Rightarrow> string \<Rightarrow> string \<Rightarrow> string \<Rightarrow> pyfloat \<Rightarrow> pyfloat \<Rightarrow> nat \<Rightarrow> (string \<times> string, 'l) step" where
  "capture lb tk topo leaf iface start stop i w =
     (let read_at = lab_now lb (cw_lab w) in
      case capture_window (t_float tk) (lab_fetch lb (cw_lab w)) read_at leaf iface start stop topo of
        Inl e \<Rightarrow> (Inl e, w)
      | Inr rows \<Rightarrow>
          let path = window_path tk topo read_at i; bytes = t_write tk rows in
          (Inr (path, bytes), w\<lparr>cw_files := dict_set path bytes (cw_files w)\<rparr>))"

definition label_of ::
    "tools \<Rightarrow> string \<Rightarrow> string \<Rightarrow> string \<Rightarrow> string \<Rightarrow> pyfloat \<Rightarrow> pyfloat \<Rightarrow> string \<Rightarrow> json" where
  "label_of tk fc leaf iface split onset w_end feature = JObj
     [(''fault_class'', JStr fc), (''target'', json_of_strs (target_of leaf iface)), (''onset_at'', JStr (t_iso tk onset)),
      (''window_start'', JStr (t_iso tk onset)), (''window_end'', JStr (t_iso tk w_end)), (''split'', JStr split),
      (''observed_feature'', JStr feature)]"

definition label_uri :: "nat \<Rightarrow> string" where "label_uri i = ''mem://'' @ show_nat i"

definition label_row :: "tools \<Rightarrow> nat \<Rightarrow> json \<Rightarrow> truth_label" where
  "label_row tk i label = \<lparr>gl_injection = i, gl_json = label, gl_hash = t_sha tk (dumps_sorted (t_fr tk) label)\<rparr>"

definition artifact_rows :: "tools \<Rightarrow> nat \<Rightarrow> json \<Rightarrow> string \<Rightarrow> string \<Rightarrow> artifact list" where
  "artifact_rows tk i label path bytes =
     (let blob = dumps_sorted (t_fr tk) label in
      [\<lparr>ar_kind = ''label_window'', ar_uri = label_uri i, ar_sha256 = t_sha tk blob, ar_byte_size = length blob\<rparr>,
       \<lparr>ar_kind = ''raw_telemetry_window'', ar_uri = path, ar_sha256 = t_sha tk bytes, ar_byte_size = length bytes\<rparr>])"

definition set_outcome :: "nat \<Rightarrow> string \<Rightarrow> pyfloat \<Rightarrow> corpus_db \<Rightarrow> corpus_db" where
  "set_outcome i status onset d =
     d\<lparr>injections := map (\<lambda>r. if fi_id r = i then r\<lparr>fi_status := status, fi_observed_at := Some onset\<rparr> else r) (injections d)\<rparr>"

text \<open>The closing transaction: one label per injection and one artifact per hash, or nothing is committed.\<close>

definition close_injection :: "tools \<Rightarrow> nat \<Rightarrow> string \<Rightarrow> pyfloat \<Rightarrow> json \<Rightarrow> string \<Rightarrow> string \<Rightarrow> (unit, 'l) step" where
  "close_injection tk i status onset label path bytes w =
     (let d = set_outcome i status onset (cw_db w);
          arts = artifact_rows tk i label path bytes;
          d' = (if status = ''settled''
                then d\<lparr>labels := labels d @ [label_row tk i label], artifacts := artifacts d @ arts\<rparr> else d)
      in
      if status = ''settled'' \<and> i \<in> set (map gl_injection (labels d)) then (Inl (IntegrityError ''uq_gtlabel_injection''), w)
      else if status = ''settled'' \<and> \<not> distinct (map ar_sha256 (artifacts d @ arts))
      then (Inl (IntegrityError ''uq_artifact_sha256''), w)
      else (Inr (), w\<lparr>cw_db := d', cw_trace := cw_trace w @ [Committed i status]\<rparr>))"

definition unlink :: "string \<Rightarrow> (unit, 'l) step" where
  "unlink path w = (Inr (), w\<lparr>cw_files := filter (\<lambda>(p, _). p \<noteq> path) (cw_files w)\<rparr>)"

text \<open>\<open>collect_one\<close> in the phases the code runs in order: open the row, inject and observe, capture, restore, conclude.\<close>

definition inject_phase :: "'l lab \<Rightarrow> fault \<Rightarrow> (bool \<times> string, 'l) step" where
  "inject_phase lb f =
     bindw (run_cmds lb (fault_apply f)) (\<lambda>_.
     bindw (sleepw lb (if gray (fault_class f) then 40 else 25)) (\<lambda>_.
     bindw (observe_onset lb f) (\<lambda>onset_ok.
     bindw (oper_state lb (f_node f) (iface_srl f)) (\<lambda>feature.
     ret (onset_ok, feature)))))"

definition restore_phase :: "'l lab \<Rightarrow> fault \<Rightarrow> (bool, 'l) step" where
  "restore_phase lb f =
     bindw (run_cmds lb (fault_clear f)) (\<lambda>_.
     bindw (sleepw lb 3) (\<lambda>_.
     clean_between lb (f_node f) (iface_netdev f)))"

definition conclude_phase :: "tools \<Rightarrow> nat \<Rightarrow> string \<Rightarrow> pyfloat \<Rightarrow> json \<Rightarrow> string \<Rightarrow> string \<Rightarrow> (string, 'l) step" where
  "conclude_phase tk i status onset label path bytes =
     bindw (close_injection tk i status onset label path bytes) (\<lambda>_.
     bindw (if status \<noteq> ''settled'' then unlink path else ret ()) (\<lambda>_.
     ret status))"

definition collect_one ::
    "'l lab \<Rightarrow> tools \<Rightarrow> nat \<Rightarrow> string \<Rightarrow> string \<Rightarrow> string \<Rightarrow> string \<Rightarrow> string \<Rightarrow> string \<Rightarrow> int \<Rightarrow> (string, 'l) step" where
  "collect_one lb tk cid topo fc leaf netdev iface split seed =
     (let f = \<lparr>fault_class = fc, f_node = leaf, iface_netdev = netdev, iface_srl = iface\<rparr> in
      bindw (noww lb) (\<lambda>onset.
      bindw (open_injection cid fc leaf iface split seed) (\<lambda>i.
      bindw (inject_phase lb f) (\<lambda>(onset_ok, feature).
      bindw (noww lb) (\<lambda>w_end.
      bindw (capture lb tk topo leaf iface onset w_end i) (\<lambda>(path, bytes).
      bindw (restore_phase lb f) (\<lambda>lab_clean.
      conclude_phase tk i (if onset_ok \<and> lab_clean then ''settled'' else ''quarantined'') onset
        (label_of tk fc leaf iface split onset w_end feature) path bytes)))))))"

section \<open>The run loop\<close>

definition corpus_cells :: "(string \<times> string) list" where
  "corpus_cells = concat (map (\<lambda>c. map (\<lambda>leaf. (c, leaf)) LEAVES) CLASSES)"

text \<open>\<open>counts_by_stratum\<close>: the settled injections of the campaign by class and leaf.\<close>

definition stratum :: "injection \<Rightarrow> string \<times> string" where "stratum r = (fi_class r, fi_shard r)"

definition settled_of :: "nat \<Rightarrow> corpus_db \<Rightarrow> injection list" where
  "settled_of cid d = filter (\<lambda>r. fi_status r = ''settled'' \<and> fi_campaign r = cid) (injections d)"

definition counts_by_stratum :: "nat \<Rightarrow> corpus_db \<Rightarrow> (string \<times> string, nat) dict" where
  "counts_by_stratum cid d =
     map (\<lambda>c. (c, length (filter (\<lambda>r. stratum r = c) (settled_of cid d)))) (remdups (map stratum (settled_of cid d)))"

definition count_of :: "(string \<times> string, nat) dict \<Rightarrow> string \<times> string \<Rightarrow> nat" where
  "count_of counts c = (case dict_get counts c of None \<Rightarrow> 0 | Some n \<Rightarrow> n)"

definition CORPUS_MIN_FREE_GIB :: pyfloat where "CORPUS_MIN_FREE_GIB = 60"

record run_state =
  rs_counts :: "(string \<times> string, nat) dict"
  rs_collected :: nat
  rs_quarantined :: nat
  rs_idx :: nat

definition next_cell :: "nat \<Rightarrow> (string \<times> string, nat) dict \<Rightarrow> (string \<times> string) option" where
  "next_cell per_cell counts = find (\<lambda>c. count_of counts c < per_cell) corpus_cells"

definition tally :: "string \<times> string \<Rightarrow> string \<Rightarrow> run_state \<Rightarrow> run_state" where
  "tally cell status st =
     (let st1 = (if status = ''settled''
          then st\<lparr>rs_counts := dict_set cell (count_of (rs_counts st) cell + 1) (rs_counts st), rs_collected := rs_collected st + 1\<rparr>
          else st\<lparr>rs_quarantined := rs_quarantined st + 1\<rparr>)
      in st1\<lparr>rs_idx := rs_idx st + 1\<rparr>)"

text \<open>\<open>while collected < batch and total + collected < target\<close>; \<open>None\<close> when it runs forever. \<open>room\<close> is what is left
  of the batch and of the target, \<open>low_disk\<close> the check of the disk floor.\<close>

partial_function (option) collect_loop ::
    "(string \<times> string \<Rightarrow> nat \<Rightarrow> (string, 'l) step) \<Rightarrow> ('l \<Rightarrow> bool) \<Rightarrow> nat \<Rightarrow> nat \<Rightarrow> run_state \<Rightarrow> 'l cworld \<Rightarrow> (run_state res \<times> 'l cworld) option" where
  "collect_loop collect low_disk room per_cell st w =
     (if \<not> rs_collected st < room then Some (Inr st, w)
      else case next_cell per_cell (rs_counts st) of
        None \<Rightarrow> Some (Inr st, w)
      | Some cell \<Rightarrow>
          if low_disk (cw_lab w) then Some (Inr st, w)
          else case collect cell (rs_idx st) w of
            (Inl e, w1) \<Rightarrow> Some (Inl e, w1)
          | (Inr status, w1) \<Rightarrow> collect_loop collect low_disk room per_cell (tally cell status st) w1)"

definition collect_cell :: "'l lab \<Rightarrow> tools \<Rightarrow> nat \<Rightarrow> string \<Rightarrow> string \<times> string \<Rightarrow> nat \<Rightarrow> (string, 'l) step" where
  "collect_cell lb tk cid topo cell idx =
     (let (netdev, iface) = UPLINKS ! (idx mod length UPLINKS) in
      collect_one lb tk cid topo (fst cell) (snd cell) netdev iface (split_of (snd cell)) (int idx + 1))"

text \<open>\<open>run\<close>: the exit code. The free space read before the loop is the one its first turn checks.\<close>

definition corpus_run :: "'l lab \<Rightarrow> tools \<Rightarrow> string \<Rightarrow> nat \<Rightarrow> nat \<Rightarrow> 'l cworld \<Rightarrow> (int res \<times> 'l cworld) option" where
  "corpus_run lb tk topo batch target_total w =
     (if lab_free_gib lb (cw_lab w) < CORPUS_MIN_FREE_GIB then Some (Inr 1, w)
      else
        let (cid, d) = campaign_id (cw_db w);
            per_cell = (target_total + length corpus_cells - 1) div length corpus_cells;
            counts = counts_by_stratum cid d;
            total = sum_list (map snd counts)
        in
        map_option (\<lambda>(r, w1). (bindr r (\<lambda>_. Inr 0), w1))
          (collect_loop (collect_cell lb tk cid topo) (\<lambda>l. lab_free_gib lb l < CORPUS_MIN_FREE_GIB) (min batch (target_total - total)) per_cell
             \<lparr>rs_counts = counts, rs_collected = 0, rs_quarantined = 0, rs_idx = total\<rparr> (w\<lparr>cw_db := d\<rparr>)))"

section \<open>The verifier\<close>

text \<open>\<open>uri.split("incident-")[1].split(".parquet")[0]\<close>\<close>

definition before_first :: "string \<Rightarrow> string \<Rightarrow> string" where
  "before_first sep s = (case split_first sep s of None \<Rightarrow> s | Some (a, _) \<Rightarrow> a)"

definition window_key :: "string \<Rightarrow> string res" where
  "window_key uri =
     (case split_first incident_prefix uri of
        None \<Rightarrow> Inl IndexError
      | Some (_, b) \<Rightarrow> Inr (before_first ''.parquet'' (before_first incident_prefix b)))"

definition artifacts_of :: "string \<Rightarrow> corpus_db \<Rightarrow> artifact list" where
  "artifacts_of kind d = filter (\<lambda>a. ar_kind a = kind) (artifacts d)"

definition label_present :: "corpus_db \<Rightarrow> injection \<Rightarrow> bool" where
  "label_present d r = (dict_get (dict_comp gl_injection (\<lambda>g. g) (labels d)) (fi_id r) \<noteq> None)"

definition label_hash_ok :: "tools \<Rightarrow> corpus_db \<Rightarrow> injection \<Rightarrow> bool" where
  "label_hash_ok tk d r =
     (case dict_get (dict_comp gl_injection (\<lambda>g. g) (labels d)) (fi_id r) of
        None \<Rightarrow> False | Some g \<Rightarrow> t_sha tk (dumps_sorted (t_fr tk) (gl_json g)) = gl_hash g)"

definition label_artifact_ok :: "tools \<Rightarrow> corpus_db \<Rightarrow> injection \<Rightarrow> bool" where
  "label_artifact_ok tk d r =
     (case (dict_get (dict_comp gl_injection (\<lambda>g. g) (labels d)) (fi_id r),
            dict_get (dict_comp ar_uri (\<lambda>a. a) (artifacts_of ''label_window'' d)) (label_uri (fi_id r))) of
        (Some g, Some a) \<Rightarrow> ar_sha256 a = gl_hash g \<and> ar_byte_size a = length (dumps_sorted (t_fr tk) (gl_json g))
      | _ \<Rightarrow> False)"

definition window_ok :: "tools \<Rightarrow> (string, artifact) dict \<Rightarrow> (string, string) dict \<Rightarrow> injection \<Rightarrow> bool" where
  "window_ok tk telem files r =
     (case dict_get telem (show_nat (fi_id r)) of
        None \<Rightarrow> False
      | Some a \<Rightarrow>
          (case dict_get files (ar_uri a) of
             None \<Rightarrow> False
           | Some raw \<Rightarrow> t_sha tk raw = ar_sha256 a \<and> length raw = ar_byte_size a \<and> 0 < t_rows tk raw \<and>
               t_names tk raw = RAW_TELEMETRY_COLUMNS))"

definition link_of :: "injection \<Rightarrow> string res" where "link_of r = dict_index (fi_target r) ''link''"

definition FLOOR :: nat where "FLOOR = 300"
definition PER_CELL :: nat where "PER_CELL = 13"

definition corpus_verify :: "tools \<Rightarrow> corpus_db \<Rightarrow> (string, string) dict \<Rightarrow> (string \<times> bool) list res" where
  "corpus_verify tk d files =
     (case find (\<lambda>c. ca_key c = CAMPAIGN_KEY) (campaigns d) of
        None \<Rightarrow> Inr [(''campaign present'', False)]
      | Some camp \<Rightarrow>
          let settled = settled_of (ca_id camp) d in
          bindr (map_res (\<lambda>a. bindr (window_key (ar_uri a)) (\<lambda>k. Inr (k, a))) (artifacts_of ''raw_telemetry_window'' d)) (\<lambda>keyed.
          let telem = dict_comp fst snd keyed in
          bindr (map_res link_of (filter (\<lambda>r. split_of (fi_shard r) = ''train'') settled)) (\<lambda>train_links.
          bindr (map_res link_of (filter (\<lambda>r. split_of (fi_shard r) = ''test'') settled)) (\<lambda>test_links.
          Inr [(''stratum counts met'', list_all (\<lambda>c. PER_CELL \<le> length (filter (\<lambda>r. stratum r = c) settled)) corpus_cells),
               (''operational floor'', FLOOR \<le> length settled),
               (''artifacts verify'', list_all (label_present d) settled \<and>
                  length (filter (label_hash_ok tk d) settled) = length settled \<and>
                  length (filter (label_artifact_ok tk d) settled) = length settled),
               (''telemetry windows verify'', length (filter (window_ok tk telem files) settled) = length settled),
               (''split invariant'', set train_links \<inter> set test_links = {} \<and>
                  list_all (\<lambda>r. dict_get (fi_parameters r) ''split'' = Some (JStr (split_of (fi_shard r)))) settled),
               (''provenance complete'', ca_revision camp \<noteq> [] \<and> list_all fi_simulated settled),
               (''quality'', list_all (\<lambda>r. fi_observed_at r \<noteq> None) settled)]))))"

section \<open>Steps that only run commands\<close>

lemma bindw_cases:
  assumes "bindw m f w = (r, w')"
  obtains (raised) e where "m w = (Inl e, w')" "r = Inl e"
  | (returned) a w1 where "m w = (Inr a, w1)" "f a w1 = (r, w')"
  using assms unfolding bindw_def by (cases "m w"; cases "fst (m w)") auto

text \<open>\<open>commanded cs m\<close>: the step leaves tables and files alone and sends the commands \<open>cs\<close>, all of them unless it raises.\<close>

definition commanded :: "command list \<Rightarrow> ('a, 'l) step \<Rightarrow> bool" where
  "commanded cs m \<longleftrightarrow>
     (\<forall>w r w'. m w = (r, w') \<longrightarrow> cw_db w' = cw_db w \<and> cw_files w' = cw_files w \<and>
        (\<exists>ds. prefix ds cs \<and> cw_trace w' = cw_trace w @ map Ran ds \<and> (\<forall>a. r = Inr a \<longrightarrow> ds = cs)))"

lemma commandedD:
  assumes "commanded cs m" and "m w = (r, w')"
  obtains ds where "cw_db w' = cw_db w" "cw_files w' = cw_files w" "prefix ds cs"
    "cw_trace w' = cw_trace w @ map Ran ds" "\<And>a. r = Inr a \<Longrightarrow> ds = cs"
  using assms unfolding commanded_def by blast

named_theorems commanded_intros \<open>steps that only run commands\<close>

lemma commanded_bindw:
  assumes m: "commanded cs m" and f: "\<And>a. commanded ds (f a)"
  shows "commanded (cs @ ds) (bindw m f)"
  unfolding commanded_def
proof (intro allI impI)
  fix w r w' assume "bindw m f w = (r, w')"
  then show "cw_db w' = cw_db w \<and> cw_files w' = cw_files w \<and>
    (\<exists>xs. prefix xs (cs @ ds) \<and> cw_trace w' = cw_trace w @ map Ran xs \<and> (\<forall>a. r = Inr a \<longrightarrow> xs = cs @ ds))"
  proof (cases rule: bindw_cases)
    case (raised e)
    from commandedD [OF m raised(1)] raised(2) show ?thesis by (metis prefix_prefix Inl_Inr_False)
  next
    case (returned a w1)
    from commandedD [OF m returned(1)] have 1: "cw_db w1 = cw_db w" "cw_files w1 = cw_files w" "cw_trace w1 = cw_trace w @ map Ran cs" by metis+
    obtain xs where "cw_db w' = cw_db w1" "cw_files w' = cw_files w1" "prefix xs ds"
      "cw_trace w' = cw_trace w1 @ map Ran xs" "\<And>b. r = Inr b \<Longrightarrow> xs = ds"
      by (rule commandedD [OF f returned(2)]) blast
    with 1 show ?thesis by (intro conjI exI [of _ "cs @ xs"]) auto
  qed
qed

lemma commanded_ret [commanded_intros]: "commanded [] (ret a)"
  by (auto simp: commanded_def ret_def)

lemma commanded_noww [commanded_intros]: "commanded [] (noww lb)"
  by (auto simp: commanded_def noww_def)

lemma commanded_sleepw [commanded_intros]: "commanded [] (sleepw lb s)"
  by (auto simp: commanded_def sleepw_def)

lemma commanded_run_cmd [commanded_intros]: "commanded [c] (run_cmd lb c)"
  unfolding commanded_def run_cmd_def
  by (auto split: prod.splits intro!: exI [of _ "[c]"])

lemma commanded_run_cmds [commanded_intros]: "commanded cs (run_cmds lb cs)"
proof (induction cs)
  case (Cons c cs)
  have "commanded ([c] @ cs) (bindw (run_cmd lb c) (\<lambda>_. run_cmds lb cs))"
    by (rule commanded_bindw [OF commanded_run_cmd Cons.IH])
  moreover have "run_cmds lb (c # cs) = bindw (run_cmd lb c) (\<lambda>_. run_cmds lb cs)" by (rule ext) simp
  ultimately show ?case by simp
qed (auto simp: commanded_def)

definition onset_commands :: "fault \<Rightarrow> command list" where
  "onset_commands f =
     (if fault_class f = ''healthy_control'' then [] else case onset_command f of None \<Rightarrow> [] | Some c \<Rightarrow> [c])"

lemma commanded_observe [commanded_intros]: "commanded (onset_commands f) (observe_onset lb f)"
proof -
  have "commanded ([c] @ []) (bindw (run_cmd lb c) (\<lambda>out. ret (verify_onset (\<lambda>_. out) f)))" for c
    by (intro commanded_bindw commanded_intros)
  then show ?thesis
    by (auto simp: onset_commands_def observe_onset_def intro: commanded_ret split: option.splits)
qed

lemma commanded_oper_state [commanded_intros]: "commanded [sr_info nd iface] (oper_state lb nd iface)"
  unfolding oper_state_def using commanded_bindw [OF commanded_run_cmd commanded_ret] by fastforce

definition clean_commands :: "string \<Rightarrow> string \<Rightarrow> command list" where
  "clean_commands nd netdev = [sr_info nd (replace_all ''e1-'' ''ethernet-1/'' netdev), qdisc_count nd netdev]"

lemma commanded_clean [commanded_intros]: "commanded (clean_commands nd netdev) (clean_between lb nd netdev)"
proof -
  have "commanded ([a] @ [b] @ []) (bindw (run_cmd lb a) (\<lambda>x. bindw (run_cmd lb b) (\<lambda>y. ret (g x y))))"
    for a b and g :: "string \<Rightarrow> string \<Rightarrow> bool"
    by (intro commanded_bindw commanded_intros)
  then show ?thesis by (simp add: clean_between_def clean_commands_def)
qed

section \<open>What one collection does\<close>

definition triple :: "('l cworld \<Rightarrow> bool) \<Rightarrow> ('a, 'l) step \<Rightarrow> ('a \<Rightarrow> 'l cworld \<Rightarrow> bool) \<Rightarrow> ('l cworld \<Rightarrow> bool) \<Rightarrow> bool" where
  "triple P m Q E \<longleftrightarrow> (\<forall>w. P w \<longrightarrow> (case m w of (Inl e, w') \<Rightarrow> E w' | (Inr a, w') \<Rightarrow> Q a w'))"

lemma triple_bindw:
  assumes "triple P m R E" and "\<And>a. triple (R a) (f a) Q E"
  shows "triple P (bindw m f) Q E"
  unfolding triple_def
proof (intro allI impI)
  fix w assume P: "P w"
  obtain r w1 where m: "m w = (r, w1)" by force
  show "case bindw m f w of (Inl e, w') \<Rightarrow> E w' | (Inr a, w') \<Rightarrow> Q a w'"
  proof (cases r)
    case (Inl e)
    with assms(1) P m show ?thesis by (auto simp: triple_def bindw_def)
  next
    case (Inr a)
    with assms(1) P m have "R a w1" by (auto simp: triple_def)
    with assms(2) [of a] m Inr show ?thesis by (auto simp: triple_def bindw_def)
  qed
qed

lemma commanded_inject [commanded_intros]:
  "commanded (fault_apply f @ onset_commands f @ [sr_info (f_node f) (iface_srl f)]) (inject_phase lb f)"
proof -
  have "commanded (fault_apply f @ [] @ onset_commands f @ [sr_info (f_node f) (iface_srl f)] @ []) (inject_phase lb f)"
    unfolding inject_phase_def by (intro commanded_bindw commanded_intros)
  then show ?thesis by simp
qed

lemma commanded_restore [commanded_intros]:
  "commanded (fault_clear f @ clean_commands (f_node f) (iface_netdev f)) (restore_phase lb f)"
proof -
  have "commanded (fault_clear f @ [] @ clean_commands (f_node f) (iface_netdev f)) (restore_phase lb f)"
    unfolding restore_phase_def by (intro commanded_bindw commanded_intros)
  then show ?thesis by simp
qed

text \<open>The tables are \<open>d\<close>, the files \<open>fs\<close>, and the commands \<open>cs\<close> were run since the trace \<open>t\<close>.\<close>

definition ran :: "corpus_db \<Rightarrow> corpus_event list \<Rightarrow> (string, string) dict \<Rightarrow> command list \<Rightarrow> 'l cworld \<Rightarrow> bool" where
  "ran d t fs cs w \<longleftrightarrow> cw_db w = d \<and> cw_files w = fs \<and> cw_trace w = t @ map Ran cs"

lemma triple_commanded:
  fixes m :: "('a, 'l) step"
  assumes "commanded ds m" and "\<And>xs w. prefix xs ds \<Longrightarrow> ran d t fs (cs @ xs) w \<Longrightarrow> E w"
  shows "triple (ran d t fs cs) m (\<lambda>_. ran d t fs (cs @ ds)) E"
  unfolding triple_def
proof (intro allI impI)
  fix w :: "'l cworld" assume w: "ran d t fs cs w"
  obtain r w' where m: "m w = (r, w')" by force
  obtain xs where x: "cw_db w' = cw_db w" "cw_files w' = cw_files w" "prefix xs ds" "cw_trace w' = cw_trace w @ map Ran xs"
    "\<And>a. r = Inr a \<Longrightarrow> xs = ds" by (rule commandedD [OF assms(1) m]) blast
  have "ran d t fs (cs @ xs) w'" using w x by (simp add: ran_def)
  with x(3,5) assms(2) m show "case m w of (Inl e, w') \<Rightarrow> E w' | (Inr a, w') \<Rightarrow> ran d t fs (cs @ ds) w'"
    by (cases r) auto
qed

definition opened :: "nat \<Rightarrow> string \<Rightarrow> string \<Rightarrow> string \<Rightarrow> string \<Rightarrow> int \<Rightarrow> corpus_db \<Rightarrow> corpus_db" where
  "opened cid fc leaf iface split seed d =
     d\<lparr>injections := injections d @
        [\<lparr>fi_id = c_next d, fi_campaign = cid, fi_class = fc, fi_shard = leaf, fi_target = target_of leaf iface,
          fi_parameters = [(''split'', JStr split)], fi_traffic_seed = seed, fi_fault_seed = seed,
          fi_status = ''injecting'', fi_simulated = True, fi_observed_at = None\<rparr>], c_next := Suc (c_next d)\<rparr>"

definition planned :: "fault \<Rightarrow> command list" where
  "planned f = fault_apply f @ onset_commands f @ [sr_info (f_node f) (iface_srl f)] @ fault_clear f @
     clean_commands (f_node f) (iface_netdev f)"

text \<open>The world after an exception: the injection is still open, some of the planned commands ran, and at most
  the window file was written.\<close>

definition abandoned ::
    "tools \<Rightarrow> string \<Rightarrow> nat \<Rightarrow> corpus_db \<Rightarrow> corpus_event list \<Rightarrow> (string, string) dict \<Rightarrow> command list \<Rightarrow> 'l cworld \<Rightarrow> bool" where
  "abandoned tk topo i d t fs cs w \<longleftrightarrow>
     cw_db w = d \<and> (\<exists>xs. prefix xs cs \<and> cw_trace w = t @ map Ran xs) \<and>
     (cw_files w = fs \<or> (\<exists>rows read_at. cw_files w = dict_set (window_path tk topo read_at i) (t_write tk rows) fs))"

definition settled_db :: "tools \<Rightarrow> nat \<Rightarrow> pyfloat \<Rightarrow> json \<Rightarrow> string \<Rightarrow> string \<Rightarrow> corpus_db \<Rightarrow> corpus_db" where
  "settled_db tk i onset label path bytes d =
     (let d1 = set_outcome i ''settled'' onset d in
      d1\<lparr>labels := labels d1 @ [label_row tk i label], artifacts := artifacts d1 @ artifact_rows tk i label path bytes\<rparr>)"

text \<open>The world after a status was returned.\<close>

definition concluded ::
    "tools \<Rightarrow> string \<Rightarrow> nat \<Rightarrow> corpus_db \<Rightarrow> corpus_event list \<Rightarrow> (string, string) dict \<Rightarrow> command list \<Rightarrow> string \<Rightarrow> 'l cworld \<Rightarrow> bool" where
  "concluded tk topo i d t fs cs s w \<longleftrightarrow>
     cw_trace w = t @ map Ran cs @ [Committed i s] \<and>
     (\<exists>onset label rows read_at. let path = window_path tk topo read_at i; bytes = t_write tk rows; fs1 = dict_set path bytes fs in
        (s = ''settled'' \<and> i \<notin> set (map gl_injection (labels d)) \<and> cw_db w = settled_db tk i onset label path bytes d \<and>
           cw_files w = fs1) \<or>
        (s = ''quarantined'' \<and> cw_db w = set_outcome i ''quarantined'' onset d \<and>
           cw_files w = filter (\<lambda>(p, _). p \<noteq> path) fs1))"

lemma db_set_outcome [simp]:
  "labels (set_outcome i s t d) = labels d" "artifacts (set_outcome i s t d) = artifacts d"
  "campaigns (set_outcome i s t d) = campaigns d" "c_next (set_outcome i s t d) = c_next d"
  by (simp_all add: set_outcome_def)

lemma triple_capture:
  assumes "\<And>w. ran d t fs cs w \<Longrightarrow> E w"
  shows "triple (ran d t fs cs) (capture lb tk topo leaf iface a b i)
     (\<lambda>(path, bytes) w. (\<exists>rows read_at. path = window_path tk topo read_at i \<and> bytes = t_write tk rows) \<and>
        ran d t (dict_set path bytes fs) cs w) E"
  unfolding triple_def capture_def
  using assms by (auto simp: ran_def Let_def split: sum.splits)

lemma concluded_settled:
  "cw_trace w = t @ map Ran cs @ [Committed i ''settled''] \<Longrightarrow> i \<notin> set (map gl_injection (labels d)) \<Longrightarrow>
   cw_db w = settled_db tk i onset label (window_path tk topo u i) (t_write tk rows) d \<Longrightarrow>
   cw_files w = dict_set (window_path tk topo u i) (t_write tk rows) fs \<Longrightarrow> concluded tk topo i d t fs cs ''settled'' w"
  unfolding concluded_def Let_def
  by (intro conjI exI [of _ onset] exI [of _ label] exI [of _ rows] exI [of _ u] disjI1) simp_all

lemma concluded_quarantined:
  "cw_trace w = t @ map Ran cs @ [Committed i ''quarantined''] \<Longrightarrow> cw_db w = set_outcome i ''quarantined'' onset d \<Longrightarrow>
   cw_files w = filter (\<lambda>(p, _). p \<noteq> window_path tk topo u i) (dict_set (window_path tk topo u i) (t_write tk rows) fs) \<Longrightarrow>
   concluded tk topo i d t fs cs ''quarantined'' w"
  unfolding concluded_def Let_def
  by (intro conjI exI [of _ onset] exI [of _ label] exI [of _ rows] exI [of _ u] disjI2) simp_all

lemma triple_conclude:
  fixes E :: "'l cworld \<Rightarrow> bool"
  assumes "\<And>w. ran d t (dict_set path bytes fs) cs w \<Longrightarrow> E w"
    and "path = window_path tk topo read_at i" and "bytes = t_write tk rows" and "status \<in> {''settled'', ''quarantined''}"
  shows "triple (ran d t (dict_set path bytes fs) cs) (conclude_phase tk i status onset label path bytes)
     (concluded tk topo i d t fs cs) E"
  unfolding triple_def
proof (intro allI impI)
  fix w :: "'l cworld" assume w: "ran d t (dict_set path bytes fs) cs w"
  from assms(4) consider (s) "status = ''settled''" | (q) "status = ''quarantined''" by blast
  then show "case conclude_phase tk i status onset label path bytes w of
      (Inl e, w') \<Rightarrow> E w' | (Inr a, w') \<Rightarrow> concluded tk topo i d t fs cs a w'"
  proof cases
    case s
    then show ?thesis using assms(1) [OF w] w assms(2,3)
      unfolding conclude_phase_def bindw_def close_injection_def ret_def ran_def
      by (auto simp: Let_def settled_db_def intro!: concluded_settled)
  next
    case q
    then show ?thesis using w assms(2,3)
      unfolding conclude_phase_def bindw_def close_injection_def ret_def unlink_def ran_def
      by (auto simp: Let_def intro!: concluded_quarantined)
  qed
qed

lemma collect_outcomes:
  assumes "collect_one lb tk cid topo fc leaf netdev iface split seed w = (r, w')"
    and f: "f = \<lparr>fault_class = fc, f_node = leaf, iface_netdev = netdev, iface_srl = iface\<rparr>" and i: "i = c_next (cw_db w)"
    and d: "d = opened cid fc leaf iface split seed (cw_db w)" and t: "t = cw_trace w @ [Committed i ''injecting'']"
  shows "case r of Inl e \<Rightarrow> abandoned tk topo i d t (cw_files w) (planned f) w'
    | Inr s \<Rightarrow> concluded tk topo i d t (cw_files w) (planned f) s w'"
proof -
  let ?fs = "cw_files w"
  let ?E = "abandoned tk topo i d t ?fs (planned f)"
  let ?Q = "concluded tk topo i d t ?fs (planned f)"
  let ?a = "fault_apply f @ onset_commands f @ [sr_info (f_node f) (iface_srl f)]"
    and ?x = "fault_clear f @ clean_commands (f_node f) (iface_netdev f)"
  have pl: "planned f = ?a @ ?x" by (simp add: planned_def)
  have E0: "?E w1" if "ran d t ?fs cs w1" "prefix cs (planned f)" for cs w1
    using that by (auto simp: abandoned_def ran_def)
  have E1: "?E w1" if "ran d t (dict_set path bytes ?fs) cs w1" "prefix cs (planned f)"
      "path = window_path tk topo u i" "bytes = t_write tk rows" for cs u rows w1 path bytes
    using that by (auto simp: abandoned_def ran_def)
  have Ea: "?E w1" if "ran d t ?fs ?a w1" for w1
    by (rule E0 [OF that]) (simp add: pl)
  have fin: "triple (\<lambda>w. (\<exists>rows u. path = window_path tk topo u i \<and> bytes = t_write tk rows) \<and> ran d t (dict_set path bytes ?fs) ?a w)
      (bindw (restore_phase lb f) (\<lambda>lab_clean.
        conclude_phase tk i (if ok \<and> lab_clean then ''settled'' else ''quarantined'') onset label path bytes)) ?Q ?E"
    for path bytes ok onset label
  proof (cases "\<exists>rows u. path = window_path tk topo u i \<and> bytes = t_write tk rows")
    case True
    then obtain rows u where p: "path = window_path tk topo u i" "bytes = t_write tk rows" by blast
    have "triple (ran d t (dict_set path bytes ?fs) ?a) (restore_phase lb f)
        (\<lambda>_. ran d t (dict_set path bytes ?fs) (?a @ ?x)) ?E"
      by (rule triple_commanded [OF commanded_restore], rule E1 [OF _ _ p], assumption) (simp add: pl)
    moreover have "triple (ran d t (dict_set path bytes ?fs) (?a @ ?x))
        (conclude_phase tk i (if ok \<and> cl then ''settled'' else ''quarantined'') onset label path bytes) ?Q ?E" for cl
      unfolding pl [symmetric] by (rule triple_conclude [OF E1 [OF _ _ p] p]) auto
    ultimately have "triple (ran d t (dict_set path bytes ?fs) ?a)
      (bindw (restore_phase lb f) (\<lambda>lab_clean.
        conclude_phase tk i (if ok \<and> lab_clean then ''settled'' else ''quarantined'') onset label path bytes)) ?Q ?E"
      by (rule triple_bindw)
    then show ?thesis by (auto simp: triple_def)
  qed (auto simp: triple_def)
  have cap: "triple (ran d t ?fs ?a) (bindw (noww lb) (\<lambda>w_end.
      bindw (capture lb tk topo leaf iface onset w_end i) (\<lambda>(path, bytes).
      bindw (restore_phase lb f) (\<lambda>lab_clean.
      conclude_phase tk i (if ok \<and> lab_clean then ''settled'' else ''quarantined'') onset
        (label_of tk fc leaf iface split onset w_end feature) path bytes)))) ?Q ?E" for onset ok feature
  proof (rule triple_bindw)
    show "triple (ran d t ?fs ?a) (noww lb) (\<lambda>_. ran d t ?fs ?a) ?E" by (simp add: triple_def noww_def)
    show "triple (ran d t ?fs ?a) (bindw (capture lb tk topo leaf iface onset w_end i) (\<lambda>(path, bytes).
      bindw (restore_phase lb f) (\<lambda>lab_clean.
      conclude_phase tk i (if ok \<and> lab_clean then ''settled'' else ''quarantined'') onset
        (label_of tk fc leaf iface split onset w_end feature) path bytes))) ?Q ?E" for w_end
    proof (rule triple_bindw [OF triple_capture [OF Ea]])
      fix pb :: "string \<times> string"
      show "triple ((\<lambda>(path, bytes) w. (\<exists>rows u. path = window_path tk topo u i \<and> bytes = t_write tk rows) \<and>
          ran d t (dict_set path bytes ?fs) ?a w) pb) (case pb of (path, bytes) \<Rightarrow>
        bindw (restore_phase lb f) (\<lambda>lab_clean.
        conclude_phase tk i (if ok \<and> lab_clean then ''settled'' else ''quarantined'') onset
        (label_of tk fc leaf iface split onset w_end feature) path bytes)) ?Q ?E"
        by (cases pb) (simp only: prod.case, rule fin)
    qed
  qed
  have inj: "triple (ran d t ?fs []) (inject_phase lb f) (\<lambda>_. ran d t ?fs ?a) ?E"
    by (rule triple_commanded [OF commanded_inject, where cs = "[]", unfolded append_Nil])
      (rule E0, assumption, unfold pl, rule prefix_prefix)
  define rest where "rest onset = bindw (inject_phase lb f) (\<lambda>(onset_ok, feature). bindw (noww lb) (\<lambda>w_end.
      bindw (capture lb tk topo leaf iface onset w_end i) (\<lambda>(path, bytes).
      bindw (restore_phase lb f) (\<lambda>lab_clean.
      conclude_phase tk i (if onset_ok \<and> lab_clean then ''settled'' else ''quarantined'') onset
        (label_of tk fc leaf iface split onset w_end feature) path bytes))))" for onset
  have "triple (ran d t ?fs []) (rest onset) ?Q ?E" for onset
    unfolding rest_def by (rule triple_bindw [OF inj]) (auto intro: cap)
  moreover have "ran d t ?fs [] (w\<lparr>cw_db := d, cw_trace := t\<rparr>)" by (simp add: ran_def)
  moreover have "rest (lab_now lb (cw_lab w)) (w\<lparr>cw_db := d, cw_trace := t\<rparr>) = (r, w')"
    using assms(1) unfolding collect_one_def Let_def f [symmetric]
    by (simp add: bindw_def [of "noww lb"] bindw_def [of "open_injection _ _ _ _ _ _"] noww_def open_injection_def Let_def
        rest_def opened_def i d t)
  ultimately show ?thesis unfolding triple_def by (cases r) (metis (no_types, lifting) prod.case sum.case)+
qed

section \<open>Window paths\<close>

lemma split_first_skip:
  "x \<notin> set s \<Longrightarrow> split_first (x # sep) (s @ b) = map_option (\<lambda>(a, b). (s @ a, b)) (split_first (x # sep) b)"
  by (induction s) (auto simp: startswith_def option.map_comp comp_def split_def option.map_ident)

lemma split_first_absent: "x \<notin> set s \<Longrightarrow> split_first (x # sep) s = None"
  by (induction s) (auto simp: startswith_def)

lemma split_first_here: "sep \<noteq> [] \<Longrightarrow> split_first sep (sep @ b) = Some ([], b)"
  by (cases sep) (simp_all add: startswith_def)

lemma show_nat_plain: "CHR ''i'' \<notin> set (show_nat n)" "CHR ''.'' \<notin> set (show_nat n)"
  using show_nat_digits [of n] by (auto simp: is_digit_def)

definition path_tools :: "tools \<Rightarrow> bool" where
  "path_tools tk \<longleftrightarrow> (\<forall>t. CHR ''i'' \<notin> set (t_date tk t)) \<and> (\<forall>rows. t_names tk (t_write tk rows) = RAW_TELEMETRY_COLUMNS)"

lemma window_key_path:
  assumes "CHR ''i'' \<notin> set topo" and "CHR ''i'' \<notin> set (t_date tk u)"
  shows "window_key (window_path tk topo u i) = Inr (show_nat i)"
proof -
  let ?m = "''n-full-corpus-v2''"
  let ?rest = "''gate8-full-corpus-v2/topo='' @ topo @ ''/date='' @ t_date tk u @ ''/''"
  let ?tail = "show_nat i @ ''.parquet''"
  have p: "window_path tk topo u i = ''data/raw_telemetry/campa'' @ ''ign='' @ ?rest @ incident_prefix @ ?tail"
    by (simp add: window_path_def CAMPAIGN_KEY_def incident_prefix_def)
  have r: "CHR ''i'' \<notin> set ?rest" using assms by simp
  have "split_first incident_prefix (?rest @ incident_prefix @ ?tail) = Some (?rest, ?tail)"
    using split_first_skip [OF r, of "''ncident-''" "incident_prefix @ ?tail"] split_first_here [of incident_prefix ?tail]
    by (simp add: incident_prefix_def)
  moreover have "split_first incident_prefix (''ign='' @ x) = map_option (\<lambda>(a, b). (''ign='' @ a, b)) (split_first incident_prefix x)" for x
    by (simp add: incident_prefix_def startswith_def option.map_comp comp_def split_def)
  moreover have "split_first incident_prefix (''data/raw_telemetry/campa'' @ x) =
      map_option (\<lambda>(a, b). (''data/raw_telemetry/campa'' @ a, b)) (split_first incident_prefix x)" for x
    unfolding incident_prefix_def by (rule split_first_skip) simp
  ultimately have "split_first incident_prefix (window_path tk topo u i) = Some (''data/raw_telemetry/campa'' @ ''ign='' @ ?rest, ?tail)"
    unfolding p by simp
  moreover have "split_first incident_prefix ?tail = None"
    unfolding incident_prefix_def by (rule split_first_absent) (simp add: show_nat_plain)
  moreover have "split_first ''.parquet'' ?tail = Some (show_nat i, [])"
    using split_first_skip [OF show_nat_plain(2), of "''parquet''" i "''.parquet''"] by (simp add: startswith_def)
  ultimately show ?thesis by (simp add: window_key_def before_first_def)
qed

text \<open>\<open>ok_path\<close>: a path the runner writes for an injection; it identifies the injection.\<close>

definition ok_path :: "tools \<Rightarrow> nat \<Rightarrow> string \<Rightarrow> bool" where
  "ok_path tk i p \<longleftrightarrow> (\<exists>topo u. CHR ''i'' \<notin> set topo \<and> p = window_path tk topo u i)"

lemma ok_path_key: "path_tools tk \<Longrightarrow> ok_path tk i p \<Longrightarrow> window_key p = Inr (show_nat i)"
  unfolding ok_path_def path_tools_def using window_key_path by blast

lemma ok_path_inj: "path_tools tk \<Longrightarrow> ok_path tk i p \<Longrightarrow> ok_path tk j p \<Longrightarrow> i = j"
  using ok_path_key by (metis show_nat_inj sum.inject(2))

text \<open>Ground truth is written ahead. Every collection first commits the open injection, and only then sends
  commands, always a prefix of the fault, its observation, its reversal and the clean check; a status is
  returned exactly when all of them ran and is the last thing committed. When anything raises, the
  injection stays open and no label or artifact is added; a quarantined incident is never labelled.\<close>

theorem collect_write_ahead:
  assumes "collect_one lb tk cid topo fc leaf netdev iface split seed w = (r, w')"
  shows "\<exists>xs. prefix xs (planned \<lparr>fault_class = fc, f_node = leaf, iface_netdev = netdev, iface_srl = iface\<rparr>) \<and>
    (case r of
       Inl e \<Rightarrow> cw_trace w' = cw_trace w @ Committed (c_next (cw_db w)) ''injecting'' # map Ran xs \<and>
         cw_db w' = opened cid fc leaf iface split seed (cw_db w)
     | Inr s \<Rightarrow> s \<in> {''settled'', ''quarantined''} \<and>
         xs = planned \<lparr>fault_class = fc, f_node = leaf, iface_netdev = netdev, iface_srl = iface\<rparr> \<and>
         cw_trace w' = cw_trace w @ Committed (c_next (cw_db w)) ''injecting'' # map Ran xs @ [Committed (c_next (cw_db w)) s]) \<and>
    (r \<noteq> Inr ''settled'' \<longrightarrow> labels (cw_db w') = labels (cw_db w) \<and> artifacts (cw_db w') = artifacts (cw_db w))"
  using collect_outcomes [OF assms refl refl refl refl]
  by (cases r) (auto simp: abandoned_def concluded_def Let_def opened_def prefix_order.dual_order.refl)

end
