(* ===== verification/CorpusCheck.thy ===== *)
theory CorpusCheck
  imports Corpus
begin

text \<open>
  The invariant of a collected corpus and what it gives: the verifier accepts everything the runner
  settles except an empty window, for any number of runs, exceptions and states of the lab; and when
  the run loop returns.
\<close>

section \<open>The invariant of the corpus\<close>

text \<open>A settlement: injection, label, path and bytes of the window.\<close>

type_synonym settlement = "nat \<times> json \<times> string \<times> string"

definition row_ok :: "nat \<Rightarrow> nat \<Rightarrow> injection \<Rightarrow> bool" where
  "row_ok cid n r \<longleftrightarrow> fi_id r < n \<and> fi_campaign r = cid \<and> fi_simulated r \<and> fi_shard r \<in> set LEAVES \<and>
     (\<exists>iface \<in> {''ethernet-1/1'', ''ethernet-1/2''}. fi_target r = target_of (fi_shard r) iface) \<and>
     fi_parameters r = [(''split'', JStr (split_of (fi_shard r)))] \<and> (fi_status r = ''settled'' \<longrightarrow> fi_observed_at r \<noteq> None)"

definition settlements :: "tools \<Rightarrow> corpus_db \<Rightarrow> (string, string) dict \<Rightarrow> settlement list \<Rightarrow> bool" where
  "settlements tk d files ss \<longleftrightarrow>
     distinct (map fst ss) \<and>
     labels d = map (\<lambda>(i, l, p, b). label_row tk i l) ss \<and>
     artifacts d = concat (map (\<lambda>(i, l, p, b). artifact_rows tk i l p b) ss) \<and>
     (\<forall>(i, l, p, b) \<in> set ss. ok_path tk i p \<and> dict_get files p = Some b \<and> t_names tk b = RAW_TELEMETRY_COLUMNS)"

definition corpus_inv :: "tools \<Rightarrow> nat \<Rightarrow> corpus_db \<Rightarrow> (string, string) dict \<Rightarrow> bool" where
  "corpus_inv tk cid d files \<longleftrightarrow>
     (\<exists>c. find (\<lambda>c. ca_key c = CAMPAIGN_KEY) (campaigns d) = Some c \<and> ca_id c = cid \<and> ca_revision c \<noteq> []) \<and>
     distinct (map fi_id (injections d)) \<and> (\<forall>r \<in> set (injections d). row_ok cid (c_next d) r) \<and>
     (\<exists>ss. settlements tk d files ss \<and> fst ` set ss = fi_id ` {r \<in> set (injections d). fi_status r = ''settled''})"

lemma corpus_invD:
  assumes "corpus_inv tk cid d files"
  obtains ss c where "find (\<lambda>c. ca_key c = CAMPAIGN_KEY) (campaigns d) = Some c" "ca_id c = cid" "ca_revision c \<noteq> []"
    "distinct (map fi_id (injections d))" "\<forall>r \<in> set (injections d). row_ok cid (c_next d) r"
    "settlements tk d files ss" "fst ` set ss = fi_id ` {r \<in> set (injections d). fi_status r = ''settled''}"
  using assms unfolding corpus_inv_def by blast

text \<open>Files may be added or removed under the path of an injection that is not settled.\<close>

lemma settlements_files:
  assumes "path_tools tk" and "settlements tk d files ss" and "ok_path tk i path" and "i \<notin> fst ` set ss"
    and "\<And>p. p \<noteq> path \<Longrightarrow> dict_get files' p = dict_get files p"
  shows "settlements tk d files' ss"
proof -
  have "dict_get files' p = Some b" if "(j, l, p, b) \<in> set ss" for j l p b
  proof -
    from that assms(2) have "ok_path tk j p" "dict_get files p = Some b" by (auto simp: settlements_def)
    moreover have "j \<noteq> i" using that assms(4) by (metis fst_conv image_eqI)
    ultimately show ?thesis using assms(5) ok_path_inj [OF assms(1,3)] by metis
  qed
  with assms(2) show ?thesis unfolding settlements_def by blast
qed

lemma opened_inv:
  assumes "corpus_inv tk cid d files" and "leaf \<in> set LEAVES" and "iface \<in> {''ethernet-1/1'', ''ethernet-1/2''}"
  shows "corpus_inv tk cid (opened cid fc leaf iface (split_of leaf) seed d) files"
    and "\<And>ss. settlements tk (opened cid fc leaf iface (split_of leaf) seed d) files ss \<longleftrightarrow> settlements tk d files ss"
proof -
  let ?d = "opened cid fc leaf iface (split_of leaf) seed d"
  show s: "settlements tk ?d files ss \<longleftrightarrow> settlements tk d files ss" for ss
    by (simp add: settlements_def opened_def)
  obtain ss c where inv: "find (\<lambda>c. ca_key c = CAMPAIGN_KEY) (campaigns d) = Some c" "ca_id c = cid" "ca_revision c \<noteq> []"
    "distinct (map fi_id (injections d))" "\<forall>r \<in> set (injections d). row_ok cid (c_next d) r"
    "settlements tk d files ss" "fst ` set ss = fi_id ` {r \<in> set (injections d). fi_status r = ''settled''}"
    by (rule corpus_invD [OF assms(1)])
  have "{r \<in> set (injections ?d). fi_status r = ''settled''} = {r \<in> set (injections d). fi_status r = ''settled''}"
    by (auto simp: opened_def)
  moreover have "\<forall>r \<in> set (injections ?d). row_ok cid (c_next ?d) r"
    using inv(5) assms(2,3) by (auto simp: opened_def row_ok_def less_Suc_eq)
  moreover have "distinct (map fi_id (injections ?d))" using inv(4,5) by (auto simp: opened_def row_ok_def)
  moreover have "campaigns ?d = campaigns d" by (simp add: opened_def)
  ultimately show "corpus_inv tk cid ?d files"
    unfolding corpus_inv_def s using inv(1,2,3,6,7) by metis
qed

lemma outcome_rows:
  assumes "\<forall>r \<in> set (injections d). row_ok cid (c_next d) r"
  shows "injections (set_outcome (c_next d) status onset (opened cid fc leaf iface split seed d)) =
    injections d @ [\<lparr>fi_id = c_next d, fi_campaign = cid, fi_class = fc, fi_shard = leaf, fi_target = target_of leaf iface,
       fi_parameters = [(''split'', JStr split)], fi_traffic_seed = seed, fi_fault_seed = seed,
       fi_status = status, fi_simulated = True, fi_observed_at = Some onset\<rparr>]"
proof -
  have "map (\<lambda>r. if fi_id r = c_next d then r\<lparr>fi_status := status, fi_observed_at := Some onset\<rparr> else r) (injections d) = injections d"
    using assms by (intro map_idI) (auto simp: row_ok_def)
  then show ?thesis by (simp add: set_outcome_def opened_def)
qed

lemma collect_snoc: "{r \<in> set (xs @ [x]). P r} = (if P x then insert x {r \<in> set xs. P r} else {r \<in> set xs. P r})"
  by auto

lemma conclude_inv:
  assumes tk: "path_tools tk" and inv0: "corpus_inv tk cid d files" and leaf: "leaf \<in> set LEAVES"
    and iface: "iface \<in> {''ethernet-1/1'', ''ethernet-1/2''}" and topo: "CHR ''i'' \<notin> set topo"
    and c: "concluded tk topo (c_next d) (opened cid fc leaf iface (split_of leaf) seed d) t files cs s w"
  shows "corpus_inv tk cid (cw_db w) (cw_files w)"
proof -
  let ?i = "c_next d" and ?d = "opened cid fc leaf iface (split_of leaf) seed d"
  obtain ss cm where inv: "find (\<lambda>c. ca_key c = CAMPAIGN_KEY) (campaigns d) = Some cm" "ca_id cm = cid" "ca_revision cm \<noteq> []"
    "distinct (map fi_id (injections d))" "\<forall>r \<in> set (injections d). row_ok cid (c_next d) r"
    "settlements tk d files ss" "fst ` set ss = fi_id ` {r \<in> set (injections d). fi_status r = ''settled''}"
    by (rule corpus_invD [OF inv0])
  have fresh: "?i \<notin> fst ` set ss" "?i \<notin> fi_id ` set (injections d)" using inv(5,7) by (auto simp: row_ok_def)
  from c obtain onset label rows u where
    o: "s = ''settled'' \<and> cw_db w = settled_db tk ?i onset label (window_path tk topo u ?i) (t_write tk rows) ?d \<and>
          cw_files w = dict_set (window_path tk topo u ?i) (t_write tk rows) files \<or>
        s = ''quarantined'' \<and> cw_db w = set_outcome ?i ''quarantined'' onset ?d \<and>
          cw_files w = filter (\<lambda>(p, _). p \<noteq> window_path tk topo u ?i) (dict_set (window_path tk topo u ?i) (t_write tk rows) files)"
    unfolding concluded_def Let_def by blast
  let ?p = "window_path tk topo u ?i" and ?b = "t_write tk rows"
  have okp: "ok_path tk ?i ?p" using topo unfolding ok_path_def by blast
  have cm: "campaigns (cw_db w) = campaigns d" "c_next (cw_db w) = Suc ?i" "artifacts ?d = artifacts d" "labels ?d = labels d"
    using o by (auto simp: settled_db_def Let_def opened_def)
  have rows: "injections (cw_db w) = injections (set_outcome ?i s onset ?d)"
    using o by (auto simp: settled_db_def Let_def)
  note rows = rows [unfolded outcome_rows [OF inv(5)]]
  have r: "\<forall>r \<in> set (injections (cw_db w)). row_ok cid (c_next (cw_db w)) r"
    using inv(5) leaf iface unfolding rows cm by (auto simp: row_ok_def less_Suc_eq)
  have di: "distinct (map fi_id (injections (cw_db w)))" using inv(4) fresh(2) by (simp add: rows)
  have fl: "dict_get (filter (\<lambda>(p, _). p \<noteq> ?p) xs) q = dict_get xs q" if "q \<noteq> ?p" for q xs
    using that by (induction xs) auto
  have "\<exists>ss. settlements tk (cw_db w) (cw_files w) ss \<and>
      fst ` set ss = fi_id ` {r \<in> set (injections (cw_db w)). fi_status r = ''settled''}"
    using o
  proof (elim disjE conjE)
    assume s: "s = ''settled''" and db: "cw_db w = settled_db tk ?i onset label ?p ?b ?d" and fs: "cw_files w = dict_set ?p ?b files"
    have old: "settlements tk d (cw_files w) ss"
      by (rule settlements_files [OF tk inv(6) okp fresh(1)]) (simp add: fs)
    have "settlements tk (cw_db w) (cw_files w) (ss @ [(?i, label, ?p, ?b)])"
      using old fresh(1) okp tk unfolding settlements_def db
      by (auto simp: settled_db_def Let_def cm fs path_tools_def)
    moreover have "fst ` set (ss @ [(?i, label, ?p, ?b)]) = fi_id ` {r \<in> set (injections (cw_db w)). fi_status r = ''settled''}"
      using inv(7) s unfolding rows collect_snoc by simp
    ultimately show ?thesis by blast
  next
    assume s: "s = ''quarantined''" and db: "cw_db w = set_outcome ?i ''quarantined'' onset ?d"
      and fs: "cw_files w = filter (\<lambda>(p, _). p \<noteq> ?p) (dict_set ?p ?b files)"
    have "settlements tk d (cw_files w) ss"
      by (rule settlements_files [OF tk inv(6) okp fresh(1)]) (simp add: fs fl)
    then have "settlements tk (cw_db w) (cw_files w) ss" by (simp add: settlements_def db cm)
    moreover have "fst ` set ss = fi_id ` {r \<in> set (injections (cw_db w)). fi_status r = ''settled''}"
      using inv(7) s unfolding rows collect_snoc by simp
    ultimately show ?thesis by blast
  qed
  with inv(1,2,3) r di cm(1) show ?thesis unfolding corpus_inv_def by metis
qed

lemma abandon_inv:
  assumes tk: "path_tools tk" and inv0: "corpus_inv tk cid d files" and "leaf \<in> set LEAVES"
    and "iface \<in> {''ethernet-1/1'', ''ethernet-1/2''}" and topo: "CHR ''i'' \<notin> set topo"
    and a: "abandoned tk topo (c_next d) (opened cid fc leaf iface (split_of leaf) seed d) t files cs w"
  shows "corpus_inv tk cid (cw_db w) (cw_files w)"
proof -
  let ?d = "opened cid fc leaf iface (split_of leaf) seed d"
  have inv: "corpus_inv tk cid ?d files" by (rule opened_inv(1) [OF inv0 assms(3,4)])
  from a have db: "cw_db w = ?d" by (simp add: abandoned_def)
  from a consider "cw_files w = files" | (f) rows u where "cw_files w = dict_set (window_path tk topo u (c_next d)) (t_write tk rows) files"
    unfolding abandoned_def by blast
  then show ?thesis
  proof cases
    case 1
    with inv db show ?thesis by simp
  next
    case f
    obtain ss cm where i: "find (\<lambda>c. ca_key c = CAMPAIGN_KEY) (campaigns ?d) = Some cm" "ca_id cm = cid" "ca_revision cm \<noteq> []"
      "distinct (map fi_id (injections ?d))" "\<forall>r \<in> set (injections ?d). row_ok cid (c_next ?d) r"
      "settlements tk ?d files ss" "fst ` set ss = fi_id ` {r \<in> set (injections ?d). fi_status r = ''settled''}"
      by (rule corpus_invD [OF inv])
    have r: "\<forall>r \<in> set (injections d). row_ok cid (c_next d) r" by (rule corpus_invD [OF inv0])
    have "{r \<in> set (injections ?d). fi_status r = ''settled''} \<subseteq> set (injections d)" by (auto simp: opened_def)
    with i(7) r have "c_next d \<notin> fst ` set ss" by (force simp: row_ok_def)
    moreover have "ok_path tk (c_next d) (window_path tk topo u (c_next d))" using topo unfolding ok_path_def by blast
    ultimately have "settlements tk ?d (cw_files w) ss"
      using settlements_files [OF tk i(6)] by (simp add: f)
    with i db show ?thesis unfolding corpus_inv_def by metis
  qed
qed

lemma collect_inv:
  assumes "path_tools tk" and "corpus_inv tk cid (cw_db w) (cw_files w)" and "leaf \<in> set LEAVES"
    and "(netdev, iface) \<in> set UPLINKS" and "CHR ''i'' \<notin> set topo"
    and "collect_one lb tk cid topo fc leaf netdev iface (split_of leaf) seed w = (r, w')"
  shows "corpus_inv tk cid (cw_db w') (cw_files w')"
proof -
  have "iface \<in> {''ethernet-1/1'', ''ethernet-1/2''}" using assms(4) by (auto simp: UPLINKS_def)
  note c = conclude_inv [OF assms(1,2,3) this assms(5)] and a = abandon_inv [OF assms(1,2,3) this assms(5)]
  show ?thesis
  proof (cases r)
    case (Inl e)
    with collect_outcomes [OF assms(6) refl refl refl refl] show ?thesis by (intro a) simp
  next
    case (Inr s)
    with collect_outcomes [OF assms(6) refl refl refl refl] show ?thesis by (intro c) simp
  qed
qed

section \<open>The verifier on a collected corpus\<close>

lemma dict_comp_unique:
  assumes "distinct (map k xs)" and "x \<in> set xs"
  shows "dict_get (dict_comp k v xs) (k x) = Some (v x)"
proof -
  have "dict_comp k v xs = map (\<lambda>x. (k x, v x)) xs"
    unfolding dict_comp_def by (subst fold_dict_set_fresh) (use assms(1) in simp_all)
  moreover have "distinct (map fst (map (\<lambda>x. (k x, v x)) xs))" using assms(1) by (simp add: comp_def)
  ultimately show ?thesis using assms(2) by (auto intro: map_of_is_SomeI)
qed

definition raw_of :: "tools \<Rightarrow> settlement \<Rightarrow> artifact" where
  "raw_of tk = (\<lambda>(i, l, p, b). artifact_rows tk i l p b ! 1)"

definition lab_of :: "tools \<Rightarrow> settlement \<Rightarrow> artifact" where
  "lab_of tk = (\<lambda>(i, l, p, b). artifact_rows tk i l p b ! 0)"

lemma artifacts_split:
  assumes "artifacts d = concat (map (\<lambda>(i, l, p, b). artifact_rows tk i l p b) ss)"
  shows "artifacts_of ''raw_telemetry_window'' d = map (raw_of tk) ss" and "artifacts_of ''label_window'' d = map (lab_of tk) ss"
  unfolding artifacts_of_def assms
  by (induction ss) (auto simp: artifact_rows_def Let_def raw_of_def lab_of_def)

definition windows_nonempty :: "tools \<Rightarrow> corpus_db \<Rightarrow> (string, string) dict \<Rightarrow> bool" where
  "windows_nonempty tk d files =
     list_all (\<lambda>a. case dict_get files (ar_uri a) of None \<Rightarrow> False | Some raw \<Rightarrow> 0 < t_rows tk raw)
       (artifacts_of ''raw_telemetry_window'' d)"

lemma all_filtered: "length (filter P xs) = length xs \<longleftrightarrow> list_all P xs"
  by (metis Ball_set filter_id_conv length_filter_less less_irrefl)

lemma settled_checks:
  assumes tk: "path_tools tk" and ss: "settlements tk d files ss" and r: "fi_id r \<in> fst ` set ss"
    and telem: "telem = dict_comp fst snd (map (\<lambda>s. (show_nat (fst s), raw_of tk s)) ss)"
  shows "label_present d r" and "label_hash_ok tk d r" and "label_artifact_ok tk d r"
    and "\<And>l p b. (fi_id r, l, p, b) \<in> set ss \<Longrightarrow> window_ok tk telem files r \<longleftrightarrow> 0 < t_rows tk b"
proof -
  from r obtain l p b where s: "(fi_id r, l, p, b) \<in> set ss" by force
  let ?lr = "\<lambda>(i, l, p, b). label_row tk i l"
  have d: "distinct (map fst ss)" and lab: "labels d = map ?lr ss"
    and arts: "artifacts d = concat (map (\<lambda>(i, l, p, b). artifact_rows tk i l p b) ss)"
    using ss by (simp_all add: settlements_def)
  have gl: "gl_injection (label_row tk i x) = i" for i x by (simp add: label_row_def)
  have "map gl_injection (map ?lr ss) = map fst ss" by (auto simp: gl)
  then have "distinct (map gl_injection (labels d))" unfolding lab using d by (simp only:)
  moreover have "label_row tk (fi_id r) l \<in> set (labels d)" using s lab by force
  ultimately have g: "dict_get (dict_comp gl_injection (\<lambda>g. g) (labels d)) (fi_id r) = Some (label_row tk (fi_id r) l)"
    by (rule dict_comp_unique [of gl_injection _ "label_row tk (fi_id r) l" "\<lambda>g. g", unfolded gl])
  have u: "ar_uri (lab_of tk (fi_id r, l, p, b)) = label_uri (fi_id r)" by (simp add: lab_of_def artifact_rows_def Let_def)
  have "map ar_uri (map (lab_of tk) ss) = map label_uri (map fst ss)"
    by (auto simp: lab_of_def artifact_rows_def Let_def)
  moreover have "inj label_uri" by (auto simp: inj_def label_uri_def show_nat_inj)
  then have "distinct (map label_uri (map fst ss))" by (metis d distinct_map inj_on_subset subset_UNIV)
  ultimately have "distinct (map ar_uri (map (lab_of tk) ss))" by (simp only:)
  moreover have "lab_of tk (fi_id r, l, p, b) \<in> set (map (lab_of tk) ss)" using s by (simp only: set_map imageI)
  ultimately have a: "dict_get (dict_comp ar_uri (\<lambda>a. a) (artifacts_of ''label_window'' d)) (label_uri (fi_id r)) =
      Some (lab_of tk (fi_id r, l, p, b))"
    unfolding artifacts_split(2) [OF arts] by (rule dict_comp_unique [of ar_uri _ "lab_of tk (fi_id r, l, p, b)" "\<lambda>a. a", unfolded u])
  show "label_present d r" "label_hash_ok tk d r" by (simp_all add: label_present_def label_hash_ok_def g label_row_def)
  show "label_artifact_ok tk d r"
    by (simp add: label_artifact_ok_def g a) (simp add: lab_of_def artifact_rows_def Let_def label_row_def)
  show "window_ok tk telem files r \<longleftrightarrow> 0 < t_rows tk b" if s: "(fi_id r, l, p, b) \<in> set ss" for l p b
  proof -
    let ?ks = "map (\<lambda>s. (show_nat (fst s), raw_of tk s)) ss"
    have "map fst ?ks = map show_nat (map fst ss)" by simp
    moreover have "inj show_nat" by (auto simp: inj_def show_nat_inj)
    then have "distinct (map show_nat (map fst ss))" by (metis d distinct_map inj_on_subset subset_UNIV)
    ultimately have "distinct (map fst ?ks)" by (simp only:)
    from dict_comp_unique [OF this, of "(show_nat (fi_id r), raw_of tk (fi_id r, l, p, b))" snd] s
    have "dict_get telem (show_nat (fi_id r)) = Some (raw_of tk (fi_id r, l, p, b))" unfolding telem by force
    moreover have "dict_get files p = Some b" "t_names tk b = RAW_TELEMETRY_COLUMNS" using ss s by (auto simp: settlements_def)
    ultimately show ?thesis by (simp add: window_ok_def raw_of_def artifact_rows_def Let_def)
  qed
qed

lemma keyed_windows:
  assumes "path_tools tk" and "settlements tk d files ss"
  shows "map_res (\<lambda>a. bindr (window_key (ar_uri a)) (\<lambda>k. Inr (k, a))) (artifacts_of ''raw_telemetry_window'' d) =
    Inr (map (\<lambda>s. (show_nat (fst s), raw_of tk s)) ss)"
proof -
  have "window_key (ar_uri (raw_of tk s)) = Inr (show_nat (fst s))" if "s \<in> set ss" for s
    using assms that ok_path_key [OF assms(1)] by (cases s) (auto simp: settlements_def raw_of_def artifact_rows_def Let_def)
  then have "map_res (\<lambda>a. bindr (window_key (ar_uri a)) (\<lambda>k. Inr (k, a))) (map (raw_of tk) ss) =
      Inr (map (\<lambda>s. (show_nat (fst s), raw_of tk s)) ss)"
    by (induction ss) auto
  moreover have "artifacts_of ''raw_telemetry_window'' d = map (raw_of tk) ss"
    by (rule artifacts_split(1)) (use assms(2) in \<open>simp add: settlements_def\<close>)
  ultimately show ?thesis by simp
qed

lemma row_link:
  assumes "row_ok cid n r"
  shows "link_of r \<in> Inr ` (\<lambda>x. fi_shard r @ '':'' @ x) ` {''ethernet-1/1'', ''ethernet-1/2''}"
  using assms by (auto simp: row_ok_def link_of_def target_of_def dict_index_def)

lemma leaf_of_link: "leaf \<in> set LEAVES \<Longrightarrow> take 5 (leaf @ x) = leaf"
  by (auto simp: LEAVES_def)

lemma split_links:
  assumes "\<forall>r \<in> set rs. row_ok cid n r"
  shows "\<exists>ls. map_res link_of (filter (\<lambda>r. split_of (fi_shard r) = sp) rs) = Inr ls \<and>
    set ls \<subseteq> {leaf @ '':'' @ x | leaf x. leaf \<in> set LEAVES \<and> split_of leaf = sp}"
proof -
  let ?f = "filter (\<lambda>r. split_of (fi_shard r) = sp) rs"
  define g where "g r = the (dict_get (fi_target r) ''link'')" for r :: injection
  have l: "link_of r = Inr (g r)" if "r \<in> set rs" for r
    using assms that by (auto simp: row_ok_def link_of_def target_of_def dict_index_def g_def)
  then have "map_res link_of ?f = Inr (map g ?f)" by (intro map_res_total) auto
  moreover have "g r \<in> {leaf @ '':'' @ x | leaf x. leaf \<in> set LEAVES \<and> split_of leaf = sp}" if "r \<in> set ?f" for r
  proof -
    from that assms have "row_ok cid n r" "split_of (fi_shard r) = sp" "r \<in> set rs" by auto
    with row_link [of cid n r] l [of r] show ?thesis by (auto simp: row_ok_def)
  qed
  ultimately show ?thesis by (intro exI [of _ "map g ?f"]) auto
qed

lemma windows_settlements:
  assumes "settlements tk d files ss"
  shows "windows_nonempty tk d files \<longleftrightarrow> (\<forall>(i, l, p, b) \<in> set ss. 0 < t_rows tk b)"
proof -
  have arts: "artifacts_of ''raw_telemetry_window'' d = map (raw_of tk) ss"
    by (rule artifacts_split(1)) (use assms in \<open>simp add: settlements_def\<close>)
  have "(case dict_get files (ar_uri (raw_of tk s)) of None \<Rightarrow> False | Some raw \<Rightarrow> 0 < t_rows tk raw) \<longleftrightarrow>
      0 < t_rows tk (snd (snd (snd s)))" if "s \<in> set ss" for s
    using assms that by (cases s) (auto simp: settlements_def raw_of_def artifact_rows_def Let_def)
  then show ?thesis unfolding windows_nonempty_def arts list.pred_map list_all_iff comp_def by force
qed

lemma inv_verifies:
  assumes tk: "path_tools tk" and inv0: "corpus_inv tk cid d files"
  shows "corpus_verify tk d files =
    Inr [(''stratum counts met'', list_all (\<lambda>c. 13 \<le> length (filter (\<lambda>r. stratum r = c) (settled_of cid d))) corpus_cells),
         (''operational floor'', 300 \<le> length (settled_of cid d)),
         (''artifacts verify'', True), (''telemetry windows verify'', windows_nonempty tk d files),
         (''split invariant'', True), (''provenance complete'', True), (''quality'', True)]"
proof -
  obtain ss c where inv: "find (\<lambda>c. ca_key c = CAMPAIGN_KEY) (campaigns d) = Some c" "ca_id c = cid" "ca_revision c \<noteq> []"
    "distinct (map fi_id (injections d))" "\<forall>r \<in> set (injections d). row_ok cid (c_next d) r"
    "settlements tk d files ss" "fst ` set ss = fi_id ` {r \<in> set (injections d). fi_status r = ''settled''}"
    by (rule corpus_invD [OF inv0])
  let ?rs = "settled_of cid d"
  have rs: "set ?rs = {r \<in> set (injections d). fi_status r = ''settled''}"
    using inv(5) by (auto simp: settled_of_def row_ok_def)
  have ok: "\<forall>r \<in> set ?rs. row_ok cid (c_next d) r" using inv(5) rs by auto
  have ids: "fi_id r \<in> fst ` set ss" if "r \<in> set ?rs" for r using that inv(7) rs by auto
  define telem where "telem = dict_comp fst snd (map (\<lambda>s. (show_nat (fst s), raw_of tk s)) ss)"
  note chk = settled_checks [OF tk inv(6) ids telem_def]
  have win: "list_all (window_ok tk telem files) ?rs \<longleftrightarrow> windows_nonempty tk d files"
  proof -
    have "windows_nonempty tk d files \<longleftrightarrow> (\<forall>(i, l, p, b) \<in> set ss. 0 < t_rows tk b)"
      by (rule windows_settlements [OF inv(6)])
    also have "\<dots> \<longleftrightarrow> (\<forall>r \<in> set ?rs. \<forall>l p b. (fi_id r, l, p, b) \<in> set ss \<longrightarrow> 0 < t_rows tk b)"
    proof -
      have "\<exists>r \<in> set ?rs. i = fi_id r" if "(i, l, p, b) \<in> set ss" for i l p b
        using that inv(7) rs by force
      then show ?thesis by (auto, metis)
    qed
    also have "\<dots> \<longleftrightarrow> list_all (window_ok tk telem files) ?rs"
    proof -
      have "window_ok tk telem files r \<longleftrightarrow> (\<forall>l p b. (fi_id r, l, p, b) \<in> set ss \<longrightarrow> 0 < t_rows tk b)" if r: "r \<in> set ?rs" for r
      proof -
        from ids [OF r] obtain l p b where "(fi_id r, l, p, b) \<in> set ss" by force
        with chk(4) [OF r] show ?thesis by blast
      qed
      then show ?thesis by (simp add: list_all_iff)
    qed
    finally show ?thesis ..
  qed
  obtain tr where tr: "map_res link_of (filter (\<lambda>r. split_of (fi_shard r) = ''train'') ?rs) = Inr tr"
    "set tr \<subseteq> {leaf @ '':'' @ x | leaf x. leaf \<in> set LEAVES \<and> split_of leaf = ''train''}"
    using split_links [OF ok, of "''train''"] by blast
  obtain te where te: "map_res link_of (filter (\<lambda>r. split_of (fi_shard r) = ''test'') ?rs) = Inr te"
    "set te \<subseteq> {leaf @ '':'' @ x | leaf x. leaf \<in> set LEAVES \<and> split_of leaf = ''test''}"
    using split_links [OF ok, of "''test''"] by blast
  have "split_of (take 5 x) = ''train''" if "x \<in> set tr" for x using that tr(2) leaf_of_link by fastforce
  moreover have "split_of (take 5 x) = ''test''" if "x \<in> set te" for x using that te(2) leaf_of_link by fastforce
  ultimately have "set tr \<inter> set te = {}" by force
  moreover have "list_all (\<lambda>r. dict_get (fi_parameters r) ''split'' = Some (JStr (split_of (fi_shard r)))) ?rs"
    "list_all fi_simulated ?rs" using ok by (auto simp: list_all_iff row_ok_def)
  moreover have "list_all (\<lambda>r. fi_observed_at r \<noteq> None) ?rs" using ok rs by (auto simp: list_all_iff row_ok_def)
  moreover have "list_all (label_present d) ?rs" "list_all (label_hash_ok tk d) ?rs" "list_all (label_artifact_ok tk d) ?rs"
    using chk(1,2,3) by (auto simp: list_all_iff)
  ultimately show ?thesis
    unfolding corpus_verify_def inv(1) option.case Let_def inv(2) keyed_windows [OF tk inv(6)] bindr_simps tr(1) te(1)
      all_filtered telem_def [symmetric] win PER_CELL_def FLOOR_def
    using inv(3) by simp
qed

section \<open>Reachable corpora\<close>

text \<open>From an empty evaluation database: any number of collections, whatever they return, and any change of the lab
  between them.\<close>

definition empty_corpus :: corpus_db where
  "empty_corpus = \<lparr>campaigns = [], injections = [], labels = [], artifacts = [], c_next = 0\<rparr>"

inductive corpus_reachable :: "'l lab \<Rightarrow> tools \<Rightarrow> 'l cworld \<Rightarrow> bool" for lb tk where
  start: "cw_db w = snd (campaign_id empty_corpus) \<Longrightarrow> cw_files w = [] \<Longrightarrow> corpus_reachable lb tk w"
| collected: "corpus_reachable lb tk w \<Longrightarrow> (fc, leaf) \<in> set corpus_cells \<Longrightarrow> (netdev, iface) \<in> set UPLINKS \<Longrightarrow>
    CHR ''i'' \<notin> set topo \<Longrightarrow>
    collect_one lb tk (fst (campaign_id (cw_db w))) topo fc leaf netdev iface (split_of leaf) seed w = (r, w') \<Longrightarrow>
    corpus_reachable lb tk w'"
| lab_changed: "corpus_reachable lb tk w \<Longrightarrow> corpus_reachable lb tk (w\<lparr>cw_lab := l\<rparr>)"

lemma start_inv: "corpus_inv tk 0 (snd (campaign_id empty_corpus)) []"
  by (auto simp: corpus_inv_def settlements_def campaign_id_def empty_corpus_def intro!: exI [of _ "[]"])

lemma campaign_kept: "corpus_inv tk cid d files \<Longrightarrow> campaign_id d = (cid, d)"
  by (auto simp: corpus_inv_def campaign_id_def)

lemma cell_leaf: "(fc, leaf) \<in> set corpus_cells \<Longrightarrow> leaf \<in> set LEAVES"
  by (auto simp: corpus_cells_def)

lemma corpus_reachable_inv:
  assumes "corpus_reachable lb tk w" and "path_tools tk"
  shows "corpus_inv tk 0 (cw_db w) (cw_files w)"
  using assms(1)
proof induction
  case (start w)
  then show ?case using start_inv by metis
next
  case (collected w fc leaf netdev iface topo seed r w')
  then show ?case
    using collect_inv [OF assms(2) collected.IH cell_leaf] campaign_kept [OF collected.IH] by simp
qed simp


section \<open>A lab to collect from\<close>

definition demo_lab :: "unit lab" where
  "demo_lab = \<lparr>lab_exec = (\<lambda>c l. (Inr (case c of Docker args \<Rightarrow> if ''sh'' \<in> set args then ''0'' else ''up'' | _ \<Rightarrow> ''down tbf netem''), l)),
     lab_sleep = (\<lambda>s l. l), lab_now = (\<lambda>l. 0),
     lab_fetch = (\<lambda>l m nd iface a b. [\<lparr>se_labels = [], se_values = [(0, ''1'')]\<rparr>]), lab_free_gib = (\<lambda>l. 100)\<rparr>"

definition demo_tools :: tools where
  "demo_tools = \<lparr>t_sha = (\<lambda>s. take 1 s), t_fr = (\<lambda>_. []), t_iso = (\<lambda>_. ''1970''), t_date = (\<lambda>_. ''1970''), t_float = (\<lambda>_. Inr 0),
     t_write = (\<lambda>rows. ''PAR1''), t_names = (\<lambda>_. RAW_TELEMETRY_COLUMNS), t_rows = (\<lambda>_. 7)\<rparr>"

definition demo_start :: "unit cworld" where
  "demo_start = \<lparr>cw_lab = (), cw_db = snd (campaign_id empty_corpus), cw_files = [], cw_trace = []\<rparr>"

abbreviation demo_collect :: "(string, unit) step" where
  "demo_collect \<equiv> collect_one demo_lab demo_tools 0 ''a3f'' ''admin_shutdown'' ''leaf1'' ''e1-1'' ''ethernet-1/1'' ''train'' 1"

abbreviation demo_fault :: fault where
  "demo_fault \<equiv> \<lparr>fault_class = ''admin_shutdown'', f_node = ''leaf1'', iface_netdev = ''e1-1'', iface_srl = ''ethernet-1/1''\<rparr>"

lemma demo_inject: "\<exists>w1. inject_phase demo_lab demo_fault w = (Inr (True, ''up''), w1) \<and> cw_db w1 = cw_db w"
  by (simp add: inject_phase_def bindw_def run_cmd_def sleepw_def observe_onset_def onset_command_def oper_state_def
      ret_def demo_lab_def fault_apply_def verify_onset_def sr_info_def startswith_def Let_def container_def)

lemma demo_restore: "\<exists>w1. restore_phase demo_lab demo_fault w = (Inr True, w1) \<and> cw_db w1 = cw_db w"
  by (simp add: restore_phase_def bindw_def run_cmd_def sleepw_def clean_between_def qdisc_count_def ret_def demo_lab_def
      fault_clear_def cleanup_payload_def sr_info_def startswith_def Let_def strip_def is_space_def container_def)

lemma demo_capture: "\<exists>p w1. capture demo_lab demo_tools topo leaf iface a e i w = (Inr (p, ''PAR1''), w1) \<and> cw_db w1 = cw_db w"
proof -
  have "capture_window (t_float demo_tools) (lab_fetch demo_lab (cw_lab w)) 0 leaf iface a e topo \<noteq> Inl x" for x
    by (simp add: capture_window_def counter_points_def demo_lab_def demo_tools_def Features.COUNTERS_def Let_def split: prod.split)
  moreover have "t_write demo_tools rows = ''PAR1''" "lab_now demo_lab l = 0" for rows l by (simp_all add: demo_tools_def demo_lab_def)
  ultimately show ?thesis by (auto simp: capture_def Let_def split: sum.split)
qed

lemma demo_collected: "\<exists>w. demo_collect demo_start = (Inr ''settled'', w)"
proof -
  let ?l = "label_of demo_tools ''admin_shutdown'' ''leaf1'' ''ethernet-1/1'' ''train'' 0 0 ''up''"
  have sha: "t_sha demo_tools (dumps_sorted fr ?l) = ''{''" "t_sha demo_tools ''PAR1'' = ''P''" for fr
    by (simp_all add: demo_tools_def dumps_sorted_def label_of_def)
  obtain w0 where w0: "open_injection 0 ''admin_shutdown'' ''leaf1'' ''ethernet-1/1'' ''train'' 1 demo_start = (Inr (Suc 0), w0)"
    "labels (cw_db w0) = []" "artifacts (cw_db w0) = []"
    by (simp add: open_injection_def demo_start_def campaign_id_def empty_corpus_def Let_def)
  obtain w1 where w1: "inject_phase demo_lab demo_fault w0 = (Inr (True, ''up''), w1)" "cw_db w1 = cw_db w0" using demo_inject by blast
  obtain p w2 where w2: "capture demo_lab demo_tools ''a3f'' ''leaf1'' ''ethernet-1/1'' 0 0 (Suc 0) w1 = (Inr (p, ''PAR1''), w2)"
    "cw_db w2 = cw_db w1" using demo_capture by blast
  obtain w3 where w3: "restore_phase demo_lab demo_fault w2 = (Inr True, w3)" "cw_db w3 = cw_db w2" using demo_restore by blast
  have db: "labels (cw_db w3) = []" "artifacts (cw_db w3) = []"
    using w0(2,3) w1(2) w2(2) w3(2) by simp_all
  have "\<exists>w4. conclude_phase demo_tools (Suc 0) ''settled'' 0 ?l p ''PAR1'' w3 = (Inr ''settled'', w4)"
    by (simp add: conclude_phase_def bindw_def close_injection_def ret_def Let_def db artifact_rows_def sha)
  moreover have "noww demo_lab w = (Inr 0, w)" for w by (simp add: noww_def demo_lab_def)
  ultimately show ?thesis
    unfolding collect_one_def Let_def by (simp add: bindw_def w0(1) w1(1) w2(1) w3(1))
qed


lemma next_cell_Some:
  assumes "next_cell per_cell counts = Some cell"
  shows "cell \<in> set corpus_cells" and "count_of counts cell < per_cell"
  using assms by (auto simp: next_cell_def find_Some_iff)

text \<open>A run is a sequence of such collections, so the theorem covers every run that returns.\<close>

lemma collect_cell_reachable:
  assumes "path_tools tk" and "CHR ''i'' \<notin> set topo" and "cell \<in> set corpus_cells"
    and "corpus_reachable lb tk w" and "collect_cell lb tk 0 topo cell idx w = (r, w')"
  shows "corpus_reachable lb tk w'"
proof -
  obtain fc leaf where cell: "cell = (fc, leaf)" by force
  obtain netdev iface where u: "UPLINKS ! (idx mod length UPLINKS) = (netdev, iface)" by force
  have "(netdev, iface) \<in> set UPLINKS" unfolding u [symmetric] by (intro nth_mem) (simp add: UPLINKS_def)
  moreover have "fst (campaign_id (cw_db w)) = 0"
    using campaign_kept [OF corpus_reachable_inv [OF assms(4,1)]] by simp
  ultimately show ?thesis
    using assms(5) by (intro collected [OF assms(4) assms(3) [unfolded cell] _ assms(2)]) (auto simp: collect_cell_def u cell)
qed

text \<open>The run loop asks of the collection only that it keeps an invariant of the world and the attempt number, for the cells of the plan.\<close>

locale collector =
  fixes collect :: "string \<times> string \<Rightarrow> nat \<Rightarrow> (string, 'l) step" and inv :: "nat \<Rightarrow> 'l cworld \<Rightarrow> bool"
  assumes keeps: "inv idx w \<Longrightarrow> cell \<in> set corpus_cells \<Longrightarrow> collect cell idx w = (r, w') \<Longrightarrow> inv (Suc idx) w'"
begin

lemma loop_keeps:
  assumes "collect_loop collect low_disk room per_cell st w = Some y" and "inv (rs_idx st) w"
  shows "\<exists>i. inv i (snd y)"
proof -
  define Q where "Q = (\<lambda>c (st :: run_state) (w :: 'l cworld) (y :: run_state res \<times> 'l cworld). c = collect \<longrightarrow> inv (rs_idx st) w \<longrightarrow> (\<exists>i. inv i (snd y)))"
  have "Q collect st w y"
  proof (rule collect_loop.raw_induct [where P = "\<lambda>c low_disk room per_cell st w y. Q c st w y", OF _ assms(1)])
    fix loop c and low_disk :: "'l \<Rightarrow> bool" and room per_cell st and w :: "'l cworld" and y
    assume IH: "\<And>c low_disk room per_cell st w y. loop c low_disk room per_cell st w = Some y \<Longrightarrow> Q c st w y"
      and step: "(if \<not> rs_collected st < room then Some (Inr st, w)
        else case next_cell per_cell (rs_counts st) of None \<Rightarrow> Some (Inr st, w)
           | Some cell \<Rightarrow>
               if low_disk (cw_lab w) then Some (Inr st, w)
               else case c cell (rs_idx st) w of
                    (Inl e, w1) \<Rightarrow> Some (Inl e, w1)
                    | (Inr status, w1) \<Rightarrow> loop c low_disk room per_cell (tally cell status st) w1) = Some y"
    show "Q c st w y"
      unfolding Q_def
    proof (intro impI)
      assume c: "c = collect" and w: "inv (rs_idx st) w"
      consider "snd y = w" | (cell) cell where "next_cell per_cell (rs_counts st) = Some cell"
          "(case c cell (rs_idx st) w of (Inl e, w1) \<Rightarrow> Some (Inl e, w1)
             | (Inr status, w1) \<Rightarrow> loop c low_disk room per_cell (tally cell status st) w1) = Some y"
        using step by (auto split: if_splits option.splits)
      then show "\<exists>i. inv i (snd y)"
      proof cases
        case cell
        obtain r w1 where r: "collect cell (rs_idx st) w = (r, w1)" by force
        have w1: "inv (Suc (rs_idx st)) w1" by (rule keeps [OF w next_cell_Some(1) [OF cell(1)] r])
        show ?thesis
        proof (cases r)
          case (Inl e)
          with cell(2) r w1 c have "inv (Suc (rs_idx st)) (snd y)" by auto
          then show ?thesis ..
        next
          case (Inr status)
          with cell(2) r c have "loop c low_disk room per_cell (tally cell status st) w1 = Some y" by simp
          from IH [OF this] c w1 show ?thesis by (simp add: Q_def tally_def Let_def)
        qed
      qed (use w in metis)
    qed
  qed
  with assms(2) show ?thesis by (simp add: Q_def)
qed

end

interpretation runner: collector "collect_cell lb tk 0 topo" "\<lambda>_ w. path_tools tk \<and> CHR ''i'' \<notin> set topo \<and> corpus_reachable lb tk w"
  for lb tk topo
  by unfold_locales (blast intro: collect_cell_reachable)

lemma corpus_run_reachable:
  assumes "path_tools tk" and "CHR ''i'' \<notin> set topo" and "corpus_reachable lb tk w"
    and "corpus_run lb tk topo batch target_total w = Some (r, w')"
  shows "corpus_reachable lb tk w'"
proof -
  have c: "campaign_id (cw_db w) = (0, cw_db w)" by (rule campaign_kept [OF corpus_reachable_inv [OF assms(3,1)]])
  have "w\<lparr>cw_db := cw_db w\<rparr> = w" by simp
  with assms c runner.loop_keeps [of lb tk topo _ _ _ _ w] show ?thesis
    unfolding corpus_run_def Let_def by (auto split: if_splits)
qed

section \<open>When the run loop returns\<close>

definition deficit :: "nat \<Rightarrow> (string \<times> string, nat) dict \<Rightarrow> nat" where
  "deficit per_cell counts = (\<Sum>c\<leftarrow>corpus_cells. per_cell - count_of counts c)"

lemma distinct_cells: "distinct corpus_cells"
  by (simp add: corpus_cells_def CLASSES_def LEAVES_def)

lemma next_cell_None: "next_cell per_cell counts = None \<longleftrightarrow> deficit per_cell counts = 0"
  by (auto simp: next_cell_def deficit_def find_None_iff not_less)

lemma deficit_step:
  assumes "cell \<in> set corpus_cells" and "count_of counts cell < per_cell"
  shows "deficit per_cell counts = Suc (deficit per_cell (dict_set cell (count_of counts cell + 1) counts))"
proof -
  have "(\<Sum>c\<leftarrow>xs. per_cell - count_of counts c) = Suc (\<Sum>c\<leftarrow>xs. per_cell - count_of (dict_set cell (count_of counts cell + 1) counts) c)"
    if "distinct xs" "cell \<in> set xs" for xs
    using that
  proof (induction xs)
    case (Cons c xs)
    have eq: "(\<Sum>c\<leftarrow>xs. per_cell - count_of (dict_set cell (count_of counts cell + 1) counts) c) = (\<Sum>c\<leftarrow>xs. per_cell - count_of counts c)"
      if "cell \<notin> set xs" using that by (intro arg_cong [of _ _ sum_list] map_cong) (auto simp: count_of_def)
    show ?case
    proof (cases "c = cell")
      case True
      with Cons.prems eq assms(2) show ?thesis by (auto simp: count_of_def)
    next
      case False
      with Cons show ?thesis by (auto simp: count_of_def)
    qed
  qed simp
  from this [OF distinct_cells assms(1)] show ?thesis by (simp add: deficit_def)
qed

text \<open>A batch collects what is missing, or its room, when nothing raises or is quarantined.\<close>

lemma collect_loop_fills:
  assumes settles: "\<And>cell idx w. cell \<in> set corpus_cells \<Longrightarrow> fst (collect cell idx w) = Inr ''settled''"
    and free: "\<And>l. \<not> low_disk l"
  shows "\<exists>st' w'. collect_loop collect low_disk room per_cell st w = Some (Inr st', w') \<and>
    rs_collected st' = max (rs_collected st) (min room (rs_collected st + deficit per_cell (rs_counts st)))"
proof (induction "room - rs_collected st" arbitrary: st w rule: less_induct)
  case less
  show ?case
  proof (cases "rs_collected st < room")
    case False
    then show ?thesis by (subst collect_loop.simps) simp
  next
    case True
    show ?thesis
    proof (cases "next_cell per_cell (rs_counts st)")
      case None
      then have "deficit per_cell (rs_counts st) = 0" by (simp add: next_cell_None)
      with True None show ?thesis by (subst collect_loop.simps) simp
    next
      case (Some cell)
      note c = next_cell_Some [OF Some]
      obtain w1 where w1: "collect cell (rs_idx st) w = (Inr ''settled'', w1)"
        using settles [OF c(1)] by (metis prod.collapse)
      let ?st = "tally cell ''settled'' st"
      have t: "rs_collected ?st = Suc (rs_collected st)"
        "rs_counts ?st = dict_set cell (count_of (rs_counts st) cell + 1) (rs_counts st)"
        by (simp_all add: tally_def)
      have "room - rs_collected ?st < room - rs_collected st" using True t(1) by simp
      from less.hyps [OF this, of w1] obtain st' w' where
        r: "collect_loop collect low_disk room per_cell ?st w1 = Some (Inr st', w')"
          "rs_collected st' = max (rs_collected ?st) (min room (rs_collected ?st + deficit per_cell (rs_counts ?st)))" by blast
      have "collect_loop collect low_disk room per_cell st w = collect_loop collect low_disk room per_cell ?st w1"
        by (subst collect_loop.simps) (simp add: True Some w1 free)
      with r deficit_step [OF c] True show ?thesis by (auto simp: t)
    qed
  qed
qed

section \<open>A lab that does not answer\<close>

definition always :: "('a \<Rightarrow> bool) \<Rightarrow> ('a, 'l) step \<Rightarrow> bool" where
  "always Q m \<longleftrightarrow> (\<forall>w. \<exists>a w'. m w = (Inr a, w') \<and> Q a)"

lemma always_bindw: "always P m \<Longrightarrow> (\<And>a. P a \<Longrightarrow> always Q (f a)) \<Longrightarrow> always Q (bindw m f)"
  unfolding always_def bindw_def by (metis (no_types, lifting) prod.case sum.case(2))

lemma always_ret: "Q a \<Longrightarrow> always Q (ret a)"
  by (simp add: always_def ret_def)

definition silent :: "'l lab \<Rightarrow> bool" where "silent lb \<longleftrightarrow> (\<forall>c l. fst (lab_exec lb c l) = Inr [])"

lemma silent_cmd: "silent lb \<Longrightarrow> always (\<lambda>out. out = []) (run_cmd lb c)"
  unfolding always_def run_cmd_def silent_def by (auto split: prod.splits) (metis fst_conv)

lemma silent_cmds: "silent lb \<Longrightarrow> always (\<lambda>_. True) (run_cmds lb cs)"
proof (induction cs)
  case (Cons c cs)
  have "always (\<lambda>_. True) (bindw (run_cmd lb c) (\<lambda>_. run_cmds lb cs))"
    by (rule always_bindw [OF silent_cmd [OF Cons.prems] Cons.IH [OF Cons.prems]])
  then show ?case by (simp add: always_def)
qed (simp add: always_def)

lemma silent_onset: "silent lb \<Longrightarrow> always (\<lambda>_. True) (observe_onset lb f)"
  unfolding observe_onset_def
  by (auto intro!: always_ret always_bindw [OF silent_cmd] split: option.split)

lemma silent_inject: "silent lb \<Longrightarrow> always (\<lambda>_. True) (inject_phase lb f)"
  unfolding inject_phase_def oper_state_def
  by (intro always_bindw [OF silent_cmds] always_bindw [OF silent_onset] always_bindw [OF silent_cmd] always_ret
      always_bindw [of "\<lambda>_. True" "sleepw lb _"] always_bindw [of "\<lambda>_. True" "bindw (run_cmd lb _) _"])
    (simp_all add: always_def sleepw_def)

lemma silent_restore: "silent lb \<Longrightarrow> always (\<lambda>ok. \<not> ok) (restore_phase lb f)"
  unfolding restore_phase_def clean_between_def
  by (intro always_bindw [OF silent_cmds] always_bindw [of "\<lambda>_. True" "sleepw lb _"] always_bindw [OF silent_cmd] always_ret)
    (simp_all add: always_def sleepw_def startswith_def)

lemma capture_returns:
  assumes "\<forall>s. \<exists>x. t_float tk s = Inr x"
  shows "always (\<lambda>_. True) (capture lb tk topo leaf iface a b i)"
proof -
  have "\<exists>x. map_res (\<lambda>(ts, v). bindr (t_float tk v) (\<lambda>x. Inr (g ts x))) vs = Inr x" for g and vs :: "(pyfloat \<times> string) list"
  proof (induction vs)
    case (Cons p vs)
    obtain ts v where "p = (ts, v)" by force
    with Cons assms [THEN spec, of v] show ?case by auto
  qed simp
  then have "\<exists>x. counter_points (t_float tk) fetch c = Inr x" for fetch c
    by (cases c) (simp add: counter_points_def)
  then have "\<exists>x. map_res (counter_points (t_float tk) fetch) cs = Inr x" for fetch cs
  proof (induction cs)
    case (Cons c cs)
    then obtain x y where "counter_points (t_float tk) fetch c = Inr x" "map_res (counter_points (t_float tk) fetch) cs = Inr y" by metis
    then show ?case by simp
  qed simp
  then have "\<exists>rows. capture_window (t_float tk) fetch u leaf iface a b topo = Inr rows" for fetch u
    unfolding capture_window_def Let_def by (metis bindr_simps(2))
  then show ?thesis unfolding always_def capture_def Let_def by (metis (no_types, lifting) sum.case(2))
qed

lemma silent_collect:
  assumes "silent lb" and "\<forall>s. \<exists>x. t_float tk s = Inr x"
  shows "always (\<lambda>s. s = ''quarantined'') (collect_one lb tk cid topo fc leaf netdev iface split seed)"
proof -
  have n: "always (\<lambda>_. True) (noww lb)" by (simp add: always_def noww_def)
  have o: "always (\<lambda>_. True) (open_injection cid fc leaf iface split seed)" by (simp add: always_def open_injection_def Let_def)
  have c: "always (\<lambda>s. s = ''quarantined'') (conclude_phase tk i ''quarantined'' onset label path bytes)" for i onset label path bytes
    by (simp add: always_def conclude_phase_def close_injection_def unlink_def bindw_def ret_def Let_def)
  show ?thesis
    unfolding collect_one_def Let_def
    by (intro always_bindw [OF n] always_bindw [OF o] always_bindw [OF silent_inject [OF assms(1)]] always_bindw [OF capture_returns [OF assms(2)]]
        always_bindw [OF silent_restore [OF assms(1)]] | simp add: c split: prod.split | intro allI impI)+
qed

lemma collect_loop_forever:
  fixes collect :: "string \<times> string \<Rightarrow> nat \<Rightarrow> (string, 'l) step"
  assumes q: "\<And>cell idx. always (\<lambda>s. s = ''quarantined'') (collect cell idx)"
    and free: "\<And>l. \<not> low_disk l"
    and "rs_collected st < room" and "next_cell per_cell (rs_counts st) = Some cell"
  shows "collect_loop collect low_disk room per_cell st w = None"
proof (rule ccontr)
  assume "collect_loop collect low_disk room per_cell st w \<noteq> None"
  then obtain y where y: "collect_loop collect low_disk room per_cell st w = Some y" by blast
  define P where "P = (\<lambda>(collect :: string \<times> string \<Rightarrow> nat \<Rightarrow> (string, 'l) step) (low_disk :: 'l \<Rightarrow> bool) room per_cell (st :: run_state). rs_collected st < room \<and>
    next_cell per_cell (rs_counts st) = Some cell \<and>
    (\<forall>cell idx. always (\<lambda>s. s = ''quarantined'') (collect cell idx)) \<and> (\<forall>l. \<not> low_disk l))"
  have "\<not> P collect low_disk room per_cell st"
  proof (rule collect_loop.raw_induct [where P = "\<lambda>collect low_disk room per_cell st w y. \<not> P collect low_disk room per_cell st", OF _ y])
    fix loop collect and low_disk :: "'l \<Rightarrow> bool" and room per_cell st and w :: "'l cworld" and y
    assume IH: "\<And>collect low_disk room per_cell st w y. loop collect low_disk room per_cell st w = Some y \<Longrightarrow> \<not> P collect low_disk room per_cell st"
      and step: "(if \<not> rs_collected st < room then Some (Inr st, w)
        else case next_cell per_cell (rs_counts st) of None \<Rightarrow> Some (Inr st, w)
           | Some cell \<Rightarrow>
               if low_disk (cw_lab w) then Some (Inr st, w)
               else case collect cell (rs_idx st) w of
                    (Inl e, w1) \<Rightarrow> Some (Inl e, w1)
                    | (Inr status, w1) \<Rightarrow> loop collect low_disk room per_cell (tally cell status st) w1) = Some y"
    show "\<not> P collect low_disk room per_cell st"
    proof
      assume a: "P collect low_disk room per_cell st"
      then have c: "rs_collected st < room" "next_cell per_cell (rs_counts st) = Some cell" "\<not> low_disk (cw_lab w)"
        "always (\<lambda>s. s = ''quarantined'') (collect cell (rs_idx st))"
        unfolding P_def by blast+
      then obtain w1 where w1: "collect cell (rs_idx st) w = (Inr ''quarantined'', w1)" unfolding always_def by blast
      have t: "P collect low_disk room per_cell (tally cell ''quarantined'' st)" using a by (simp add: P_def tally_def)
      have "loop collect low_disk room per_cell (tally cell ''quarantined'' st) w1 = Some y"
        using step w1 c by simp
      from IH [OF this] t show False ..
    qed
  qed
  with assms show False unfolding P_def by blast
qed


definition silent_lab :: "unit lab" where
  "silent_lab = \<lparr>lab_exec = (\<lambda>c l. (Inr [], l)), lab_sleep = (\<lambda>s l. l), lab_now = (\<lambda>l. 0),
     lab_fetch = (\<lambda>l m nd iface a b. []), lab_free_gib = (\<lambda>l. 100)\<rparr>"


theorem collect_write_ahead_witness:
  "\<exists>w. demo_collect demo_start = (Inr ''settled'', w) \<and>
     cw_trace w = [Committed 1 ''injecting''] @ map Ran (planned demo_fault) @ [Committed 1 ''settled'']"
proof -
  obtain w where w: "demo_collect demo_start = (Inr ''settled'', w)" using demo_collected by blast
  have "c_next (cw_db demo_start) = 1" "cw_trace demo_start = []"
    by (simp_all add: demo_start_def campaign_id_def empty_corpus_def)
  with collect_write_ahead [OF w] w show ?thesis by auto
qed

end
