(* ===== verification/Smoke.thy ===== *)
theory Smoke
  imports Chaos Corpus
begin

text \<open>
  The smoke campaign of the fault framework, \<open>scripts/fault_smoke.py\<close>: every fault is planned in the ledger with
  its cleanup before it is applied, and cleared in a \<open>finally\<close> block whatever the lab does. A command may raise
  (a timeout); its exit code is not looked at, as in the code. The lab is a parameter; a command is kept
  with the ledger file of the moment it was sent.
\<close>

section \<open>Lab and world\<close>

record 'l smoke_lab =
  sl_exec :: "command \<Rightarrow> 'l \<Rightarrow> string res \<times> 'l"
  sl_sleep :: "nat \<Rightarrow> 'l \<Rightarrow> 'l"
  sl_clock :: "'l \<Rightarrow> pyfloat \<times> pyfloat"
  sl_uuid :: "'l \<Rightarrow> string \<times> 'l"
  sl_repr :: "pyfloat \<Rightarrow> string"

record 'l sworld =
  sw_lab :: 'l
  sw_file :: "string option"
  sw_fail :: nat
  sw_sent :: "(command \<times> string option) list"

type_synonym ('a, 'l) sstep = "'l sworld \<Rightarrow> 'a res \<times> 'l sworld"

text \<open>\<open>try: body finally: last\<close>; an exception of the last block replaces the result.\<close>

definition try_finally :: "('a, 'l) sstep \<Rightarrow> (unit, 'l) sstep \<Rightarrow> ('a, 'l) sstep" where
  "try_finally body last_do w =
     (case body w of (r, w1) \<Rightarrow> (case last_do w1 of (Inl e, w2) \<Rightarrow> (Inl e, w2) | (Inr _, w2) \<Rightarrow> (r, w2)))"

definition send :: "'l smoke_lab \<Rightarrow> command \<Rightarrow> (string, 'l) sstep" where
  "send lb c w =
     (case sl_exec lb c (sw_lab w) of (r, l) \<Rightarrow> (r, w\<lparr>sw_lab := l, sw_sent := sw_sent w @ [(c, sw_file w)]\<rparr>))"

fun sends :: "'l smoke_lab \<Rightarrow> command list \<Rightarrow> (unit, 'l) sstep" where
  "sends lb [] w = (Inr (), w)"
| "sends lb (c # cs) w = andthen (send lb c) (\<lambda>_. sends lb cs) w"

definition pause :: "'l smoke_lab \<Rightarrow> nat \<Rightarrow> (unit, 'l) sstep" where
  "pause lb s w = (Inr (), w\<lparr>sw_lab := sl_sleep lb s (sw_lab w)\<rparr>)"

definition emit_check :: "bool \<Rightarrow> (unit, 'l) sstep" where
  "emit_check ok w = (Inr (), if ok then w else w\<lparr>sw_fail := Suc (sw_fail w)\<rparr>)"

section \<open>The campaign\<close>

definition CAMPAIGN :: "fault list" where
  "CAMPAIGN = map (\<lambda>(fc, nd, netdev, srl). \<lparr>fault_class = fc, f_node = nd, iface_netdev = netdev, iface_srl = srl\<rparr>)
     [(''healthy_control'', ''leaf1'', ''e1-1'', ''ethernet-1/1''),
      (''admin_shutdown'', ''leaf1'', ''e1-1'', ''ethernet-1/1''),
      (''carrier_loss'', ''leaf2'', ''e1-1'', ''ethernet-1/1''),
      (''intermittent_link'', ''leaf3'', ''e1-1'', ''ethernet-1/1''),
      (''rate_limited_uplink'', ''leaf1'', ''e1-3'', ''ethernet-1/3''),
      (''impaired_link'', ''leaf4'', ''e1-1'', ''ethernet-1/1''),
      (''telemetry_gap'', ''-'', ''-'', ''-'')]"

definition to_lower :: "string \<Rightarrow> string" where
  "to_lower s = map (\<lambda>c. let n = of_char c :: nat in if 65 \<le> n \<and> n \<le> 90 then char_of (n + 32) else c) s"

definition overclaiming :: "string list" where
  "overclaiming = map fst (filter (\<lambda>(_, _, meaning). contains (to_lower meaning) ''pfc'' \<or> contains (to_lower meaning) ''ecn'' \<or>
     contains (to_lower meaning) ''optic'') FAULT_TAXONOMY)"

definition log_phase :: "'l smoke_lab \<Rightarrow> string \<Rightarrow> fault \<Rightarrow> phase \<Rightarrow> (string, json) dict option \<Rightarrow> (unit, 'l) sstep" where
  "log_phase lb i f ph det w =
     (let (wall, mono) = sl_clock lb (sw_lab w);
          target = [(''node'', f_node f), (''interface'', iface_srl f)] in
      (Inr (), w\<lparr>sw_file := ledger_append (sl_repr lb)
         (now_record wall mono i (fault_class f) ph target (cleanup_payload f) det) (sw_file w)\<rparr>))"

definition see_onset :: "'l smoke_lab \<Rightarrow> fault \<Rightarrow> (bool, 'l) sstep" where
  "see_onset lb f =
     (case onset_command f of
        None \<Rightarrow> Pair (Inr (verify_onset (\<lambda>_. []) f))
      | Some c \<Rightarrow> andthen (send lb c) (\<lambda>out. Pair (Inr (verify_onset (\<lambda>_. out) f))))"

definition inject_and_observe :: "'l smoke_lab \<Rightarrow> string \<Rightarrow> fault \<Rightarrow> (unit, 'l) sstep" where
  "inject_and_observe lb i f =
     andthen (log_phase lb i f INJECTING None) (\<lambda>_.
     andthen (sends lb (fault_apply f)) (\<lambda>_.
     andthen (pause lb 3) (\<lambda>_.
     andthen (see_onset lb f) (\<lambda>onset.
     andthen (log_phase lb i f (if onset then ACTIVE else FAILED) (Some [(''onset_observed'', JBool onset)])) (\<lambda>_.
     emit_check (onset \<or> fault_class f = ''healthy_control''))))))"

definition clear_and_record :: "'l smoke_lab \<Rightarrow> string \<Rightarrow> fault \<Rightarrow> (unit, 'l) sstep" where
  "clear_and_record lb i f =
     andthen (log_phase lb i f CLEARING None) (\<lambda>_.
     andthen (sends lb (fault_clear f)) (\<lambda>_.
     log_phase lb i f CLEARED None))"

definition new_injection_id :: "'l smoke_lab \<Rightarrow> fault \<Rightarrow> (string, 'l) sstep" where
  "new_injection_id lb f w =
     (case sl_uuid lb (sw_lab w) of (u, l) \<Rightarrow> (Inr (fault_class f @ ''-'' @ take 8 u), w\<lparr>sw_lab := l\<rparr>))"

definition run_fault :: "'l smoke_lab \<Rightarrow> fault \<Rightarrow> (unit, 'l) sstep" where
  "run_fault lb f =
     andthen (new_injection_id lb f) (\<lambda>i.
     andthen (log_phase lb i f PLANNED None) (\<lambda>_.
     andthen (try_finally (inject_and_observe lb i f) (clear_and_record lb i f)) (\<lambda>_.
     pause lb 2)))"

fun run_faults :: "'l smoke_lab \<Rightarrow> fault list \<Rightarrow> (unit, 'l) sstep" where
  "run_faults lb [] w = (Inr (), w)"
| "run_faults lb (f # fs) w = andthen (run_fault lb f) (\<lambda>_. run_faults lb fs) w"

definition run_campaign :: "'l smoke_lab \<Rightarrow> (unit, 'l) sstep" where
  "run_campaign lb = run_faults lb CAMPAIGN"

section \<open>The checks after the campaign\<close>

text \<open>\<open>str.split()\<close>.\<close>

fun py_words :: "string \<Rightarrow> string \<Rightarrow> string list" where
  "py_words w [] = (if w = [] then [] else [w])"
| "py_words w (c # s) = (if is_space c then (if w = [] then [] else [w]) @ py_words [] s else py_words (w @ [c]) s)"

definition residual_qdisc :: "fault \<Rightarrow> command" where
  "residual_qdisc f = Docker [''docker'', ''exec'', ''-u'', ''root'', container (f_node f), ''sh'', ''-c'',
     ''tc qdisc show dev '' @ iface_netdev f @ '' | grep -qE '' @ [apos_c] @ ''netem|tbf'' @ [apos_c] @ '' && echo dirty || true'']"

definition link_state :: "fault \<Rightarrow> command" where
  "link_state f = Docker [''docker'', ''exec'', ''-u'', ''root'', container (f_node f), ''sh'', ''-c'',
     ''ip -br link show '' @ iface_netdev f]"

definition collector_state :: command where
  "collector_state = Docker [''docker'', ''inspect'', ''-f'', ''{{.State.Running}}'', ''closcall-gnmic'']"

definition shows_down :: "string \<Rightarrow> bool" where
  "shows_down out \<longleftrightarrow> contains out '' DOWN '' \<or> take 1 (drop 1 (py_words [] (strip out))) = [''DOWN'']"

fun dirty_links :: "'l smoke_lab \<Rightarrow> fault list \<Rightarrow> (string list, 'l) sstep" where
  "dirty_links lb [] w = (Inr [], w)"
| "dirty_links lb (f # fs) w =
     (if f_node f = ''-'' then dirty_links lb fs w
      else andthen (send lb (residual_qdisc f)) (\<lambda>qd.
           andthen (send lb (link_state f)) (\<lambda>st.
           andthen (dirty_links lb fs) (\<lambda>ds.
             Pair (Inr ((if contains qd ''dirty'' then [f_node f @ '':'' @ iface_netdev f @ '' qdisc''] else []) @
               (if shows_down st then [f_node f @ '':'' @ iface_netdev f @ '' down''] else []) @ ds))))) w)"

definition check_no_dirty_state :: "'l smoke_lab \<Rightarrow> (unit, 'l) sstep" where
  "check_no_dirty_state lb =
     andthen (dirty_links lb CAMPAIGN) (\<lambda>ds.
     andthen (send lb collector_state) (\<lambda>g.
     emit_check (ds = [] \<and> strip g = ''true'')))"

definition check_reconciler :: "(string \<Rightarrow> pyfloat) \<Rightarrow> (unit, 'l) sstep" where
  "check_reconciler fp w = (case outstanding fp (sw_file w) of Inl e \<Rightarrow> (Inl e, w) | Inr out \<Rightarrow> emit_check (out = []) w)"

definition smoke_main :: "'l smoke_lab \<Rightarrow> (string \<Rightarrow> pyfloat) \<Rightarrow> (int, 'l) sstep" where
  "smoke_main lb fp w =
     andthen (emit_check (overclaiming = [])) (\<lambda>_.
     andthen (run_campaign lb) (\<lambda>_.
     andthen (check_no_dirty_state lb) (\<lambda>_.
     andthen (check_reconciler fp) (\<lambda>_ w1. (Inr (if sw_fail w1 \<noteq> 0 then 1 else 0), w1)))))
       (w\<lparr>sw_file := None, sw_fail := 0\<rparr>)"

section \<open>What the ledger owes\<close>

definition owed :: "ledger_record list \<Rightarrow> ledger_record list" where
  "owed rs = filter (\<lambda>r. lr_phase r \<in> set UNRECONCILED) (map snd (dict_comp lr_injection_id (\<lambda>r. r) rs))"

lemma outstanding_owed:
  "float_law fr fp \<Longrightarrow> \<forall>r \<in> set rs. wf_record r \<Longrightarrow> outstanding fp (ledger_text fr rs) = Inr (owed rs)"
  by (simp add: outstanding_def owed_def ledger_read_back)

lemma owed_Nil [simp]: "owed [] = []"
  by (simp add: owed_def dict_comp_def)

lemma owed_snoc:
  "set (owed (rs @ [r])) =
     {x \<in> set (owed rs). lr_injection_id x \<noteq> lr_injection_id r} \<union> (if lr_phase r \<in> set UNRECONCILED then {r} else {})"
proof -
  have "(\<exists>pre post. rs @ [r] = pre @ x # post \<and> (\<forall>y \<in> set post. lr_injection_id y \<noteq> lr_injection_id x)) \<longleftrightarrow>
      x = r \<or> (\<exists>pre post. rs = pre @ x # post \<and> (\<forall>y \<in> set post. lr_injection_id y \<noteq> lr_injection_id x)) \<and>
        lr_injection_id x \<noteq> lr_injection_id r" (is "?L = ?R") for x
  proof
    assume ?L
    then obtain pre post where p: "rs @ [r] = pre @ x # post" "\<forall>y \<in> set post. lr_injection_id y \<noteq> lr_injection_id x" by blast
    then show ?R by (cases post rule: rev_cases) auto
  next
    assume ?R
    then show ?L
    proof
      assume "x = r"
      then show ?L by (intro exI [of _ rs] exI [of _ "[]"]) simp
    next
      assume "(\<exists>pre post. rs = pre @ x # post \<and> (\<forall>y \<in> set post. lr_injection_id y \<noteq> lr_injection_id x)) \<and>
        lr_injection_id x \<noteq> lr_injection_id r"
      then obtain pre post where "rs = pre @ x # post" "\<forall>y \<in> set (post @ [r]). lr_injection_id y \<noteq> lr_injection_id x" by auto
      then show ?L by (intro exI [of _ pre] exI [of _ "post @ [r]"]) simp
    qed
  qed
  then show ?thesis
    unfolding owed_def set_filter dict_comp_last by auto
qed

text \<open>The commands that belong to a fault: applying, observing and clearing it.\<close>

definition fault_commands :: "fault \<Rightarrow> command list" where
  "fault_commands f = fault_apply f @ (case onset_command f of None \<Rightarrow> [] | Some c \<Rightarrow> [c]) @ fault_clear f"

definition covered :: "(pyfloat \<Rightarrow> string) \<Rightarrow> fault list \<Rightarrow> command \<times> string option \<Rightarrow> bool" where
  "covered fr fs s \<longleftrightarrow> (\<exists>rs r f. snd s = ledger_text fr rs \<and> (\<forall>x \<in> set rs. wf_record x) \<and> r \<in> set (owed rs) \<and> f \<in> set fs \<and>
     lr_cleanup r = cleanup_payload f \<and> fst s \<in> set (fault_commands f))"

text \<open>The ledger owes nothing, or the cleanup of one injection in a known phase.\<close>

definition owes :: "(pyfloat \<Rightarrow> string) \<Rightarrow> fault list \<Rightarrow> string \<Rightarrow> fault \<Rightarrow> phase option \<Rightarrow> 'l sworld \<Rightarrow> bool" where
  "owes fr fs i f p w \<longleftrightarrow> list_all (covered fr fs) (sw_sent w) \<and>
     (\<exists>rs. sw_file w = ledger_text fr rs \<and> (\<forall>x \<in> set rs. wf_record x) \<and>
        (case p of None \<Rightarrow> set (owed rs) = {}
         | Some ph \<Rightarrow> \<exists>r. set (owed rs) = {r} \<and> lr_injection_id r = i \<and> lr_phase r = ph \<and> lr_cleanup r = cleanup_payload f))"

section \<open>Every step keeps the account\<close>

lemma cleanup_distinct: "distinct (dict_keys (cleanup_payload f))"
  by (simp add: cleanup_payload_def Let_def)

lemma owes_nothing: "owes fr fs i f None w \<longleftrightarrow> owes fr fs j g None w"
  by (simp add: owes_def)

lemma log_owes:
  assumes "owes (sl_repr lb) fs i f p w" and "distinct (dict_keys (case det of None \<Rightarrow> [] | Some d \<Rightarrow> d))"
    and "\<forall>(k, v) \<in> set (case det of None \<Rightarrow> [] | Some d \<Rightarrow> d). \<exists>b. v = JBool b"
  shows "fst (log_phase lb i f ph det w) = Inr ()"
    and "owes (sl_repr lb) fs i f (if ph \<in> set UNRECONCILED then Some ph else None) (snd (log_phase lb i f ph det w))"
proof -
  show "fst (log_phase lb i f ph det w) = Inr ()" by (simp add: log_phase_def case_prod_beta Let_def)
  obtain wall mono where c: "sl_clock lb (sw_lab w) = (wall, mono)" by fastforce
  let ?r = "now_record wall mono i (fault_class f) ph [(''node'', f_node f), (''interface'', iface_srl f)] (cleanup_payload f) det"
  obtain rs where rs: "sw_file w = ledger_text (sl_repr lb) rs" "\<forall>x \<in> set rs. wf_record x"
    and o_i: "\<forall>x \<in> set (owed rs). lr_injection_id x = i"
    using assms(1) by (auto simp: owes_def split: option.splits)
  have wf: "wf_record ?r" using assms(2,3) cleanup_distinct [of f]
    by (fastforce simp: wf_record_def now_record_def split: option.splits)
  have "set (owed (rs @ [?r])) = (if ph \<in> set UNRECONCILED then {?r} else {})"
    unfolding owed_snoc using o_i by (auto simp: now_record_def)
  moreover have "sw_file (snd (log_phase lb i f ph det w)) = ledger_text (sl_repr lb) (rs @ [?r])"
    by (simp add: log_phase_def c rs(1) ledger_text_snoc Let_def)
  moreover have "sw_sent (snd (log_phase lb i f ph det w)) = sw_sent w" by (simp add: log_phase_def c Let_def)
  ultimately show "owes (sl_repr lb) fs i f (if ph \<in> set UNRECONCILED then Some ph else None) (snd (log_phase lb i f ph det w))"
    using assms(1) rs(2) wf unfolding owes_def
    by (intro conjI exI [of _ "rs @ [?r]"]) (auto simp: now_record_def)
qed

lemma send_owes:
  assumes "owes fr fs i f (Some ph) w" and "c \<in> set (fault_commands f)" and "f \<in> set fs"
  shows "owes fr fs i f (Some ph) (snd (send lb c w))"
proof -
  obtain rs r where rs: "sw_file w = ledger_text fr rs" "\<forall>x \<in> set rs. wf_record x" "set (owed rs) = {r}" "lr_cleanup r = cleanup_payload f"
    using assms(1) by (auto simp: owes_def)
  have "covered fr fs (c, sw_file w)"
    unfolding covered_def using rs assms(2,3) by (intro exI [of _ rs] exI [of _ r] exI [of _ f]) simp
  then show ?thesis using assms(1) by (simp add: owes_def send_def split: prod.split)
qed

lemma sends_owes:
  assumes "owes fr fs i f (Some ph) w" and "set cs \<subseteq> set (fault_commands f)" and "f \<in> set fs"
  shows "owes fr fs i f (Some ph) (snd (sends lb cs w))"
  using assms
proof (induction cs arbitrary: w)
  case (Cons c cs)
  then have "owes fr fs i f (Some ph) (snd (send lb c w))" by (intro send_owes) simp_all
  then show ?case using Cons.IH [of "snd (send lb c w)"] Cons.prems
    by (auto simp: andthen_def split: prod.splits sum.splits)
qed simp

lemma pause_owes: "owes fr fs i f p (snd (pause lb s w)) = owes fr fs i f p w" "fst (pause lb s w) = Inr ()"
  by (simp_all add: owes_def pause_def)

lemma emit_owes: "owes fr fs i f p (snd (emit_check ok w)) = owes fr fs i f p w"
  by (simp add: owes_def emit_check_def)

text \<open>A triple with a postcondition for the result and one for an exception.\<close>

definition triple :: "('l sworld \<Rightarrow> bool) \<Rightarrow> ('a, 'l) sstep \<Rightarrow> ('a \<Rightarrow> 'l sworld \<Rightarrow> bool) \<Rightarrow> ('l sworld \<Rightarrow> bool) \<Rightarrow> bool" where
  "triple P m Q E \<longleftrightarrow> (\<forall>w. P w \<longrightarrow> (case m w of (Inl _, w1) \<Rightarrow> E w1 | (Inr a, w1) \<Rightarrow> Q a w1))"

lemma tripleI:
  "(\<And>w. P w \<Longrightarrow> case m w of (Inl _, w1) \<Rightarrow> E w1 | (Inr a, w1) \<Rightarrow> Q a w1) \<Longrightarrow> triple P m Q E"
  by (simp add: triple_def)

lemma triple_andthen: "triple P m R E \<Longrightarrow> (\<And>a. triple (R a) (f a) Q E) \<Longrightarrow> triple P (andthen m f) Q E"
  by (fastforce simp: triple_def andthen_def split: prod.splits sum.splits)

lemma triple_always: "(\<And>w. P w \<Longrightarrow> Q (snd (m w))) \<Longrightarrow> triple P m (\<lambda>_. Q) Q"
  unfolding triple_def by (metis (mono_tags, lifting) case_prod_beta snd_conv sum.case_eq_if)

lemma triple_weaken: "triple P m Q E \<Longrightarrow> (\<And>a w. Q a w \<Longrightarrow> Q' a w) \<Longrightarrow> (\<And>w. E w \<Longrightarrow> E' w) \<Longrightarrow> triple P m Q' E'"
  by (fastforce simp: triple_def split: prod.splits sum.splits)

lemma triple_run: "triple P m (\<lambda>_. Q) Q \<Longrightarrow> P w \<Longrightarrow> Q (snd (m w))"
  by (cases "m w"; cases "fst (m w)") (auto simp: triple_def split: prod.splits sum.splits)

lemma unreconciled [simp]:
  "PLANNED \<in> set UNRECONCILED" "INJECTING \<in> set UNRECONCILED" "ACTIVE \<in> set UNRECONCILED" "CLEARING \<in> set UNRECONCILED"
  "CLEARED \<notin> set UNRECONCILED" "FAILED \<notin> set UNRECONCILED"
  by (simp_all add: UNRECONCILED_def)

lemma see_onset_owes:
  assumes "owes fr fs i f (Some ph) w" and "f \<in> set fs"
  shows "owes fr fs i f (Some ph) (snd (see_onset lb f w))"
proof (cases "onset_command f")
  case None
  then show ?thesis using assms by (simp add: see_onset_def)
next
  case (Some c)
  then have "owes fr fs i f (Some ph) (snd (send lb c w))" using assms by (intro send_owes) (simp_all add: fault_commands_def)
  then show ?thesis by (auto simp: see_onset_def Some andthen_def split: prod.split sum.split)
qed

definition in_account :: "(pyfloat \<Rightarrow> string) \<Rightarrow> fault list \<Rightarrow> string \<Rightarrow> fault \<Rightarrow> 'l sworld \<Rightarrow> bool" where
  "in_account fr fs i f w \<longleftrightarrow> (\<exists>p. owes fr fs i f p w)"

lemma log_triple:
  assumes "distinct (dict_keys (case det of None \<Rightarrow> [] | Some d \<Rightarrow> d))"
    and "\<forall>(k, v) \<in> set (case det of None \<Rightarrow> [] | Some d \<Rightarrow> d). \<exists>b. v = JBool b"
  shows "triple (owes (sl_repr lb) fs i f p) (log_phase lb i f ph det)
    (\<lambda>_. owes (sl_repr lb) fs i f (if ph \<in> set UNRECONCILED then Some ph else None)) E"
proof (rule tripleI)
  show "case log_phase lb i f ph det w of (Inl _, w1) \<Rightarrow> E w1
    | (Inr _, w1) \<Rightarrow> owes (sl_repr lb) fs i f (if ph \<in> set UNRECONCILED then Some ph else None) w1"
    if "owes (sl_repr lb) fs i f p w" for w
    using log_owes [OF that assms, of ph] by (cases "log_phase lb i f ph det w") auto
qed

lemma inject_in_account:
  assumes "f \<in> set fs"
  shows "triple (owes (sl_repr lb) fs i f (Some PLANNED)) (inject_and_observe lb i f)
    (\<lambda>_. in_account (sl_repr lb) fs i f) (in_account (sl_repr lb) fs i f)"
proof -
  let ?J = "owes (sl_repr lb) fs i f (Some INJECTING)" and ?A = "in_account (sl_repr lb) fs i f"
  have JA: "?J w \<Longrightarrow> ?A w" for w by (auto simp: in_account_def)
  have 1: "triple (owes (sl_repr lb) fs i f (Some PLANNED)) (log_phase lb i f INJECTING None) (\<lambda>_. ?J) ?A"
    using log_triple [of None lb fs i f "Some PLANNED" INJECTING] by simp
  have 2: "triple ?J (sends lb (fault_apply f)) (\<lambda>_. ?J) ?A"
    by (rule triple_weaken [OF triple_always [where Q = ?J]])
      (auto simp: fault_commands_def JA intro!: sends_owes assms)
  have 3: "triple ?J (pause lb 3) (\<lambda>_. ?J) ?A"
    by (rule triple_weaken [OF triple_always [where Q = ?J]]) (auto simp: pause_owes JA)
  have 4: "triple ?J (see_onset lb f) (\<lambda>_. ?J) ?A"
    by (rule triple_weaken [OF triple_always [where Q = ?J]]) (auto simp: JA intro!: see_onset_owes assms)
  have 5: "triple ?J (log_phase lb i f (if b then ACTIVE else FAILED) (Some [(''onset_observed'', JBool b)])) (\<lambda>_. ?A) ?A" for b
    by (rule triple_weaken [OF log_triple]) (auto simp: in_account_def)
  have 6: "triple ?A (emit_check b) (\<lambda>_. ?A) ?A" for b
    by (rule triple_always) (auto simp: in_account_def emit_owes)
  show ?thesis
    unfolding inject_and_observe_def by (intro triple_andthen [OF 1] triple_andthen [OF 2] triple_andthen [OF 3]
      triple_andthen [OF 4] triple_andthen [OF 5] 6)
qed

lemma clear_account:
  assumes "in_account (sl_repr lb) fs i f w" and "f \<in> set fs"
  shows "owes (sl_repr lb) fs i f (case fst (clear_and_record lb i f w) of Inl _ \<Rightarrow> Some CLEARING | Inr _ \<Rightarrow> None)
    (snd (clear_and_record lb i f w))"
proof -
  let ?fr = "sl_repr lb"
  obtain p where p: "owes ?fr fs i f p w" using assms(1) by (auto simp: in_account_def)
  let ?w1 = "snd (log_phase lb i f CLEARING None w)"
  have l: "fst (log_phase lb i f CLEARING None w) = Inr ()" "owes ?fr fs i f (Some CLEARING) ?w1"
    using log_owes [OF p, of None CLEARING] by simp_all
  let ?w2 = "snd (sends lb (fault_clear f) ?w1)"
  have s: "owes ?fr fs i f (Some CLEARING) ?w2"
    using l(2) assms(2) by (intro sends_owes) (auto simp: fault_commands_def)
  have c: "fst (log_phase lb i f CLEARED None ?w2) = Inr ()" "owes ?fr fs i f None (snd (log_phase lb i f CLEARED None ?w2))"
    using log_owes [OF s, of None CLEARED] by simp_all
  show ?thesis
    using l s c by (cases "fst (sends lb (fault_clear f) ?w1)")
      (auto simp: clear_and_record_def andthen_def split: prod.splits)
qed

text \<open>What is left after a step that may have raised: nothing, or one cleanup that raised while it was sent.\<close>

definition settled_account :: "(pyfloat \<Rightarrow> string) \<Rightarrow> fault list \<Rightarrow> unit res \<Rightarrow> 'l sworld \<Rightarrow> bool" where
  "settled_account fr fs r w \<longleftrightarrow> (\<exists>i f p. f \<in> set fs \<and> owes fr fs i f p w \<and> (p = None \<or> (p = Some CLEARING \<and> (\<exists>e. r = Inl e))))"

lemma run_fault_account:
  assumes "owes (sl_repr lb) fs j g None w" and "f \<in> set fs"
  shows "settled_account (sl_repr lb) fs (fst (run_fault lb f w)) (snd (run_fault lb f w))"
proof -
  let ?fr = "sl_repr lb"
  obtain i w0 where n: "new_injection_id lb f w = (Inr i, w0)"
    by (cases "sl_uuid lb (sw_lab w)") (simp add: new_injection_id_def)
  have "owes ?fr fs i f None w0"
    using assms(1) n unfolding new_injection_id_def owes_def by (auto split: prod.splits)
  from log_owes [OF this, of None PLANNED] obtain w1
    where pl: "log_phase lb i f PLANNED None w0 = (Inr (), w1)" and w1: "owes ?fr fs i f (Some PLANNED) w1"
    by (cases "log_phase lb i f PLANNED None w0") auto
  obtain r2 w2 where b: "inject_and_observe lb i f w1 = (r2, w2)" by fastforce
  have a2: "in_account ?fr fs i f w2" using triple_run [OF inject_in_account [OF assms(2)] w1] b by simp
  obtain r3 w3 where c: "clear_and_record lb i f w2 = (r3, w3)" by fastforce
  have a3: "owes ?fr fs i f (case r3 of Inl _ \<Rightarrow> Some CLEARING | Inr _ \<Rightarrow> None) w3"
    using clear_account [OF a2 assms(2)] c by simp
  show ?thesis
    using a3 assms(2) pause_owes(1) [of ?fr fs i f _ lb 2 w3]
    by (cases r3; cases r2)
      (auto simp: settled_account_def run_fault_def andthen_def n pl try_finally_def b c intro!: exI [of _ i] exI [of _ f]
        split: prod.split sum.split)
qed

lemma run_faults_account:
  assumes "settled_account (sl_repr lb) fs (Inr ()) w" and "set cs \<subseteq> set fs"
  shows "settled_account (sl_repr lb) fs (fst (run_faults lb cs w)) (snd (run_faults lb cs w))"
  using assms
proof (induction cs arbitrary: w)
  case (Cons f cs)
  then obtain j g where "owes (sl_repr lb) fs j g None w" by (auto simp: settled_account_def)
  then have s: "settled_account (sl_repr lb) fs (fst (run_fault lb f w)) (snd (run_fault lb f w))"
    using Cons.prems(2) by (intro run_fault_account) auto
  show ?case
  proof (cases "run_fault lb f w")
    case (Pair r w1)
    then show ?thesis using s Cons.IH [of w1] Cons.prems(2) by (cases r) (auto simp: andthen_def)
  qed
qed simp

section \<open>The campaign as a whole\<close>

text \<open>C39: Whatever the lab does, raising at any command included, the campaign leaves a readable ledger that owes nothing
  when it returns, and at most the one cleanup that itself raised when it does not. Every command sent
  to the lab, to apply, to observe or to clear a fault, is sent while the ledger on disk already holds the
  exact cleanup of that fault as owed.\<close>

theorem smoke_campaign_ledger:
  assumes "float_law (sl_repr lb) fp" and "run_campaign lb w = (r, w')" and "sw_file w = None" and "sw_sent w = []"
  shows "(\<exists>out. outstanding fp (sw_file w') = Inr out \<and>
      (case r of Inr _ \<Rightarrow> out = []
       | Inl _ \<Rightarrow> \<forall>x \<in> set out. set out = {x} \<and> lr_phase x = CLEARING \<and> (\<exists>f \<in> set CAMPAIGN. lr_cleanup x = cleanup_payload f))) \<and>
    (\<forall>(c, file) \<in> set (sw_sent w'). \<exists>due x f. outstanding fp file = Inr due \<and> x \<in> set due \<and> f \<in> set CAMPAIGN \<and>
      lr_cleanup x = cleanup_payload f \<and> c \<in> set (fault_commands f))"
proof -
  let ?fr = "sl_repr lb"
  have f: "CAMPAIGN ! 0 \<in> set CAMPAIGN" by (simp add: CAMPAIGN_def)
  have "owes ?fr CAMPAIGN [] (CAMPAIGN ! 0) None w"
    using assms(3,4) unfolding owes_def by (intro conjI exI [of _ "[]"]) (simp_all add: ledger_text_def)
  then have "settled_account ?fr CAMPAIGN (Inr ()) w" using f unfolding settled_account_def by blast
  from run_faults_account [OF this subset_refl] have "settled_account ?fr CAMPAIGN r w'"
    using assms(2) by (simp add: run_campaign_def)
  then obtain i g p where g: "g \<in> set CAMPAIGN" "owes ?fr CAMPAIGN i g p w'" "p = None \<or> p = Some CLEARING \<and> (\<exists>e. r = Inl e)"
    unfolding settled_account_def by blast
  then obtain rs where rs: "sw_file w' = ledger_text ?fr rs" "\<forall>x \<in> set rs. wf_record x"
    and o: "case p of None \<Rightarrow> set (owed rs) = {}
      | Some ph \<Rightarrow> \<exists>x. set (owed rs) = {x} \<and> lr_injection_id x = i \<and> lr_phase x = ph \<and> lr_cleanup x = cleanup_payload g"
    and sent: "list_all (covered ?fr CAMPAIGN) (sw_sent w')"
    unfolding owes_def by blast
  have "outstanding fp (sw_file w') = Inr (owed rs)" unfolding rs(1) by (rule outstanding_owed [OF assms(1) rs(2)])
  moreover have "case r of Inr _ \<Rightarrow> owed rs = []
      | Inl _ \<Rightarrow> \<forall>x \<in> set (owed rs). set (owed rs) = {x} \<and> lr_phase x = CLEARING \<and> (\<exists>f \<in> set CAMPAIGN. lr_cleanup x = cleanup_payload f)"
    using g(1,3) o by (cases r; cases p) auto
  moreover have "\<exists>due x f. outstanding fp fl = Inr due \<and> x \<in> set due \<and> f \<in> set CAMPAIGN \<and>
      lr_cleanup x = cleanup_payload f \<and> c \<in> set (fault_commands f)" if "(c, fl) \<in> set (sw_sent w')" for c fl
  proof -
    have "covered ?fr CAMPAIGN (c, fl)" using sent that by (auto simp: list_all_iff)
    then show ?thesis unfolding covered_def using outstanding_owed [OF assms(1)] by fastforce
  qed
  ultimately show ?thesis by auto
qed

text \<open>A lab without a running container: every command times out.\<close>

definition dead_lab :: "unit smoke_lab" where
  "dead_lab = \<lparr>sl_exec = (\<lambda>_ u. (Inl TimeoutExpired, u)), sl_sleep = (\<lambda>_ u. u), sl_clock = (\<lambda>_. (1, 2)),
     sl_uuid = (\<lambda>u. (''0123456789'', u)), sl_repr = frac_repr\<rparr>"

definition fresh_world :: "unit sworld" where
  "fresh_world = \<lparr>sw_lab = (), sw_file = None, sw_fail = 0, sw_sent = []\<rparr>"

lemma dead_send: "send dead_lab c w = (Inl TimeoutExpired, w\<lparr>sw_sent := sw_sent w @ [(c, sw_file w)]\<rparr>)"
  by (simp add: send_def dead_lab_def)

lemma log_phase_Inr: "\<exists>w1. log_phase lb i f ph det w = (Inr (), w1)"
  by (simp add: log_phase_def case_prod_beta Let_def)

lemma dead_clear: "fault_clear f = c # cs \<Longrightarrow> fst (clear_and_record dead_lab i f w) = Inl TimeoutExpired"
  using log_phase_Inr [of dead_lab i f CLEARING None w] by (auto simp: clear_and_record_def andthen_def dead_send)

lemma dead_run: "fault_clear f = c # cs \<Longrightarrow> fst (run_fault dead_lab f w) = Inl TimeoutExpired"
proof -
  assume f: "fault_clear f = c # cs"
  obtain i w0 where n: "new_injection_id dead_lab f w = (Inr i, w0)" by (simp add: new_injection_id_def dead_lab_def)
  obtain w1 where l: "log_phase dead_lab i f PLANNED None w0 = (Inr (), w1)" using log_phase_Inr by blast
  obtain r w2 where b: "inject_and_observe dead_lab i f w1 = (r, w2)" by fastforce
  show ?thesis using dead_clear [OF f, of i w2]
    by (cases "clear_and_record dead_lab i f w2") (auto simp: run_fault_def andthen_def n l try_finally_def b)
qed

lemma dead_campaign: "fst (run_campaign dead_lab fresh_world) = Inl TimeoutExpired"
proof -
  have h: "fst (run_fault dead_lab (CAMPAIGN ! 0) w) = Inr ()" for w
    by (simp add: CAMPAIGN_def run_fault_def andthen_def try_finally_def inject_and_observe_def clear_and_record_def fault_apply_def
        fault_clear_def cleanup_payload_def log_phase_def new_injection_id_def pause_def see_onset_def onset_command_def
        emit_check_def case_prod_beta Let_def)
  have a: "fst (run_fault dead_lab (CAMPAIGN ! 1) w) = Inl TimeoutExpired" for w
    by (rule dead_run [where cs = "[]"]) (simp add: CAMPAIGN_def fault_clear_def cleanup_payload_def)
  have "CAMPAIGN = CAMPAIGN ! 0 # CAMPAIGN ! 1 # drop 2 CAMPAIGN" by (simp add: CAMPAIGN_def)
  then have "run_campaign dead_lab fresh_world = run_faults dead_lab (CAMPAIGN ! 0 # CAMPAIGN ! 1 # drop 2 CAMPAIGN) fresh_world"
    by (simp only: run_campaign_def)
  then show ?thesis using h [of fresh_world] a [of "snd (run_fault dead_lab (CAMPAIGN ! 0) fresh_world)"]
    by (auto simp: andthen_def split: prod.splits sum.splits)
qed

theorem smoke_campaign_ledger_witness:
  "\<exists>out. outstanding frac_read (sw_file (snd (run_campaign dead_lab fresh_world))) = Inr out \<and>
     (\<forall>x \<in> set out. lr_phase x = CLEARING)"
proof -
  have r: "run_campaign dead_lab fresh_world = (Inl TimeoutExpired, snd (run_campaign dead_lab fresh_world))"
    using dead_campaign by (simp add: prod_eq_iff)
  have law: "float_law (sl_repr dead_lab) frac_read" by (simp add: dead_lab_def frac_law)
  show ?thesis
    using smoke_campaign_ledger [OF law r] by (auto simp: fresh_world_def)
qed

text \<open>The ledger says cleared because the clearing commands returned, not because the fault is gone: in every lab whose
  commands all return, whatever they print and whatever they leave behind, the campaign returns, and
  with the property above nothing is owed. Only the separate check of the links looks at the lab.\<close>

definition returns :: "('a, 'l) sstep \<Rightarrow> bool" where "returns m \<longleftrightarrow> (\<forall>w. \<exists>a w1. m w = (Inr a, w1))"

lemma returns_andthen: "returns m \<Longrightarrow> (\<And>a. returns (f a)) \<Longrightarrow> returns (andthen m f)"
  unfolding returns_def andthen_def by (metis (mono_tags, lifting) case_prod_conv old.sum.simps(6))

lemma campaign_returns:
  assumes "\<forall>c l. \<exists>out l1. sl_exec lb c l = (Inr out, l1)"
  shows "returns (run_campaign lb)"
proof -
  have send: "returns (send lb c)" for c
    unfolding returns_def send_def using assms by (auto split: prod.split) (metis prod.inject)
  have sends: "returns (sends lb cs)" for cs
  proof (induction cs)
    case (Cons c cs)
    have "sends lb (c # cs) = andthen (send lb c) (\<lambda>_. sends lb cs)" by (rule ext) simp
    then show ?case by (simp only: returns_andthen [OF send Cons.IH])
  qed (simp add: returns_def)
  have basic: "returns (log_phase lb i f ph det)" "returns (pause lb s)" "returns (emit_check ok)" "returns (new_injection_id lb f)"
    "returns (Pair (Inr b))" for i f ph det s ok b
    by (auto simp: returns_def log_phase_Inr pause_def emit_check_def new_injection_id_def split: prod.split)
  have onset: "returns (see_onset lb f)" for f
    unfolding see_onset_def by (cases "onset_command f") (auto intro!: returns_andthen send basic)
  have "returns (inject_and_observe lb i f)" "returns (clear_and_record lb i f)" for i f
    unfolding inject_and_observe_def clear_and_record_def by (intro returns_andthen basic sends onset)+
  then have "returns (try_finally (inject_and_observe lb i f) (clear_and_record lb i f))" for i f
    unfolding returns_def try_finally_def by (metis (mono_tags, lifting) case_prod_conv old.sum.simps(6))
  then have one: "returns (run_fault lb f)" for f
    unfolding run_fault_def by (intro returns_andthen basic)
  have "returns (run_faults lb fs)" for fs
  proof (induction fs)
    case (Cons f fs)
    have "run_faults lb (f # fs) = andthen (run_fault lb f) (\<lambda>_. run_faults lb fs)" by (rule ext) simp
    then show ?case by (simp only: returns_andthen [OF one Cons.IH])
  qed (simp add: returns_def)
  then show ?thesis by (simp add: run_campaign_def)
qed

end
