(* ===== verification/SensorEval.thy ===== *)
theory SensorEval
  imports Detection Datasets Corpus Stats
begin

text \<open>
  The evaluation of the detectors over the collected corpus, \<open>scripts/evaluate_sensors.py\<close>: incidents are loaded
  from the tables and the stored windows, every window is cut to a common length, the thresholds are
  chosen on the train and validation incidents, and every split is scored under the chosen
  configuration. The window files are the rows they decode to, in the order the directory lists them;
  \<open>fs\<close> prints a float in the text of an alarm; \<open>random.Random\<close> is a state and its \<open>randrange\<close>.
\<close>

section \<open>Loading\<close>

definition HEALTHY :: string where "HEALTHY = ''healthy_control''"

definition EVAL_WINDOW_S :: pyfloat where "EVAL_WINDOW_S = 25"

record eval_incident =
  ei_class :: string
  ei_split :: string
  ei_onset :: pyfloat
  ei_healthy :: bool
  ei_samples :: "raw_sample list"

text \<open>\<open>glob\<close> of \<open>data/raw_telemetry/**/incident-<id>.parquet\<close>, paths from the repository root.\<close>

definition window_matches :: "(string \<times> raw_row list) list \<Rightarrow> nat \<Rightarrow> raw_row list list" where
  "window_matches files i =
     map snd (filter (\<lambda>(path, _). prefix ''data/raw_telemetry/'' path \<and> suffix (''/incident-'' @ show_nat i @ ''.parquet'') path) files)"

definition first_time :: "raw_sample list \<Rightarrow> pyfloat" where
  "first_time samples = (if samples = [] then 0 else Min (rs_t ` set samples))"

definition cut_window :: "raw_sample list \<Rightarrow> raw_sample list" where
  "cut_window samples = filter (\<lambda>x. rs_t x \<le> first_time samples + EVAL_WINDOW_S) samples"

definition load_incident :: "raw_row list \<Rightarrow> injection \<Rightarrow> eval_incident res" where
  "load_incident rows r =
     (let samples = read_window_samples rows in
      bindr (dict_index LOCATION_INDUCTIVE_POLICY (fi_shard r)) (\<lambda>split.
        Inr \<lparr>ei_class = fi_class r, ei_split = split, ei_onset = first_time samples,
             ei_healthy = (fi_class r = HEALTHY), ei_samples = cut_window samples\<rparr>))"

definition campaign_row :: "corpus_db \<Rightarrow> campaign res" where
  "campaign_row d =
     (case filter (\<lambda>c. ca_key c = CAMPAIGN_KEY) (campaigns d) of
        [] \<Rightarrow> Inl NoResultFound | [c] \<Rightarrow> Inr c | _ \<Rightarrow> Inl MultipleResultsFound)"

definition load_incidents :: "corpus_db \<Rightarrow> (string \<times> raw_row list) list \<Rightarrow> eval_incident list res" where
  "load_incidents d files =
     bindr (campaign_row d) (\<lambda>c.
     bindr (map_res (\<lambda>r. case window_matches files (fi_id r) of
                 [] \<Rightarrow> Inr []
               | rows # _ \<Rightarrow> bindr (load_incident rows r) (\<lambda>inc. Inr [inc]))
              (settled_of (ca_id c) d)) (\<lambda>incs. Inr (concat incs)))"

section \<open>Outcomes and metrics\<close>

record outcome =
  oc_healthy :: bool
  oc_detected :: bool
  oc_fired :: bool
  oc_latency :: "pyfloat option"

definition outcome_of :: "(pyfloat \<Rightarrow> string) \<Rightarrow> detector_config \<Rightarrow> eval_incident \<Rightarrow> outcome res" where
  "outcome_of fs cfg inc =
     bindr (detect_incident fs (ei_samples inc) cfg (ei_onset inc) (ei_healthy inc)) (\<lambda>r.
       let hit = detected r \<and> \<not> ei_healthy inc in
       Inr \<lparr>oc_healthy = ei_healthy inc, oc_detected = hit,
            oc_fired = (ei_healthy inc \<and> 0 < false_positives r),
            oc_latency = (if hit then latency_s r else None)\<rparr>)"

definition outcomes :: "(pyfloat \<Rightarrow> string) \<Rightarrow> eval_incident list \<Rightarrow> detector_config \<Rightarrow> outcome list res" where
  "outcomes fs incidents cfg = map_res (outcome_of fs cfg) incidents"

record metrics =
  m_recall :: pyfloat
  m_precision :: pyfloat
  m_f1 :: pyfloat
  m_fp_rate :: pyfloat
  m_latency_med :: "pyfloat option"
  m_latency_p90 :: "pyfloat option"
  m_detected :: nat
  m_faults :: nat
  m_healthy_fired :: nat
  m_healthy :: nat

definition count_if :: "('a \<Rightarrow> bool) \<Rightarrow> 'a list \<Rightarrow> nat" where "count_if P xs = length (filter P xs)"

definition ratio :: "nat \<Rightarrow> nat \<Rightarrow> pyfloat \<Rightarrow> pyfloat" where
  "ratio a b dflt = (if b = 0 then dflt else of_nat a / of_nat b)"

text \<open>\<open>statistics.median\<close> of a sorted, non-empty list.\<close>

definition median :: "pyfloat list \<Rightarrow> pyfloat" where
  "median l = (let n = length l in if odd n then l ! (n div 2) else (l ! (n div 2 - 1) + l ! (n div 2)) / 2)"

definition p90 :: "pyfloat list \<Rightarrow> pyfloat" where
  "p90 l = l ! min (length l - 1) (nat \<lfloor>9 / 10 * (of_nat (length l) :: pyfloat)\<rfloor>)"

definition latencies :: "outcome list \<Rightarrow> pyfloat list" where
  "latencies outs = sort (List.map_filter oc_latency outs)"

definition metrics_from_outcomes :: "outcome list \<Rightarrow> metrics" where
  "metrics_from_outcomes outs =
     (let detected = count_if oc_detected outs;
          faults = count_if (\<lambda>x. \<not> oc_healthy x) outs;
          healthy = count_if oc_healthy outs;
          healthy_fired = count_if oc_fired outs;
          recall = ratio detected faults 0;
          precision = ratio detected (detected + healthy_fired) 1;
          f1 = (if precision + recall = 0 then 0 else 2 * precision * recall / (precision + recall));
          lat = latencies outs
      in \<lparr>m_recall = recall, m_precision = precision, m_f1 = f1, m_fp_rate = ratio healthy_fired healthy 0,
          m_latency_med = (if lat = [] then None else Some (median lat)),
          m_latency_p90 = (if lat = [] then None else Some (p90 lat)),
          m_detected = detected, m_faults = faults, m_healthy_fired = healthy_fired, m_healthy = healthy\<rparr>)"

definition score_config :: "(pyfloat \<Rightarrow> string) \<Rightarrow> eval_incident list \<Rightarrow> detector_config \<Rightarrow> metrics res" where
  "score_config fs incidents cfg = bindr (outcomes fs incidents cfg) (\<lambda>outs. Inr (metrics_from_outcomes outs))"

section \<open>Confidence intervals\<close>

fun pick :: "(nat \<Rightarrow> 'g \<Rightarrow> nat \<times> 'g) \<Rightarrow> 'a list \<Rightarrow> nat \<Rightarrow> 'g \<Rightarrow> 'a list \<times> 'g" where
  "pick randrange outs 0 g = ([], g)"
| "pick randrange outs (Suc k) g =
     (let (i, g1) = randrange (length outs) g; (xs, g2) = pick randrange outs k g1 in (outs ! i # xs, g2))"

fun boot_metrics :: "(nat \<Rightarrow> 'g \<Rightarrow> nat \<times> 'g) \<Rightarrow> outcome list \<Rightarrow> nat \<Rightarrow> 'g \<Rightarrow> metrics list" where
  "boot_metrics randrange outs 0 g = []"
| "boot_metrics randrange outs (Suc k) g =
     (let (xs, g1) = pick randrange outs (length outs) g in metrics_from_outcomes xs # boot_metrics randrange outs k g1)"

definition bootstrap_cis :: "(nat \<Rightarrow> 'g \<Rightarrow> nat \<times> 'g) \<Rightarrow> 'g \<Rightarrow> nat \<Rightarrow> outcome list \<Rightarrow> (string, pyfloat \<times> pyfloat) dict res" where
  "bootstrap_cis randrange g n_boot outs =
     (let ms = boot_metrics randrange outs n_boot g in
      map_res (\<lambda>(name, f). bindr (interval (sort (map f ms)) n_boot) (\<lambda>ci. Inr (name, ci)))
        [(''recall'', m_recall), (''precision'', m_precision), (''f1'', m_f1), (''fp_rate'', m_fp_rate)])"

section \<open>Recall per class\<close>

definition count_class :: "(pyfloat \<Rightarrow> string) \<Rightarrow> detector_config \<Rightarrow> eval_incident \<Rightarrow> (string, nat \<times> nat) dict \<Rightarrow> (string, nat \<times> nat) dict res" where
  "count_class fs cfg inc out =
     (if ei_healthy inc then Inr out
      else let (d, n) = (case dict_get out (ei_class inc) of None \<Rightarrow> (0, 0) | Some v \<Rightarrow> v) in
        bindr (detect_incident fs (ei_samples inc) cfg (ei_onset inc) False) (\<lambda>r.
          Inr (dict_set (ei_class inc) (if detected r then Suc d else d, Suc n) out)))"

definition per_class_recall :: "(pyfloat \<Rightarrow> string) \<Rightarrow> eval_incident list \<Rightarrow> detector_config \<Rightarrow> (string, nat \<times> nat) dict res" where
  "per_class_recall fs incidents cfg = fold_res (count_class fs cfg) incidents []"

section \<open>The frozen configuration\<close>

text \<open>The grid in the order of the three loops.\<close>

definition GRID :: "detector_config list" where
  "GRID = concat (map (\<lambda>z. concat (map (\<lambda>h. map (\<lambda>p. default_config\<lparr>ewma_z := z, cusum_h := h, fsm_persistence := p\<rparr>)
     [2, 3]) [4, 6, 8])) [3, 4, 5])"

text \<open>The comparison of the keys \<open>(f1, -healthy_fired)\<close>.\<close>

definition key_less :: "pyfloat \<times> nat \<Rightarrow> pyfloat \<times> nat \<Rightarrow> bool" where
  "key_less a b \<longleftrightarrow> fst a < fst b \<or> fst a = fst b \<and> - int (snd a) < - int (snd b)"

definition consider_config ::
    "(pyfloat \<Rightarrow> string) \<Rightarrow> eval_incident list \<Rightarrow> detector_config \<Rightarrow> ((pyfloat \<times> nat) \<times> detector_config) option \<Rightarrow>
     ((pyfloat \<times> nat) \<times> detector_config) option res" where
  "consider_config fs fit cfg best =
     bindr (score_config fs fit cfg) (\<lambda>m.
       let key = (m_f1 m, m_healthy_fired m) in
       Inr (if (case best of None \<Rightarrow> True | Some (k, _) \<Rightarrow> key_less k key) then Some (key, cfg) else best))"

definition fit_part :: "eval_incident list \<Rightarrow> eval_incident list" where
  "fit_part incidents = filter (\<lambda>i. ei_split i \<in> {''train'', ''validation''}) incidents"

definition freeze_on_train_val :: "(pyfloat \<Rightarrow> string) \<Rightarrow> eval_incident list \<Rightarrow> detector_config res" where
  "freeze_on_train_val fs incidents =
     bindr (fold_res (consider_config fs (fit_part incidents)) GRID None) (\<lambda>best.
       case best of None \<Rightarrow> Inl AssertionError | Some (_, cfg) \<Rightarrow> Inr cfg)"

text \<open>The figures of the report: the frozen configuration, each split, each class.\<close>

definition report_split ::
    "(pyfloat \<Rightarrow> string) \<Rightarrow> (nat \<Rightarrow> 'g \<Rightarrow> nat \<times> 'g) \<Rightarrow> 'g \<Rightarrow> nat \<Rightarrow> eval_incident list \<Rightarrow> detector_config \<Rightarrow> string \<Rightarrow>
     (string \<times> metrics \<times> (string, pyfloat \<times> pyfloat) dict) res" where
  "report_split fs randrange g n_boot incidents cfg split =
     bindr (outcomes fs (filter (\<lambda>i. ei_split i = split) incidents) cfg) (\<lambda>outs.
     bindr (bootstrap_cis randrange g n_boot outs) (\<lambda>ci. Inr (split, metrics_from_outcomes outs, ci)))"

definition evaluation_report ::
    "(pyfloat \<Rightarrow> string) \<Rightarrow> (nat \<Rightarrow> 'g \<Rightarrow> nat \<times> 'g) \<Rightarrow> 'g \<Rightarrow> nat \<Rightarrow> eval_incident list \<Rightarrow>
     (detector_config \<times> (string \<times> metrics \<times> (string, pyfloat \<times> pyfloat) dict) list \<times> (string, nat \<times> nat) dict) res" where
  "evaluation_report fs randrange g n_boot incidents =
     bindr (freeze_on_train_val fs incidents) (\<lambda>cfg.
     bindr (map_res (report_split fs randrange g n_boot incidents cfg) [''train'', ''validation'', ''test'']) (\<lambda>splits.
     bindr (per_class_recall fs incidents cfg) (\<lambda>classes. Inr (cfg, splits, sort_key fst classes))))"

section \<open>Outcomes\<close>

definition wf_outcome :: "pyfloat \<Rightarrow> outcome \<Rightarrow> bool" where
  "wf_outcome h x \<longleftrightarrow> (oc_detected x \<longrightarrow> \<not> oc_healthy x) \<and> (oc_fired x \<longrightarrow> oc_healthy x) \<and>
     (case oc_latency x of None \<Rightarrow> \<not> oc_detected x | Some l \<Rightarrow> oc_detected x \<and> 0 \<le> l \<and> l \<le> h)"

lemma evaluate_latency:
  assumes "evaluate alarms ev h = Inr r"
  shows "if detected r then \<exists>l. latency_s r = Some l \<and> 0 \<le> l \<and> l \<le> h else latency_s r = None"
proof (cases ev)
  case (Some e)
  let ?in = "in_horizon (onset_t e) (onset_t e + h)"
  have "a \<in> set (filter ?in (sort_key raised_at alarms)) \<Longrightarrow> 0 \<le> raised_at a - onset_t e \<and> raised_at a - onset_t e \<le> h" for a
    by (auto simp: in_horizon_def)
  then show ?thesis
    using assms Some
    by (cases "filter ?in (sort_key raised_at alarms)")
      (auto simp: evaluate_def fold_match_alarm Let_def split: if_splits)
qed (use assms in \<open>auto simp: evaluate_def Let_def split: if_splits\<close>)

lemma outcome_wf:
  assumes "outcome_of fs cfg inc = Inr x"
  shows "wf_outcome (horizon_s cfg) x"
proof -
  obtain alarms r where r: "evaluate alarms (if ei_healthy inc then None else Some \<lparr>onset_t = ei_onset inc\<rparr>) (horizon_s cfg) = Inr r"
    and x: "x = \<lparr>oc_healthy = ei_healthy inc, oc_detected = detected r \<and> \<not> ei_healthy inc,
      oc_fired = (ei_healthy inc \<and> 0 < false_positives r), oc_latency = (if detected r \<and> \<not> ei_healthy inc then latency_s r else None)\<rparr>"
    using assms unfolding outcome_of_def detect_incident_def bindr_Inr_iff Let_def by auto
  show ?thesis using evaluate_latency [OF r] unfolding x wf_outcome_def by (auto split: if_splits)
qed

lemma outcomes_wf: "outcomes fs incs cfg = Inr outs \<Longrightarrow> list_all (wf_outcome (horizon_s cfg)) outs"
  unfolding outcomes_def list_all_iff by (auto elim!: map_res_all intro: outcome_wf)

lemma grid_config: "cfg \<in> set GRID \<Longrightarrow> \<exists>r. detect_incident fs samples cfg onset healthy = Inr r"
  unfolding detect_incident_total by (auto simp: GRID_def default_config_def)

lemma outcomes_total:
  assumes "\<And>samples onset healthy. \<exists>r. detect_incident fs samples cfg onset healthy = Inr r"
  shows "\<exists>outs. outcomes fs incs cfg = Inr outs"
proof -
  have "\<exists>x. outcome_of fs cfg inc = Inr x" for inc
    using assms [of "ei_samples inc" "ei_onset inc" "ei_healthy inc"] by (auto simp: outcome_of_def Let_def)
  then have "\<forall>inc. \<exists>x. outcome_of fs cfg inc = Inr x" by blast
  from choice [OF this] obtain f where f: "\<forall>inc. outcome_of fs cfg inc = Inr (f inc)" ..
  have "outcomes fs incs cfg = Inr (map f incs)" unfolding outcomes_def by (rule map_res_total) (simp add: f)
  then show ?thesis ..
qed

lemma score_grid: "cfg \<in> set GRID \<Longrightarrow> \<exists>m. score_config fs incs cfg = Inr m"
  using outcomes_total [OF grid_config, of cfg fs incs] by (auto simp: score_config_def)

section \<open>The grid search\<close>

abbreviation key_of :: "metrics \<Rightarrow> pyfloat \<times> nat" where "key_of m \<equiv> (m_f1 m, m_healthy_fired m)"

lemma key_less_trans: "key_less a b \<Longrightarrow> key_less b c \<Longrightarrow> key_less a c"
  by (auto simp: key_less_def)

lemma key_less_linear: "\<not> key_less a b \<Longrightarrow> key_less a c \<Longrightarrow> key_less b c"
  by (auto simp: key_less_def)

lemma key_less_irrefl [simp]: "\<not> key_less a a"
  by (simp add: key_less_def)

text \<open>The fold keeps the first maximum of what it has seen.\<close>

lemma consider_fold:
  assumes "\<forall>c \<in> set cs. score_config fs fit c = Inr (s c)" and "cs \<noteq> []"
  shows "\<exists>i < length cs. fold_res (consider_config fs fit) cs None = Inr (Some (key_of (s (cs ! i)), cs ! i)) \<and>
    (\<forall>k < length cs. \<not> key_less (key_of (s (cs ! i))) (key_of (s (cs ! k)))) \<and>
    (\<forall>k < i. key_less (key_of (s (cs ! k))) (key_of (s (cs ! i))))"
  using assms
proof (induction cs rule: rev_induct)
  case (snoc c cs)
  show ?case
  proof (cases "cs = []")
    case True
    then show ?thesis using snoc.prems by (auto simp: consider_config_def)
  next
    case False
    with snoc obtain i where i: "i < length cs" "fold_res (consider_config fs fit) cs None = Inr (Some (key_of (s (cs ! i)), cs ! i))"
      and top: "\<forall>k < length cs. \<not> key_less (key_of (s (cs ! i))) (key_of (s (cs ! k)))"
      and first: "\<forall>k < i. key_less (key_of (s (cs ! k))) (key_of (s (cs ! i)))" by auto
    have c: "score_config fs fit c = Inr (s c)" using snoc.prems by simp
    show ?thesis
    proof (cases "key_less (key_of (s (cs ! i))) (key_of (s c))")
      case True
      have "\<forall>k < length cs. key_less (key_of (s (cs ! k))) (key_of (s c))"
        using True top key_less_linear by blast
      moreover have "\<not> key_less (key_of (s c)) (key_of (s (cs ! k)))" if "k < length cs" for k
        using calculation that key_less_trans key_less_irrefl by blast
      moreover have "fold_res (consider_config fs fit) (cs @ [c]) None = Inr (Some (key_of (s c), c))"
        unfolding fold_res_append i(2) using c True by (simp add: consider_config_def)
      ultimately show ?thesis
        by (intro exI [of _ "length cs"]) (simp add: nth_append less_Suc_eq)
    next
      case False
      then have "fold_res (consider_config fs fit) (cs @ [c]) None = Inr (Some (key_of (s (cs ! i)), cs ! i))"
        unfolding fold_res_append i(2) using c by (simp add: consider_config_def)
      with False show ?thesis using i(1) top first
        by (intro exI [of _ i]) (simp add: nth_append less_Suc_eq)
    qed
  qed
qed simp

section \<open>Metrics\<close>

lemma ratio_range: "a \<le> b \<Longrightarrow> 0 \<le> e \<Longrightarrow> e \<le> 1 \<Longrightarrow> 0 \<le> ratio a b e \<and> ratio a b e \<le> 1"
  by (simp add: ratio_def divide_le_eq)

lemma count_if_mono: "(\<And>x. x \<in> set xs \<Longrightarrow> P x \<Longrightarrow> Q x) \<Longrightarrow> count_if P xs \<le> count_if Q xs"
  unfolding count_if_def by (induction xs) (auto intro: le_SucI)

lemma count_if_compl: "count_if P xs + count_if (\<lambda>x. \<not> P x) xs = length xs"
  unfolding count_if_def by (rule sum_length_filter_compl)

lemma f1_identity:
  assumes "d \<le> f"
  shows "(let r = ratio d f 0; p = ratio d (d + w) 1 in if p + r = 0 then 0 else 2 * p * r / (p + r)) =
    2 * of_nat d / of_nat (d + w + f)"
proof (cases "d = 0")
  case True
  then show ?thesis by (simp add: ratio_def Let_def)
next
  case False
  with assms have f: "0 < (of_nat f :: rat)" and d: "0 < (of_nat d :: rat)" by simp_all
  define D W F :: rat where "D = of_nat d" and "W = of_nat w" and "F = of_nat f"
  have pos: "0 < D" "0 \<le> W" "0 < F" using f d by (simp_all add: D_def W_def F_def)
  define S M where "S = D + W + F" and "M = (D + W) * F"
  have nz: "0 < S" "0 < M" using pos by (simp_all add: S_def M_def)
  have "D / (D + W) + D / F = D * S / M" using pos by (simp add: S_def M_def field_simps)
  moreover have "2 * (D / (D + W)) * (D / F) = 2 * D * D / M" by (simp add: M_def)
  moreover have "2 * D * D / M / (D * S / M) = 2 * D / S" using pos(1) nz by (simp add: field_simps)
  moreover have "D * S / M \<noteq> 0" using pos(1) nz by simp
  ultimately show ?thesis using False assms
    by (simp add: ratio_def Let_def S_def [symmetric] D_def [symmetric] W_def [symmetric] F_def [symmetric])
qed

lemma sorted_med_p90:
  assumes "sorted l" and "l \<noteq> []"
  shows "hd l \<le> median l \<and> median l \<le> p90 l \<and> p90 l \<le> last l"
proof -
  let ?n = "length l"
  let ?i = "min (?n - 1) (nat \<lfloor>9 / 10 * (of_nat ?n :: pyfloat)\<rfloor>)"
  have n: "0 < ?n" using assms(2) by simp
  have nth: "l ! a \<le> l ! b" if "a \<le> b" "b < ?n" for a b using sorted_nth_mono [OF assms(1)] that by blast
  have idx: "?n div 2 \<le> ?i"
  proof -
    have "of_nat (?n div 2) \<le> (of_nat ?n / 2 :: pyfloat)" by (metis of_nat_div_le_of_nat of_nat_numeral)
    also have "\<dots> \<le> 9 / 10 * of_nat ?n" by simp
    finally have "int (?n div 2) \<le> \<lfloor>9 / 10 * (of_nat ?n :: pyfloat)\<rfloor>" by (simp add: le_floor_iff)
    moreover have "?n div 2 \<le> ?n - 1" using n by linarith
    ultimately show ?thesis by linarith
  qed
  have lt: "?i < ?n" using n by linarith
  have e: "l ! 0 \<le> l ! (?n div 2)" "l ! 0 \<le> l ! (?n div 2 - 1)" "l ! (?n div 2 - 1) \<le> l ! (?n div 2)"
    "l ! (?n div 2) \<le> l ! ?i" "l ! ?i \<le> l ! (?n - 1)"
    using idx lt n by (auto intro!: nth)
  then show ?thesis
    using assms(2) unfolding median_def p90_def Let_def by (auto simp: hd_conv_nth last_conv_nth)
qed

lemma latencies_facts:
  assumes "list_all (wf_outcome h) outs"
  shows "set (latencies outs) \<subseteq> {0..h}" and "(latencies outs = []) = (count_if oc_detected outs = 0)"
proof -
  show "set (latencies outs) \<subseteq> {0..h}"
    using assms by (fastforce simp: latencies_def map_filter_def list_all_iff wf_outcome_def split: option.splits)
  have "List.map_filter oc_latency outs = [] \<longleftrightarrow> filter oc_detected outs = []"
    using assms by (induction outs) (auto simp: wf_outcome_def split: option.splits)
  moreover have "sort l = [] \<longleftrightarrow> l = []" for l :: "rat list" by (metis length_0_conv length_sort)
  ultimately show "(latencies outs = []) = (count_if oc_detected outs = 0)" by (simp add: latencies_def count_if_def)
qed

lemma metrics_range:
  assumes "list_all (wf_outcome h) outs" and "m = metrics_from_outcomes outs"
  shows "m_detected m \<le> m_faults m" "m_healthy_fired m \<le> m_healthy m" "m_faults m + m_healthy m = length outs"
    and "m_f1 m = 2 * of_nat (m_detected m) / of_nat (m_detected m + m_healthy_fired m + m_faults m)"
    and "{m_recall m, m_precision m, m_f1 m, m_fp_rate m} \<subseteq> {0..1}"
proof -
  have c: "count_if oc_detected outs \<le> count_if (\<lambda>x. \<not> oc_healthy x) outs" "count_if oc_fired outs \<le> count_if oc_healthy outs"
    using assms(1) by (auto intro!: count_if_mono simp: list_all_iff wf_outcome_def)
  then show le: "m_detected m \<le> m_faults m" "m_healthy_fired m \<le> m_healthy m"
    unfolding assms(2) by (simp_all add: metrics_from_outcomes_def Let_def)
  show "m_faults m + m_healthy m = length outs"
    unfolding assms(2) using count_if_compl [of oc_healthy outs] by (simp add: metrics_from_outcomes_def Let_def)
  show f1: "m_f1 m = 2 * of_nat (m_detected m) / of_nat (m_detected m + m_healthy_fired m + m_faults m)"
    unfolding assms(2) using f1_identity [OF c(1)] by (simp add: metrics_from_outcomes_def Let_def)
  have "0 \<le> m_f1 m \<and> m_f1 m \<le> 1" unfolding f1 using le by (simp add: divide_le_eq)
  moreover have "{m_recall m, m_precision m, m_fp_rate m} \<subseteq> {0..1}"
    unfolding assms(2) using c ratio_range by (auto simp: metrics_from_outcomes_def Let_def)
  ultimately show "{m_recall m, m_precision m, m_f1 m, m_fp_rate m} \<subseteq> {0..1}" by simp
qed

section \<open>The per-class table adds up\<close>

lemma sum_dict_set:
  fixes g :: "'v \<Rightarrow> nat"
  shows "sum_list (map (g \<circ> snd) (dict_set k v d)) + (case dict_get d k of None \<Rightarrow> 0 | Some u \<Rightarrow> g u) =
    sum_list (map (g \<circ> snd) d) + g v"
  by (induction d) auto

text \<open>The rows of the table sum to the detected incidents and the faults of the score of the same incidents.\<close>

lemma per_class_totals:
  assumes "fold_res (count_class fs cfg) incs d0 = Inr d" and "outcomes fs incs cfg = Inr outs"
  shows "sum_list (map (fst \<circ> snd) d) = sum_list (map (fst \<circ> snd) d0) + count_if oc_detected outs \<and>
    sum_list (map (snd \<circ> snd) d) = sum_list (map (snd \<circ> snd) d0) + count_if (\<lambda>x. \<not> oc_healthy x) outs"
  using assms
proof (induction incs arbitrary: d0 outs)
  case (Cons inc incs)
  obtain x xs where x: "outcome_of fs cfg inc = Inr x" and xs: "outcomes fs incs cfg = Inr xs" and outs: "outs = x # xs"
    using Cons.prems(2) by (auto simp: outcomes_def bindr_Inr_iff)
  obtain d1 where d1: "count_class fs cfg inc d0 = Inr d1" and d: "fold_res (count_class fs cfg) incs d1 = Inr d"
    using Cons.prems(1) by (auto simp: bindr_Inr_iff)
  have "sum_list (map (fst \<circ> snd) d1) = sum_list (map (fst \<circ> snd) d0) + of_bool (oc_detected x) \<and>
      sum_list (map (snd \<circ> snd) d1) = sum_list (map (snd \<circ> snd) d0) + of_bool (\<not> oc_healthy x)"
  proof (cases "ei_healthy inc")
    case True
    then show ?thesis using d1 x by (auto simp: count_class_def outcome_of_def bindr_Inr_iff Let_def)
  next
    case False
    obtain n m where nm: "(case dict_get d0 (ei_class inc) of None \<Rightarrow> (0, 0) | Some v \<Rightarrow> v) = (n, m)" by fastforce
    obtain r where r: "detect_incident fs (ei_samples inc) cfg (ei_onset inc) False = Inr r"
      and dd: "d1 = dict_set (ei_class inc) (if detected r then Suc n else n, Suc m) d0"
      using d1 False nm by (auto simp: count_class_def bindr_Inr_iff)
    have "oc_detected x = detected r" "\<not> oc_healthy x" using x r False by (auto simp: outcome_of_def Let_def)
    then show ?thesis
      using nm sum_dict_set [of fst "ei_class inc" "(if detected r then Suc n else n, Suc m)" d0]
        sum_dict_set [of snd "ei_class inc" "(if detected r then Suc n else n, Suc m)" d0]
      unfolding dd by (auto split: option.splits if_splits)
  qed
  then show ?case using Cons.IH [OF d xs] unfolding outs by (auto simp: count_if_def comp_def)
qed (simp add: outcomes_def count_if_def)

section \<open>The common window\<close>

lemma ensemble_empty: "ensemble fs o_d e c [] = []"
  by (simp add: ensemble_def oper_state_stream_def rate_stream_def concat_eq_Nil_conv)

lemma alarm_not_before_window:
  assumes "all_alarms fs xs cfg = Inr out" and "a \<in> set out"
  shows "first_time xs \<le> raised_at a"
proof (rule ccontr)
  assume late: "\<not> ?thesis"
  obtain o_d e c where out: "out = sort_key raised_at (ensemble fs o_d e c xs)" using assms(1) by (rule all_alarms_Inr)
  have "a \<in> set (filter (\<lambda>b. raised_at b \<le> raised_at a) (ensemble fs o_d e c xs))" using assms(2) out by simp
  then have "a \<in> set (ensemble fs o_d e c (filter (\<lambda>s. rs_t s \<le> raised_at a) xs))" unfolding ensemble_cut .
  moreover have "filter (\<lambda>s. rs_t s \<le> raised_at a) xs = []"
  proof (cases "xs = []")
    case False
    then have "first_time xs \<le> rs_t s" if "s \<in> set xs" for s using that by (simp add: first_time_def)
    with late show ?thesis by (fastforce simp: filter_empty_conv)
  qed simp
  ultimately show False by (simp add: ensemble_empty)
qed

lemma cut_window_alarms:
  assumes "all_alarms fs xs cfg = Inr out"
  shows "all_alarms fs (cut_window xs) cfg = Inr (filter (\<lambda>a. raised_at a \<le> first_time xs + EVAL_WINDOW_S) out)"
proof -
  obtain o_d e c where d: "detectors_of cfg o_d e c" "out = sort_key raised_at (ensemble fs o_d e c xs)"
    using assms by (rule all_alarms_Inr)
  show ?thesis unfolding cut_window_def all_alarms_of [OF d(1)] d(2) filter_sort ensemble_cut ..
qed

text \<open>C34: The verdict on a loaded incident is decided by the first 25 seconds of its telemetry, by the same test for every
  class: a faulty incident is detected, and a healthy one fires, exactly when the ensemble, run on the
  whole stored window, raises an alarm not later than 25 seconds after its first sample. The latency is
  the distance to the first such alarm and lies between 0 and 25 seconds. How long the collector kept
  recording, which depends on the fault class, has no influence.\<close>

theorem common_window_decides:
  assumes "load_incident rows r = Inr inc" and "all_alarms fs (read_window_samples rows) cfg = Inr out"
    and "EVAL_WINDOW_S \<le> horizon_s cfg"
    and "early = filter (\<lambda>a. raised_at a \<le> ei_onset inc + EVAL_WINDOW_S) out"
  shows "\<exists>x. outcome_of fs cfg inc = Inr x \<and>
    oc_healthy x = (fi_class r = HEALTHY) \<and>
    oc_detected x = (fi_class r \<noteq> HEALTHY \<and> early \<noteq> []) \<and>
    oc_fired x = (fi_class r = HEALTHY \<and> early \<noteq> []) \<and>
    oc_latency x = (if oc_detected x then Some (raised_at (hd early) - ei_onset inc) else None) \<and>
    (early = [] \<or> raised_at (hd early) - ei_onset inc \<in> {0..EVAL_WINDOW_S})"
proof -
  let ?xs = "read_window_samples rows"
  have inc: "ei_onset inc = first_time ?xs" "ei_healthy inc = (fi_class r = HEALTHY)" "ei_samples inc = cut_window ?xs"
    using assms(1) unfolding load_incident_def Let_def bindr_Inr_iff by auto
  have cut: "all_alarms fs (ei_samples inc) cfg = Inr early"
    using cut_window_alarms [OF assms(2)] unfolding inc assms(4) .
  have sorted: "sort_key raised_at early = early"
    using cut by (auto elim!: all_alarms_Inr simp: sort_key_id_if_sorted)
  have inside: "a \<in> set early \<Longrightarrow> ei_onset inc \<le> raised_at a \<and> raised_at a \<le> ei_onset inc + EVAL_WINDOW_S" for a
    using alarm_not_before_window [OF assms(2)] unfolding assms(4) inc by auto
  have h: "0 < horizon_s cfg" using assms(3) by (simp add: EVAL_WINDOW_S_def)
  let ?in = "in_horizon (ei_onset inc) (ei_onset inc + horizon_s cfg)"
  have all_in: "\<forall>a \<in> set early. ?in a" using inside assms(3) by (fastforce simp: in_horizon_def)
  have match: "fold (match_alarm (ei_onset inc) (ei_onset inc + horizon_s cfg)) early (None, 0) =
      (if early = [] then None else Some (raised_at (hd early)), 0)"
    using all_in unfolding fold_match_alarm by (cases early) (auto simp: filter_empty_conv)
  have "outcome_of fs cfg inc = Inr \<lparr>oc_healthy = ei_healthy inc, oc_detected = (\<not> ei_healthy inc \<and> early \<noteq> []),
      oc_fired = (ei_healthy inc \<and> early \<noteq> []),
      oc_latency = (if \<not> ei_healthy inc \<and> early \<noteq> [] then Some (raised_at (hd early) - ei_onset inc) else None)\<rparr>"
    using h by (simp add: outcome_of_def detect_incident_def cut evaluate_def sorted match Let_def)
  moreover have "early = [] \<or> raised_at (hd early) - ei_onset inc \<in> {0..EVAL_WINDOW_S}"
    using inside [OF hd_in_set] by (cases "early = []") auto
  ultimately show ?thesis unfolding inc by auto
qed

definition demo_rows :: "raw_row list" where
  "demo_rows = number_rows 0 [] [] [] [(10, [], ''oper_state'', 1, [], False, []), (20, [], ''oper_state'', 0, [], False, []),
     (30, [], ''oper_state'', 0, [], False, []), (90, [], ''oper_state'', 1, [], False, [])]"

definition demo_injection :: injection where
  "demo_injection = \<lparr>fi_id = 1, fi_campaign = 0, fi_class = ''carrier_loss'', fi_shard = ''leaf1'', fi_target = [], fi_parameters = [],
     fi_traffic_seed = 0, fi_fault_seed = 0, fi_status = ''settled'', fi_simulated = True, fi_observed_at = None\<rparr>"

definition demo_loaded :: eval_incident where
  "demo_loaded = \<lparr>ei_class = ''carrier_loss'', ei_split = ''train'', ei_onset = 10, ei_healthy = False, ei_samples = demo_window\<rparr>"

lemma demo_loaded: "load_incident demo_rows demo_injection = Inr demo_loaded"
  by code_simp

lemma demo_rows_alarms: "all_alarms (\<lambda>_. []) (read_window_samples demo_rows) default_config = Inr [demo_alarm]"
  by code_simp

theorem common_window_decides_witness:
  "\<exists>x. outcome_of (\<lambda>_. []) default_config demo_loaded = Inr x \<and> oc_detected x \<and> \<not> oc_fired x \<and> oc_latency x = Some 20"
proof -
  have early: "filter (\<lambda>a. raised_at a \<le> ei_onset demo_loaded + EVAL_WINDOW_S) [demo_alarm] = [demo_alarm]"
    by (simp add: demo_loaded_def demo_alarm_def EVAL_WINDOW_S_def)
  have h: "EVAL_WINDOW_S \<le> horizon_s default_config" by (simp add: EVAL_WINDOW_S_def default_config_def)
  show ?thesis
    using common_window_decides [OF demo_loaded demo_rows_alarms h early [symmetric]]
    by (auto simp: demo_injection_def HEALTHY_def demo_loaded_def demo_alarm_def)
qed

section \<open>The frozen configuration and its score\<close>

text \<open>The thresholds are chosen without exception and without the test incidents: the search returns the first of the
  18 configurations whose pair of F1 and fewest healthy alarms on the train and validation incidents is
  not beaten by any other, every earlier one is strictly worse, and any corpus that differs only in its
  test incidents freezes the same configuration.\<close>

theorem frozen_config:
  "\<exists>s. (\<forall>c \<in> set GRID. score_config fs (fit_part incs) c = Inr (s c)) \<and>
     (\<exists>i < length GRID. (\<forall>other. filter (\<lambda>x. ei_split x \<noteq> ''test'') other = filter (\<lambda>x. ei_split x \<noteq> ''test'') incs \<longrightarrow>
          freeze_on_train_val fs other = Inr (GRID ! i)) \<and>
        (\<forall>k < length GRID. \<not> key_less (key_of (s (GRID ! i))) (key_of (s (GRID ! k)))) \<and>
        (\<forall>k < i. key_less (key_of (s (GRID ! k))) (key_of (s (GRID ! i)))))"
proof -
  have "\<forall>c. \<exists>m. c \<in> set GRID \<longrightarrow> score_config fs (fit_part incs) c = Inr m" using score_grid by blast
  from choice [OF this] obtain s where s: "\<forall>c \<in> set GRID. score_config fs (fit_part incs) c = Inr (s c)" by blast
  have "fit_part xs = fit_part (filter (\<lambda>x. ei_split x \<noteq> ''test'') xs)" for xs
    unfolding fit_part_def filter_filter by (rule filter_cong) auto
  then have other: "fit_part other = fit_part incs"
    if "filter (\<lambda>x. ei_split x \<noteq> ''test'') other = filter (\<lambda>x. ei_split x \<noteq> ''test'') incs" for other
    using that by metis
  have "GRID \<noteq> []" by (simp add: GRID_def)
  from consider_fold [OF s this] obtain i where i: "i < length GRID"
    "fold_res (consider_config fs (fit_part incs)) GRID None = Inr (Some (key_of (s (GRID ! i)), GRID ! i))"
    and best: "\<forall>k < length GRID. \<not> key_less (key_of (s (GRID ! i))) (key_of (s (GRID ! k)))"
      "\<forall>k < i. key_less (key_of (s (GRID ! k))) (key_of (s (GRID ! i)))" by blast
  have "freeze_on_train_val fs xs = Inr (GRID ! i)"
    if "filter (\<lambda>x. ei_split x \<noteq> ''test'') xs = filter (\<lambda>x. ei_split x \<noteq> ''test'') incs" for xs
    unfolding freeze_on_train_val_def other [OF that] i(2) by simp
  with s i(1) best show ?thesis by blast
qed

theorem frozen_config_witness:
  "\<exists>i < length GRID. freeze_on_train_val (\<lambda>_. []) [demo_loaded, demo_loaded\<lparr>ei_split := ''test''\<rparr>] = Inr (GRID ! i)"
  using frozen_config [of "\<lambda>_. []" "[demo_loaded]"] by (auto simp: demo_loaded_def)

text \<open>The figures of a report are consistent: detected incidents are among the faults and alarms among the healthy
  ones, every rate lies between 0 and 1, F1 is the harmonic mean in closed form, defined when nothing
  was detected, and the latencies exist exactly when something was detected, with the median below the
  90th percentile and both within the horizon.\<close>

theorem score_consistent:
  assumes "score_config fs incs cfg = Inr m"
  shows "m_faults m + m_healthy m = length incs \<and> m_detected m \<le> m_faults m \<and> m_healthy_fired m \<le> m_healthy m \<and>
    {m_recall m, m_precision m, m_f1 m, m_fp_rate m} \<subseteq> {0..1} \<and>
    m_f1 m = 2 * of_nat (m_detected m) / of_nat (m_detected m + m_healthy_fired m + m_faults m) \<and>
    (case (m_latency_med m, m_latency_p90 m) of
       (Some a, Some b) \<Rightarrow> 0 < m_detected m \<and> 0 \<le> a \<and> a \<le> b \<and> b \<le> horizon_s cfg
     | (a, b) \<Rightarrow> m_detected m = 0 \<and> a = None \<and> b = None)"
proof -
  obtain outs where o: "outcomes fs incs cfg = Inr outs" and m: "m = metrics_from_outcomes outs"
    using assms unfolding score_config_def bindr_Inr_iff by auto
  have wf: "list_all (wf_outcome (horizon_s cfg)) outs" by (rule outcomes_wf [OF o])
  have len: "length outs = length incs" using o unfolding outcomes_def by (rule map_res_length)
  have lat: "set (latencies outs) \<subseteq> {0..horizon_s cfg}" "(latencies outs = []) = (m_detected m = 0)"
    using latencies_facts [OF wf] unfolding m by (simp_all add: metrics_from_outcomes_def Let_def)
  have "0 \<le> median (latencies outs) \<and> median (latencies outs) \<le> p90 (latencies outs) \<and> p90 (latencies outs) \<le> horizon_s cfg"
    if "latencies outs \<noteq> []"
    using sorted_med_p90 [OF _ that] lat(1) hd_in_set [OF that] last_in_set [OF that]
    by (fastforce simp: latencies_def)
  moreover have "m_latency_med m = (if latencies outs = [] then None else Some (median (latencies outs)))"
    "m_latency_p90 m = (if latencies outs = [] then None else Some (p90 (latencies outs)))"
    unfolding m by (simp_all add: metrics_from_outcomes_def Let_def)
  ultimately show ?thesis
    using metrics_range [OF wf m] lat(2) len by (cases "latencies outs = []") auto
qed

theorem score_consistent_witness:
  "\<exists>m. score_config (\<lambda>_. []) [demo_loaded] default_config = Inr m \<and> m_detected m = 1 \<and> m_f1 m = 1"
proof -
  have "score_config (\<lambda>_. []) [demo_loaded] default_config =
      Inr (metrics_from_outcomes [\<lparr>oc_healthy = False, oc_detected = True, oc_fired = False, oc_latency = Some 20\<rparr>])"
    by code_simp
  then obtain m where m: "score_config (\<lambda>_. []) [demo_loaded] default_config = Inr m" "m_detected m = 1" "m_faults m = 1" "m_healthy_fired m = 0"
    by (simp add: metrics_from_outcomes_def count_if_def Let_def)
  show ?thesis using score_consistent [OF m(1)] m by (intro exI [of _ m]) simp
qed

end
