(* ===== verification/Emit.thy ===== *)
theory Emit
  imports CorpusCheck SensorEval Graph
begin

text \<open>
  The dataset manifest of the corpus, \<open>scripts/emit_manifest.py\<close>: the settled injections become the incidents of
  the location-inductive split, the quarantined ones its exclusions, and the hashes of the windows and
  the reports are bound into the manifest; the header of the split is stored once. What git and docker
  print and the hashes of \<open>fabric.yaml\<close> and \<open>uv.lock\<close> are parameters; the counts the script prints are left out.
\<close>

section \<open>Gathering\<close>

record provenance =
  pv_config_hash :: string
  pv_lock_hash :: string
  pv_revision :: string
  pv_image :: "string \<Rightarrow> string"

record split_row =
  sp_protocol :: string
  sp_version :: int
  sp_hash :: string

definition CONTAINERS :: "(string, string) dict" where
  "CONTAINERS = [(''srlinux'', ''clab-closcall-2s4l-leaf1''), (''prometheus'', ''closcall-prometheus''),
     (''postgres'', ''closcall-postgres''), (''gnmic'', ''closcall-gnmic'')]"

definition collect_images :: "provenance \<Rightarrow> (string, string) dict" where
  "collect_images pv = filter (\<lambda>(_, img). img \<noteq> []) (map (\<lambda>(name, ctr). (name, strip (pv_image pv ctr))) CONTAINERS)"

definition windows_rollup :: "(string \<Rightarrow> string) \<Rightarrow> (string, string) dict \<Rightarrow> string" where
  "windows_rollup sha files =
     (let ws = sort_key fst (filter (\<lambda>(p, _). prefix (''data/raw_telemetry/campaign='' @ CAMPAIGN_KEY @ ''/'') p \<and> suffix ''.parquet'' p) files) in
      sha (concat (map (\<lambda>(_, bytes). sha bytes) ws)) @ ''('' @ show_nat (length ws) @ '' windows)'')"

definition REPORTS :: "string list" where "REPORTS = [''gate9-detection.txt'', ''gate9-localization.txt'']"

definition report_hashes :: "(string \<Rightarrow> string) \<Rightarrow> (string, string) dict \<Rightarrow> (string, string) dict" where
  "report_hashes sha files =
     concat (map (\<lambda>name. case dict_get files (''evals/reports/'' @ name) of None \<Rightarrow> [] | Some bytes \<Rightarrow> [(name, sha bytes)]) REPORTS)"

definition incident_ref_of :: "injection \<Rightarrow> incident_ref res" where
  "incident_ref_of r =
     bindr (dict_index (fi_target r) ''link'') (\<lambda>lk.
       Inr \<lparr>ir_id = show_nat (fi_id r), ir_link = lk, ir_leaf = fi_shard r, ir_family = fi_traffic_seed r,
            ir_batch = CAMPAIGN_KEY, ir_onset = 0\<rparr>)"

definition corpus_split :: "(string \<Rightarrow> string) \<Rightarrow> (pyfloat \<Rightarrow> string) \<Rightarrow> nat \<Rightarrow> corpus_db \<Rightarrow> split_manifest res" where
  "corpus_split sha fr cid d =
     bindr (map_res incident_ref_of (settled_of cid d)) (\<lambda>refs.
       assemble_location_inductive sha fr refs LOCATION_INDUCTIVE_POLICY DEFAULT_PURGE 1)"

definition quarantined_of :: "nat \<Rightarrow> corpus_db \<Rightarrow> injection list" where
  "quarantined_of cid d = filter (\<lambda>r. fi_status r = ''quarantined'' \<and> fi_campaign r = cid) (injections d)"

definition gather ::
    "(string \<Rightarrow> string) \<Rightarrow> (pyfloat \<Rightarrow> string) \<Rightarrow> provenance \<Rightarrow> resolved_topology \<Rightarrow> corpus_db \<Rightarrow> (string, string) dict \<Rightarrow>
     (dataset_manifest \<times> split_manifest) res" where
  "gather sha fr pv topo d files =
     bindr (build_topology_graph sha fr topo) (\<lambda>g.
     bindr (campaign_row d) (\<lambda>camp.
     bindr (corpus_split sha fr (ca_id camp) d) (\<lambda>sm.
       Inr (\<lparr>dataset_kind = ''gate9-corpus'', source_run_ids = [CAMPAIGN_KEY], split_protocol = sm_protocol sm,
             split_manifest_hash = sm_hash sm, dm_topology_hash = g_hash g, config_hash = pv_config_hash pv,
             dm_feature_schema_hash = schema_hash sha fr, dm_graph_schema_hash = graph_schema_hash sha fr,
             code_revision = pv_revision pv, dependency_lock_hash = pv_lock_hash pv, image_digests = collect_images pv,
             master_seed = ca_seed camp, seeds = [(''master'', ca_seed camp)],
             exclusions = map (\<lambda>r. show_nat (fi_id r)) (quarantined_of (ca_id camp) d),
             creation_command = ''make corpus (v2) -> make capture-baseline -> make evaluate-sensors -> make evaluate-localization -> make emit-manifest'',
             content_hashes = (''corpus_windows_rollup'', windows_rollup sha files) # report_hashes sha files,
             manifest_hash = []\<rparr>, sm))))"

section \<open>Emitting\<close>

text \<open>The header is stored when no row has its protocol and version.\<close>

definition persist_split :: "split_manifest \<Rightarrow> split_row list \<Rightarrow> split_row list res" where
  "persist_split sm rows =
     (case filter (\<lambda>r. sp_protocol r = sm_protocol sm \<and> sp_version r = sm_version sm) rows of
        [] \<Rightarrow> Inr (rows @ [\<lparr>sp_protocol = sm_protocol sm, sp_version = sm_version sm, sp_hash = sm_hash sm\<rparr>])
      | [_] \<Rightarrow> Inr rows
      | _ \<Rightarrow> Inl MultipleResultsFound)"

text \<open>The stored headers and the manifest, whose JSON text is then written to \<open>gate9-dataset.json\<close>.\<close>

definition emit_manifest ::
    "(string \<Rightarrow> string) \<Rightarrow> (pyfloat \<Rightarrow> string) \<Rightarrow> provenance \<Rightarrow> resolved_topology \<Rightarrow> corpus_db \<Rightarrow> (string, string) dict \<Rightarrow>
     split_row list \<Rightarrow> (dataset_manifest \<times> split_row list) res" where
  "emit_manifest sha fr pv topo d files rows =
     bindr (gather sha fr pv topo d files) (\<lambda>(body, sm).
     bindr (build_manifest sha fr body) (\<lambda>m.
     bindr (persist_split sm rows) (\<lambda>rows'. Inr (m, rows'))))"

section \<open>The split of a collected corpus\<close>

lemma refs_of_rows:
  assumes "\<forall>r \<in> set rs. row_ok cid n r"
  shows "\<exists>refs. map_res incident_ref_of rs = Inr refs \<and>
    list_all2 (\<lambda>r i. ir_id i = show_nat (fi_id r) \<and> take 5 (ir_link i) = fi_shard r \<and> ir_leaf i = fi_shard r \<and>
      family i = (fi_traffic_seed r, CAMPAIGN_KEY)) rs refs"
  using assms
proof (induction rs)
  case (Cons r rs)
  then obtain refs where refs: "map_res incident_ref_of rs = Inr refs"
    "list_all2 (\<lambda>r i. ir_id i = show_nat (fi_id r) \<and> take 5 (ir_link i) = fi_shard r \<and> ir_leaf i = fi_shard r \<and>
      family i = (fi_traffic_seed r, CAMPAIGN_KEY)) rs refs" by auto
  obtain iface where t: "fi_target r = target_of (fi_shard r) iface" "fi_shard r \<in> set LEAVES"
    using Cons.prems by (auto simp: row_ok_def)
  let ?i = "\<lparr>ir_id = show_nat (fi_id r), ir_link = fi_shard r @ '':'' @ iface, ir_leaf = fi_shard r, ir_family = fi_traffic_seed r,
            ir_batch = CAMPAIGN_KEY, ir_onset = 0\<rparr>"
  have "incident_ref_of r = Inr ?i" by (simp add: incident_ref_of_def dict_index_def t(1) target_of_def)
  moreover have "take 5 (fi_shard r @ '':'' @ iface) = fi_shard r" using t(2) by (rule leaf_of_link)
  ultimately show ?case using refs by (auto simp: family_def)
qed simp

lemma leaf_policy: "leaf \<in> set LEAVES \<Longrightarrow> dict_get LOCATION_INDUCTIVE_POLICY leaf \<noteq> None"
  by (auto simp: LEAVES_def LOCATION_INDUCTIVE_POLICY_def)

lemma split_of_rows:
  assumes rows: "\<forall>r \<in> set rs. row_ok cid n r" and ids: "distinct (map fi_id rs)"
  shows "\<exists>refs. map_res incident_ref_of rs = Inr refs \<and>
    ((\<exists>m. assemble_location_inductive sha fr refs LOCATION_INDUCTIVE_POLICY purge version = Inr m) \<longleftrightarrow>
     (\<forall>r \<in> set rs. \<forall>r' \<in> set rs. fi_traffic_seed r = fi_traffic_seed r' \<longrightarrow>
        dict_get LOCATION_INDUCTIVE_POLICY (fi_shard r) = dict_get LOCATION_INDUCTIVE_POLICY (fi_shard r')))"
proof -
  obtain refs where refs: "map_res incident_ref_of rs = Inr refs"
    and l: "list_all2 (\<lambda>r i. ir_id i = show_nat (fi_id r) \<and> take 5 (ir_link i) = fi_shard r \<and> ir_leaf i = fi_shard r \<and>
      family i = (fi_traffic_seed r, CAMPAIGN_KEY)) rs refs"
    using refs_of_rows [OF rows] by blast
  have n: "length refs = length rs" using l by (simp add: list_all2_lengthD)
  have at_k: "ir_id (refs ! k) = show_nat (fi_id (rs ! k))" "take 5 (ir_link (refs ! k)) = fi_shard (rs ! k)"
    "ir_leaf (refs ! k) = fi_shard (rs ! k)" "family (refs ! k) = (fi_traffic_seed (rs ! k), CAMPAIGN_KEY)"
    if "k < length rs" for k using l that by (auto simp: list_all2_conv_all_nth)
  have "map ir_id refs = map show_nat (map fi_id rs)" using at_k(1) n by (intro nth_equalityI) simp_all
  moreover have "inj show_nat" by (auto intro: injI simp: show_nat_inj)
  ultimately have d: "distinct (map ir_id refs)" using ids by (simp add: distinct_map inj_on_def del: map_map)
  have all_refs: "(\<forall>i \<in> set refs. P i) \<longleftrightarrow> (\<forall>k < length rs. P (refs ! k))" for P by (simp add: all_set_conv_all_nth n)
  have all_rows: "(\<forall>r \<in> set rs. P r) \<longleftrightarrow> (\<forall>k < length rs. P (rs ! k))" for P by (simp add: all_set_conv_all_nth)
  have leaves: "\<forall>k < length rs. fi_shard (rs ! k) \<in> set LEAVES" using rows by (simp add: row_ok_def)
  have link: "fi_shard (rs ! j) = fi_shard (rs ! k)" if "j < length rs" "k < length rs" "ir_link (refs ! j) = ir_link (refs ! k)" for j k
    using at_k(2) [OF that(1)] at_k(2) [OF that(2)] that(3) by simp
  have three: "A \<Longrightarrow> B \<Longrightarrow> C = D \<Longrightarrow> (A \<and> B \<and> C) = D" for A B C D by simp
  let ?p = "\<lambda>i. Datasets.split_of LOCATION_INDUCTIVE_POLICY i"
  have p: "?p (refs ! k) = dict_get LOCATION_INDUCTIVE_POLICY (fi_shard (rs ! k))" if "k < length rs" for k
    using at_k(3) [OF that] by (simp add: Datasets.split_of_def)
  have "\<forall>k < length rs. ?p (refs ! k) \<noteq> None" using p leaves leaf_policy by simp
  moreover have "\<forall>k < length rs. \<forall>j < length rs. ir_link (refs ! k) = ir_link (refs ! j) \<longrightarrow> ?p (refs ! k) = ?p (refs ! j)"
  proof (intro allI impI)
    fix k j assume k: "k < length rs" and j: "j < length rs" and "ir_link (refs ! k) = ir_link (refs ! j)"
    then have "fi_shard (rs ! k) = fi_shard (rs ! j)" by (rule link)
    then show "?p (refs ! k) = ?p (refs ! j)" unfolding p [OF k] p [OF j] by (rule arg_cong)
  qed
  moreover have "(\<forall>k < length rs. \<forall>j < length rs. family (refs ! k) = family (refs ! j) \<longrightarrow> ?p (refs ! k) = ?p (refs ! j)) \<longleftrightarrow>
      (\<forall>k < length rs. \<forall>j < length rs. fi_traffic_seed (rs ! k) = fi_traffic_seed (rs ! j) \<longrightarrow>
        dict_get LOCATION_INDUCTIVE_POLICY (fi_shard (rs ! k)) = dict_get LOCATION_INDUCTIVE_POLICY (fi_shard (rs ! j)))"
    by (simp add: p at_k(4) cong: imp_cong)
  ultimately have "(\<exists>m. assemble_location_inductive sha fr refs LOCATION_INDUCTIVE_POLICY purge version = Inr m) \<longleftrightarrow>
     (\<forall>r \<in> set rs. \<forall>r' \<in> set rs. fi_traffic_seed r = fi_traffic_seed r' \<longrightarrow>
        dict_get LOCATION_INDUCTIVE_POLICY (fi_shard r) = dict_get LOCATION_INDUCTIVE_POLICY (fi_shard r'))"
    unfolding split_guard_exact [OF d] all_refs all_rows by (rule three)
  with refs show ?thesis by blast
qed

lemma campaign_stays:
  assumes "corpus_reachable lb tk w"
  shows "campaigns (cw_db w) = campaigns (snd (campaign_id empty_corpus))"
  using assms
proof induction
  case (collected w fc leaf netdev iface topo seed r w')
  from collect_outcomes [OF collected.hyps(5) refl refl refl refl] collected.IH show ?case
    by (cases r) (auto simp: abandoned_def concluded_def opened_def settled_db_def Let_def)
qed simp_all

text \<open>C33: For every corpus the runner can collect, the manifest is gathered exactly when no two settled incidents share a
  traffic seed across splits: leaves, links and ids never stand in the way, so the guard on repeat
  families is the only way the split of a collected corpus can fail.\<close>

theorem gather_exact:
  assumes "corpus_reachable lb tk w" and "path_tools tk" and "build_topology_graph sha fr topo = Inr g"
  shows "(\<exists>x. gather sha fr pv topo (cw_db w) files = Inr x) \<longleftrightarrow>
    (\<forall>r \<in> set (settled_of 0 (cw_db w)). \<forall>r' \<in> set (settled_of 0 (cw_db w)). fi_traffic_seed r = fi_traffic_seed r' \<longrightarrow>
       dict_get LOCATION_INDUCTIVE_POLICY (fi_shard r) = dict_get LOCATION_INDUCTIVE_POLICY (fi_shard r'))"
proof -
  have inv: "corpus_inv tk 0 (cw_db w) (cw_files w)" by (rule corpus_reachable_inv [OF assms(1,2)])
  have rows: "\<forall>r \<in> set (settled_of 0 (cw_db w)). row_ok 0 (c_next (cw_db w)) r"
    and ids: "distinct (map fi_id (settled_of 0 (cw_db w)))"
    using inv by (auto simp: corpus_inv_def settled_of_def distinct_map_filter)
  obtain camp where camp: "campaign_row (cw_db w) = Inr camp" "ca_id camp = 0"
    using campaign_stays [OF assms(1)] by (simp add: campaign_row_def campaign_id_def empty_corpus_def)
  obtain refs where refs: "map_res incident_ref_of (settled_of 0 (cw_db w)) = Inr refs"
    and iff: "(\<exists>m. assemble_location_inductive sha fr refs LOCATION_INDUCTIVE_POLICY DEFAULT_PURGE 1 = Inr m) \<longleftrightarrow>
     (\<forall>r \<in> set (settled_of 0 (cw_db w)). \<forall>r' \<in> set (settled_of 0 (cw_db w)). fi_traffic_seed r = fi_traffic_seed r' \<longrightarrow>
        dict_get LOCATION_INDUCTIVE_POLICY (fi_shard r) = dict_get LOCATION_INDUCTIVE_POLICY (fi_shard r'))"
    using split_of_rows [OF rows ids] by blast
  show ?thesis
    unfolding iff [symmetric] gather_def corpus_split_def bindr_Inr_iff by (auto simp: assms(3) camp refs)
qed

section \<open>Seeds within one run\<close>

text \<open>The seed of an attempt is its number, so within one run no seed is used twice.\<close>

definition seeded :: "nat \<Rightarrow> corpus_db \<Rightarrow> bool" where
  "seeded n d \<longleftrightarrow> distinct (map fi_traffic_seed (injections d)) \<and> (\<forall>r \<in> set (injections d). fi_traffic_seed r \<le> int n)"

lemma collect_rows:
  assumes "collect_one lb tk cid topo fc leaf netdev iface split seed w = (r, w')"
    and "\<forall>r \<in> set (injections (cw_db w)). row_ok cid (c_next (cw_db w)) r"
  shows "\<exists>row. fi_traffic_seed row = seed \<and> injections (cw_db w') = injections (cw_db w) @ [row]"
  using collect_outcomes [OF assms(1) refl refl refl refl] outcome_rows [OF assms(2)]
  by (cases r) (auto simp: abandoned_def concluded_def opened_def settled_db_def Let_def)

lemma seeded_snoc:
  "seeded n d \<Longrightarrow> fi_traffic_seed row = int n + 1 \<Longrightarrow> injections d' = injections d @ [row] \<Longrightarrow> seeded (Suc n) d'"
  by (force simp: seeded_def)

interpretation numbered: collector "collect_cell lb tk 0 topo"
  "\<lambda>idx w. path_tools tk \<and> CHR ''i'' \<notin> set topo \<and> corpus_reachable lb tk w \<and> seeded idx (cw_db w)" for lb tk topo
proof
  fix idx cell r
  fix w w' :: "'a cworld"
  assume a: "path_tools tk \<and> CHR ''i'' \<notin> set topo \<and> corpus_reachable lb tk w \<and> seeded idx (cw_db w)"
    and cell: "cell \<in> set corpus_cells" and c: "collect_cell lb tk 0 topo cell idx w = (r, w')"
  have "\<forall>r \<in> set (injections (cw_db w)). row_ok 0 (c_next (cw_db w)) r"
    using corpus_reachable_inv [of lb tk w] a by (auto simp: corpus_inv_def)
  with c obtain row where "fi_traffic_seed row = int idx + 1" "injections (cw_db w') = injections (cw_db w) @ [row]"
    unfolding collect_cell_def by (auto split: prod.splits dest: collect_rows)
  with a have "seeded (Suc idx) (cw_db w')" by (intro seeded_snoc) auto
  with a collect_cell_reachable [of tk topo cell lb w idx r w'] cell c
  show "path_tools tk \<and> CHR ''i'' \<notin> set topo \<and> corpus_reachable lb tk w' \<and> seeded (Suc idx) (cw_db w')" by blast
qed

lemma one_run_seeds:
  assumes "path_tools tk" and "CHR ''i'' \<notin> set topo" and "cw_db w = snd (campaign_id empty_corpus)" and "cw_files w = []"
    and "corpus_run lb tk topo batch target_total w = Some (r, w')"
  shows "corpus_reachable lb tk w' \<and> distinct (map fi_traffic_seed (injections (cw_db w')))"
proof -
  have start: "corpus_reachable lb tk w" by (rule corpus_reachable.start) (use assms(3,4) in simp_all)
  have c: "campaign_id (cw_db w) = (0, cw_db w)" by (rule campaign_kept [OF corpus_reachable_inv [OF start assms(1)]])
  have e: "injections (cw_db w) = []" by (simp add: assms(3) campaign_id_def empty_corpus_def)
  then have t: "counts_by_stratum 0 (cw_db w) = []" by (simp add: counts_by_stratum_def settled_of_def)
  have s0: "seeded 0 (cw_db w)" by (simp add: seeded_def e)
  have "w\<lparr>cw_db := cw_db w\<rparr> = w" by simp
  then consider "w' = w" | x where "collect_loop (collect_cell lb tk 0 topo) (\<lambda>l. lab_free_gib lb l < CORPUS_MIN_FREE_GIB) (min batch target_total)
      ((target_total + length corpus_cells - 1) div length corpus_cells)
      \<lparr>rs_counts = [], rs_collected = 0, rs_quarantined = 0, rs_idx = 0\<rparr> w = Some (x, w')"
    using assms(5) unfolding corpus_run_def by (auto simp: c t Let_def split: if_splits)
  then show ?thesis
  proof cases
    case 1
    then show ?thesis using start s0 by (simp add: seeded_def)
  next
    case 2
    from numbered.loop_keeps [OF 2] show ?thesis using start s0 assms(1,2) by (auto simp: seeded_def)
  qed
qed

text \<open>A corpus collected from empty in one run can always be split, however many incidents were quarantined and even when
  the run ended with an exception.\<close>

theorem one_run_gathers:
  assumes "path_tools tk" and "CHR ''i'' \<notin> set topo" and "cw_db w = snd (campaign_id empty_corpus)" and "cw_files w = []"
    and "corpus_run lb tk topo batch target_total w = Some (r, w')"
  shows "\<exists>m. corpus_split sha fr 0 (cw_db w') = Inr m"
proof -
  have reach: "corpus_reachable lb tk w'" and d: "distinct (map fi_traffic_seed (injections (cw_db w')))"
    using one_run_seeds [OF assms] by simp_all
  have inv: "corpus_inv tk 0 (cw_db w') (cw_files w')" by (rule corpus_reachable_inv [OF reach assms(1)])
  have rows: "\<forall>r \<in> set (settled_of 0 (cw_db w')). row_ok 0 (c_next (cw_db w')) r"
    and ids: "distinct (map fi_id (settled_of 0 (cw_db w')))"
    using inv by (auto simp: corpus_inv_def settled_of_def distinct_map_filter)
  have "inj_on fi_traffic_seed (set (injections (cw_db w')))" using d by (simp add: distinct_map)
  then have "\<forall>r \<in> set (settled_of 0 (cw_db w')). \<forall>r' \<in> set (settled_of 0 (cw_db w')). fi_traffic_seed r = fi_traffic_seed r' \<longrightarrow> r = r'"
    by (auto simp: settled_of_def dest: inj_onD)
  then show ?thesis using split_of_rows [OF rows ids, of sha fr DEFAULT_PURGE 1] unfolding corpus_split_def by fastforce
qed

section \<open>A resumed run\<close>

text \<open>A lab in which the first onset is missed: its state counts the sleeps. The tools hash nothing away.\<close>

definition flaky_lab :: "nat lab" where
  "flaky_lab = \<lparr>lab_exec = (\<lambda>c l. (Inr (case c of Docker args \<Rightarrow> if ''sh'' \<in> set args then ''0'' else ''up''
       | _ \<Rightarrow> if l = 1 then ''up'' else ''down''), l)),
     lab_sleep = (\<lambda>s l. Suc l), lab_now = (\<lambda>l. 0),
     lab_fetch = (\<lambda>l m nd iface a b. [\<lparr>se_labels = [], se_values = [(0, ''1'')]\<rparr>]), lab_free_gib = (\<lambda>l. 100)\<rparr>"

definition plain_tools :: tools where
  "plain_tools = \<lparr>t_sha = id, t_fr = (\<lambda>_. []), t_iso = (\<lambda>_. ''1970''), t_date = (\<lambda>_. ''1970''), t_float = (\<lambda>_. Inr 0),
     t_write = (\<lambda>rows. case rows of [] \<Rightarrow> [] | r # _ \<Rightarrow> rr_node r), t_names = (\<lambda>_. RAW_TELEMETRY_COLUMNS), t_rows = length\<rparr>"

abbreviation down_fault :: "string \<Rightarrow> string \<Rightarrow> string \<Rightarrow> fault" where
  "down_fault leaf netdev iface \<equiv> \<lparr>fault_class = ''admin_shutdown'', f_node = leaf, iface_netdev = netdev, iface_srl = iface\<rparr>"

lemma plain_sha: "t_sha plain_tools s = s" "t_fr plain_tools = (\<lambda>_. [])"
  by (simp_all add: plain_tools_def)

lemma flaky_inject:
  "\<exists>w1. inject_phase flaky_lab (down_fault leaf netdev iface) w = (Inr (cw_lab w \<noteq> 0, ''up''), w1) \<and>
     cw_db w1 = cw_db w \<and> cw_lab w1 = Suc (cw_lab w)"
  by (simp add: inject_phase_def bindw_def run_cmd_def sleepw_def observe_onset_def onset_command_def oper_state_def
      ret_def flaky_lab_def fault_apply_def verify_onset_def sr_info_def startswith_def Let_def container_def)

lemma flaky_restore:
  "\<exists>w1. restore_phase flaky_lab (down_fault leaf netdev iface) w = (Inr True, w1) \<and> cw_db w1 = cw_db w \<and> cw_lab w1 = Suc (cw_lab w)"
  by (simp add: restore_phase_def bindw_def run_cmd_def sleepw_def clean_between_def qdisc_count_def ret_def flaky_lab_def
      fault_clear_def cleanup_payload_def sr_info_def startswith_def Let_def strip_def is_space_def container_def)

lemma flaky_capture:
  "\<exists>p w1. capture flaky_lab plain_tools topo leaf iface a e i w = (Inr (p, leaf), w1) \<and> cw_db w1 = cw_db w \<and> cw_lab w1 = cw_lab w"
proof -
  obtain rows where "capture_window (t_float plain_tools) (lab_fetch flaky_lab (cw_lab w)) 0 leaf iface a e topo = Inr rows"
    and "t_write plain_tools rows = leaf"
    by (simp add: capture_window_def counter_points_def flaky_lab_def plain_tools_def Features.COUNTERS_def number_rows_def Let_def split: prod.split)
  moreover have "lab_now flaky_lab l = 0" for l by (simp add: flaky_lab_def)
  ultimately show ?thesis by (simp add: capture_def Let_def)
qed

abbreviation up_label :: "string \<Rightarrow> string \<Rightarrow> string \<Rightarrow> json" where
  "up_label leaf iface split \<equiv> label_of plain_tools ''admin_shutdown'' leaf iface split 0 0 ''up''"

lemma flaky_collect:
  defines "go \<equiv> \<lambda>topo leaf netdev iface split seed. collect_one flaky_lab plain_tools 0 topo ''admin_shutdown'' leaf netdev iface split seed"
    and "op \<equiv> \<lambda>leaf iface split seed. opened 0 ''admin_shutdown'' leaf iface split seed"
  shows "cw_lab w = 0 \<Longrightarrow> \<exists>w1. go topo leaf netdev iface split seed w = (Inr ''quarantined'', w1) \<and> cw_lab w1 = 2 \<and>
      cw_db w1 = set_outcome (c_next (cw_db w)) ''quarantined'' 0 (op leaf iface split seed (cw_db w))"
    and "cw_lab w \<noteq> 0 \<Longrightarrow> c_next (cw_db w) \<notin> set (map gl_injection (labels (cw_db w))) \<Longrightarrow>
      distinct (map ar_sha256 (artifacts (cw_db w)) @ [dumps_sorted (\<lambda>_. []) (up_label leaf iface split), leaf]) \<Longrightarrow>
      \<exists>w1 p. go topo leaf netdev iface split seed w = (Inr ''settled'', w1) \<and> cw_lab w1 = Suc (Suc (cw_lab w)) \<and>
      cw_db w1 = settled_db plain_tools (c_next (cw_db w)) 0 (up_label leaf iface split) p leaf (op leaf iface split seed (cw_db w))"
proof -
  let ?f = "down_fault leaf netdev iface" and ?i = "c_next (cw_db w)"
  obtain w0 where w0: "open_injection 0 ''admin_shutdown'' leaf iface split seed w = (Inr ?i, w0)"
    "cw_db w0 = op leaf iface split seed (cw_db w)" "cw_lab w0 = cw_lab w"
    by (simp add: open_injection_def op_def opened_def Let_def)
  obtain w1 where w1: "inject_phase flaky_lab ?f w0 = (Inr (cw_lab w \<noteq> 0, ''up''), w1)" "cw_db w1 = cw_db w0" "cw_lab w1 = Suc (cw_lab w)"
    using flaky_inject [of leaf netdev iface w0] w0(3) by auto
  obtain p w2 where w2: "capture flaky_lab plain_tools topo leaf iface 0 0 ?i w1 = (Inr (p, leaf), w2)" "cw_db w2 = cw_db w1" "cw_lab w2 = cw_lab w1"
    using flaky_capture by blast
  obtain w3 where w3: "restore_phase flaky_lab ?f w2 = (Inr True, w3)" "cw_db w3 = cw_db w2" "cw_lab w3 = Suc (cw_lab w2)"
    using flaky_restore by blast
  have now: "noww flaky_lab u = (Inr 0, u)" for u by (simp add: noww_def flaky_lab_def)
  have go: "go topo leaf netdev iface split seed w =
      conclude_phase plain_tools ?i (if cw_lab w \<noteq> 0 then ''settled'' else ''quarantined'') 0 (up_label leaf iface split) p leaf w3"
    unfolding go_def collect_one_def Let_def by (simp add: bindw_def now w0(1) w1(1) w2(1) w3(1))
  have db: "cw_db w3 = op leaf iface split seed (cw_db w)" and lab: "cw_lab w3 = Suc (Suc (cw_lab w))"
    using w0 w1 w2 w3 by simp_all
  show "\<exists>w1. go topo leaf netdev iface split seed w = (Inr ''quarantined'', w1) \<and> cw_lab w1 = 2 \<and>
      cw_db w1 = set_outcome ?i ''quarantined'' 0 (op leaf iface split seed (cw_db w))" if "cw_lab w = 0"
    unfolding go using that by (simp add: conclude_phase_def bindw_def close_injection_def unlink_def ret_def Let_def db lab)
  show "\<exists>w1 p. go topo leaf netdev iface split seed w = (Inr ''settled'', w1) \<and> cw_lab w1 = Suc (Suc (cw_lab w)) \<and>
      cw_db w1 = settled_db plain_tools ?i 0 (up_label leaf iface split) p leaf (op leaf iface split seed (cw_db w))"
    if "cw_lab w \<noteq> 0" "?i \<notin> set (map gl_injection (labels (cw_db w)))"
      "distinct (map ar_sha256 (artifacts (cw_db w)) @ [dumps_sorted (\<lambda>_. []) (up_label leaf iface split), leaf])"
  proof -
    have "labels (op leaf iface split seed (cw_db w)) = labels (cw_db w)" "artifacts (op leaf iface split seed (cw_db w)) = artifacts (cw_db w)"
      by (simp_all add: op_def opened_def)
    moreover have "map ar_sha256 (artifact_rows plain_tools ?i l q b) = [dumps_sorted (\<lambda>_. []) l, b]" for l q b
      by (simp add: artifact_rows_def plain_tools_def Let_def)
    ultimately show ?thesis
      unfolding go using that by (auto simp: conclude_phase_def bindw_def close_injection_def settled_db_def ret_def Let_def db lab intro!: exI [of _ p])
  qed
qed

abbreviation attempt_row :: "nat \<Rightarrow> string \<Rightarrow> string \<Rightarrow> int \<Rightarrow> string \<Rightarrow> injection" where
  "attempt_row i leaf iface seed status \<equiv> \<lparr>fi_id = i, fi_campaign = 0, fi_class = ''admin_shutdown'', fi_shard = leaf,
     fi_target = target_of leaf iface, fi_parameters = [(''split'', JStr ''train'')], fi_traffic_seed = seed, fi_fault_seed = seed,
     fi_status = status, fi_simulated = True, fi_observed_at = Some 0\<rparr>"

definition flaky_start :: "nat cworld" where
  "flaky_start = \<lparr>cw_lab = 0, cw_db = snd (campaign_id empty_corpus), cw_files = [], cw_trace = []\<rparr>"

lemma two_labels:
  "distinct [dumps_sorted (\<lambda>_. []) (up_label ''leaf1'' ''ethernet-1/2'' ''train''), ''leaf1'',
     dumps_sorted (\<lambda>_. []) (up_label ''leaf2'' ''ethernet-1/2'' ''train''), ''leaf2'']"
  by code_simp

lemma first_cells:
  "next_cell (Suc 0) [] = Some (''admin_shutdown'', ''leaf1'')"
  "next_cell (Suc 0) [((''admin_shutdown'', ''leaf1''), Suc 0)] = Some (''admin_shutdown'', ''leaf2'')"
  "length corpus_cells = 24"
  by code_simp+

lemma uplinks: "UPLINKS ! 0 = (''e1-1'', ''ethernet-1/1'')" "UPLINKS ! Suc 0 = (''e1-2'', ''ethernet-1/2'')" "length UPLINKS = 2"
  by (simp_all add: UPLINKS_def)

lemma trains: "Corpus.split_of ''leaf1'' = ''train''" "Corpus.split_of ''leaf2'' = ''train''"
  by (simp_all add: Corpus.split_of_def)

lemma flaky_free: "\<not> lab_free_gib flaky_lab l < CORPUS_MIN_FREE_GIB"
  by (simp add: flaky_lab_def CORPUS_MIN_FREE_GIB_def)

text \<open>The first batch of one: the first attempt is quarantined, the second settles with seed 2.\<close>

lemma first_batch:
  "\<exists>w. corpus_run flaky_lab plain_tools topo 1 24 flaky_start = Some (Inr 0, w) \<and> cw_lab w = 4 \<and>
     injections (cw_db w) = [attempt_row 1 ''leaf1'' ''ethernet-1/1'' 1 ''quarantined'', attempt_row 2 ''leaf1'' ''ethernet-1/2'' 2 ''settled''] \<and>
     campaigns (cw_db w) = campaigns (snd (campaign_id empty_corpus)) \<and> c_next (cw_db w) = 3 \<and> map gl_injection (labels (cw_db w)) = [2] \<and>
     map ar_sha256 (artifacts (cw_db w)) = [dumps_sorted (\<lambda>_. []) (up_label ''leaf1'' ''ethernet-1/2'' ''train''), ''leaf1'']"
proof -
  let ?go = "collect_cell flaky_lab plain_tools 0 topo"
  have z: "cw_lab flaky_start = 0" by (simp add: flaky_start_def)
  obtain w1 where w1: "?go (''admin_shutdown'', ''leaf1'') 0 flaky_start = (Inr ''quarantined'', w1)" "cw_lab w1 = 2"
    "cw_db w1 = set_outcome 1 ''quarantined'' 0 (opened 0 ''admin_shutdown'' ''leaf1'' ''ethernet-1/1'' ''train'' 1 (cw_db flaky_start))"
    using flaky_collect(1) [OF z, of topo "''leaf1''" "''e1-1''" "''ethernet-1/1''" "''train''" 1]
    by (auto simp: collect_cell_def uplinks trains flaky_start_def campaign_id_def empty_corpus_def)
  then have d1: "cw_db w1 = (snd (campaign_id empty_corpus))\<lparr>injections := [attempt_row 1 ''leaf1'' ''ethernet-1/1'' 1 ''quarantined''], c_next := 2\<rparr>"
    by (simp add: flaky_start_def set_outcome_def opened_def campaign_id_def empty_corpus_def)
  then have f1: "c_next (cw_db w1) = 2" "labels (cw_db w1) = []" "artifacts (cw_db w1) = []"
    by (simp_all add: campaign_id_def empty_corpus_def)
  obtain p w2 where w2: "?go (''admin_shutdown'', ''leaf1'') (Suc 0) w1 = (Inr ''settled'', w2)" "cw_lab w2 = 4"
    "cw_db w2 = settled_db plain_tools 2 0 (up_label ''leaf1'' ''ethernet-1/2'' ''train'') p ''leaf1''
       (opened 0 ''admin_shutdown'' ''leaf1'' ''ethernet-1/2'' ''train'' 2 (cw_db w1))"
    using flaky_collect(2) [of w1 "''leaf1''" "''ethernet-1/2''" "''train''" topo "''e1-2''" 2] two_labels
    by (auto simp: collect_cell_def uplinks trains w1(2) f1)
  have "collect_loop ?go (\<lambda>l. lab_free_gib flaky_lab l < CORPUS_MIN_FREE_GIB) 1 1 \<lparr>rs_counts = [], rs_collected = 0, rs_quarantined = 0, rs_idx = 0\<rparr> flaky_start =
      Some (Inr \<lparr>rs_counts = [((''admin_shutdown'', ''leaf1''), 1)], rs_collected = 1, rs_quarantined = 1, rs_idx = 2\<rparr>, w2)"
    by (simp add: collect_loop.simps first_cells flaky_free w1(1) w2(1) tally_def count_of_def)
  moreover have "campaign_id (cw_db flaky_start) = (0, cw_db flaky_start)" "counts_by_stratum 0 (cw_db flaky_start) = []"
    by (simp_all add: flaky_start_def campaign_id_def empty_corpus_def counts_by_stratum_def settled_of_def)
  ultimately have "corpus_run flaky_lab plain_tools topo 1 24 flaky_start = Some (Inr 0, w2)"
    by (simp add: corpus_run_def flaky_free first_cells(3))
  moreover have "injections (cw_db w2) = [attempt_row 1 ''leaf1'' ''ethernet-1/1'' 1 ''quarantined'', attempt_row 2 ''leaf1'' ''ethernet-1/2'' 2 ''settled''] \<and>
      campaigns (cw_db w2) = campaigns (snd (campaign_id empty_corpus)) \<and> c_next (cw_db w2) = 3"
    unfolding w2(3) d1 by (simp add: settled_db_def opened_def set_outcome_def campaign_id_def empty_corpus_def Let_def)
  moreover have "map gl_injection (labels (cw_db w2)) = [2] \<and>
      map ar_sha256 (artifacts (cw_db w2)) = [dumps_sorted (\<lambda>_. []) (up_label ''leaf1'' ''ethernet-1/2'' ''train''), ''leaf1'']"
    unfolding w2(3) by (simp add: settled_db_def opened_def f1 label_row_def artifact_rows_def plain_sha Let_def)
  ultimately show ?thesis using w2(2) by (intro exI [of _ w2]) (simp only: simp_thms)
qed

text \<open>
  The second batch numbers its attempts from the settled incidents, one, and uses seed 2 again, now for
  leaf2. The verifier does not look at seeds, but no split exists any more: leaf1 is
  in the train split and leaf2 in the validation split.
\<close>

lemma second_batch:
  "\<exists>w w'. corpus_run flaky_lab plain_tools topo 1 24 flaky_start = Some (Inr 0, w) \<and>
     corpus_run flaky_lab plain_tools topo 1 24 w = Some (Inr 0, w') \<and>
     settled_of 0 (cw_db w') = [attempt_row 2 ''leaf1'' ''ethernet-1/2'' 2 ''settled'', attempt_row 3 ''leaf2'' ''ethernet-1/2'' 2 ''settled'']"
proof -
  obtain w where w: "corpus_run flaky_lab plain_tools topo 1 24 flaky_start = Some (Inr 0, w)" "cw_lab w = 4"
    "injections (cw_db w) = [attempt_row 1 ''leaf1'' ''ethernet-1/1'' 1 ''quarantined'', attempt_row 2 ''leaf1'' ''ethernet-1/2'' 2 ''settled'']"
    "campaigns (cw_db w) = campaigns (snd (campaign_id empty_corpus))" "c_next (cw_db w) = 3" "map gl_injection (labels (cw_db w)) = [2]"
    "map ar_sha256 (artifacts (cw_db w)) = [dumps_sorted (\<lambda>_. []) (up_label ''leaf1'' ''ethernet-1/2'' ''train''), ''leaf1'']"
    using first_batch [of topo] by (elim exE conjE) (rule that; assumption)
  let ?go = "collect_cell flaky_lab plain_tools 0 topo"
  have fresh: "cw_lab w \<noteq> 0" "c_next (cw_db w) \<notin> set (map gl_injection (labels (cw_db w)))"
    unfolding w(2,5,6) by simp_all
  have hashes: "distinct (map ar_sha256 (artifacts (cw_db w)) @ [dumps_sorted (\<lambda>_. []) (up_label ''leaf2'' ''ethernet-1/2'' ''train''), ''leaf2''])"
    unfolding w(7) using two_labels by (simp only: append_Cons append_Nil)
  obtain p w' where w': "?go (''admin_shutdown'', ''leaf2'') (Suc 0) w = (Inr ''settled'', w')"
    "cw_db w' = settled_db plain_tools 3 0 (up_label ''leaf2'' ''ethernet-1/2'' ''train'') p ''leaf2''
       (opened 0 ''admin_shutdown'' ''leaf2'' ''ethernet-1/2'' ''train'' 2 (cw_db w))"
    using flaky_collect(2) [OF fresh hashes, of topo "''e1-2''" 2] unfolding w(5)
    by (auto simp: collect_cell_def uplinks trains)
  have s: "settled_of 0 (cw_db w) = [attempt_row 2 ''leaf1'' ''ethernet-1/2'' 2 ''settled'']" by (simp add: settled_of_def w(3))
  have c: "campaign_id (cw_db w) = (0, cw_db w)" "counts_by_stratum 0 (cw_db w) = [((''admin_shutdown'', ''leaf1''), 1)]"
    by (simp_all add: campaign_id_def w(4) empty_corpus_def counts_by_stratum_def s stratum_def)
  have "collect_loop ?go (\<lambda>l. lab_free_gib flaky_lab l < CORPUS_MIN_FREE_GIB) 1 1
      \<lparr>rs_counts = [((''admin_shutdown'', ''leaf1''), 1)], rs_collected = 0, rs_quarantined = 0, rs_idx = 1\<rparr> w =
      Some (Inr \<lparr>rs_counts = [((''admin_shutdown'', ''leaf1''), 1), ((''admin_shutdown'', ''leaf2''), 1)],
        rs_collected = 1, rs_quarantined = 0, rs_idx = 2\<rparr>, w')"
    by (simp add: collect_loop.simps first_cells flaky_free w'(1) tally_def count_of_def)
  then have "corpus_run flaky_lab plain_tools topo 1 24 w = Some (Inr 0, w')"
    by (simp add: corpus_run_def c flaky_free first_cells(3))
  moreover have "settled_of 0 (cw_db w') = [attempt_row 2 ''leaf1'' ''ethernet-1/2'' 2 ''settled'', attempt_row 3 ''leaf2'' ''ethernet-1/2'' 2 ''settled'']"
    by (simp add: w'(2) settled_of_def settled_db_def set_outcome_def opened_def w(3) w(5) Let_def)
  ultimately show ?thesis using w(1) by (intro exI [of _ w] exI [of _ w']) (simp only: simp_thms)
qed

lemma plain_path_tools: "path_tools plain_tools"
  by (simp add: path_tools_def plain_tools_def)

lemma flaky_reachable: "corpus_reachable flaky_lab plain_tools flaky_start"
  by (rule corpus_reachable.start) (simp_all add: flaky_start_def)

theorem one_run_gathers_witness:
  "\<exists>w m. corpus_run flaky_lab plain_tools ''a3f'' 1 24 flaky_start = Some (Inr 0, w) \<and> corpus_split id (\<lambda>_. []) 0 (cw_db w) = Inr m"
proof -
  obtain w where w: "corpus_run flaky_lab plain_tools ''a3f'' 1 24 flaky_start = Some (Inr 0, w)"
    using first_batch [of "''a3f''"] by (elim exE conjE) (rule that; assumption)
  have "\<exists>m. corpus_split id (\<lambda>_. []) 0 (cw_db w) = Inr m"
    by (rule one_run_gathers [OF plain_path_tools _ _ _ w]) (simp_all add: flaky_start_def)
  with w show ?thesis by blast
qed

theorem gather_exact_witness:
  "\<exists>w w'. corpus_run flaky_lab plain_tools ''a3f'' 1 24 flaky_start = Some (Inr 0, w) \<and>
     corpus_run flaky_lab plain_tools ''a3f'' 1 24 w = Some (Inr 0, w') \<and>
     (\<forall>pv. \<not> (\<exists>x. gather (\<lambda>_. []) (\<lambda>_. []) pv lab_topology (cw_db w') [] = Inr x))"
proof -
  obtain w w' where w: "corpus_run flaky_lab plain_tools ''a3f'' 1 24 flaky_start = Some (Inr 0, w)"
    "corpus_run flaky_lab plain_tools ''a3f'' 1 24 w = Some (Inr 0, w')"
    and s: "settled_of 0 (cw_db w') = [attempt_row 2 ''leaf1'' ''ethernet-1/2'' 2 ''settled'', attempt_row 3 ''leaf2'' ''ethernet-1/2'' 2 ''settled'']"
    using second_batch [of "''a3f''"] by (elim exE conjE) (rule that; assumption)
  have t: "CHR ''i'' \<notin> set ''a3f''" by simp
  have reach: "corpus_reachable flaky_lab plain_tools w'"
    by (rule corpus_run_reachable [OF plain_path_tools t corpus_run_reachable [OF plain_path_tools t flaky_reachable w(1)] w(2)])
  obtain g where g: "build_topology_graph (\<lambda>_. []) (\<lambda>_. []) lab_topology = Inr g" using allocated_graph [OF lab_allocate] by blast
  have "\<not> (\<exists>x. gather (\<lambda>_. []) (\<lambda>_. []) pv lab_topology (cw_db w') [] = Inr x)" for pv
    unfolding gather_exact [OF reach plain_path_tools g] by (simp add: s LOCATION_INDUCTIVE_POLICY_def)
  with w show ?thesis by blast
qed

section \<open>The stored header\<close>

text \<open>The header is written once: when a row with the protocol and version exists, emitting a manifest with another split
  leaves the old hash in the table, beside a manifest that carries the new one.\<close>

lemma stale_split_header:
  assumes "gather sha fr pv topo d files = Inr (body, sm)" and "build_manifest sha fr body = Inr m"
    and "rows = [\<lparr>sp_protocol = sm_protocol sm, sp_version = sm_version sm, sp_hash = old\<rparr>]"
  shows "emit_manifest sha fr pv topo d files rows = Inr (m, rows) \<and> split_manifest_hash m = sm_hash sm"
proof -
  have "split_manifest_hash body = sm_hash sm" using assms(1) unfolding gather_def bindr_Inr_iff by auto
  moreover have "split_manifest_hash m = split_manifest_hash body"
    using assms(2) by (auto simp: build_manifest_def Let_def split: if_splits)
  ultimately show ?thesis using assms by (simp add: emit_manifest_def persist_split_def)
qed

end
