(* ===== verification/Slice.thy ===== *)
theory Slice
  imports Progress
begin

text \<open>
  The deterministic end-to-end slice, \<open>scripts/vertical_slice.py\<close>: shut an interface down, correlate the
  signal, check the claim, draft the plan, approve it, execute the job and read the evidence back. The
  phases run the definitions of \<open>Correlator\<close>, \<open>SliceDiagnose\<close>, \<open>UiRepo\<close> and \<open>Executor\<close> on one database
  and one device. The shell, \<open>asyncio.sleep(1)\<close>, the clocks and which commits the database accepts are
  parameters. The printed details are left out of the log: an entry is the verdict and the name of a check.
\<close>

section \<open>World\<close>

record 'd slice_env =
  se_shell :: "'d shell"
  se_sleep :: "'d \<Rightarrow> 'd"
  se_other :: "json \<Rightarrow> string"
  se_sha :: "string \<Rightarrow> string"
  se_repr :: "pyfloat \<Rightarrow> string"
  se_utc :: "nat \<Rightarrow> int"
  se_now :: "nat \<Rightarrow> int"
  se_commit :: "nat \<Rightarrow> bool"
  se_exec :: env

record 'd sliceworld =
  vs_world :: "'d world"
  vs_fail :: nat
  vs_log :: "(bool \<times> string) list"

type_synonym ('a, 'd) vstep = "'d sliceworld \<Rightarrow> 'a res \<times> 'd sliceworld"

definition SLICE_NODE :: string where "SLICE_NODE = ''leaf1''"
definition IFACE_SRL :: string where "IFACE_SRL = ''ethernet-1/1''"
definition CLABN :: string where "CLABN = ''clab-closcall-2s4l-'' @ SLICE_NODE"
definition INCIDENT_KEY :: string where "INCIDENT_KEY = ''link-down:'' @ SLICE_NODE @ '':'' @ IFACE_SRL"
definition SIGNAL_ID :: string where "SIGNAL_ID = SLICE_NODE @ '':'' @ IFACE_SRL @ '':oper-down''"
definition TOPO_HASH :: string where "TOPO_HASH = ''2s4l-'' @ replicate 8 CHR ''0''"

definition slice_device :: "'d slice_env \<Rightarrow> 'd device" where
  "slice_device c = fabric_device (se_shell c) (se_other c)"

definition emit_line :: "bool \<Rightarrow> string \<Rightarrow> (unit, 'd) vstep" where
  "emit_line ok name w = (Inr (), w\<lparr>vs_fail := (if ok then vs_fail w else Suc (vs_fail w)), vs_log := vs_log w @ [(ok, name)]\<rparr>)"

text \<open>A step on the device, and the \<open>k\<close>-th session: its changes are kept when its body returns and the commit is accepted.\<close>

definition on_device :: "('d \<Rightarrow> 'a res \<times> 'd) \<Rightarrow> ('a, 'd) vstep" where
  "on_device f w = (case f (w_dev (vs_world w)) of (r, dev) \<Rightarrow> (r, w\<lparr>vs_world := (vs_world w)\<lparr>w_dev := dev\<rparr>\<rparr>))"

definition session :: "'d slice_env \<Rightarrow> nat \<Rightarrow> (db \<Rightarrow> ('a \<times> db) res) \<Rightarrow> ('a, 'd) vstep" where
  "session c k body w =
     (case body ((w_db (vs_world w))\<lparr>db_now := se_now c k\<rparr>) of
        Inl e \<Rightarrow> (Inl e, w)
      | Inr (a, d) \<Rightarrow> if se_commit c k then (Inr a, w\<lparr>vs_world := (vs_world w)\<lparr>w_db := d\<rparr>\<rparr>) else (Inl OperationalError, w))"

text \<open>A session that only reads.\<close>

definition query :: "(db \<Rightarrow> 'a res) \<Rightarrow> ('a, 'd) vstep" where
  "query f w = (f (w_db (vs_world w)), w)"

section \<open>Clean slate\<close>

text \<open>\<open>DELETE FROM table\<close>; a row that is still referenced stops it (\<open>ON DELETE RESTRICT\<close>).\<close>

definition unreferenced :: "('r \<Rightarrow> nat) \<Rightarrow> 'r list \<Rightarrow> ('p \<Rightarrow> nat) \<Rightarrow> 'p list \<Rightarrow> bool" where
  "unreferenced fk rows key parents \<longleftrightarrow> (\<forall>r \<in> set rows. \<not> taken key (fk r) parents)"

definition clean_slate :: "db \<Rightarrow> db res" where
  "clean_slate d =
     (let d = d\<lparr>audit := [], recovery_checks := []\<rparr> in
      guard (unreferenced rc_execution_id (recovery_checks d) ex_id (executions d)) (IntegrityError ''recovery_checks_execution_id_fkey'')
     (let d = d\<lparr>executions := []\<rparr> in
      guard (unreferenced ex_job_id (executions d) job_id (jobs d)) (IntegrityError ''executions_execution_job_id_fkey'')
     (let d = d\<lparr>jobs := [], approvals := []\<rparr> in
      guard (unreferenced job_version_id (jobs d) rv_id (versions d) \<and> unreferenced ap_version_id (approvals d) rv_id (versions d))
        (IntegrityError ''remediation_versions'')
     (let d = d\<lparr>versions := [], signals := [], events := []\<rparr> in
      guard (unreferenced sig_incident_id (signals d) inc_id (incidents d) \<and> unreferenced ev_incident_id (events d) inc_id (incidents d) \<and>
          unreferenced rv_incident_id (versions d) inc_id (incidents d)) (IntegrityError ''incidents'')
     (Inr (d\<lparr>incidents := []\<rparr>))))))"

section \<open>The phases\<close>

definition inject_admin_shutdown :: "'d slice_env \<Rightarrow> (unit, 'd) vstep" where
  "inject_admin_shutdown c = on_device (\<lambda>dev.
     case se_shell c [''docker'', ''exec'', ''-i'', ''-u'', ''root'', CLABN, ''sr_cli''] (Some (fabric_script IFACE_SRL ''disable'')) dev of
       (Inl e, dev') \<Rightarrow> (Inl e, dev') | (Inr _, dev') \<Rightarrow> (Inr (), dev'))"

definition sleep_1 :: "'d slice_env \<Rightarrow> (unit, 'd) vstep" where
  "sleep_1 c = on_device (\<lambda>dev. (Inr (), se_sleep c dev))"

definition read_oper :: "'d slice_env \<Rightarrow> (string, 'd) vstep" where
  "read_oper c = on_device (\<lambda>dev. get_oper_state (slice_device c) dev (JStr SLICE_NODE) (JStr IFACE_SRL))"

fun await_down :: "'d slice_env \<Rightarrow> nat list \<Rightarrow> string \<Rightarrow> (string, 'd) vstep" where
  "await_down c [] down w = (Inr down, w)"
| "await_down c (i # is) down w =
     andthen (if i mod 5 = 0 then inject_admin_shutdown c else Pair (Inr ())) (\<lambda>_.
     andthen (sleep_1 c) (\<lambda>_.
     andthen (read_oper c) (\<lambda>s. if s = ''down'' then Pair (Inr s) else await_down c is s))) w"

definition slice_inject :: "'d slice_env \<Rightarrow> (unit, 'd) vstep" where
  "slice_inject c = andthen (await_down c [0..<25] ''up'') (\<lambda>down. emit_line (down = ''down'') ''fault active (admin_shutdown)'')"

definition fire_signal :: "'d slice_env \<Rightarrow> nat \<Rightarrow> db \<Rightarrow> db res" where
  "fire_signal c i d =
     bindr (correlate_signal (se_utc c (2 * i + 1)) INCIDENT_KEY ''rules'' SIGNAL_ID (se_utc c (2 * i)) (oper_json ''down'') ''major'' d)
       (\<lambda>(_, d'). Inr d')"

definition slice_detect :: "'d slice_env \<Rightarrow> (nat, 'd) vstep" where
  "slice_detect c =
     andthen (session c 1 (\<lambda>d. bindr (fold_res (fire_signal c) [0..<100] d) (\<lambda>d'. Inr ((), d')))) (\<lambda>_.
     andthen (query (\<lambda>d. Inr (length (incidents d)))) (\<lambda>n_inc.
     andthen (query (\<lambda>d. Inr (length (signals d)))) (\<lambda>n_sig.
     andthen (query (\<lambda>d. scalar_one (map inc_id (incidents d)))) (\<lambda>incident_id.
     andthen (emit_line (n_inc = 1 \<and> n_sig = 1) ''idempotent correlator'') (\<lambda>_. Pair (Inr incident_id))))))"

definition slice_claim :: "'d slice_env \<Rightarrow> (unit, 'd) vstep" where
  "slice_claim c = andthen (read_oper c) (\<lambda>s.
     emit_line (evaluate_oper_state_claim [(''oper_state'', s)] ''down'' = Supported) ''typed claim (no LLM)'')"

definition slice_version :: "'d slice_env \<Rightarrow> nat \<Rightarrow> db \<Rightarrow> version_row" where
  "slice_version c i d =
     (let (plan, digest) = build_link_down_plan (se_sha c) (se_repr c) SLICE_NODE IFACE_SRL TOPO_HASH in
      \<lparr>rv_id = db_next d, rv_incident_id = i, plan_version = 1, plan_json = plan, plan_digest_col = digest,
       rv_topology_hash = TOPO_HASH, rv_risk_class = ''low'', rv_created_at = db_now d\<rparr>)"

definition slice_plan :: "'d slice_env \<Rightarrow> nat \<Rightarrow> (version_row, 'd) vstep" where
  "slice_plan c i =
     andthen (session c 2 (\<lambda>d. let rv = slice_version c i d in bindr (insert_version rv d) (\<lambda>d'. Inr (rv, d')))) (\<lambda>rv.
     andthen (emit_line (length (plan_digest_col rv) = 64) ''immutable plan digest'') (\<lambda>_. Pair (Inr rv)))"

definition approve_and_enqueue :: "'d slice_env \<Rightarrow> nat \<Rightarrow> version_row \<Rightarrow> (unit, 'd) vstep" where
  "approve_and_enqueue c k rv = session c k (\<lambda>d.
     bindr (upsert_decision ''approve'' ''approver1'' rv d) (\<lambda>d1. bindr (upsert_job rv d1) (\<lambda>d2. Inr ((), d2))))"

definition slice_approve :: "'d slice_env \<Rightarrow> version_row \<Rightarrow> (nat, 'd) vstep" where
  "slice_approve c rv =
     andthen (approve_and_enqueue c 3 rv) (\<lambda>_.
     andthen (approve_and_enqueue c 4 rv) (\<lambda>_.
     andthen (query (\<lambda>d. Inr (length (jobs d)))) (\<lambda>n_job.
     andthen (query (\<lambda>d. scalar_one (map job_id (jobs d)))) (\<lambda>j.
     andthen (emit_line (n_job = 1) ''duplicate request -> one job'') (\<lambda>_. Pair (Inr j))))))"

definition run_job :: "'d slice_env \<Rightarrow> nat \<Rightarrow> (string, 'd) vstep" where
  "run_job c j w =
     (let w0 = vs_world w in
      case execute_session (slice_device c) (se_exec c) j (w0\<lparr>w_db := (w_db w0)\<lparr>db_now := se_now c 5\<rparr>\<rparr>) of
        (r, w1) \<Rightarrow> (r, w\<lparr>vs_world := w1\<rparr>))"

definition slice_execute :: "'d slice_env \<Rightarrow> nat \<Rightarrow> (unit, 'd) vstep" where
  "slice_execute c j =
     andthen (run_job c j) (\<lambda>status.
     andthen (read_oper c) (\<lambda>aft.
     emit_line (status = ''succeeded'' \<and> aft = ''up'') ''isolated executor recovery''))"

definition slice_audit :: "(unit, 'd) vstep" where
  "slice_audit =
     andthen (query (\<lambda>d. Inr (first_row (filter (\<lambda>r. rc_result r = ''passed'') (recovery_checks d))))) (\<lambda>rec.
     andthen (query (\<lambda>d. Inr (map au_action (audit d)))) (\<lambda>audit_actions.
     emit_line (rec \<noteq> None \<and> ''execution.apply'' \<in> set audit_actions) ''recovery via executor, not injector cleanup''))"

text \<open>\<open>run\<close> returns the exit code.\<close>

definition run_slice :: "'d slice_env \<Rightarrow> (nat, 'd) vstep" where
  "run_slice c =
     andthen (session c 0 (\<lambda>d. bindr (clean_slate d) (\<lambda>d'. Inr ((), d')))) (\<lambda>_.
     andthen (slice_inject c) (\<lambda>_.
     andthen (slice_detect c) (\<lambda>i.
     andthen (slice_claim c) (\<lambda>_.
     andthen (slice_plan c i) (\<lambda>rv.
     andthen (slice_approve c rv) (\<lambda>j.
     andthen (slice_execute c j) (\<lambda>_.
     andthen slice_audit (\<lambda>_ w. (Inr (if vs_fail w \<noteq> 0 then 1 else 0), w)))))))))"

section \<open>The database through the phases\<close>

definition wiped :: "db \<Rightarrow> db" where
  "wiped d = d\<lparr>incidents := [], signals := [], events := [], versions := [], approvals := [], jobs := [],
     executions := [], recovery_checks := [], audit := []\<rparr>"

lemma clean_slate_total: "clean_slate d = Inr (wiped d)"
  by (simp add: clean_slate_def wiped_def guard_def unreferenced_def Let_def)

lemma wiped_fields [simp]:
  "incidents (wiped d) = []" "signals (wiped d) = []" "events (wiped d) = []" "versions (wiped d) = []" "approvals (wiped d) = []"
  "jobs (wiped d) = []" "executions (wiped d) = []" "recovery_checks (wiped d) = []" "audit (wiped d) = []"
  "db_next (wiped d) = db_next d" "db_now (wiped d) = db_now d"
  by (simp_all add: wiped_def)

lemma incidents_ok_wiped: "incidents_ok (wiped d)"
  by (simp add: incidents_ok_def db_ok_def unique_keys_def foreign_keys_def fresh_ids_def contiguous_def seq_of_def)

text \<open>One incident with one signal and the given drafts, decisions and jobs; nothing executed yet.\<close>

definition one_incident :: "nat \<Rightarrow> db \<Rightarrow> bool" where
  "one_incident i d \<longleftrightarrow>
     (\<exists>r s. incidents d = [r] \<and> inc_id r = i \<and> incident_key r = INCIDENT_KEY \<and>
        signals d = [s] \<and> sig_incident_id s = i \<and> signal_key s = (''rules'', SIGNAL_ID))"

definition slice_rows :: "nat \<Rightarrow> version_row list \<Rightarrow> approval_row list \<Rightarrow> job_row list \<Rightarrow> db \<Rightarrow> bool" where
  "slice_rows i vs as js d \<longleftrightarrow> incidents_ok d \<and> one_incident i d \<and> versions d = vs \<and> approvals d = as \<and> jobs d = js \<and>
     executions d = [] \<and> recovery_checks d = [] \<and> map au_action (audit d) = [''incident.open'']"

abbreviation slice_open :: "nat \<Rightarrow> db \<Rightarrow> bool" where
  "slice_open i \<equiv> slice_rows i [] [] []"

lemma slice_rows_now [simp]: "slice_rows i vs as js (d\<lparr>db_now := t\<rparr>) = slice_rows i vs as js d"
  by (simp add: slice_rows_def one_incident_def incidents_ok_def contiguous_def seq_of_def)

lemma slice_rows_step:
  assumes "slice_rows i vs as js d" and "db_ok d'" and "incidents d' = incidents d" "signals d' = signals d" "events d' = events d"
    "executions d' = executions d" "recovery_checks d' = recovery_checks d" "audit d' = audit d"
  shows "slice_rows i (versions d') (approvals d') (jobs d') d'"
  using assms incidents_ok_frame [OF _ assms(2,5)] by (simp add: slice_rows_def one_incident_def)

lemma slice_texts: "varchar 128 INCIDENT_KEY" "varchar 128 SIGNAL_ID" "varchar 64 TOPO_HASH"
  by (simp_all add: varchar_def INCIDENT_KEY_def SIGNAL_ID_def TOPO_HASH_def SLICE_NODE_def IFACE_SRL_def)

lemma fire_first: "\<exists>d'. fire_signal c i (wiped d) = Inr d' \<and> slice_open (db_next d) d'"
proof -
  let ?p = "oper_json ''down''" and ?t = "se_utc c (2 * i)" and ?t' = "se_utc c (2 * i + 1)"
  have m: "varchar 16 ''major''" "varchar 64 ''rules''" "varchar 32 ''open''" by (simp_all add: varchar_def)
  have n: "first_desc f [] = None" for f :: "event_row \<Rightarrow> int" by (simp add: first_desc_None)
  have "\<exists>d'. correlate_signal ?t' INCIDENT_KEY ''rules'' SIGNAL_ID ?t ?p ''major'' (wiped d) = Inr ((db_next d, True), d') \<and>
     (\<exists>r s. incidents d' = [r] \<and> inc_id r = db_next d \<and> incident_key r = INCIDENT_KEY \<and>
        signals d' = [s] \<and> sig_incident_id s = db_next d \<and> signal_key s = (''rules'', SIGNAL_ID)) \<and>
     versions d' = [] \<and> approvals d' = [] \<and> jobs d' = [] \<and> executions d' = [] \<and> recovery_checks d' = [] \<and>
     map au_action (audit d') = [''incident.open'']"
    by (simp add: correlate_signal_def find_or_create_def incident_by_key_def one_or_none_def insert_incident_def guard_def
        new_incident_def slice_texts m upsert_def insert_signal_def taken_def signal_key_def append_event_def n insert_event_def
        insert_audit_def audit_event_def Let_def)
  then obtain d' where e: "correlate_signal ?t' INCIDENT_KEY ''rules'' SIGNAL_ID ?t ?p ''major'' (wiped d) = Inr ((db_next d, True), d')"
    and f: "(\<exists>r s. incidents d' = [r] \<and> inc_id r = db_next d \<and> incident_key r = INCIDENT_KEY \<and>
        signals d' = [s] \<and> sig_incident_id s = db_next d \<and> signal_key s = (''rules'', SIGNAL_ID)) \<and>
     versions d' = [] \<and> approvals d' = [] \<and> jobs d' = [] \<and> executions d' = [] \<and> recovery_checks d' = [] \<and>
     map au_action (audit d') = [''incident.open'']"
    by (elim exE conjE) (rule that; (assumption | intro conjI exI; assumption))
  have "incidents_ok d'" by (rule correlate_rows [OF incidents_ok_wiped e])
  with f have "slice_open (db_next d) d'" by (simp only: slice_rows_def one_incident_def simp_thms)
  with e show ?thesis by (simp add: fire_signal_def)
qed

lemma fire_again:
  assumes "slice_open i d"
  shows "fire_signal c k d = Inr d"
proof -
  from assms obtain r s where "incidents_ok d" "incidents d = [r]" "incident_key r = INCIDENT_KEY"
    "signals d = [s]" "signal_key s = (''rules'', SIGNAL_ID)"
    by (auto simp: slice_rows_def one_incident_def)
  then show ?thesis using correlate_known [of d r INCIDENT_KEY "''rules''" SIGNAL_ID] by (simp add: fire_signal_def taken_def)
qed

lemma fire_all:
  assumes "is \<noteq> []"
  shows "\<exists>d'. fold_res (fire_signal c) is (wiped d) = Inr d' \<and> slice_open (db_next d) d'"
proof -
  have again: "fold_res (fire_signal c) ks d' = Inr d'" if "slice_open i d'" for ks i d'
    using that by (induction ks) (simp_all add: fire_again)
  from assms obtain k ks where "is = k # ks" by (cases "is") auto
  then show ?thesis using fire_first [of c k d] again by force
qed

lemma slice_version_fields [simp]:
  "rv_id (slice_version c i d) = db_next d" "rv_incident_id (slice_version c i d) = i"
  "plan_json (slice_version c i d) = fst (build_link_down_plan (se_sha c) (se_repr c) SLICE_NODE IFACE_SRL TOPO_HASH)"
  "plan_digest_col (slice_version c i d) = plan_digest (se_sha c) (se_repr c) (plan_json (slice_version c i d))"
  by (simp_all add: slice_version_def build_link_down_plan_def Let_def)

lemma slice_plan_allowlisted:
  "allowlisted (plan_json (slice_version c i d))"
  "dict_get (plan_json (slice_version c i d)) ''node'' = Some (JStr SLICE_NODE)"
  "dict_get (plan_json (slice_version c i d)) ''interface'' = Some (JStr IFACE_SRL)"
  by (simp_all add: allowlisted_def build_link_down_plan_def Let_def IFACE_SRL_def)

lemma version_inserted:
  assumes "slice_open i d"
  shows "length (plan_digest_col (slice_version c i d)) \<le> 64 \<Longrightarrow>
      \<exists>d'. insert_version (slice_version c i d) d = Inr d' \<and> slice_rows i [slice_version c i d] [] [] d'"
    and "insert_version (slice_version c i d) d = Inr d' \<Longrightarrow> slice_rows i [slice_version c i d] [] [] d'"
proof -
  let ?v = "slice_version c i d"
  have col: "rv_topology_hash ?v = TOPO_HASH" "rv_risk_class ?v = ''low''" by (simp_all add: slice_version_def build_link_down_plan_def Let_def)
  show rows: "slice_rows i [?v] [] [] d'" if "insert_version ?v d = Inr d'" for d'
  proof -
    have ok: "db_ok d'"
      by (rule db_ok_insert_version [OF _ _ that]) (use assms in \<open>simp_all add: slice_rows_def incidents_ok_def\<close>)
    have "incidents d' = incidents d" "signals d' = signals d" "events d' = events d" "executions d' = executions d"
      "recovery_checks d' = recovery_checks d" "audit d' = audit d"
      "versions d' = [?v]" "approvals d' = []" "jobs d' = []"
      using that assms by (auto simp: insert_version_def slice_rows_def)
    with slice_rows_step [OF assms ok] show ?thesis by simp
  qed
  have "\<exists>d'. insert_version ?v d = Inr d'" if "length (plan_digest_col ?v) \<le> 64"
    using that assms col slice_texts(3)
    by (auto simp: insert_version_def guard_def slice_rows_def one_incident_def taken_def varchar_def simp del: slice_version_fields(3,4))
  with rows show "length (plan_digest_col ?v) \<le> 64 \<Longrightarrow> \<exists>d'. insert_version ?v d = Inr d' \<and> slice_rows i [?v] [] [] d'" by blast
qed

lemma decision_upserted:
  assumes "slice_rows i [rv] as js d" and "upsert_decision ''approve'' ''approver1'' rv d = Inr d'"
    and "as = [] \<or> (\<exists>a. as = [a] \<and> approval_key a = (rv_id rv, ''approver1''))"
  shows "slice_rows i [rv] (if as = [] then [decision_row ''approve'' ''approver1'' rv d] else as) js d'"
proof -
  have ok: "db_ok d" using assms(1) by (simp add: slice_rows_def incidents_ok_def)
  note f = upsert_decision_frame [OF assms(2)]
  show ?thesis
  proof (cases "as = []")
    case True
    then have i: "insert_approval (decision_row ''approve'' ''approver1'' rv d) d = Inr d'"
      using assms(1,2) by (auto simp: upsert_decision_def upsert_def slice_rows_def taken_def bindr_Inr_iff)
    have ok': "db_ok d'" by (rule db_ok_insert_approval [OF ok _ i]) (simp add: decision_row_def)
    have "incidents d' = incidents d" "signals d' = signals d" "events d' = events d" "executions d' = executions d"
      "recovery_checks d' = recovery_checks d" "audit d' = audit d"
      "versions d' = [rv]" "approvals d' = [decision_row ''approve'' ''approver1'' rv d]" "jobs d' = js"
      using i assms(1) True by (auto simp: insert_approval_def slice_rows_def)
    with slice_rows_step [OF assms(1) ok'] True show ?thesis by simp
  next
    case False
    then have "d' = d" using assms
      by (auto simp: upsert_decision_def upsert_def slice_rows_def taken_def approval_key_def decision_row_def)
    with False assms(1) show ?thesis by simp
  qed
qed

lemma job_upserted:
  assumes "slice_rows i [rv] as js d" and "upsert_job rv d = Inr d'"
    and "js = [] \<or> (\<exists>jb. js = [jb] \<and> idempotency_key jb = ''job:'' @ plan_digest_col rv)"
  shows "slice_rows i [rv] as (if js = [] then [job_row_of rv d] else js) d'"
proof -
  have ok: "db_ok d" using assms(1) by (simp add: slice_rows_def incidents_ok_def)
  show ?thesis
  proof (cases "js = []")
    case True
    then have i: "insert_job (job_row_of rv d) d = Inr d'"
      using assms(1,2) by (auto simp: upsert_job_def upsert_def slice_rows_def taken_def bindr_Inr_iff)
    have ok': "db_ok d'" by (rule db_ok_insert_job [OF ok _ i]) (simp add: job_row_of_def)
    have "incidents d' = incidents d" "signals d' = signals d" "events d' = events d" "executions d' = executions d"
      "recovery_checks d' = recovery_checks d" "audit d' = audit d"
      "versions d' = [rv]" "approvals d' = as" "jobs d' = [job_row_of rv d]"
      using i assms(1) True by (auto simp: insert_job_def slice_rows_def)
    with slice_rows_step [OF assms(1) ok'] True show ?thesis by simp
  next
    case False
    then have "d' = d" using assms by (auto simp: upsert_job_def upsert_def slice_rows_def taken_def job_row_of_def)
    with False assms(1) show ?thesis by simp
  qed
qed

text \<open>What the approved database is, and what an execution that returned the status \<open>s\<close> made of it.\<close>

definition slice_approved :: "'d slice_env \<Rightarrow> nat \<Rightarrow> version_row \<Rightarrow> approval_row \<Rightarrow> job_row \<Rightarrow> db \<Rightarrow> bool" where
  "slice_approved c i rv a jb d \<longleftrightarrow> slice_rows i [rv] [a] [jb] d \<and> (\<exists>d0. rv = slice_version c i d0) \<and>
     ap_version_id a = rv_id rv \<and> ap_plan_digest a = plan_digest_col rv \<and> decision a = ''approve'' \<and> job_version_id jb = rv_id rv"

definition slice_done :: "nat \<Rightarrow> version_row \<Rightarrow> approval_row \<Rightarrow> nat \<Rightarrow> string \<Rightarrow> db \<Rightarrow> bool" where
  "slice_done i rv a j s d \<longleftrightarrow> one_incident i d \<and> versions d = [rv] \<and> approvals d = [a] \<and>
     (\<exists>jb. jobs d = [jb] \<and> job_id jb = j \<and> job_version_id jb = rv_id rv \<and>
        job_status jb = (if s = ''succeeded'' then ''completed'' else ''reconciling'')) \<and>
     (\<exists>x rc. executions d = [x] \<and> ex_job_id x = j \<and> ex_status x = s \<and> recovery_checks d = [rc] \<and>
        rc_execution_id rc = ex_id x \<and> (rc_result rc = ''passed'' \<longleftrightarrow> s = ''succeeded'')) \<and>
     map au_action (audit d) = [''incident.open'', ''execution.apply.intent'', ''execution.apply'']"

lemma approved_ready:
  assumes "slice_approved c i rv a jb d"
  shows "exec_check d (job_id jb) = Inr (Ready (JStr SLICE_NODE) (JStr IFACE_SRL) (JStr ''enable''))"
proof -
  from assms have r: "slice_rows i [rv] [a] [jb] d" and b: "ap_version_id a = rv_id rv" "ap_plan_digest a = plan_digest_col rv"
    "decision a = ''approve''" "job_version_id jb = rv_id rv" by (simp_all add: slice_approved_def)
  from assms obtain d0 where v: "rv = slice_version c i d0" by (auto simp: slice_approved_def)
  have la: "latest_approval d (rv_id rv) = Some a"
    using r b by (simp add: latest_approval_def first_desc_def slice_rows_def)
  show ?thesis
    by (rule exec_check_ok [OF _ _ b(4) _ _ la b(2)])
      (use r slice_plan_allowlisted [of c i d0] v in \<open>auto simp: slice_rows_def incidents_ok_def taken_def simp del: slice_version_fields\<close>)
qed

lemma one_incident_cong: "incidents d' = incidents d \<Longrightarrow> signals d' = signals d \<Longrightarrow> one_incident i d' = one_incident i d"
  by (simp add: one_incident_def)

lemma record_done:
  assumes "slice_approved c i rv a jb d" and "exec_record en (job_id jb) before aft (intent_db (job_id jb) before v d) = Inr (s, d')"
  shows "slice_done i rv a (job_id jb) s d'"
proof -
  let ?di = "intent_db (job_id jb) before v d"
  from assms(1) have r: "slice_rows i [rv] [a] [jb] d" and jv: "job_version_id jb = rv_id rv" by (simp_all add: slice_approved_def)
  note R = exec_record_Inr [OF assms(2)]
  have "map au_action (audit ?di) = [''incident.open'', ''execution.apply.intent'']"
    using r by (simp add: intent_db_def insert_audit_def audit_event_def slice_rows_def Let_def)
  with R(4) have au: "map au_action (audit d') = [''incident.open'', ''execution.apply.intent'', ''execution.apply'']" by auto
  have one: "one_incident i d'" using r R(8,9) one_incident_cong [of d' d] by (simp add: slice_rows_def)
  have jb: "\<exists>jb'. jobs d' = [jb'] \<and> job_id jb' = job_id jb \<and> job_version_id jb' = rv_id rv \<and>
      job_status jb' = (if s = ''succeeded'' then ''completed'' else ''reconciling'')"
    unfolding R(2) jobs_set_status_intent using r jv by (simp add: set_job_status_def slice_rows_def)
  have "versions d' = [rv]" "approvals d' = [a]" using R(6,7) r by (simp_all add: slice_rows_def)
  moreover have "\<exists>x rc. executions d' = [x] \<and> ex_job_id x = job_id jb \<and> ex_status x = s \<and> recovery_checks d' = [rc] \<and>
      rc_execution_id rc = ex_id x \<and> (rc_result rc = ''passed'' \<longleftrightarrow> s = ''succeeded'')"
    using R(3) r by (auto simp: slice_rows_def)
  ultimately show ?thesis using one jb au by (simp only: slice_done_def simp_thms)
qed

lemma approved_now [simp]: "slice_approved c i rv a jb (d\<lparr>db_now := t\<rparr>) = slice_approved c i rv a jb d"
  by (simp add: slice_approved_def)

text \<open>The execution phase of the slice: a job that returns was recorded, and the device was set once.\<close>

lemma run_job_done:
  assumes "slice_approved c i rv a jb (w_db (vs_world w))" and "run_job c (job_id jb) w = (Inr s, w')"
  shows "slice_done i rv a (job_id jb) s (w_db (vs_world w'))" and "vs_fail w' = vs_fail w" and "vs_log w' = vs_log w"
    and "w_trace (vs_world w') = w_trace (vs_world w) @
      [IntentFlushed (job_id jb), DeviceSet (JStr SLICE_NODE) (JStr IFACE_SRL) (JStr ''enable'')]"
proof -
  let ?j = "job_id jb" and ?w = "(vs_world w)\<lparr>w_db := (w_db (vs_world w))\<lparr>db_now := se_now c 5\<rparr>\<rparr>"
  have ap: "slice_approved c i rv a jb (w_db ?w)" using assms(1) by simp
  from assms(2) obtain v where ex: "execute_job (slice_device c) (se_exec c) ?j ?w = (Inr s, v)" and w': "w' = w\<lparr>vs_world := v\<rparr>"
    by (auto simp: run_job_def execute_session_def Let_def split: prod.splits sum.splits if_splits)
  then show "vs_fail w' = vs_fail w" "vs_log w' = vs_log w" by simp_all
  have "slice_done i rv a ?j s (w_db v) \<and> w_trace v = w_trace ?w @
      [IntentFlushed ?j, DeviceSet (JStr SLICE_NODE) (JStr IFACE_SRL) (JStr ''enable'')]"
    using ex
  proof (cases rule: execute_job_cases)
    case duplicate
    then show ?thesis using approved_ready [OF ap] by simp
  next
    case (mutated before node iface)
    then have n: "node = JStr SLICE_NODE" "iface = JStr IFACE_SRL" using approved_ready [OF ap] by simp_all
    from mutated(5) obtain aft where
      "exec_record (se_exec c) ?j before aft (intent_db ?j before (JStr ''enable'') (w_db ?w)) = Inr (s, w_db v)" by blast
    from record_done [OF ap this] mutated(4) n show ?thesis by simp
  qed simp_all
  then show "slice_done i rv a ?j s (w_db (vs_world w'))" "w_trace (vs_world w') = w_trace (vs_world w) @
      [IntentFlushed ?j, DeviceSet (JStr SLICE_NODE) (JStr IFACE_SRL) (JStr ''enable'')]"
    by (simp_all add: w')
qed

section \<open>The phases one by one\<close>

text \<open>\<open>scored w w' oks\<close>: between the two states exactly the checks with the verdicts \<open>oks\<close> were logged and counted.\<close>

definition scored :: "'d sliceworld \<Rightarrow> 'd sliceworld \<Rightarrow> bool list \<Rightarrow> bool" where
  "scored w w' oks \<longleftrightarrow> vs_fail w' = vs_fail w + length (filter Not oks) \<and> map fst (vs_log w') = map fst (vs_log w) @ oks"

lemma scored_trans: "scored w w1 xs \<Longrightarrow> scored w1 w2 ys \<Longrightarrow> scored w w2 (xs @ ys)"
  by (simp add: scored_def)

lemma scored_emit: "scored w (snd (emit_line ok n w)) [ok]" "fst (emit_line ok n w) = Inr ()" "vs_world (snd (emit_line ok n w)) = vs_world w"
  by (simp_all add: scored_def emit_line_def)

lemma emit_line_Inr: "emit_line ok n w = (r, w') \<Longrightarrow> r = Inr () \<and> scored w w' [ok] \<and> vs_world w' = vs_world w"
  by (auto simp: scored_def emit_line_def)

definition dev_only :: "'d sliceworld \<Rightarrow> 'd sliceworld \<Rightarrow> bool" where
  "dev_only w w' \<longleftrightarrow> w_db (vs_world w') = w_db (vs_world w) \<and> w_trace (vs_world w') = w_trace (vs_world w) \<and> scored w w' []"

lemma dev_only_refl [simp]: "dev_only w w"
  by (simp add: dev_only_def scored_def)

lemma dev_only_trans: "dev_only w w1 \<Longrightarrow> dev_only w1 w2 \<Longrightarrow> dev_only w w2"
  using scored_trans by (fastforce simp: dev_only_def)

lemma on_device_only: "on_device f w = (r, w') \<Longrightarrow> dev_only w w'"
  by (auto simp: on_device_def dev_only_def scored_def split: prod.splits)

lemma await_down_only: "await_down c is s w = (r, w') \<Longrightarrow> dev_only w w'"
proof (induction "is" arbitrary: s w)
  case (Cons i "is")
  from Cons.prems obtain r1 w1 where a: "(if i mod 5 = 0 then inject_admin_shutdown c else Pair (Inr ())) w = (r1, w1)" by force
  then have 1: "dev_only w w1" using on_device_only unfolding inject_admin_shutdown_def by (auto split: if_splits)
  obtain r2 w2 where b: "sleep_1 c w1 = (r2, w2)" by force
  then have 2: "dev_only w w2" using 1 on_device_only dev_only_trans unfolding sleep_1_def by blast
  obtain r3 w3 where e: "read_oper c w2 = (r3, w3)" by force
  then have 3: "dev_only w w3" using 2 on_device_only dev_only_trans unfolding read_oper_def by blast
  from Cons.prems a b e have "w' = w1 \<or> w' = w2 \<or> w' = w3 \<or> await_down c is (projr r3) w3 = (r, w')"
    by (auto simp: andthen_def split: sum.splits if_splits)
  then show ?case using 1 2 3 Cons.IH dev_only_trans by blast
qed simp

lemma session_Inr: "session c k body w = (Inr a, w') \<longleftrightarrow> se_commit c k \<and>
    (\<exists>d. body ((w_db (vs_world w))\<lparr>db_now := se_now c k\<rparr>) = Inr (a, d) \<and> w' = w\<lparr>vs_world := (vs_world w)\<lparr>w_db := d\<rparr>\<rparr>)"
  by (auto simp: session_def split: sum.splits if_splits)

lemma session_frame:
  "scored w (w\<lparr>vs_world := (vs_world w)\<lparr>w_db := d\<rparr>\<rparr>) []"
  by (simp add: scored_def)

lemma wiped_now: "(wiped d)\<lparr>db_now := t\<rparr> = wiped (d\<lparr>db_now := t\<rparr>)"
  by (simp add: wiped_def)

lemma slice_inject_Inr:
  assumes "slice_inject c w = (Inr u, w')"
  obtains s w1 where "await_down c [0..<25] ''up'' w = (Inr s, w1)" "scored w w' [s = ''down'']"
    "w_db (vs_world w') = w_db (vs_world w)" "w_trace (vs_world w') = w_trace (vs_world w)" "vs_world w' = vs_world w1"
proof -
  from assms obtain s w1 where a: "await_down c [0..<25] ''up'' w = (Inr s, w1)"
    and e: "emit_line (s = ''down'') ''fault active (admin_shutdown)'' w1 = (Inr u, w')"
    by (auto simp: slice_inject_def andthen_Inr_iff)
  from await_down_only [OF a] emit_line_Inr [OF e] that [OF a] show ?thesis
    using scored_trans by (fastforce simp: dev_only_def)
qed

text \<open>The 100 signals leave one incident and one signal, whatever the clocks say.\<close>

lemma slice_detect_eq:
  assumes "w_db (vs_world w) = wiped d"
  obtains d' where "slice_open (db_next d) d'"
    "slice_detect c w = (if se_commit c 1 then (Inr (db_next d), snd (emit_line True ''idempotent correlator'' (w\<lparr>vs_world := (vs_world w)\<lparr>w_db := d'\<rparr>\<rparr>)))
       else (Inl OperationalError, w))"
proof -
  obtain d' where d': "fold_res (fire_signal c) [0..<100] (wiped (d\<lparr>db_now := se_now c 1\<rparr>)) = Inr d'" "slice_open (db_next d) d'"
    using fire_all [of "[0..<100]" c "d\<lparr>db_now := se_now c 1\<rparr>"] by auto
  then obtain r s where rs: "incidents d' = [r]" "inc_id r = db_next d" "signals d' = [s]" by (auto simp: slice_rows_def one_incident_def)
  have "session c 1 (\<lambda>d. bindr (fold_res (fire_signal c) [0..<100] d) (\<lambda>d'. Inr ((), d'))) w =
      (if se_commit c 1 then (Inr (), w\<lparr>vs_world := (vs_world w)\<lparr>w_db := d'\<rparr>\<rparr>) else (Inl OperationalError, w))"
    by (simp add: session_def assms wiped_now d'(1) [unfolded One_nat_def])
  then show ?thesis
    using that [OF d'(2)] rs scored_emit(2) by (simp add: slice_detect_def andthen_def query_def scalar_one_def emit_line_def)
qed

lemma slice_claim_Inr:
  assumes "slice_claim c w = (Inr u, w')"
  obtains s where "scored w w' [s = ''down'']" "w_db (vs_world w') = w_db (vs_world w)" "w_trace (vs_world w') = w_trace (vs_world w)"
proof -
  from assms obtain s w1 where a: "read_oper c w = (Inr s, w1)"
    and e: "emit_line (evaluate_oper_state_claim [(''oper_state'', s)] ''down'' = Supported) ''typed claim (no LLM)'' w1 = (Inr u, w')"
    by (auto simp: slice_claim_def andthen_Inr_iff)
  have "evaluate_oper_state_claim [(''oper_state'', s)] ''down'' = Supported \<longleftrightarrow> s = ''down''"
    by (simp add: evaluate_oper_state_claim_def)
  with on_device_only [OF a [unfolded read_oper_def]] emit_line_Inr [OF e] that [of s] show ?thesis
    using scored_trans by (fastforce simp: dev_only_def)
qed

lemma slice_plan_Inr:
  assumes "slice_open i (w_db (vs_world w))" and "slice_plan c i w = (Inr rv, w')"
  obtains d0 where "rv = slice_version c i d0" "slice_rows i [rv] [] [] (w_db (vs_world w'))"
    "scored w w' [length (plan_digest_col rv) = 64]" "w_trace (vs_world w') = w_trace (vs_world w)"
proof -
  let ?d = "(w_db (vs_world w))\<lparr>db_now := se_now c 2\<rparr>"
  from assms(2) obtain d' w1 where rv: "rv = slice_version c i ?d" and ins: "insert_version rv ?d = Inr d'"
    and w1: "w1 = w\<lparr>vs_world := (vs_world w)\<lparr>w_db := d'\<rparr>\<rparr>"
    and e: "emit_line (length (plan_digest_col rv) = 64) ''immutable plan digest'' w1 = (Inr (), w')"
    by (auto simp: slice_plan_def andthen_Inr_iff session_Inr Let_def bindr_Inr_iff)
  have "slice_open i ?d" using assms(1) by simp
  from version_inserted(2) [OF this ins [unfolded rv]] rv have "slice_rows i [rv] [] [] d'" by simp
  with that [OF rv] emit_line_Inr [OF e] session_frame [of w d'] scored_trans w1 show ?thesis by fastforce
qed

lemma approve_once:
  assumes "slice_rows i [rv] as js d" and "as = [] \<and> js = [] \<or> (\<exists>a jb. as = [a] \<and> js = [jb] \<and>
      approval_key a = (rv_id rv, ''approver1'') \<and> idempotency_key jb = ''job:'' @ plan_digest_col rv)"
    and "bindr (upsert_decision ''approve'' ''approver1'' rv d) (\<lambda>d1. bindr (upsert_job rv d1) (\<lambda>d2. Inr ((), d2))) = Inr (u, d')"
  shows "\<exists>d1. slice_rows i [rv] (if as = [] then [decision_row ''approve'' ''approver1'' rv d] else as)
      (if js = [] then [job_row_of rv d1] else js) d'"
proof -
  from assms(3) obtain d1 where u: "upsert_decision ''approve'' ''approver1'' rv d = Inr d1" "upsert_job rv d1 = Inr d'"
    by (auto simp: bindr_Inr_iff)
  have k: "as = [] \<or> (\<exists>a. as = [a] \<and> approval_key a = (rv_id rv, ''approver1''))"
    "js = [] \<or> (\<exists>jb. js = [jb] \<and> idempotency_key jb = ''job:'' @ plan_digest_col rv)"
    using assms(2) by blast+
  from job_upserted [OF decision_upserted [OF assms(1) u(1) k(1)] u(2) k(2)] show ?thesis by blast
qed

lemma slice_approve_Inr:
  assumes "slice_rows i [rv] [] [] (w_db (vs_world w))" and "rv = slice_version c i d0" and "slice_approve c rv w = (Inr j, w')"
  obtains a jb where "j = job_id jb" "slice_approved c i rv a jb (w_db (vs_world w'))" "scored w w' [True]"
    "w_trace (vs_world w') = w_trace (vs_world w)"
proof -
  let ?body = "\<lambda>d. bindr (upsert_decision ''approve'' ''approver1'' rv d) (\<lambda>d1. bindr (upsert_job rv d1) (\<lambda>d2. Inr ((), d2)))"
  from assms(3) obtain w1 w2 where s1: "session c 3 ?body w = (Inr (), w1)" and s2: "session c 4 ?body w1 = (Inr (), w2)"
    and j: "scalar_one (map job_id (jobs (w_db (vs_world w2)))) = Inr j"
    and e: "emit_line (length (jobs (w_db (vs_world w2))) = 1) ''duplicate request -> one job'' w2 = (Inr (), w')"
    by (auto simp: slice_approve_def approve_and_enqueue_def andthen_Inr_iff query_def)
  let ?d = "(w_db (vs_world w))\<lparr>db_now := se_now c 3\<rparr>"
  from s1 obtain d1 where b1: "?body ?d = Inr ((), d1)" and w1: "w1 = w\<lparr>vs_world := (vs_world w)\<lparr>w_db := d1\<rparr>\<rparr>"
    by (auto simp: session_Inr)
  have r0: "slice_rows i [rv] [] [] ?d" using assms(1) by simp
  from approve_once [OF r0 _ b1] obtain d1' where r1: "slice_rows i [rv] [decision_row ''approve'' ''approver1'' rv ?d] [job_row_of rv d1'] d1" by auto
  let ?a = "decision_row ''approve'' ''approver1'' rv ?d" and ?jb = "job_row_of rv d1'"
  let ?d' = "(w_db (vs_world w1))\<lparr>db_now := se_now c 4\<rparr>"
  from s2 obtain d2 where b2: "?body ?d' = Inr ((), d2)" and w2: "w2 = w1\<lparr>vs_world := (vs_world w1)\<lparr>w_db := d2\<rparr>\<rparr>"
    by (auto simp: session_Inr)
  have r1': "slice_rows i [rv] [?a] [?jb] ?d'" using r1 w1 by simp
  have key: "approval_key ?a = (rv_id rv, ''approver1'')" "idempotency_key ?jb = ''job:'' @ plan_digest_col rv"
    by (simp_all add: approval_key_def decision_row_def job_row_of_def)
  from approve_once [OF r1' _ b2] key have r2: "slice_rows i [rv] [?a] [?jb] d2" by auto
  then have jobs2: "jobs (w_db (vs_world w2)) = [?jb]" by (simp add: w2 slice_rows_def)
  have ap: "slice_approved c i rv ?a ?jb d2"
    unfolding slice_approved_def using r2 assms(2) by (auto simp: decision_row_def job_row_of_def)
  have "scored w w2 []" by (simp add: w1 w2 scored_def)
  then have "scored w w' [True]" using emit_line_Inr [OF e] jobs2 scored_trans by fastforce
  moreover have "w_db (vs_world w') = d2" "w_trace (vs_world w') = w_trace (vs_world w)" using emit_line_Inr [OF e] by (simp_all add: w1 w2)
  moreover have "j = job_id ?jb" using j jobs2 by simp
  ultimately show ?thesis using that ap by simp
qed

lemma slice_execute_Inr:
  assumes "slice_approved c i rv a jb (w_db (vs_world w))" and "slice_execute c (job_id jb) w = (Inr u, w')"
  obtains s aft dev where "slice_done i rv a (job_id jb) s (w_db (vs_world w'))" "scored w w' [s = ''succeeded'' \<and> aft = ''up'']"
    "w_trace (vs_world w') = w_trace (vs_world w) @ [IntentFlushed (job_id jb), DeviceSet (JStr SLICE_NODE) (JStr IFACE_SRL) (JStr ''enable'')]"
    "get_oper_state (slice_device c) dev (JStr SLICE_NODE) (JStr IFACE_SRL) = (Inr aft, w_dev (vs_world w'))"
proof -
  from assms(2) obtain s w1 aft w2 where j: "run_job c (job_id jb) w = (Inr s, w1)" and r: "read_oper c w1 = (Inr aft, w2)"
    and e: "emit_line (s = ''succeeded'' \<and> aft = ''up'') ''isolated executor recovery'' w2 = (Inr u, w')"
    by (auto simp: slice_execute_def andthen_Inr_iff)
  note D = run_job_done [OF assms(1) j]
  have 2: "dev_only w1 w2" using on_device_only [OF r [unfolded read_oper_def]] .
  have sc: "scored w w1 []" using D by (simp add: scored_def)
  from r have "get_oper_state (slice_device c) (w_dev (vs_world w1)) (JStr SLICE_NODE) (JStr IFACE_SRL) = (Inr aft, w_dev (vs_world w2))"
    by (auto simp: read_oper_def on_device_def split: prod.splits)
  moreover have "scored w w' [s = ''succeeded'' \<and> aft = ''up'']"
    using scored_trans [OF scored_trans [OF sc]] 2 emit_line_Inr [OF e] by (fastforce simp: dev_only_def)
  ultimately show ?thesis using that [of s aft] D(1,4) 2 emit_line_Inr [OF e] by (simp add: dev_only_def)
qed

lemma slice_audit_eq:
  assumes "slice_done i rv a j s (w_db (vs_world w))"
  shows "slice_audit w = (Inr (), snd (emit_line (s = ''succeeded'') ''recovery via executor, not injector cleanup'' w))"
proof -
  have "(first_row (filter (\<lambda>r. rc_result r = ''passed'') (recovery_checks (w_db (vs_world w)))) \<noteq> None \<and>
      ''execution.apply'' \<in> set (map au_action (audit (w_db (vs_world w))))) = (s = ''succeeded'')"
    using assms by (auto simp: slice_done_def first_row_def)
  then show ?thesis by (simp only: slice_audit_def andthen_def query_def prod.case sum.case) (simp add: emit_line_def)
qed

section \<open>The slice\<close>

text \<open>A run that returns has passed through every phase; its exit code is 0 exactly when no check failed.\<close>

lemma run_slice_phases:
  assumes "run_slice c w = (Inr code, w')"
  obtains s w1 w2 s2 d0 i rv a j s3 aft dev where "w_dev (vs_world w1) = w_dev (vs_world w)" "await_down c [0..<25] ''up'' w1 = (Inr s, w2)"
    "rv = slice_version c i d0" "slice_done i rv a (j) s3 (w_db (vs_world w'))"
    "ap_version_id a = rv_id rv" "ap_plan_digest a = plan_digest_col rv" "decision a = ''approve''"
    "w_trace (vs_world w') = w_trace (vs_world w) @
       [IntentFlushed (j), DeviceSet (JStr SLICE_NODE) (JStr IFACE_SRL) (JStr ''enable'')]"
    "get_oper_state (slice_device c) dev (JStr SLICE_NODE) (JStr IFACE_SRL) = (Inr aft, w_dev (vs_world w'))"
    "scored w w' [s = ''down'', True, s2 = ''down'', length (plan_digest_col rv) = 64, True, s3 = ''succeeded'' \<and> aft = ''up'', s3 = ''succeeded'']"
    "code = (if vs_fail w' \<noteq> 0 then 1 else 0)"
proof -
  let ?d0 = "(w_db (vs_world w))\<lparr>db_now := se_now c 0\<rparr>" and ?w1 = "w\<lparr>vs_world := (vs_world w)\<lparr>w_db := wiped ((w_db (vs_world w))\<lparr>db_now := se_now c 0\<rparr>)\<rparr>\<rparr>"
  from assms obtain wi i wd wc rv wp j wa we wf where
    p: "session c 0 (\<lambda>d. bindr (clean_slate d) (\<lambda>d'. Inr ((), d'))) w = (Inr (), ?w1)"
    and pi: "slice_inject c ?w1 = (Inr (), wi)" and pd: "slice_detect c wi = (Inr i, wd)" and pc: "slice_claim c wd = (Inr (), wc)"
    and pp: "slice_plan c i wc = (Inr rv, wp)" and pa: "slice_approve c rv wp = (Inr j, wa)"
    and pe: "slice_execute c j wa = (Inr (), we)" and pf: "slice_audit we = (Inr (), wf)"
    and fin: "w' = wf" "code = (if vs_fail wf \<noteq> 0 then 1 else 0)"
    by (auto simp: run_slice_def andthen_Inr_iff session_Inr clean_slate_total)
  have 1: "scored w ?w1 []" by (rule session_frame)
  from pi obtain s w2 where i: "await_down c [0..<25] ''up'' ?w1 = (Inr s, w2)" "scored ?w1 wi [s = ''down'']"
    "w_db (vs_world wi) = wiped ?d0" "w_trace (vs_world wi) = w_trace (vs_world w)"
    by (rule slice_inject_Inr) simp
  from i(3) obtain d1 where "slice_open (db_next ?d0) d1" and de: "slice_detect c wi = (if se_commit c 1
      then (Inr (db_next ?d0), snd (emit_line True ''idempotent correlator'' (wi\<lparr>vs_world := (vs_world wi)\<lparr>w_db := d1\<rparr>\<rparr>)))
      else (Inl OperationalError, wi))"
    by (rule slice_detect_eq)
  with pd have d: "slice_open i (w_db (vs_world wd))" "scored wi wd [True]" "w_trace (vs_world wd) = w_trace (vs_world wi)"
    by (auto simp: emit_line_def scored_def split: if_splits)
  from pc obtain s2 where cl: "scored wd wc [s2 = ''down'']" "w_db (vs_world wc) = w_db (vs_world wd)" "w_trace (vs_world wc) = w_trace (vs_world wd)"
    by (rule slice_claim_Inr)
  from d(1) cl(2) pp obtain d0 where pl: "rv = slice_version c i d0" "slice_rows i [rv] [] [] (w_db (vs_world wp))"
    "scored wc wp [length (plan_digest_col rv) = 64]" "w_trace (vs_world wp) = w_trace (vs_world wc)"
    by (metis slice_plan_Inr)
  from pl(2,1) pa obtain a jb where ap: "j = job_id jb" "slice_approved c i rv a jb (w_db (vs_world wa))" "scored wp wa [True]"
    "w_trace (vs_world wa) = w_trace (vs_world wp)"
    by (rule slice_approve_Inr)
  from ap(2) pe [unfolded ap(1)] obtain s3 aft dev where ex: "slice_done i rv a (job_id jb) s3 (w_db (vs_world we))"
    "scored wa we [s3 = ''succeeded'' \<and> aft = ''up'']"
    "w_trace (vs_world we) = w_trace (vs_world wa) @ [IntentFlushed (job_id jb), DeviceSet (JStr SLICE_NODE) (JStr IFACE_SRL) (JStr ''enable'')]"
    "get_oper_state (slice_device c) dev (JStr SLICE_NODE) (JStr IFACE_SRL) = (Inr aft, w_dev (vs_world we))"
    by (rule slice_execute_Inr)
  have wf: "wf = snd (emit_line (s3 = ''succeeded'') ''recovery via executor, not injector cleanup'' we)"
    using pf slice_audit_eq [OF ex(1)] by simp
  have au: "scored we wf [s3 = ''succeeded'']" "vs_world wf = vs_world we"
    unfolding wf by (rule scored_emit)+
  note sc = scored_trans [OF scored_trans [OF scored_trans [OF scored_trans [OF scored_trans [OF scored_trans [OF scored_trans
      [OF 1 i(2)] d(2)] cl(1)] pl(3)] ap(3)] ex(2)] au(1)]
  show ?thesis
    by (rule that [of ?w1 s w2 rv i d0 a "job_id jb" s3 dev aft s2])
      (use i(1) pl(1) ex au(2) ap sc fin d(3) i(4) cl(3) pl(4) in \<open>simp_all add: slice_approved_def\<close>)
qed

text \<open>C5: Exit code 0 is a proof of the whole chain, whatever the shell, the clocks, the accepted commits and the
  earlier contents of the database: the interface was read down after the injection, and the database
  holds exactly one incident with its one signal, one version addressed by the digest of its plan, one
  approval of exactly that digest, one job, completed, one execution, succeeded, and its passed recovery
  check; the audit log is the opening, the intent and the outcome in this order; the executor enabled
  the injected interface exactly once, after the intent was accepted; the last reading is \<open>up\<close>, and
  all seven checks were logged as passed.\<close>

theorem slice_exit_sound:
  assumes "run_slice c w = (Inr 0, w')"
  shows "\<exists>w1 w2 dev rv a jb. w_dev (vs_world w1) = w_dev (vs_world w) \<and> await_down c [0..<25] ''up'' w1 = (Inr ''down'', w2) \<and>
     (\<exists>r s. incidents (w_db (vs_world w')) = [r] \<and> incident_key r = INCIDENT_KEY \<and>
        signals (w_db (vs_world w')) = [s] \<and> sig_incident_id s = inc_id r \<and> rv_incident_id rv = inc_id r) \<and>
     versions (w_db (vs_world w')) = [rv] \<and> plan_digest_col rv = plan_digest (se_sha c) (se_repr c) (plan_json rv) \<and>
     approvals (w_db (vs_world w')) = [a] \<and> ap_version_id a = rv_id rv \<and> ap_plan_digest a = plan_digest_col rv \<and> decision a = ''approve'' \<and>
     jobs (w_db (vs_world w')) = [jb] \<and> job_version_id jb = rv_id rv \<and> job_status jb = ''completed'' \<and>
     (\<exists>x rc. executions (w_db (vs_world w')) = [x] \<and> ex_job_id x = job_id jb \<and> ex_status x = ''succeeded'' \<and>
        recovery_checks (w_db (vs_world w')) = [rc] \<and> rc_execution_id rc = ex_id x \<and> rc_result rc = ''passed'') \<and>
     map au_action (audit (w_db (vs_world w'))) = [''incident.open'', ''execution.apply.intent'', ''execution.apply''] \<and>
     w_trace (vs_world w') = w_trace (vs_world w) @
       [IntentFlushed (job_id jb), DeviceSet (JStr SLICE_NODE) (JStr IFACE_SRL) (JStr ''enable'')] \<and>
     get_oper_state (slice_device c) dev (JStr SLICE_NODE) (JStr IFACE_SRL) = (Inr ''up'', w_dev (vs_world w')) \<and>
     map fst (vs_log w') = map fst (vs_log w) @ replicate 7 True"
proof -
  from assms obtain s w1 w2 s2 d0 i rv a j s3 aft dev where
    "w_dev (vs_world w1) = w_dev (vs_world w)" and aw: "await_down c [0..<25] ''up'' w1 = (Inr s, w2)"
    and rv: "rv = slice_version c i d0" and dn: "slice_done i rv a j s3 (w_db (vs_world w'))"
    and ap: "ap_version_id a = rv_id rv" "ap_plan_digest a = plan_digest_col rv" "decision a = ''approve''"
    and tr: "w_trace (vs_world w') = w_trace (vs_world w) @
       [IntentFlushed j, DeviceSet (JStr SLICE_NODE) (JStr IFACE_SRL) (JStr ''enable'')]"
    and rd: "get_oper_state (slice_device c) dev (JStr SLICE_NODE) (JStr IFACE_SRL) = (Inr aft, w_dev (vs_world w'))"
    and sc: "scored w w' [s = ''down'', True, s2 = ''down'', length (plan_digest_col rv) = 64, True, s3 = ''succeeded'' \<and> aft = ''up'', s3 = ''succeeded'']"
    and code: "0 = (if vs_fail w' \<noteq> 0 then 1 else 0 :: nat)"
    by (rule run_slice_phases)
  from code have "vs_fail w' = 0" by (simp split: if_splits)
  with sc have ok: "s = ''down''" "s2 = ''down''" "length (plan_digest_col rv) = 64" "s3 = ''succeeded''" "aft = ''up''"
    and lg: "map fst (vs_log w') = map fst (vs_log w) @ replicate 7 True"
    by (simp_all add: scored_def numeral_eq_Suc split: if_splits)
  from dn ok(4) obtain jb' where jb: "jobs (w_db (vs_world w')) = [jb']" "job_id jb' = j" "job_version_id jb' = rv_id rv"
    "job_status jb' = ''completed''"
    by (auto simp: slice_done_def)
  show ?thesis
    by (rule exI [of _ w1], rule exI [of _ w2], rule exI [of _ dev], rule exI [of _ rv], rule exI [of _ a], rule exI [of _ jb'])
      (use dn ok ap tr rd lg jb aw \<open>w_dev (vs_world w1) = _\<close> rv in \<open>auto simp: slice_done_def one_incident_def simp del: slice_version_fields(3)\<close>)
qed

section \<open>A fabric that obeys the commands\<close>

text \<open>
  What the slice relies on of the lab, as an automaton of the one link: the first \<open>n\<close> disable commits may be
  accepted without effect (\<open>Ignoring n\<close>), the next one takes effect after \<open>lag\<close> seconds
  (\<open>Falling k\<close>: \<open>k\<close> seconds to go, down at 0), and an enable is in effect when its commit returns
  and leaves a link whose next disable takes effect.
\<close>

datatype link_view = Ignoring nat | Falling nat

fun on_disable :: "nat \<Rightarrow> link_view \<Rightarrow> link_view" where
  "on_disable lag (Ignoring (Suc n)) = Ignoring n"
| "on_disable lag (Ignoring 0) = Falling lag"
| "on_disable lag (Falling k) = Falling k"

fun on_second :: "link_view \<Rightarrow> link_view" where
  "on_second (Falling k) = Falling (k - 1)"
| "on_second v = v"

definition shown :: "link_view \<Rightarrow> string" where
  "shown v = (if v = Falling 0 then ''down'' else ''up'')"

definition link_contract :: "'d slice_env \<Rightarrow> ('d \<Rightarrow> link_view) \<Rightarrow> nat \<Rightarrow> bool" where
  "link_contract c view lag \<longleftrightarrow>
     (\<forall>dev. \<exists>out dev'. se_shell c [''docker'', ''exec'', ''-i'', ''-u'', ''root'', CLABN, ''sr_cli'']
          (Some (fabric_script IFACE_SRL ''disable'')) dev = (Inr out, dev') \<and> view dev' = on_disable lag (view dev)) \<and>
     (\<forall>dev. view (se_sleep c dev) = on_second (view dev)) \<and>
     (\<forall>dev. \<exists>out dev'. se_shell c [''docker'', ''exec'', ''-u'', ''root'', CLABN, ''sr_cli'',
          ''info from state interface '' @ IFACE_SRL @ '' oper-state''] None dev = (Inr out, dev') \<and>
        read_oper_state out = shown (view dev) \<and> view dev' = view dev) \<and>
     (\<forall>dev. \<exists>out dev'. se_shell c [''docker'', ''exec'', ''-i'', ''-u'', ''root'', CLABN, ''sr_cli'']
          (Some (fabric_script IFACE_SRL ''enable'')) dev = (Inr out, dev') \<and> view dev' = Ignoring 0)"

definition link_view_of :: "('d \<Rightarrow> link_view) \<Rightarrow> 'd sliceworld \<Rightarrow> link_view" where
  "link_view_of view w = view (w_dev (vs_world w))"

lemma slice_container: "container f (JStr SLICE_NODE) = CLABN"
  by (simp add: container_def fstr_def CLABN_def)

lemma contract_inject:
  assumes "link_contract c view lag"
  obtains w' where "inject_admin_shutdown c w = (Inr (), w')" "link_view_of view w' = on_disable lag (link_view_of view w)"
proof -
  from assms obtain out dev' where "se_shell c [''docker'', ''exec'', ''-i'', ''-u'', ''root'', CLABN, ''sr_cli'']
      (Some (fabric_script IFACE_SRL ''disable'')) (w_dev (vs_world w)) = (Inr out, dev')"
    "view dev' = on_disable lag (view (w_dev (vs_world w)))"
    unfolding link_contract_def by blast
  with that show ?thesis by (simp add: inject_admin_shutdown_def on_device_def link_view_of_def)
qed

lemma contract_sleep:
  assumes "link_contract c view lag"
  shows "fst (sleep_1 c w) = Inr ()" and "link_view_of view (snd (sleep_1 c w)) = on_second (link_view_of view w)"
  using assms by (simp_all add: link_contract_def sleep_1_def on_device_def link_view_of_def)

lemma contract_get:
  assumes "link_contract c view lag"
  obtains dev' where "get_oper_state (slice_device c) dev (JStr SLICE_NODE) (JStr IFACE_SRL) = (Inr (shown (view dev)), dev')"
    "view dev' = view dev"
proof -
  from assms obtain out dev' where "se_shell c [''docker'', ''exec'', ''-u'', ''root'', CLABN, ''sr_cli'',
      ''info from state interface '' @ IFACE_SRL @ '' oper-state''] None dev = (Inr out, dev')"
    "read_oper_state out = shown (view dev)" "view dev' = view dev"
    unfolding link_contract_def by blast
  with that show ?thesis by (simp add: slice_device_def fabric_device_def fabric_get_def read_argv_def slice_container fstr_def)
qed

lemma contract_set:
  assumes "link_contract c view lag"
  obtains dev' where "set_admin_state (slice_device c) dev (JStr SLICE_NODE) (JStr IFACE_SRL) (JStr ''enable'') = (Inr (), dev')"
    "view dev' = Ignoring 0"
proof -
  from assms obtain out dev' where "se_shell c [''docker'', ''exec'', ''-i'', ''-u'', ''root'', CLABN, ''sr_cli'']
      (Some (fabric_script IFACE_SRL ''enable'')) dev = (Inr out, dev')" "view dev' = Ignoring 0"
    unfolding link_contract_def by blast
  with that show ?thesis by (simp add: slice_device_def fabric_device_def fabric_set_def slice_container fstr_def)
qed

lemma contract_read:
  assumes "link_contract c view lag"
  obtains w' where "read_oper c w = (Inr (shown (link_view_of view w)), w')" "link_view_of view w' = link_view_of view w"
proof -
  from assms obtain dev' where "get_oper_state (slice_device c) (w_dev (vs_world w)) (JStr SLICE_NODE) (JStr IFACE_SRL) =
      (Inr (shown (view (w_dev (vs_world w)))), dev')" "view dev' = view (w_dev (vs_world w))"
    by (rule contract_get)
  with that show ?thesis by (simp add: read_oper_def on_device_def link_view_of_def)
qed

text \<open>The seconds the loop still needs from round \<open>i\<close>: until the next assertion, five per ignored commit, the lag.\<close>

definition until_assert :: "nat \<Rightarrow> nat" where
  "until_assert i = (if i mod 5 = 0 then 0 else 5 - i mod 5)"

fun seconds_left :: "nat \<Rightarrow> nat \<Rightarrow> link_view \<Rightarrow> nat" where
  "seconds_left lag i (Ignoring n) = until_assert i + 5 * n + max 1 lag"
| "seconds_left lag i (Falling k) = max 1 k"

lemma seconds_left_pos: "0 < seconds_left lag i v"
  by (cases v) auto

lemma until_assert_Suc:
  "i mod 5 = 0 \<Longrightarrow> until_assert i = 0 \<and> until_assert (Suc i) = 4" "i mod 5 \<noteq> 0 \<Longrightarrow> Suc (until_assert (Suc i)) = until_assert i"
  using mod_less_divisor [of 5 i] by (auto simp: until_assert_def mod_Suc)

lemma seconds_left_step:
  assumes "v' = on_second (if i mod 5 = 0 then on_disable lag v else v)" and "v' \<noteq> Falling 0" and "seconds_left lag i v \<le> 25"
  shows "Suc (seconds_left lag (Suc i) v') \<le> seconds_left lag i v"
proof (cases v)
  case (Ignoring n)
  show ?thesis
  proof (cases "i mod 5 = 0")
    case True
    then show ?thesis using assms Ignoring until_assert_Suc(1) [OF True] by (cases n) auto
  next
    case False
    then show ?thesis using assms(1) Ignoring until_assert_Suc(2) [OF False] by simp
  qed
next
  case (Falling k)
  then show ?thesis using assms by (cases "k - 1") (auto split: if_splits)
qed

lemma await_down_reached:
  assumes "link_contract c view lag" and "i + seconds_left lag i (link_view_of view w) \<le> 25"
  shows "\<exists>w'. await_down c [i..<25] s w = (Inr ''down'', w') \<and> link_view_of view w' = Falling 0"
  using assms(2)
proof (induction "25 - i" arbitrary: i s w)
  case 0
  then show ?case using seconds_left_pos [of lag i "link_view_of view w"] by linarith
next
  case (Suc k)
  let ?v = "if i mod 5 = 0 then on_disable lag (link_view_of view w) else link_view_of view w"
  have rounds: "[i..<25] = i # [Suc i..<25]" using Suc.hyps(2) by (simp add: upt_conv_Cons)
  obtain w1 where 1: "(if i mod 5 = 0 then inject_admin_shutdown c else Pair (Inr ())) w = (Inr (), w1)" "link_view_of view w1 = ?v"
  proof -
    obtain wi where "inject_admin_shutdown c w = (Inr (), wi)" "link_view_of view wi = on_disable lag (link_view_of view w)"
      by (rule contract_inject [OF assms(1), of w])
    with that [of "if i mod 5 = 0 then wi else w"] show ?thesis by simp
  qed
  define w2 where "w2 = snd (sleep_1 c w1)"
  have 2: "sleep_1 c w1 = (Inr (), w2)" "link_view_of view w2 = on_second ?v"
    using contract_sleep [OF assms(1), of w1] 1(2) by (simp_all add: w2_def prod_eq_iff)
  obtain w3 where 3: "read_oper c w2 = (Inr (shown (on_second ?v)), w3)" "link_view_of view w3 = on_second ?v"
    using contract_read [OF assms(1), of w2] 2(2) by metis
  have run: "await_down c [i..<25] s w =
      (if on_second ?v = Falling 0 then (Inr ''down'', w3) else await_down c [Suc i..<25] (shown (on_second ?v)) w3)"
    by (simp only: rounds await_down.simps andthen_def 1(1) 2(1) 3(1) prod.case sum.case) (simp add: shown_def)
  show ?case
  proof (cases "on_second ?v = Falling 0")
    case True
    then show ?thesis using run 3(2) by simp
  next
    case False
    have "Suc i + seconds_left lag (Suc i) (link_view_of view w3) \<le> 25"
      using seconds_left_step [OF refl False] Suc.prems 3(2) by simp
    from Suc.hyps(1) [OF _ this] Suc.hyps(2) run False show ?thesis by simp
  qed
qed

lemma emit_True: "emit_line True n w = (Inr (), w\<lparr>vs_log := vs_log w @ [(True, n)]\<rparr>)"
  by (simp add: emit_line_def)

lemma slice_plan_ok:
  assumes "slice_open i (w_db (vs_world w))" and "se_commit c 2" and "\<And>x. length (se_sha c x) = 64"
  shows "\<exists>rv w'. slice_plan c i w = (Inr rv, w') \<and> vs_fail w' = vs_fail w \<and> w_dev (vs_world w') = w_dev (vs_world w)"
proof -
  let ?d = "(w_db (vs_world w))\<lparr>db_now := se_now c 2\<rparr>"
  have l: "length (plan_digest_col (slice_version c i d)) = 64" for d
    using assms(3) by (simp add: plan_digest_def)
  have "slice_open i ?d" using assms(1) by simp
  from version_inserted(1) [OF this, of c] l obtain d' where "insert_version (slice_version c i ?d) ?d = Inr d'" by auto
  then have "session c 2 (\<lambda>d. let rv = slice_version c i d in bindr (insert_version rv d) (\<lambda>d'. Inr (rv, d'))) w =
      (Inr (slice_version c i ?d), w\<lparr>vs_world := (vs_world w)\<lparr>w_db := d'\<rparr>\<rparr>)"
    using assms(2) by (simp add: session_def Let_def)
  then show ?thesis
    by (simp add: slice_plan_def andthen_Inr l emit_True del: slice_version_fields)
qed

lemma approve_body_ok:
  assumes "slice_rows i [rv] as js d" and "as = [] \<and> js = [] \<or> (\<exists>a jb. as = [a] \<and> js = [jb] \<and>
      approval_key a = (rv_id rv, ''approver1'') \<and> idempotency_key jb = ''job:'' @ plan_digest_col rv)"
    and "length (plan_digest_col rv) = 64"
  shows "\<exists>d'. bindr (upsert_decision ''approve'' ''approver1'' rv d) (\<lambda>d1. bindr (upsert_job rv d1) (\<lambda>d2. Inr ((), d2))) = Inr ((), d')"
proof -
  have ok: "db_ok d" "rv \<in> set (versions d)" using assms(1) by (simp_all add: slice_rows_def incidents_ok_def)
  obtain d1 where u: "upsert_decision ''approve'' ''approver1'' rv d = Inr d1"
    using upsert_decision_ok [OF ok, of "''approver1''" "''approve''"] assms(3) by auto
  have "as = [] \<or> (\<exists>a. as = [a] \<and> approval_key a = (rv_id rv, ''approver1''))" using assms(2) by blast
  from decision_upserted [OF assms(1) u this] obtain as' where r: "slice_rows i [rv] as' js d1" by blast
  have "upsert_job rv d1 \<noteq> Inl e" for e
  proof (cases js)
    case Nil
    then show ?thesis using r assms(3)
      by (auto simp: upsert_job_def upsert_def insert_job_def job_row_of_def slice_rows_def taken_def guard_def varchar_def)
  next
    case (Cons jb js')
    then show ?thesis using r assms(2) by (auto simp: upsert_job_def upsert_def slice_rows_def taken_def job_row_of_def)
  qed
  then obtain d2 where "upsert_job rv d1 = Inr d2" by (cases "upsert_job rv d1") auto
  with u show ?thesis by simp
qed

lemma slice_approve_ok:
  assumes "slice_rows i [rv] [] [] (w_db (vs_world w))" and "length (plan_digest_col rv) = 64" and "se_commit c 3" "se_commit c 4"
  shows "\<exists>j w'. slice_approve c rv w = (Inr j, w') \<and> w_dev (vs_world w') = w_dev (vs_world w)"
proof -
  let ?body = "\<lambda>d. bindr (upsert_decision ''approve'' ''approver1'' rv d) (\<lambda>d1. bindr (upsert_job rv d1) (\<lambda>d2. Inr ((), d2)))"
  let ?d = "(w_db (vs_world w))\<lparr>db_now := se_now c 3\<rparr>"
  have r0: "slice_rows i [rv] [] [] ?d" using assms(1) by simp
  obtain d1 where b1: "?body ?d = Inr ((), d1)" using approve_body_ok [OF r0 _ assms(2)] by auto
  from approve_once [OF r0 _ b1] obtain d1' where r1: "slice_rows i [rv] [decision_row ''approve'' ''approver1'' rv ?d] [job_row_of rv d1'] d1" by auto
  let ?w1 = "w\<lparr>vs_world := (vs_world w)\<lparr>w_db := d1\<rparr>\<rparr>" and ?d' = "d1\<lparr>db_now := se_now c 4\<rparr>"
  have key: "approval_key (decision_row ''approve'' ''approver1'' rv ?d) = (rv_id rv, ''approver1'')"
    "idempotency_key (job_row_of rv d1') = ''job:'' @ plan_digest_col rv"
    by (simp_all add: approval_key_def decision_row_def job_row_of_def)
  have r1': "slice_rows i [rv] [decision_row ''approve'' ''approver1'' rv ?d] [job_row_of rv d1'] ?d'" using r1 by simp
  obtain d2 where b2: "?body ?d' = Inr ((), d2)" using approve_body_ok [OF r1' _ assms(2)] key by auto
  from approve_once [OF r1' _ b2] key have j: "jobs d2 = [job_row_of rv d1']" by (auto simp: slice_rows_def)
  have "approve_and_enqueue c 3 rv w = (Inr (), ?w1)"
    "approve_and_enqueue c 4 rv ?w1 = (Inr (), ?w1\<lparr>vs_world := (vs_world ?w1)\<lparr>w_db := d2\<rparr>\<rparr>)"
    using assms(3,4) b1 b2 by (simp_all add: approve_and_enqueue_def session_def)
  then show ?thesis
    by (simp add: slice_approve_def andthen_Inr andthen_def query_def scalar_one_def j emit_True)
qed

lemma slice_execute_ok:
  assumes "slice_approved c i rv a jb (w_db (vs_world w))" and "link_contract c view lag" and "link_view_of view w = Falling 0"
    and "flush_intent_ok (se_exec c)" "flush_execution_ok (se_exec c)" "commit_ok (se_exec c)"
  shows "\<exists>w'. slice_execute c (job_id jb) w = (Inr (), w') \<and> vs_fail w' = vs_fail w \<and> link_view_of view w' = Ignoring 0"
proof -
  let ?d = "(w_db (vs_world w))\<lparr>db_now := se_now c 5\<rparr>" and ?j = "job_id jb"
  let ?w = "(vs_world w)\<lparr>w_db := ?d\<rparr>"
  let ?get = "\<lambda>dev. get_oper_state (slice_device c) dev (JStr SLICE_NODE) (JStr IFACE_SRL)"
  obtain s1 where 1: "?get (w_dev ?w) = (Inr ''down'', s1)"
    using contract_get [OF assms(2), of "w_dev ?w"] assms(3) by (auto simp: link_view_of_def shown_def)
  obtain s2 where 2: "set_admin_state (slice_device c) s1 (JStr SLICE_NODE) (JStr IFACE_SRL) (JStr ''enable'') = (Inr (), s2)"
    "view s2 = Ignoring 0" by (rule contract_set [OF assms(2)])
  obtain s3 where 3: "?get s2 = (Inr ''up'', s3)" "view s3 = Ignoring 0"
    using contract_get [OF assms(2), of s2] 2(2) by (auto simp: shown_def)
  obtain s4 where 4: "?get s3 = (Inr ''up'', s4)" "view s4 = Ignoring 0"
    using contract_get [OF assms(2), of s3] 3(2) by (auto simp: shown_def)
  have ap: "slice_approved c i rv a jb ?d" using assms(1) by simp
  then have ok: "db_ok ?d" "jobs ?d = [jb]" "executions ?d = []" by (simp_all add: slice_approved_def slice_rows_def incidents_ok_def)
  let ?di = "intent_db ?j ''down'' (JStr ''enable'') ?d"
  have "map job_id (jobs ?di) = [?j]" using ok(2) by simp
  then have "taken job_id ?j (jobs ?di)" by (simp only: taken_def) simp
  from exec_record_ok [OF intent_db_ok [OF ok(1)] this] ok(3) assms(5)
  obtain d4 where rec: "exec_record (se_exec c) ?j ''down'' ''up'' ?di = Inr (''succeeded'', d4)" by (auto simp: taken_def)
  let ?v = "?w\<lparr>w_db := d4, w_dev := s3, w_trace := w_trace ?w @ [IntentFlushed ?j, DeviceSet (JStr SLICE_NODE) (JStr IFACE_SRL) (JStr ''enable'')]\<rparr>"
  have "execute_job (slice_device c) (se_exec c) ?j ?w = (Inr ''succeeded'', ?v)"
    using 1 2 3 rec assms(4) by (simp add: execute_job_def approved_ready [OF ap] exec_apply_def exec_mutate_def Let_def)
  then have "run_job c ?j w = (Inr ''succeeded'', w\<lparr>vs_world := ?v\<rparr>)"
    using assms(6) by (simp add: run_job_def execute_session_def Let_def)
  then show ?thesis using 4
    by (simp add: slice_execute_def andthen_Inr andthen_def read_oper_def on_device_def emit_True link_view_of_def)
qed

lemma slice_claim_ok:
  assumes "link_contract c view lag" and "link_view_of view w = Falling 0"
  shows "\<exists>w'. slice_claim c w = (Inr (), w') \<and> vs_fail w' = vs_fail w \<and> link_view_of view w' = Falling 0 \<and> w_db (vs_world w') = w_db (vs_world w)"
proof -
  obtain w1 where r: "read_oper c w = (Inr (shown (link_view_of view w)), w1)" "link_view_of view w1 = link_view_of view w"
    by (rule contract_read [OF assms(1)])
  have "dev_only w w1" using on_device_only [OF r(1) [unfolded read_oper_def]] .
  with r assms(2) show ?thesis
    by (simp add: slice_claim_def andthen_Inr shown_def evaluate_oper_state_claim_def emit_True link_view_of_def dev_only_def scored_def)
qed

lemma slice_returns:
  assumes "link_contract c view lag" and "view (w_dev (vs_world w)) = Ignoring n" and "5 * n + max 1 lag \<le> 25"
    and "\<forall>k \<le> 4. se_commit c k" and "\<forall>x. length (se_sha c x) = 64"
    and "flush_intent_ok (se_exec c)" "flush_execution_ok (se_exec c)" "commit_ok (se_exec c)" and "vs_fail w = 0"
  shows "\<exists>w'. run_slice c w = (Inr 0, w') \<and> view (w_dev (vs_world w')) = Ignoring 0"
proof -
  let ?d0 = "(w_db (vs_world w))\<lparr>db_now := se_now c 0\<rparr>"
  define w1 where "w1 = w\<lparr>vs_world := (vs_world w)\<lparr>w_db := wiped ?d0\<rparr>\<rparr>"
  have 0: "session c 0 (\<lambda>d. bindr (clean_slate d) (\<lambda>d'. Inr ((), d'))) w = (Inr (), w1)"
    using assms(4) by (simp add: session_def clean_slate_total w1_def)
  have "0 + seconds_left lag 0 (link_view_of view w1) \<le> 25"
    using assms(2,3) by (simp add: link_view_of_def w1_def until_assert_def)
  from await_down_reached [OF assms(1) this, of "''up''"] obtain w2 where
    aw: "await_down c [0..<25] ''up'' w1 = (Inr ''down'', w2)" "link_view_of view w2 = Falling 0" by blast
  define w3 where "w3 = w2\<lparr>vs_log := vs_log w2 @ [(True, ''fault active (admin_shutdown)'')]\<rparr>"
  have 1: "slice_inject c w1 = (Inr (), w3)"
    by (simp only: slice_inject_def andthen_def aw(1) prod.case sum.case w3_def emit_True simp_thms)
  have f3: "vs_fail w3 = 0" "link_view_of view w3 = Falling 0" "w_db (vs_world w3) = wiped ?d0"
    using await_down_only [OF aw(1)] aw(2) assms(9) by (simp_all add: w3_def w1_def link_view_of_def dev_only_def scored_def)
  from f3(3) obtain d1 where d1: "slice_open (db_next ?d0) d1" and de: "slice_detect c w3 = (if se_commit c 1
      then (Inr (db_next ?d0), snd (emit_line True ''idempotent correlator'' (w3\<lparr>vs_world := (vs_world w3)\<lparr>w_db := d1\<rparr>\<rparr>)))
      else (Inl OperationalError, w3))"
    by (rule slice_detect_eq)
  define w4 where "w4 = snd (emit_line True ''idempotent correlator'' (w3\<lparr>vs_world := (vs_world w3)\<lparr>w_db := d1\<rparr>\<rparr>))"
  have 2: "slice_detect c w3 = (Inr (db_next ?d0), w4)" using de assms(4) by (simp add: w4_def)
  have f4: "vs_fail w4 = 0" "link_view_of view w4 = Falling 0" "slice_open (db_next ?d0) (w_db (vs_world w4))"
    using f3 d1 by (simp_all add: w4_def emit_True link_view_of_def)
  obtain w5 where 3: "slice_claim c w4 = (Inr (), w5)" and f5: "vs_fail w5 = 0" "link_view_of view w5 = Falling 0"
    "slice_open (db_next ?d0) (w_db (vs_world w5))"
    using slice_claim_ok [OF assms(1) f4(2)] f4 by auto
  have c2: "se_commit c 2" and sha: "length (se_sha c x) = 64" for x using assms(4,5) by simp_all
  from slice_plan_ok [where c = c, OF f5(3) c2 sha] obtain rv w6 where 4: "slice_plan c (db_next ?d0) w5 = (Inr rv, w6)"
    and "vs_fail w6 = vs_fail w5" "w_dev (vs_world w6) = w_dev (vs_world w5)" by blast
  with f5 have f6: "vs_fail w6 = 0" "link_view_of view w6 = Falling 0" by (simp_all add: link_view_of_def)
  from f5(3) 4 obtain d6 where r6: "rv = slice_version c (db_next ?d0) d6" "slice_rows (db_next ?d0) [rv] [] [] (w_db (vs_world w6))"
    by (rule slice_plan_Inr)
  have "length (plan_digest_col rv) = 64" using assms(5) r6(1) by (simp add: plan_digest_def)
  moreover have "se_commit c 3" "se_commit c 4" using assms(4) by simp_all
  ultimately obtain j w7 where 5: "slice_approve c rv w6 = (Inr j, w7)" and "w_dev (vs_world w7) = w_dev (vs_world w6)"
    using slice_approve_ok [OF r6(2)] by blast
  with f6 have l7: "link_view_of view w7 = Falling 0" by (simp add: link_view_of_def)
  from r6(2,1) 5 obtain a jb where r7: "j = job_id jb" "slice_approved c (db_next ?d0) rv a jb (w_db (vs_world w7))" "scored w6 w7 [True]"
    by (rule slice_approve_Inr)
  obtain w8 where 6: "slice_execute c (job_id jb) w7 = (Inr (), w8)" and f8: "vs_fail w8 = vs_fail w7" "link_view_of view w8 = Ignoring 0"
    using slice_execute_ok [OF r7(2) assms(1) l7 assms(6-8)] by blast
  from r7(2) 6 obtain s aft where r8: "slice_done (db_next ?d0) rv a (job_id jb) s (w_db (vs_world w8))" "scored w7 w8 [s = ''succeeded'' \<and> aft = ''up'']"
    by (rule slice_execute_Inr)
  have s: "s = ''succeeded''" "vs_fail w8 = 0" using r8(2) r7(3) f8(1) f6(1) by (simp_all add: scored_def split: if_splits)
  let ?w9 = "w8\<lparr>vs_log := vs_log w8 @ [(True, ''recovery via executor, not injector cleanup'')]\<rparr>"
  have 7: "slice_audit w8 = (Inr (), ?w9)" using slice_audit_eq [OF r8(1)] s(1) by (simp add: emit_True)
  have "run_slice c w = (Inr 0, ?w9)"
    unfolding run_slice_def
    by (simp only: andthen_def 0 1 2 3 4 5 6 [folded r7(1)] 7 prod.case sum.case) (simp add: s(2))
  with f8(2) show ?thesis by (intro exI [of _ ?w9]) (simp add: link_view_of_def)
qed

text \<open>The exit codes of \<open>k\<close> runs one after the other, each a new process on the database and the fabric the one before left.\<close>

fun exit_codes :: "'d slice_env \<Rightarrow> nat \<Rightarrow> 'd sliceworld \<Rightarrow> nat res list" where
  "exit_codes c 0 w = []"
| "exit_codes c (Suc k) w = (case run_slice c (w\<lparr>vs_fail := 0, vs_log := []\<rparr>) of (r, w') \<Rightarrow> r # exit_codes c k w')"


section \<open>A concrete fabric\<close>

text \<open>The link automaton itself as the device, behind the commands of the shell.\<close>

definition link_shell :: "nat \<Rightarrow> link_view shell" where
  "link_shell lag argv inp v =
     (case inp of
        None \<Rightarrow> (Inr (shown v), v)
      | Some script \<Rightarrow> (Inr [], if script = fabric_script IFACE_SRL ''enable'' then Ignoring 0 else on_disable lag v))"

definition link_env :: "nat \<Rightarrow> link_view slice_env" where
  "link_env lag = \<lparr>se_shell = link_shell lag, se_sleep = on_second, se_other = (\<lambda>_. []), se_sha = (\<lambda>_. replicate 64 CHR ''0''),
     se_repr = (\<lambda>_. []), se_utc = int, se_now = int, se_commit = (\<lambda>_. True), se_exec = all_ok\<rparr>"

definition link_world :: "nat \<Rightarrow> db \<Rightarrow> link_view sliceworld" where
  "link_world n d = \<lparr>vs_world = \<lparr>w_db = d, w_dev = Ignoring n, w_trace = []\<rparr>, vs_fail = 0, vs_log = []\<rparr>"

lemma link_env_contract: "link_contract (link_env lag) (\<lambda>v. v) lag"
proof -
  have ne: "fabric_script IFACE_SRL ''disable'' \<noteq> fabric_script IFACE_SRL ''enable''"
    by (simp add: fabric_script_def)
  have r: "read_oper_state (shown v) = shown v" for v
    by (simp add: shown_def read_oper_state_def contains_def startswith_def)
  show ?thesis
    by (simp add: link_contract_def link_env_def link_shell_def ne r)
qed

lemma link_env_ok:
  "\<forall>k \<le> 4. se_commit (link_env lag) k" "\<forall>x. length (se_sha (link_env lag) x) = 64"
  "flush_intent_ok (se_exec (link_env lag))" "flush_execution_ok (se_exec (link_env lag))" "commit_ok (se_exec (link_env lag))"
  by (simp_all add: link_env_def all_ok_def)


theorem slice_exit_sound_witness:
  "map fst (vs_log (snd (run_slice (link_env 1) (link_world 0 demo_db)))) = replicate 7 True"
proof -
  have "w_dev (vs_world (link_world 0 demo_db)) = Ignoring 0" "vs_fail (link_world 0 demo_db) = 0" by (simp_all add: link_world_def)
  moreover have "5 * 0 + max 1 1 \<le> (25::nat)" by simp
  ultimately obtain w' where "run_slice (link_env 1) (link_world 0 demo_db) = (Inr 0, w')"
    using slice_returns [OF link_env_contract _ _ link_env_ok] by blast
  with slice_exit_sound [OF this] show ?thesis by (auto simp: link_world_def)
qed

end
