(* ===== verification/CorpusLoad.thy ===== *)
theory CorpusLoad
  imports CorpusCheck Traffic
begin

text \<open>
  Collection under load, \<open>scripts/corpus_run_v3.py\<close>: background traffic runs during the window of every
  incident and the telemetry of every fabric-link endpoint is captured. The tables, the lab, the fault
  phases and the run loop are those of \<open>Corpus\<close>; the traffic commands those of \<open>Traffic\<close>.
  The fabric description read from \<open>lab/fabric.yaml\<close> is a parameter.
\<close>

section \<open>The runner\<close>

definition LOAD_KEY :: string where "LOAD_KEY = ''gate8-full-corpus-v3''"
definition LOAD_MIN_FREE_GIB :: pyfloat where "LOAD_MIN_FREE_GIB = 55"

definition TRAFFIC :: traffic_profile where
  "TRAFFIC = \<lparr>tp_name = ''collective_base'', tp_pattern = ''all_to_all'', streams_per_flow = 4, target_bitrate_bps = 30000000,
     tp_duration_s = 60, tp_seed = 1337, incast_target = None, tp_impaired = False\<rparr>"

text \<open>(device, interface, interface id) of every end of a fabric link, by the dictionary keyed by the id.\<close>

type_synonym endpoint = "string \<times> string \<times> string"

definition endpoint_of :: "string \<Rightarrow> endpoint res" where
  "endpoint_of iid =
     (case split_first '':'' iid of
        None \<Rightarrow> Inl (ValueError ''not enough values to unpack (expected 2, got 1)'')
      | Some (dev, ifc) \<Rightarrow> Inr (dev, ifc, iid))"

definition fabric_ids :: "typed_graph \<Rightarrow> string list" where
  "fabric_ids g =
     concat (map (\<lambda>l. [fst (cl_endpoints l), snd (cl_endpoints l)]) (filter (\<lambda>l. cl_kind l = Fabric_link) (candidate_links g)))"

definition fabric_link_endpoints :: "(string \<Rightarrow> string) \<Rightarrow> (pyfloat \<Rightarrow> string) \<Rightarrow> fabric_spec \<Rightarrow> endpoint list res" where
  "fabric_link_endpoints sha fr spec =
     bindr (allocate spec) (\<lambda>topo.
     bindr (build_topology_graph sha fr topo) (\<lambda>g.
     bindr (map_res endpoint_of (fabric_ids g)) (\<lambda>eps.
     Inr (sort (map snd (dict_comp (\<lambda>e. snd (snd e)) (\<lambda>e. e) eps))))))"

definition docker_of :: "dexec \<Rightarrow> command" where "docker_of d = Docker (dexec_argv d)"

definition send_hosts :: "'l lab \<Rightarrow> dexec list \<Rightarrow> (unit, 'l) step" where
  "send_hosts lb ds = Corpus.run_cmds lb (map docker_of ds)"

definition raisew :: "exn \<Rightarrow> ('a, 'l) step" where "raisew e w = (Inl e, w)"

fun start_clients :: "'l lab \<Rightarrow> traffic_profile \<Rightarrow> int \<Rightarrow> flow list \<Rightarrow> (unit, 'l) step" where
  "start_clients lb p dur [] w = (Inr (), w)"
| "start_clients lb p dur (f # fs) w =
     (case client_cmd p dur f of
        Inl e \<Rightarrow> raisew e
      | Inr d \<Rightarrow> bindw (run_cmd lb (docker_of d)) (\<lambda>_. start_clients lb p dur fs)) w"

definition start_load :: "'l lab \<Rightarrow> traffic_profile \<Rightarrow> int \<Rightarrow> string list \<Rightarrow> (unit, 'l) step" where
  "start_load lb p dur hs =
     bindw (send_hosts lb (prepare_hosts hs @ stop_traffic hs)) (\<lambda>_.
     case plan_flows p hs of
       Inl e \<Rightarrow> raisew e
     | Inr flows \<Rightarrow>
         bindw (send_hosts lb (map server_cmd (sorted_list_of_set ((\<lambda>f. (fl_dst f, fl_port f)) ` set flows)))) (\<lambda>_.
         bindw (sleepw lb 1) (\<lambda>_. start_clients lb p dur flows)))"

definition stop_load :: "'l lab \<Rightarrow> (unit, 'l) step" where "stop_load lb = send_hosts lb (stop_traffic HOSTS)"

definition open_loaded :: "nat \<Rightarrow> string \<Rightarrow> string \<Rightarrow> string \<Rightarrow> string \<Rightarrow> int \<Rightarrow> (nat, 'l) step" where
  "open_loaded cid fc leaf iface split seed w =
     (let d = cw_db w; i = c_next d in
      (Inr i, w\<lparr>cw_db := d\<lparr>injections := injections d @
          [\<lparr>fi_id = i, fi_campaign = cid, fi_class = fc, fi_shard = leaf, fi_target = target_of leaf iface,
            fi_parameters = [(''split'', JStr split), (''under_load'', JBool True)], fi_traffic_seed = seed, fi_fault_seed = seed,
            fi_status = ''injecting'', fi_simulated = True, fi_observed_at = None\<rparr>], c_next := Suc i\<rparr>,
        cw_trace := cw_trace w @ [Committed i ''injecting'']\<rparr>))"

text \<open>A captured window: interface id, path and bytes.\<close>

type_synonym captured = "string \<times> string \<times> string"

definition file_part :: "string \<Rightarrow> string" where
  "file_part iid = map (\<lambda>c. if c = CHR '':'' then CHR ''-'' else if c = CHR ''/'' then CHR ''_'' else c) iid"

definition loaded_path :: "tools \<Rightarrow> string \<Rightarrow> pyfloat \<Rightarrow> nat \<Rightarrow> string \<Rightarrow> string" where
  "loaded_path tk topo read_at i iid =
     ''data/raw_telemetry/campaign='' @ LOAD_KEY @ ''/topo='' @ topo @ ''/date='' @ t_date tk read_at @
     ''/incident-'' @ show_nat i @ ''--'' @ file_part iid @ ''.parquet''"

definition capture_endpoint :: "'l lab \<Rightarrow> tools \<Rightarrow> string \<Rightarrow> pyfloat \<Rightarrow> pyfloat \<Rightarrow> nat \<Rightarrow> endpoint \<Rightarrow> (captured, 'l) step" where
  "capture_endpoint lb tk topo start stop i e w =
     (let (dev, ifc, iid) = e; read_at = lab_now lb (cw_lab w) in
      case capture_window (t_float tk) (lab_fetch lb (cw_lab w)) read_at dev ifc start stop topo of
        Inl x \<Rightarrow> (Inl x, w)
      | Inr rows \<Rightarrow>
          let path = loaded_path tk topo read_at i iid; bytes = t_write tk rows in
          (Inr (iid, path, bytes), w\<lparr>cw_files := dict_set path bytes (cw_files w)\<rparr>))"

fun capture_all :: "'l lab \<Rightarrow> tools \<Rightarrow> string \<Rightarrow> pyfloat \<Rightarrow> pyfloat \<Rightarrow> nat \<Rightarrow> endpoint list \<Rightarrow> (captured list, 'l) step" where
  "capture_all lb tk topo start stop i [] w = (Inr [], w)"
| "capture_all lb tk topo start stop i (e # es) w =
     bindw (capture_endpoint lb tk topo start stop i e) (\<lambda>c.
     bindw (capture_all lb tk topo start stop i es) (\<lambda>cs. ret (c # cs))) w"

definition loaded_label ::
    "tools \<Rightarrow> string \<Rightarrow> string \<Rightarrow> string \<Rightarrow> string \<Rightarrow> pyfloat \<Rightarrow> pyfloat \<Rightarrow> string \<Rightarrow> json" where
  "loaded_label tk fc leaf iface split onset w_end feature = JObj
     [(''fault_class'', JStr fc), (''target'', json_of_strs (target_of leaf iface)), (''onset_at'', JStr (t_iso tk onset)),
      (''window_start'', JStr (t_iso tk onset)), (''window_end'', JStr (t_iso tk w_end)), (''split'', JStr split),
      (''observed_feature'', JStr feature), (''under_load'', JBool True)]"

definition window_row :: "tools \<Rightarrow> captured \<Rightarrow> artifact" where
  "window_row tk c =
     (case c of (iid, path, bytes) \<Rightarrow>
        \<lparr>ar_kind = ''raw_telemetry_window'', ar_uri = path, ar_sha256 = t_sha tk bytes, ar_byte_size = length bytes\<rparr>)"

definition close_loaded :: "tools \<Rightarrow> nat \<Rightarrow> string \<Rightarrow> pyfloat \<Rightarrow> json \<Rightarrow> captured list \<Rightarrow> (unit, 'l) step" where
  "close_loaded tk i status onset label caps w =
     (let d = set_outcome i status onset (cw_db w);
          arts = map (window_row tk) caps;
          d' = (if status = ''settled''
                then d\<lparr>labels := labels d @ [label_row tk i label], artifacts := artifacts d @ arts\<rparr> else d)
      in
      if status = ''settled'' \<and> i \<in> set (map gl_injection (labels d)) then (Inl (IntegrityError ''uq_gtlabel_injection''), w)
      else if status = ''settled'' \<and> \<not> distinct (map ar_sha256 (artifacts d @ arts))
      then (Inl (IntegrityError ''uq_artifact_sha256''), w)
      else (Inr (), w\<lparr>cw_db := d', cw_trace := cw_trace w @ [Committed i status]\<rparr>))"

fun unlink_all :: "captured list \<Rightarrow> (unit, 'l) step" where
  "unlink_all [] w = (Inr (), w)"
| "unlink_all (c # cs) w = bindw (unlink (fst (snd c))) (\<lambda>_. unlink_all cs) w"

definition restore_loaded :: "'l lab \<Rightarrow> fault \<Rightarrow> (bool, 'l) step" where
  "restore_loaded lb f =
     bindw (Corpus.run_cmds lb (fault_clear f)) (\<lambda>_.
     bindw (stop_load lb) (\<lambda>_.
     bindw (sleepw lb 3) (\<lambda>_.
     clean_between lb (f_node f) (iface_netdev f))))"

definition conclude_loaded :: "tools \<Rightarrow> nat \<Rightarrow> string \<Rightarrow> pyfloat \<Rightarrow> json \<Rightarrow> captured list \<Rightarrow> (string, 'l) step" where
  "conclude_loaded tk i status onset label caps =
     bindw (close_loaded tk i status onset label caps) (\<lambda>_.
     bindw (if status \<noteq> ''settled'' then unlink_all caps else ret ()) (\<lambda>_.
     ret status))"

definition window_seconds :: "string \<Rightarrow> nat" where "window_seconds fc = (if gray fc then 40 else 25)"

definition collect_loaded ::
    "'l lab \<Rightarrow> tools \<Rightarrow> nat \<Rightarrow> string \<Rightarrow> endpoint list \<Rightarrow> string \<Rightarrow> string \<Rightarrow> string \<Rightarrow> string \<Rightarrow> string \<Rightarrow> int \<Rightarrow> (string, 'l) step" where
  "collect_loaded lb tk cid topo eps fc leaf netdev iface split seed =
     (let f = \<lparr>fault_class = fc, f_node = leaf, iface_netdev = netdev, iface_srl = iface\<rparr> in
      bindw (noww lb) (\<lambda>onset.
      bindw (open_loaded cid fc leaf iface split seed) (\<lambda>i.
      bindw (start_load lb TRAFFIC (int (window_seconds fc) + 20) HOSTS) (\<lambda>_.
      bindw (sleepw lb 3) (\<lambda>_.
      bindw (inject_phase lb f) (\<lambda>(onset_ok, feature).
      bindw (noww lb) (\<lambda>w_end.
      bindw (capture_all lb tk topo onset w_end i eps) (\<lambda>caps.
      bindw (restore_loaded lb f) (\<lambda>lab_clean.
      conclude_loaded tk i (if onset_ok \<and> lab_clean then ''settled'' else ''quarantined'') onset
        (loaded_label tk fc leaf iface split onset w_end feature) caps)))))))))"

definition load_campaign :: "corpus_db \<Rightarrow> nat \<times> corpus_db" where
  "load_campaign d =
     (case find (\<lambda>c. ca_key c = LOAD_KEY) (campaigns d) of
        Some c \<Rightarrow> (ca_id c, d)
      | None \<Rightarrow> (c_next d, d\<lparr>campaigns := campaigns d @ [\<lparr>ca_id = c_next d, ca_key = LOAD_KEY,
           ca_revision = ''gate12.5'', ca_seed = 1337, ca_status = ''running''\<rparr>], c_next := Suc (c_next d)\<rparr>))"

definition collect_loaded_cell :: "'l lab \<Rightarrow> tools \<Rightarrow> nat \<Rightarrow> string \<Rightarrow> endpoint list \<Rightarrow> string \<times> string \<Rightarrow> nat \<Rightarrow> (string, 'l) step" where
  "collect_loaded_cell lb tk cid topo eps cell idx =
     (let (netdev, iface) = UPLINKS ! (idx mod length UPLINKS) in
      collect_loaded lb tk cid topo eps (fst cell) (snd cell) netdev iface (split_of (snd cell)) (int idx + 1))"

text \<open>\<open>run\<close>, and the script, which first stops traffic that is left over.\<close>

definition load_run :: "'l lab \<Rightarrow> tools \<Rightarrow> fabric_spec \<Rightarrow> string \<Rightarrow> nat \<Rightarrow> nat \<Rightarrow> 'l cworld \<Rightarrow> (int res \<times> 'l cworld) option" where
  "load_run lb tk spec topo batch target_total w =
     (if lab_free_gib lb (cw_lab w) < LOAD_MIN_FREE_GIB then Some (Inr 1, w)
      else
        let (cid, d) = load_campaign (cw_db w); w0 = w\<lparr>cw_db := d\<rparr> in
        case fabric_link_endpoints (t_sha tk) (t_fr tk) spec of
          Inl e \<Rightarrow> Some (Inl e, w0)
        | Inr eps \<Rightarrow>
            let per_cell = (target_total + length corpus_cells - 1) div length corpus_cells;
                counts = counts_by_stratum cid d;
                total = sum_list (map snd counts)
            in
            map_option (\<lambda>(r, w1). (bindr r (\<lambda>_. Inr 0), w1))
              (collect_loop (collect_loaded_cell lb tk cid topo eps) (\<lambda>l. lab_free_gib lb l < LOAD_MIN_FREE_GIB)
                 (min batch (target_total - total)) per_cell
                 \<lparr>rs_counts = counts, rs_collected = 0, rs_quarantined = 0, rs_idx = total\<rparr> w0))"

definition load_main :: "'l lab \<Rightarrow> tools \<Rightarrow> fabric_spec \<Rightarrow> string \<Rightarrow> nat \<Rightarrow> nat \<Rightarrow> 'l cworld \<Rightarrow> (int res \<times> 'l cworld) option" where
  "load_main lb tk spec topo batch target_total w =
     (case stop_load lb w of
        (Inl e, w1) \<Rightarrow> Some (Inl e, w1)
      | (Inr _, w1) \<Rightarrow> load_run lb tk spec topo batch target_total w1)"

section \<open>The commands of a collection\<close>

lemma commanded_raisew [commanded_intros]: "commanded cs (raisew e)"
  by (auto simp: commanded_def raisew_def)

lemma commanded_send [commanded_intros]: "commanded (map docker_of ds) (send_hosts lb ds)"
  unfolding send_hosts_def by (rule commanded_run_cmds)

lemma commanded_clients:
  "commanded (map docker_of (fst (Traffic.run_cmds (map (client_cmd p dur) fs)))) (start_clients lb p dur fs)"
proof (induction fs)
  case Nil
  show ?case by (auto simp: commanded_def)
next
  case (Cons f fs)
  show ?case
  proof (cases "client_cmd p dur f")
    case (Inl e)
    then have "start_clients lb p dur (f # fs) = raisew e" by (intro ext) simp
    with Inl commanded_raisew show ?thesis by simp
  next
    case (Inr d)
    then have "start_clients lb p dur (f # fs) = bindw (run_cmd lb (docker_of d)) (\<lambda>_. start_clients lb p dur fs)" by (intro ext) simp
    moreover have "commanded ([docker_of d] @ map docker_of (fst (Traffic.run_cmds (map (client_cmd p dur) fs))))
        (bindw (run_cmd lb (docker_of d)) (\<lambda>_. start_clients lb p dur fs))"
      by (rule commanded_bindw [OF commanded_run_cmd Cons.IH])
    ultimately show ?thesis using Inr by (simp add: case_prod_beta)
  qed
qed

text \<open>Starting the load sends the command sequence of \<open>Traffic.start_background_traffic\<close>.\<close>

lemma commanded_start_load [commanded_intros]:
  "commanded (map docker_of (fst (start_background_traffic p dur hs))) (start_load lb p dur hs)"
proof (cases "plan_flows p hs")
  case (Inl e)
  have "commanded (map docker_of (prepare_hosts hs @ stop_traffic hs) @ [])
      (bindw (send_hosts lb (prepare_hosts hs @ stop_traffic hs)) (\<lambda>_. raisew e))"
    by (intro commanded_bindw commanded_intros)
  then show ?thesis using Inl run_cmds_Inr [of "prepare_hosts hs @ stop_traffic hs" "[Inl e]"]
    by (simp add: start_load_def start_background_traffic_def)
next
  case (Inr flows)
  let ?S = "map server_cmd (sorted_list_of_set ((\<lambda>f. (fl_dst f, fl_port f)) ` set flows))"
  have "commanded (map docker_of (prepare_hosts hs @ stop_traffic hs) @ map docker_of ?S @ [] @
      map docker_of (fst (Traffic.run_cmds (map (client_cmd p dur) flows))))
      (bindw (send_hosts lb (prepare_hosts hs @ stop_traffic hs)) (\<lambda>_.
         bindw (send_hosts lb ?S) (\<lambda>_. bindw (sleepw lb 1) (\<lambda>_. start_clients lb p dur flows))))"
    by (intro commanded_bindw commanded_intros commanded_clients)
  then show ?thesis using Inr run_cmds_Inr [of "prepare_hosts hs @ stop_traffic hs @ ?S" "map (client_cmd p dur) flows"]
    by (simp add: start_load_def start_background_traffic_def case_prod_beta comp_def)
qed

definition load_commands :: "string \<Rightarrow> command list" where
  "load_commands fc = map docker_of (fst (start_background_traffic TRAFFIC (int (window_seconds fc) + 20) HOSTS))"

definition restore_commands :: "fault \<Rightarrow> command list" where
  "restore_commands f = fault_clear f @ map docker_of (stop_traffic HOSTS) @ clean_commands (f_node f) (iface_netdev f)"

definition loaded_plan :: "fault \<Rightarrow> command list" where
  "loaded_plan f = load_commands (fault_class f) @ fault_apply f @ onset_commands f @ [sr_info (f_node f) (iface_srl f)] @ restore_commands f"

lemma commanded_restore_loaded [commanded_intros]: "commanded (restore_commands f) (restore_loaded lb f)"
proof -
  have "commanded (fault_clear f @ map docker_of (stop_traffic HOSTS) @ [] @ clean_commands (f_node f) (iface_netdev f)) (restore_loaded lb f)"
    unfolding restore_loaded_def stop_load_def by (intro commanded_bindw commanded_intros)
  then show ?thesis by (simp add: restore_commands_def)
qed

section \<open>The windows\<close>

definition write_all :: "captured list \<Rightarrow> (string, string) dict \<Rightarrow> (string, string) dict" where
  "write_all caps fs = fold (\<lambda>c. dict_set (fst (snd c)) (snd (snd c))) caps fs"

text \<open>The windows of the endpoints, in order: each under a path of the injection and its endpoint.\<close>

definition windows_of :: "tools \<Rightarrow> string \<Rightarrow> nat \<Rightarrow> endpoint list \<Rightarrow> captured list \<Rightarrow> bool" where
  "windows_of tk topo i eps caps \<longleftrightarrow>
     list_all2 (\<lambda>e c. fst c = snd (snd e) \<and> (\<exists>u. fst (snd c) = loaded_path tk topo u i (snd (snd e))) \<and> (\<exists>rows. snd (snd c) = t_write tk rows)) eps caps"

lemma capture_endpoint_cases:
  assumes "capture_endpoint lb tk topo a b i e w = (r, w')"
  shows "cw_db w' = cw_db w \<and> cw_trace w' = cw_trace w \<and>
    (case r of Inl x \<Rightarrow> cw_files w' = cw_files w
     | Inr c \<Rightarrow> windows_of tk topo i [e] [c] \<and> cw_files w' = write_all [c] (cw_files w))"
  using assms by (cases e) (auto simp: capture_endpoint_def windows_of_def write_all_def Let_def split: sum.splits)

lemma capture_all_cases:
  assumes "capture_all lb tk topo a b i eps w = (r, w')"
  shows "cw_db w' = cw_db w \<and> cw_trace w' = cw_trace w \<and>
    (case r of Inl x \<Rightarrow> (\<exists>es caps. prefix es eps \<and> windows_of tk topo i es caps \<and> cw_files w' = write_all caps (cw_files w))
     | Inr caps \<Rightarrow> windows_of tk topo i eps caps \<and> cw_files w' = write_all caps (cw_files w))"
  using assms
proof (induction eps arbitrary: w r w')
  case Nil
  then show ?case by (auto simp: windows_of_def write_all_def)
next
  case (Cons e eps)
  obtain r1 w1 where 1: "capture_endpoint lb tk topo a b i e w = (r1, w1)" by force
  note C = capture_endpoint_cases [OF 1]
  show ?case
  proof (cases r1)
    case (Inl x)
    with Cons.prems 1 have "r = Inl x" "w' = w1" by (auto simp: bindw_def)
    with C Inl show ?thesis by (auto simp: windows_of_def write_all_def intro!: exI [of _ "[]"])
  next
    case (Inr c)
    obtain r2 w2 where 2: "capture_all lb tk topo a b i eps w1 = (r2, w2)" by force
    note D = Cons.IH [OF 2]
    have fin: "r = (case r2 of Inl x \<Rightarrow> Inl x | Inr cs \<Rightarrow> Inr (c # cs)) \<and> w' = w2"
      using Cons.prems 1 2 Inr by (cases r2) (auto simp: bindw_def ret_def)
    have h: "windows_of tk topo i [e] [c]" "cw_files w1 = write_all [c] (cw_files w)" using C Inr by simp_all
    have w: "write_all cs (cw_files w1) = write_all (c # cs) (cw_files w)" for cs using h(2) by (simp add: write_all_def)
    have l: "windows_of tk topo i (e # es) (c # cs)" if "windows_of tk topo i es cs" for es cs
      using h(1) that by (simp add: windows_of_def)
    show ?thesis
    proof (cases r2)
      case (Inl x)
      with D obtain es caps where "prefix es eps" "windows_of tk topo i es caps" "cw_files w2 = write_all caps (cw_files w1)" by auto
      with l w have "prefix (e # es) (e # eps) \<and> windows_of tk topo i (e # es) (c # caps) \<and> cw_files w2 = write_all (c # caps) (cw_files w)" by simp
      then have "\<exists>es caps. prefix es (e # eps) \<and> windows_of tk topo i es caps \<and> cw_files w2 = write_all caps (cw_files w)" by blast
      then show ?thesis using fin Inl conjunct1 [OF C] conjunct1 [OF conjunct2 [OF C]] conjunct1 [OF D] conjunct1 [OF conjunct2 [OF D]]
        by simp
    next
      case (Inr cs)
      with D l w fin C show ?thesis by simp
    qed
  qed
qed

section \<open>What one collection does\<close>

definition opened_loaded :: "nat \<Rightarrow> string \<Rightarrow> string \<Rightarrow> string \<Rightarrow> string \<Rightarrow> int \<Rightarrow> corpus_db \<Rightarrow> corpus_db" where
  "opened_loaded cid fc leaf iface split seed d =
     d\<lparr>injections := injections d @
        [\<lparr>fi_id = c_next d, fi_campaign = cid, fi_class = fc, fi_shard = leaf, fi_target = target_of leaf iface,
          fi_parameters = [(''split'', JStr split), (''under_load'', JBool True)], fi_traffic_seed = seed, fi_fault_seed = seed,
          fi_status = ''injecting'', fi_simulated = True, fi_observed_at = None\<rparr>], c_next := Suc (c_next d)\<rparr>"

definition loaded_db :: "tools \<Rightarrow> nat \<Rightarrow> pyfloat \<Rightarrow> json \<Rightarrow> captured list \<Rightarrow> corpus_db \<Rightarrow> corpus_db" where
  "loaded_db tk i onset label caps d =
     (let d1 = set_outcome i ''settled'' onset d in
      d1\<lparr>labels := labels d1 @ [label_row tk i label], artifacts := artifacts d1 @ map (window_row tk) caps\<rparr>)"

definition loaded_abandoned ::
    "tools \<Rightarrow> string \<Rightarrow> endpoint list \<Rightarrow> nat \<Rightarrow> corpus_db \<Rightarrow> corpus_event list \<Rightarrow> (string, string) dict \<Rightarrow> command list \<Rightarrow> 'l cworld \<Rightarrow> bool" where
  "loaded_abandoned tk topo eps i d t fs cs w \<longleftrightarrow>
     cw_db w = d \<and> (\<exists>xs. prefix xs cs \<and> cw_trace w = t @ map Ran xs) \<and>
     (\<exists>es caps. prefix es eps \<and> windows_of tk topo i es caps \<and> cw_files w = write_all caps fs)"

definition loaded_concluded ::
    "tools \<Rightarrow> string \<Rightarrow> endpoint list \<Rightarrow> nat \<Rightarrow> corpus_db \<Rightarrow> corpus_event list \<Rightarrow> (string, string) dict \<Rightarrow> command list \<Rightarrow> string \<Rightarrow> 'l cworld \<Rightarrow> bool" where
  "loaded_concluded tk topo eps i d t fs cs s w \<longleftrightarrow>
     cw_trace w = t @ map Ran cs @ [Committed i s] \<and>
     (\<exists>onset label caps. windows_of tk topo i eps caps \<and>
        (s = ''settled'' \<and> cw_db w = loaded_db tk i onset label caps d \<and> distinct (map ar_sha256 (artifacts (cw_db w))) \<and>
           cw_files w = write_all caps fs \<or>
         s = ''quarantined'' \<and> cw_db w = set_outcome i ''quarantined'' onset d \<and>
           cw_files w = filter (\<lambda>(p, _). p \<notin> (\<lambda>c. fst (snd c)) ` set caps) (write_all caps fs)))"

lemma unlink_all_eq:
  "unlink_all cs w = (Inr (), w\<lparr>cw_files := filter (\<lambda>(p, _). p \<notin> (\<lambda>c. fst (snd c)) ` set cs) (cw_files w)\<rparr>)"
proof (induction cs arbitrary: w)
  case (Cons c cs)
  have "filter (\<lambda>(p, _). p \<notin> (\<lambda>c. fst (snd c)) ` set cs) (filter (\<lambda>(p, _). p \<noteq> fst (snd c)) fs) =
      filter (\<lambda>(p, _). p \<notin> (\<lambda>c. fst (snd c)) ` set (c # cs)) fs" for fs :: "(string \<times> string) list"
    by (auto intro: filter_cong)
  with Cons show ?case by (simp add: bindw_def unlink_def)
qed simp

lemma triple_conclude_loaded:
  fixes E :: "'l cworld \<Rightarrow> bool"
  assumes "\<And>w. ran d t (write_all caps fs) cs w \<Longrightarrow> E w"
    and "windows_of tk topo i eps caps" and "status \<in> {''settled'', ''quarantined''}"
  shows "triple (ran d t (write_all caps fs) cs) (conclude_loaded tk i status onset label caps)
     (loaded_concluded tk topo eps i d t fs cs) E"
  unfolding triple_def
proof (intro allI impI)
  fix w :: "'l cworld" assume w: "ran d t (write_all caps fs) cs w"
  from assms(3) consider (s) "status = ''settled''" | (q) "status = ''quarantined''" by blast
  then show "case conclude_loaded tk i status onset label caps w of
      (Inl e, w') \<Rightarrow> E w' | (Inr a, w') \<Rightarrow> loaded_concluded tk topo eps i d t fs cs a w'"
  proof cases
    case s
    have "loaded_concluded tk topo eps i d t fs cs ''settled'' (w\<lparr>cw_db := loaded_db tk i onset label caps d,
        cw_trace := cw_trace w @ [Committed i ''settled'']\<rparr>)"
      if "distinct (map ar_sha256 (artifacts d @ map (window_row tk) caps))"
      unfolding loaded_concluded_def using w assms(2) that
      by (intro conjI exI [of _ onset] exI [of _ label] exI [of _ caps] disjI1) (simp_all add: ran_def loaded_db_def)
    then show ?thesis using assms(1) [OF w] w s
      unfolding conclude_loaded_def bindw_def close_loaded_def ret_def
      by (auto simp: Let_def loaded_db_def ran_def)
  next
    case q
    have "loaded_concluded tk topo eps i d t fs cs ''quarantined'' (w\<lparr>cw_db := set_outcome i ''quarantined'' onset d,
        cw_trace := cw_trace w @ [Committed i ''quarantined''],
        cw_files := filter (\<lambda>(p, _). p \<notin> (\<lambda>c. fst (snd c)) ` set caps) (write_all caps fs)\<rparr>)"
      unfolding loaded_concluded_def using w assms(2)
      by (intro conjI exI [of _ onset] exI [of _ label] exI [of _ caps] disjI2) (simp_all add: ran_def)
    then show ?thesis using w q
      unfolding conclude_loaded_def bindw_def close_loaded_def ret_def
      by (simp add: Let_def ran_def unlink_all_eq)
  qed
qed

lemma triple_capture_all:
  fixes E :: "'l cworld \<Rightarrow> bool"
  assumes "\<And>es caps w. prefix es eps \<Longrightarrow> windows_of tk topo i es caps \<Longrightarrow> ran d t (write_all caps fs) cs w \<Longrightarrow> E w"
  shows "triple (ran d t fs cs) (capture_all lb tk topo a b i eps)
     (\<lambda>caps w. windows_of tk topo i eps caps \<and> ran d t (write_all caps fs) cs w) E"
  unfolding triple_def
proof (intro allI impI)
  fix w :: "'l cworld" assume w: "ran d t fs cs w"
  obtain r w' where c: "capture_all lb tk topo a b i eps w = (r, w')" by force
  from capture_all_cases [OF c] w assms
  show "case capture_all lb tk topo a b i eps w of (Inl e, w') \<Rightarrow> E w'
    | (Inr caps, w') \<Rightarrow> windows_of tk topo i eps caps \<and> ran d t (write_all caps fs) cs w'"
    unfolding c by (cases r) (auto simp: ran_def)
qed

lemma collect_loaded_outcomes:
  assumes "collect_loaded lb tk cid topo eps fc leaf netdev iface split seed w = (r, w')"
    and f: "f = \<lparr>fault_class = fc, f_node = leaf, iface_netdev = netdev, iface_srl = iface\<rparr>" and i: "i = c_next (cw_db w)"
    and d: "d = opened_loaded cid fc leaf iface split seed (cw_db w)" and t: "t = cw_trace w @ [Committed i ''injecting'']"
  shows "case r of Inl e \<Rightarrow> loaded_abandoned tk topo eps i d t (cw_files w) (loaded_plan f) w'
    | Inr s \<Rightarrow> loaded_concluded tk topo eps i d t (cw_files w) (loaded_plan f) s w'"
proof -
  let ?fs = "cw_files w"
  let ?E = "loaded_abandoned tk topo eps i d t ?fs (loaded_plan f)"
  let ?Q = "loaded_concluded tk topo eps i d t ?fs (loaded_plan f)"
  let ?l = "load_commands fc" and ?in = "fault_apply f @ onset_commands f @ [sr_info (f_node f) (iface_srl f)]"
  let ?a = "?l @ ?in" and ?x = "restore_commands f"
  have pl: "loaded_plan f = ?a @ ?x" by (simp add: loaded_plan_def f)
  have pa: "prefix ?a (loaded_plan f)" unfolding pl by (rule prefixI) (rule refl)
  have E1: "?E w1" if "ran d t (write_all caps ?fs) cs w1" "prefix cs (loaded_plan f)" "prefix es eps" "windows_of tk topo i es caps"
    for cs es caps w1
    using that by (auto simp: loaded_abandoned_def ran_def)
  have E0: "?E w1" if "ran d t ?fs cs w1" "prefix cs (loaded_plan f)" for cs w1
    using that E1 [of "[]" cs w1 "[]"] by (simp add: write_all_def windows_of_def)
  have fin: "triple (\<lambda>w. windows_of tk topo i eps caps \<and> ran d t (write_all caps ?fs) ?a w)
      (bindw (restore_loaded lb f) (\<lambda>lab_clean.
        conclude_loaded tk i (if ok \<and> lab_clean then ''settled'' else ''quarantined'') onset label caps)) ?Q ?E"
    for caps ok onset label
  proof (cases "windows_of tk topo i eps caps")
    case True
    have "triple (ran d t (write_all caps ?fs) ?a) (restore_loaded lb f)
        (\<lambda>_. ran d t (write_all caps ?fs) (?a @ ?x)) ?E"
      by (rule triple_commanded [OF commanded_restore_loaded], rule E1 [OF _ _ prefix_order.order_refl True], assumption)
        (simp add: pl)
    moreover have "triple (ran d t (write_all caps ?fs) (?a @ ?x))
        (conclude_loaded tk i (if ok \<and> cl then ''settled'' else ''quarantined'') onset label caps) ?Q ?E" for cl
      unfolding pl [symmetric]
      by (rule triple_conclude_loaded [OF E1 [OF _ _ prefix_order.order_refl True] True]) auto
    ultimately have "triple (ran d t (write_all caps ?fs) ?a)
      (bindw (restore_loaded lb f) (\<lambda>lab_clean.
        conclude_loaded tk i (if ok \<and> lab_clean then ''settled'' else ''quarantined'') onset label caps)) ?Q ?E"
      by (rule triple_bindw)
    then show ?thesis by (auto simp: triple_def)
  qed (auto simp: triple_def)
  have cap: "triple (ran d t ?fs ?a) (bindw (noww lb) (\<lambda>w_end.
      bindw (capture_all lb tk topo onset w_end i eps) (\<lambda>caps.
      bindw (restore_loaded lb f) (\<lambda>lab_clean.
      conclude_loaded tk i (if ok \<and> lab_clean then ''settled'' else ''quarantined'') onset
        (loaded_label tk fc leaf iface split onset w_end feature) caps)))) ?Q ?E" for onset ok feature
  proof (rule triple_bindw)
    show "triple (ran d t ?fs ?a) (noww lb) (\<lambda>_. ran d t ?fs ?a) ?E" by (simp add: triple_def noww_def)
    show "triple (ran d t ?fs ?a) (bindw (capture_all lb tk topo onset w_end i eps) (\<lambda>caps.
      bindw (restore_loaded lb f) (\<lambda>lab_clean.
      conclude_loaded tk i (if ok \<and> lab_clean then ''settled'' else ''quarantined'') onset
        (loaded_label tk fc leaf iface split onset w_end feature) caps))) ?Q ?E" for w_end
      by (rule triple_bindw [OF triple_capture_all fin], rule E1 [OF _ pa])
  qed
  define rest where "rest onset = bindw (start_load lb TRAFFIC (int (window_seconds fc) + 20) HOSTS) (\<lambda>_.
      bindw (sleepw lb 3) (\<lambda>_.
      bindw (inject_phase lb f) (\<lambda>(onset_ok, feature).
      bindw (noww lb) (\<lambda>w_end.
      bindw (capture_all lb tk topo onset w_end i eps) (\<lambda>caps.
      bindw (restore_loaded lb f) (\<lambda>lab_clean.
      conclude_loaded tk i (if onset_ok \<and> lab_clean then ''settled'' else ''quarantined'') onset
        (loaded_label tk fc leaf iface split onset w_end feature) caps))))))" for onset
  have load: "triple (ran d t ?fs []) (start_load lb TRAFFIC (int (window_seconds fc) + 20) HOSTS) (\<lambda>_. ran d t ?fs ?l) ?E"
  proof -
    have "commanded ?l (start_load lb TRAFFIC (int (window_seconds fc) + 20) HOSTS)"
      unfolding load_commands_def by (rule commanded_start_load)
    moreover have "prefix xs (loaded_plan f)" if "prefix xs ?l" for xs
      unfolding pl using that by (simp add: prefix_order.order_trans [OF _ prefixI [OF refl]])
    ultimately show ?thesis using triple_commanded [where cs = "[]", unfolded append_Nil] E0 by blast
  qed
  have ramp: "triple (ran d t ?fs ?l) (sleepw lb 3) (\<lambda>_. ran d t ?fs ?l) ?E"
    by (simp add: triple_def sleepw_def ran_def)
  have inj: "triple (ran d t ?fs ?l) (inject_phase lb f) (\<lambda>_. ran d t ?fs ?a) ?E"
  proof (rule triple_commanded [OF commanded_inject])
    fix xs and w1 :: "'a cworld" assume "prefix xs ?in" and r: "ran d t ?fs (?l @ xs) w1"
    then have "prefix (?l @ xs) ?a" by simp
    from E0 [OF r prefix_order.order_trans [OF this pa]] show "?E w1" .
  qed
  have "triple (ran d t ?fs []) (rest onset) ?Q ?E" for onset
    unfolding rest_def by (rule triple_bindw [OF load], rule triple_bindw [OF ramp], rule triple_bindw [OF inj]) (auto intro: cap)
  moreover have "ran d t ?fs [] (w\<lparr>cw_db := d, cw_trace := t\<rparr>)" by (simp add: ran_def)
  moreover have "rest (lab_now lb (cw_lab w)) (w\<lparr>cw_db := d, cw_trace := t\<rparr>) = (r, w')"
    using assms(1) unfolding collect_loaded_def Let_def f [symmetric]
    by (simp add: bindw_def [of "noww lb"] bindw_def [of "open_loaded _ _ _ _ _ _"] noww_def open_loaded_def Let_def
        rest_def opened_loaded_def i d t)
  ultimately show ?thesis unfolding triple_def by (cases r) (metis (no_types, lifting) prod.case sum.case)+
qed


section \<open>A telemetry store without data\<close>

definition if_returns :: "('a \<Rightarrow> bool) \<Rightarrow> ('a, 'l) step \<Rightarrow> bool" where
  "if_returns P m \<longleftrightarrow> (\<forall>w a w'. m w = (Inr a, w') \<longrightarrow> P a)"

lemma if_returns_bindw: "if_returns P m \<Longrightarrow> (\<And>a. P a \<Longrightarrow> if_returns Q (f a)) \<Longrightarrow> if_returns Q (bindw m f)"
  by (fastforce simp: if_returns_def bindw_def split: prod.splits sum.splits)

lemma if_returns_any: "if_returns (\<lambda>_. True) m"
  by (simp add: if_returns_def)

definition dark :: "'l lab \<Rightarrow> bool" where
  "dark lb \<longleftrightarrow> (\<forall>l m nd iface a b. lab_fetch lb l m nd iface a b = [])"

lemma concat_nils: "concat (map (\<lambda>_. []) cs) = []"
  by (induction cs) auto

lemma dark_endpoint: "dark lb \<Longrightarrow> if_returns (\<lambda>c. snd (snd c) = t_write tk []) (capture_endpoint lb tk topo a b i e)"
proof -
  assume d: "dark lb"
  have cp: "map_res (counter_points (t_float tk) (\<lambda>m. [])) cs = Inr (map (\<lambda>_. []) cs)" for cs
    by (induction cs) (auto simp: counter_points_def split: prod.split)
  with d cp show ?thesis
    by (cases e) (auto simp: if_returns_def capture_endpoint_def capture_window_def dark_def oper_points_def number_rows_def concat_nils Let_def)
qed

lemma dark_windows: "dark lb \<Longrightarrow> if_returns (\<lambda>cs. length cs = length eps \<and> (\<forall>c \<in> set cs. snd (snd c) = t_write tk [])) (capture_all lb tk topo a b i eps)"
proof (induction eps)
  case Nil
  then show ?case by (simp add: if_returns_def)
next
  case (Cons e eps)
  have "capture_all lb tk topo a b i (e # eps) = bindw (capture_endpoint lb tk topo a b i e) (\<lambda>c.
     bindw (capture_all lb tk topo a b i eps) (\<lambda>cs. ret (c # cs)))" by (intro ext) simp
  then show ?case
    by (simp only:) (intro if_returns_bindw [OF dark_endpoint [OF Cons.prems]] if_returns_bindw [OF Cons.IH [OF Cons.prems]],
      simp add: if_returns_def ret_def)
qed

text \<open>Windows without rows have the same bytes, and the hashes of the artifact table are unique.\<close>

lemma dark_conclude:
  assumes "2 \<le> length caps" and "\<forall>c \<in> set caps. snd (snd c) = b"
  shows "if_returns (\<lambda>s. s \<noteq> ''settled'') (conclude_loaded tk i status onset label caps)"
proof -
  obtain x y cs where c: "caps = x # y # cs" using assms(1) by (cases caps rule: remdups_adj.cases) auto
  have "ar_sha256 (window_row tk x) = ar_sha256 (window_row tk y)"
    using assms(2) c by (auto simp: window_row_def split: prod.splits)
  then have "\<not> distinct (map ar_sha256 (as @ map (window_row tk) caps))" for as by (simp add: c)
  then show ?thesis
    by (auto simp: if_returns_def conclude_loaded_def close_loaded_def bindw_def ret_def Let_def split: if_splits prod.splits sum.splits)
qed

lemma dark_collect:
  assumes "dark lb" and "2 \<le> length eps"
  shows "if_returns (\<lambda>s. s \<noteq> ''settled'') (collect_loaded lb tk cid topo eps fc leaf netdev iface split seed)"
proof -
  have "if_returns (\<lambda>s. s \<noteq> ''settled'') (bindw (capture_all lb tk topo onset w_end i eps) (\<lambda>caps.
      bindw (restore_loaded lb f) (\<lambda>lab_clean. conclude_loaded tk i (if ok \<and> lab_clean then ''settled'' else ''quarantined'') onset
        (loaded_label tk fc leaf iface split onset w_end feature) caps)))" for onset w_end i f ok feature
    by (intro if_returns_bindw [OF dark_windows [OF assms(1)]] if_returns_bindw [OF if_returns_any] dark_conclude) (use assms(2) in auto)
  note tail = this
  have seen: "if_returns (\<lambda>s. s \<noteq> ''settled'') (case p of (ok, feature) \<Rightarrow> bindw (noww lb) (\<lambda>w_end.
      bindw (capture_all lb tk topo onset w_end i eps) (\<lambda>caps.
      bindw (restore_loaded lb f) (\<lambda>lab_clean. conclude_loaded tk i (if ok \<and> lab_clean then ''settled'' else ''quarantined'') onset
        (loaded_label tk fc leaf iface split onset w_end feature) caps))))" for p onset i f
    by (cases p) (simp only: prod.case, rule if_returns_bindw [OF if_returns_any], rule tail)
  show ?thesis
    unfolding collect_loaded_def Let_def
    by (rule if_returns_bindw [OF if_returns_any], rule if_returns_bindw [OF if_returns_any], rule if_returns_bindw [OF if_returns_any],
      rule if_returns_bindw [OF if_returns_any], rule if_returns_bindw [OF if_returns_any], rule seen)
qed

section \<open>The endpoints\<close>

lemma endpoint_of_id: "CHR '':'' \<notin> set (ep_node e) \<Longrightarrow> endpoint_of (iface_id e) = Inr (ep_node e, ep_interface e, iface_id e)"
  using split_first_skip [of "CHR '':''" "ep_node e" "[]" "'':'' @ ep_interface e"] split_first_here [of "'':''" "ep_interface e"]
  by (simp add: endpoint_of_def iface_id_def)

lemma endpoint_of_snd: "endpoint_of iid = Inr e \<Longrightarrow> snd (snd e) = iid"
  by (auto simp: endpoint_of_def split: option.splits)

text \<open>A dictionary keyed by a function of the value holds every value once.\<close>

lemma dict_comp_values:
  assumes "inj_on k (set xs)"
  shows "set (map snd (dict_comp k (\<lambda>e. e) xs)) = set xs" and "distinct (map snd (dict_comp k (\<lambda>e. e) xs))"
proof -
  let ?d = "dict_comp k (\<lambda>e. e) xs"
  have dk: "distinct (dict_keys ?d)" unfolding dict_comp_def by (rule fold_dict_set_distinct) simp
  have get: "dict_get ?d q = find (\<lambda>x. k x = q) (rev xs)" for q
    unfolding dict_comp_def fold_dict_set_get by (simp split: option.split)
  have mem: "(q, e) \<in> set ?d \<longleftrightarrow> e \<in> set xs \<and> k e = q" for q e
  proof -
    have "(q, e) \<in> set ?d \<longleftrightarrow> find (\<lambda>x. k x = q) (rev xs) = Some e" using dk get by (metis map_of_eq_Some_iff)
    also have "\<dots> \<longleftrightarrow> e \<in> set xs \<and> k e = q"
    proof
      assume "find (\<lambda>x. k x = q) (rev xs) = Some e"
      then show "e \<in> set xs \<and> k e = q" by (auto simp: find_Some_iff in_set_conv_nth) (metis length_rev nth_mem set_rev in_set_conv_nth)
    next
      assume e: "e \<in> set xs \<and> k e = q"
      then obtain e' where f: "find (\<lambda>x. k x = q) (rev xs) = Some e'"
        by (cases "find (\<lambda>x. k x = q) (rev xs)") (auto simp: find_None_iff)
      then have "e' \<in> set xs" "k e' = q" by (auto simp: find_Some_iff) (metis length_rev nth_mem set_rev)
      with e assms f show "find (\<lambda>x. k x = q) (rev xs) = Some e" by (metis inj_onD)
    qed
    finally show ?thesis .
  qed
  show "set (map snd ?d) = set xs" using mem by force
  have "inj_on snd (set ?d)" by (rule inj_onI) (metis mem prod.collapse)
  then show "distinct (map snd ?d)" using dk by (simp add: distinct_map)
qed

text \<open>The capture set of an allocated fabric whose node names hold no colon is exactly the two ends of every
  fabric link, each once, in sorted order: no spine face is missing and no access link is captured.\<close>

theorem endpoints_exact:
  assumes "allocate spec = Inr topo" and "\<forall>l \<in> set (rt_links topo). CHR '':'' \<notin> set (ep_node (l_a l)) \<and> CHR '':'' \<notin> set (ep_node (l_b l))"
  shows "\<exists>eps. fabric_link_endpoints sha fr spec = Inr eps \<and> distinct eps \<and> sorted eps \<and>
    set eps = {(ep_node e, ep_interface e, iface_id e) |e. \<exists>l \<in> set (rt_links topo). l_kind l = Fabric_link \<and> e \<in> {l_a l, l_b l}}"
proof -
  obtain g where g: "build_topology_graph sha fr topo = Inr g" "candidate_links g = sort_key cl_key (map candidate (rt_links topo))"
    using allocated_graph [OF assms(1)] by blast
  let ?E = "{e. \<exists>l \<in> set (rt_links topo). l_kind l = Fabric_link \<and> e \<in> {l_a l, l_b l}}"
  have ids: "set (fabric_ids g) = iface_id ` ?E"
    unfolding fabric_ids_def g(2) by (auto simp: candidate_def intro!: imageI)
  have "\<exists>y. endpoint_of iid = Inr y" if "iid \<in> set (fabric_ids g)" for iid
    using that assms(2) endpoint_of_id unfolding ids by blast
  then obtain F where F: "endpoint_of iid = Inr (F iid)" if "iid \<in> set (fabric_ids g)" for iid by metis
  have m: "map_res endpoint_of (fabric_ids g) = Inr (map F (fabric_ids g))" by (rule map_res_total) (rule F)
  let ?xs = "map F (fabric_ids g)"
  have key: "snd (snd (F iid)) = iid" if "iid \<in> set (fabric_ids g)" for iid using endpoint_of_snd [OF F [OF that]] .
  have inj: "inj_on (\<lambda>e. snd (snd e)) (set ?xs)" using key by (auto simp: inj_on_def)
  have v: "F (iface_id e) = (ep_node e, ep_interface e, iface_id e)" if "e \<in> ?E" for e
  proof -
    have "iface_id e \<in> set (fabric_ids g)" unfolding ids using that by blast
    moreover have "CHR '':'' \<notin> set (ep_node e)" using that assms(2) by auto
    ultimately show ?thesis using F endpoint_of_id by fastforce
  qed
  have "set ?xs = (\<lambda>e. (ep_node e, ep_interface e, iface_id e)) ` ?E"
  proof -
    have "set ?xs = F ` iface_id ` ?E" using ids by simp
    also have "\<dots> = (\<lambda>e. (ep_node e, ep_interface e, iface_id e)) ` ?E" unfolding image_image by (rule image_cong [OF refl v])
    finally show ?thesis .
  qed
  moreover have "(\<lambda>e. (ep_node e, ep_interface e, iface_id e)) ` ?E =
      {(ep_node e, ep_interface e, iface_id e) |e. \<exists>l \<in> set (rt_links topo). l_kind l = Fabric_link \<and> e \<in> {l_a l, l_b l}}" by auto
  moreover have "fabric_link_endpoints sha fr spec = Inr (sort (map snd (dict_comp (\<lambda>e. snd (snd e)) (\<lambda>e. e) ?xs)))"
    by (simp only: fabric_link_endpoints_def assms(1) g(1) m bindr_simps)
  ultimately show ?thesis using dict_comp_values [OF inj] by (intro exI [of _ "sort (map snd (dict_comp (\<lambda>e. snd (snd e)) (\<lambda>e. e) ?xs))"]) simp
qed

section \<open>The run\<close>

text \<open>Without telemetry the tables of labels and artifacts are an invariant of the collections.\<close>

lemma dark_keeps:
  assumes "dark lb" and "2 \<le> length eps" and "collect_loaded lb tk cid topo eps fc leaf netdev iface split seed w = (r, w')"
  shows "labels (cw_db w') = labels (cw_db w) \<and> artifacts (cw_db w') = artifacts (cw_db w)"
proof (cases r)
  case (Inl e)
  with collect_loaded_outcomes [OF assms(3) refl refl refl refl] show ?thesis by (simp add: loaded_abandoned_def opened_loaded_def)
next
  case (Inr s)
  with assms(3) have "s \<noteq> ''settled''" using dark_collect [OF assms(1,2)] unfolding if_returns_def by metis
  with collect_loaded_outcomes [OF assms(3) refl refl refl refl] Inr show ?thesis by (auto simp: loaded_concluded_def opened_loaded_def)
qed

interpretation loaded: collector "collect_loaded_cell lb tk cid topo eps"
  "\<lambda>_ w. dark lb \<and> 2 \<le> length eps \<and> labels (cw_db w) = L \<and> artifacts (cw_db w) = A" for lb tk cid topo eps L A
  by unfold_locales (auto simp: collect_loaded_cell_def dest: dark_keeps split: prod.splits)

text \<open>A run without telemetry collects nothing. When Prometheus answers every query of a window without data, no
  run ever adds a label or an artifact, whatever the lab does and however the run ends: the windows of two
  endpoints are written with the same bytes, and the second of two equal hashes aborts the transaction.\<close>

theorem dark_run_collects_nothing:
  assumes "\<forall>l m nd iface a b. lab_fetch lb l m nd iface a b = []"
    and "fabric_link_endpoints (t_sha tk) (t_fr tk) spec = Inr eps" and "2 \<le> length eps"
    and "load_run lb tk spec topo batch target_total w = Some (r, w')"
  shows "labels (cw_db w') = labels (cw_db w) \<and> artifacts (cw_db w') = artifacts (cw_db w)"
proof -
  obtain cid d where c: "load_campaign (cw_db w) = (cid, d)" by force
  then have d: "labels d = labels (cw_db w)" "artifacts d = artifacts (cw_db w)"
    by (auto simp: load_campaign_def split: option.splits)
  let ?counts = "counts_by_stratum cid d"
  let ?st = "\<lparr>rs_counts = ?counts, rs_collected = 0, rs_quarantined = 0, rs_idx = sum_list (map snd ?counts)\<rparr>"
  have dk: "dark lb" using assms(1) by (simp add: dark_def)
  from assms(2,4) c consider "w' = w" | y where "collect_loop (collect_loaded_cell lb tk cid topo eps) (\<lambda>l. lab_free_gib lb l < LOAD_MIN_FREE_GIB)
      (min batch (target_total - sum_list (map snd ?counts))) ((target_total + length corpus_cells - 1) div length corpus_cells) ?st (w\<lparr>cw_db := d\<rparr>) = Some y"
      "snd y = w'"
    by (auto simp: load_run_def Let_def split: if_splits)
  then show ?thesis
  proof cases
    case (2 y)
    from loaded.loop_keeps [OF 2(1), of "labels d" "artifacts d"] dk assms(3) 2(2) d show ?thesis by simp
  qed simp
qed

section \<open>Concrete runs\<close>

abbreviation demo_loaded :: "string res \<times> unit cworld" where
  "demo_loaded \<equiv> collect_loaded demo_lab demo_tools 0 ''a3f'' [(''leaf1'', ''ethernet-1/1'', ''leaf1:ethernet-1/1'')]
     ''admin_shutdown'' ''leaf1'' ''e1-1'' ''ethernet-1/1'' ''train'' 1 demo_start"


lemma lab_plain: "\<forall>l \<in> set (rt_links lab_topology). CHR '':'' \<notin> set (ep_node (l_a l)) \<and> CHR '':'' \<notin> set (ep_node (l_b l))"
  by code_simp

theorem endpoints_exact_witness: "\<exists>eps. fabric_link_endpoints (\<lambda>_. []) (\<lambda>_. []) lab_fabric = Inr eps \<and> distinct eps"
  using endpoints_exact [OF lab_allocate lab_plain] by blast

lemma lab_two_ends: "\<exists>eps. fabric_link_endpoints sha fr lab_fabric = Inr eps \<and> 2 \<le> length eps"
proof -
  obtain eps where e: "fabric_link_endpoints sha fr lab_fabric = Inr eps" "distinct eps"
    "set eps = {(ep_node e, ep_interface e, iface_id e) |e. \<exists>l \<in> set (rt_links lab_topology). l_kind l = Fabric_link \<and> e \<in> {l_a l, l_b l}}"
    using endpoints_exact [OF lab_allocate lab_plain] by blast
  let ?l = "hd (rt_links lab_topology)"
  have "case rt_links lab_topology of [] \<Rightarrow> False | l # _ \<Rightarrow> l_kind l = Fabric_link \<and> ep_node (l_a l) \<noteq> ep_node (l_b l)" by code_simp
  then have l: "?l \<in> set (rt_links lab_topology)" "l_kind ?l = Fabric_link" "ep_node (l_a ?l) \<noteq> ep_node (l_b ?l)"
    by (auto split: list.splits)
  then have "{(ep_node (l_a ?l), ep_interface (l_a ?l), iface_id (l_a ?l)), (ep_node (l_b ?l), ep_interface (l_b ?l), iface_id (l_b ?l))} \<subseteq> set eps"
    unfolding e(3) by blast
  then have "card {(ep_node (l_a ?l), ep_interface (l_a ?l), iface_id (l_a ?l)), (ep_node (l_b ?l), ep_interface (l_b ?l), iface_id (l_b ?l))} \<le> card (set eps)"
    by (rule card_mono [OF finite_set])
  with l(3) e(1) distinct_card [OF e(2)] show ?thesis by (intro exI [of _ eps]) simp
qed

text \<open>A lab without telemetry whose first command times out.\<close>

definition dark_lab :: "unit lab" where
  "dark_lab = \<lparr>lab_exec = (\<lambda>c l. (Inl TimeoutExpired, l)), lab_sleep = (\<lambda>s l. l), lab_now = (\<lambda>l. 0),
     lab_fetch = (\<lambda>l m nd iface a b. []), lab_free_gib = (\<lambda>l. 100)\<rparr>"

definition dark_start :: "unit cworld" where
  "dark_start = \<lparr>cw_lab = (), cw_db = empty_corpus, cw_files = [], cw_trace = []\<rparr>"

lemma dark_collect_raises: "fst (collect_loaded dark_lab tk cid topo eps fc leaf netdev iface split seed w) = Inl TimeoutExpired"
proof -
  have "prepare_hosts HOSTS = hd (prepare_hosts HOSTS) # tl (prepare_hosts HOSTS)" by (simp add: prepare_hosts_def HOSTS_def)
  then obtain d ds where "prepare_hosts HOSTS @ stop_traffic HOSTS = d # ds" by (metis append_Cons)
  then show ?thesis
    by (simp add: collect_loaded_def bindw_def noww_def open_loaded_def start_load_def send_hosts_def run_cmd_def dark_lab_def Let_def)
qed

lemma dark_load_run: "\<exists>w'. load_run dark_lab demo_tools lab_fabric ''a3f'' 1 24 dark_start = Some (Inl TimeoutExpired, w')"
proof -
  obtain eps where e: "fabric_link_endpoints (t_sha demo_tools) (t_fr demo_tools) lab_fabric = Inr eps"
    using lab_two_ends [of "t_sha demo_tools" "t_fr demo_tools"] by blast
  obtain cid d where c: "load_campaign (cw_db dark_start) = (cid, d)" by force
  then have "injections d = []" by (auto simp: load_campaign_def dark_start_def empty_corpus_def split: option.splits)
  then have n: "counts_by_stratum cid d = []" by (simp add: counts_by_stratum_def settled_of_def)
  have l: "length corpus_cells = 24" by (simp add: corpus_cells_def CLASSES_def LEAVES_def)
  have x: "next_cell (Suc 0) [] = Some (hd corpus_cells)" by (simp add: next_cell_def corpus_cells_def CLASSES_def LEAVES_def count_of_def)
  have f: "\<not> lab_free_gib dark_lab u < LOAD_MIN_FREE_GIB" for u by (simp add: dark_lab_def LOAD_MIN_FREE_GIB_def)
  obtain w' where w': "collect_loaded_cell dark_lab demo_tools cid ''a3f'' eps (hd corpus_cells) 0 (dark_start\<lparr>cw_db := d\<rparr>) = (Inl TimeoutExpired, w')"
    using dark_collect_raises [of demo_tools cid "''a3f''" eps] by (force simp: collect_loaded_cell_def UPLINKS_def prod_eq_iff)
  have "collect_loop (collect_loaded_cell dark_lab demo_tools cid ''a3f'' eps) (\<lambda>u. lab_free_gib dark_lab u < LOAD_MIN_FREE_GIB) 1 1
      \<lparr>rs_counts = [], rs_collected = 0, rs_quarantined = 0, rs_idx = 0\<rparr> (dark_start\<lparr>cw_db := d\<rparr>) = Some (Inl TimeoutExpired, w')"
    by (subst collect_loop.simps) (simp add: f x w' case_prod_beta)
  then show ?thesis
    by (simp add: load_run_def f c e n l case_prod_beta Let_def)
qed

theorem dark_run_collects_nothing_witness:
  "\<exists>r w'. load_run dark_lab demo_tools lab_fabric ''a3f'' 1 24 dark_start = Some (r, w') \<and> labels (cw_db w') = [] \<and> artifacts (cw_db w') = []"
proof -
  obtain eps where e: "fabric_link_endpoints (t_sha demo_tools) (t_fr demo_tools) lab_fabric = Inr eps" "2 \<le> length eps"
    using lab_two_ends by blast
  obtain w' where w': "load_run dark_lab demo_tools lab_fabric ''a3f'' 1 24 dark_start = Some (Inl TimeoutExpired, w')"
    using dark_load_run by blast
  have "\<forall>l m nd iface a b. lab_fetch dark_lab l m nd iface a b = []" by (simp add: dark_lab_def)
  from dark_run_collects_nothing [OF this e w'] w' show ?thesis by (simp add: dark_start_def empty_corpus_def)
qed

end
