(* ===== verification/Ablation.thy ===== *)
theory Ablation
  imports Corpus Datasets
begin

text \<open>
  The localization ablation, \<open>scripts/gate12_5_localization_ablation.py\<close>, on top of the rule baseline and the
  link matrix of \<open>Signal\<close> and the tables of \<open>Stats\<close>: the features of an interface in their two versions, the
  loading of the incidents, the message passing over the fabric graph, the three models and the run.
  \<open>std\<close> and \<open>slope\<close> stand for numpy's standard deviation and least-squares slope, the linear layers, the
  scaler and the training for torch and scikit-learn; a file is its name with the rows of its table.
\<close>

section \<open>Features of an interface\<close>

definition preprocessor_id :: "string \<Rightarrow> string" where
  "preprocessor_id version =
     (if version = ''v1'' then ''gate9-causal-features-v1'' else ''gate9-causal-features-v2-temporal'')"

definition STEP_COUNTERS :: "string list" where
  "STEP_COUNTERS = [''in_octets'', ''out_octets'', ''in_error_packets'', ''out_error_packets'',
     ''in_discarded_packets'', ''out_discarded_packets'']"

definition v1_row :: "causal_feats \<Rightarrow> pyfloat list" where
  "v1_row f = [util_ratio f, error_rate f, discard_rate f, sample_age_s f, of_int (missingness_mask f)]"

definition oper_values :: "raw_sample list \<Rightarrow> pyfloat list" where
  "oper_values win = map rs_value (filter (\<lambda>s. rs_metric s = ''oper_state'') (sort_key rs_t win))"

definition pairwise :: "'a list \<Rightarrow> ('a \<times> 'a) list" where
  "pairwise xs = zip xs (tl xs)"

definition step_rates :: "raw_sample list \<Rightarrow> string \<Rightarrow> pyfloat list" where
  "step_rates win m =
     (let pts = sort (map (\<lambda>s. (rs_t s, rs_value s)) (channel win m)) in
      map (\<lambda>((t0, v0), (t1, v1)). max 0 (v1 - v0) / max (t1 - t0) (1 / 1000)) (pairwise pts))"

definition temporal_row :: "(pyfloat list \<Rightarrow> pyfloat) \<Rightarrow> (pyfloat list \<Rightarrow> pyfloat) \<Rightarrow> pyfloat list \<Rightarrow> pyfloat list res" where
  "temporal_row std slope rates =
     (if length rates < 2 then Inr [0, 0, 0]
      else let mean = sum_list rates / of_nat (length rates) in
        Inr [std rates, slope rates, std rates / (mean + 1)])"

definition iface_features ::
    "(pyfloat list \<Rightarrow> pyfloat) \<Rightarrow> (pyfloat list \<Rightarrow> pyfloat) \<Rightarrow> string \<Rightarrow> raw_sample list \<Rightarrow> pyfloat \<Rightarrow> pyfloat \<Rightarrow>
     (pyfloat list \<times> bool) res" where
  "iface_features std slope version samples as_of w_seconds =
     bindr (causal_features samples as_of w_seconds NOMINAL_CAPACITY_BPS) (\<lambda>v1.
       let win = filter (in_window as_of w_seconds) samples;
           oper = oper_values win;
           oper_down = (\<exists>v \<in> set oper. v < 1 / 2)
       in if version \<noteq> ''v2'' then Inr (v1_row v1, oper_down)
          else bindr (map_res (\<lambda>m. temporal_row std slope (step_rates win m)) STEP_COUNTERS) (\<lambda>rows.
            let transitions = length (filter (\<lambda>(x, y). x \<noteq> y) (pairwise oper)) in
            Inr (v1_row v1 @ concat rows @ [of_nat transitions], oper_down)))"

section \<open>The graph of the interfaces\<close>

definition sorted_ends :: "candidate_link \<Rightarrow> string \<times> string" where
  "sorted_ends l = (min (fst (cl_endpoints l)) (snd (cl_endpoints l)), max (fst (cl_endpoints l)) (snd (cl_endpoints l)))"

definition link_ends :: "typed_graph \<Rightarrow> (string, string \<times> string) dict" where
  "link_ends g = dict_comp link_id sorted_ends (filter (\<lambda>l. cl_kind l = Fabric_link) (candidate_links g))"

definition node_ids :: "(string, string \<times> string) dict \<Rightarrow> string list" where
  "node_ids links = sort (remdups (concat (map (\<lambda>(_, a, b). [a, b]) links)))"

definition node_index :: "string list \<Rightarrow> (string, nat) dict" where
  "node_index ids = zip ids [0..<length ids]"

definition device_of :: "string \<Rightarrow> string" where
  "device_of n = text_before CHR '':'' n"

text \<open>Every name that is looked up in \<open>nidx\<close> is one of its keys.\<close>

definition cross_edges :: "(string, nat) dict \<Rightarrow> (string, string \<times> string) dict \<Rightarrow> (nat \<times> nat) list" where
  "cross_edges nidx links =
     concat (map (\<lambda>(_, a, b). let i = the (dict_get nidx a); j = the (dict_get nidx b) in [(i, j), (j, i)]) links)"

definition device_edges :: "(string, nat) dict \<Rightarrow> string list \<Rightarrow> (nat \<times> nat) list" where
  "device_edges nidx ids =
     concat (map (\<lambda>a. map (\<lambda>b. (the (dict_get nidx a), the (dict_get nidx b)))
       (filter (\<lambda>b. a \<noteq> b \<and> device_of a = device_of b) ids)) ids)"

definition edge_index :: "(string, string \<times> string) dict \<Rightarrow> (nat \<times> nat) list" where
  "edge_index links =
     (let ids = node_ids links; nidx = node_index ids in
      sort (remdups (cross_edges nidx links @ device_edges nidx ids)))"

section \<open>Loading the incidents\<close>

type_synonym window_file = "string \<times> raw_row list"

definition add_window ::
    "(raw_sample list \<Rightarrow> pyfloat \<Rightarrow> pyfloat \<Rightarrow> (pyfloat list \<times> bool) res) \<Rightarrow> string list \<Rightarrow> window_file \<Rightarrow>
     (string, pyfloat list) dict \<times> (string, bool) dict \<Rightarrow> ((string, pyfloat list) dict \<times> (string, bool) dict) res" where
  "add_window feats ids f st =
     bindr (endpoint_of (fst f)) (\<lambda>iid.
       if iid \<notin> set ids then Inr st
       else let sm = read_window_samples (snd f) in
         if sm = [] then Inr st
         else let as_of = Max (rs_t ` set sm); w = as_of - Min (rs_t ` set sm) in
           bindr (feats sm as_of w) (\<lambda>(fs, down).
             Inr (dict_set iid fs (fst st), dict_set iid down (snd st))))"

definition load_injection ::
    "(raw_sample list \<Rightarrow> pyfloat \<Rightarrow> pyfloat \<Rightarrow> (pyfloat list \<times> bool) res) \<Rightarrow> (string, string) dict \<Rightarrow>
     (string, string \<times> string) dict \<Rightarrow> window_file list \<Rightarrow> injection \<Rightarrow> abl_incident list res" where
  "load_injection feats lmap links files i =
     bindr (dict_index (fi_target i) ''link'') (\<lambda>target.
     bindr (fold_res (add_window feats (node_ids links)) (filter (\<lambda>f. incident_of (fst f) = show_nat (fi_id i)) files) ([], []))
       (\<lambda>(node_feat, node_down).
       case dict_get lmap target of
         None \<Rightarrow> Inr []
       | Some tlid \<Rightarrow>
           if length node_feat \<noteq> length (node_ids links) \<or> tlid \<notin> set (dict_keys links) then Inr []
           else bindr (dict_index LOCATION_INDUCTIVE_POLICY (fi_shard i)) (\<lambda>split.
             Inr [\<lparr>i_fc = fi_class i, i_tlid = tlid, i_leaf = fi_shard i, i_split = split,
                   i_node_feat = node_feat, i_node_down = node_down\<rparr>])))"

definition ABLATION_CAMPAIGN :: string where "ABLATION_CAMPAIGN = ''gate8-full-corpus-v3''"

definition ablation_campaign :: "corpus_db \<Rightarrow> campaign res" where
  "ablation_campaign d =
     (case filter (\<lambda>c. ca_key c = ABLATION_CAMPAIGN) (campaigns d) of
        [] \<Rightarrow> Inl NoResultFound | [c] \<Rightarrow> Inr c | _ \<Rightarrow> Inl MultipleResultsFound)"

definition load_ablation ::
    "(raw_sample list \<Rightarrow> pyfloat \<Rightarrow> pyfloat \<Rightarrow> (pyfloat list \<times> bool) res) \<Rightarrow> typed_graph \<Rightarrow> corpus_db \<Rightarrow>
     window_file list \<Rightarrow> abl_incident list res" where
  "load_ablation feats g d listing =
     bindr (ablation_campaign d) (\<lambda>c.
     bindr (map_res (load_injection feats (link_map g) (link_ends g) (filter (incident_name \<circ> fst) listing)) (settled_of (ca_id c) d))
       (\<lambda>incs. Inr (concat incs)))"

section \<open>Message passing\<close>

record layers =
  layer1 :: "pyfloat list \<Rightarrow> pyfloat list"
  layer2 :: "pyfloat list \<Rightarrow> pyfloat list"
  head_layer :: "pyfloat list \<Rightarrow> pyfloat"

definition vadd :: "pyfloat list \<Rightarrow> pyfloat list \<Rightarrow> pyfloat list" where
  "vadd = map2 (+)"

definition aggregate :: "pyfloat list list \<Rightarrow> (nat \<times> nat) list \<Rightarrow> pyfloat list list" where
  "aggregate x es = fold (\<lambda>(s, d) agg. agg[d := vadd (agg ! d) (x ! s)]) es (map (map (\<lambda>_. 0)) x)"

definition degrees :: "nat \<Rightarrow> (nat \<times> nat) list \<Rightarrow> pyfloat list" where
  "degrees n es = fold (\<lambda>(s, d) deg. deg[d := deg ! d + 1]) es (replicate n 0)"

definition conv :: "pyfloat list list \<Rightarrow> (nat \<times> nat) list \<Rightarrow> (pyfloat list \<Rightarrow> pyfloat list) \<Rightarrow> pyfloat list list res" where
  "conv x es lin =
     (if \<exists>(s, d) \<in> set es. length x \<le> s \<or> length x \<le> d then Inl IndexError
      else let agg = aggregate x es; deg = degrees (length x) es in
        Inr (map (\<lambda>i. map (max 0) (lin (vadd (x ! i) (map (\<lambda>a. a / max (deg ! i) 1) (agg ! i))))) [0..<length x]))"

definition forward :: "layers \<Rightarrow> pyfloat list list \<Rightarrow> (nat \<times> nat) list \<Rightarrow> (nat \<times> nat) list \<Rightarrow> pyfloat list res" where
  "forward net x es link_pairs =
     bindr (conv x es (layer1 net)) (\<lambda>h1.
     bindr (conv h1 es (layer2 net)) (\<lambda>h.
     map_res (\<lambda>(a, b). if length h \<le> a \<or> length h \<le> b then Inl IndexError else Inr (head_layer net (h ! a @ h ! b))) link_pairs))"

section \<open>The models\<close>

text \<open>\<open>dict(zip(lids, p, strict=True))\<close>.\<close>

definition zip_strict :: "string list \<Rightarrow> pyfloat list \<Rightarrow> (string, pyfloat) dict res" where
  "zip_strict lids p = (if length lids = length p then Inr (zip lids p) else Inl (ValueError ''zip() arguments differ in length''))"

record trainers =
  fit_probability :: "pyfloat list list \<Rightarrow> int list \<Rightarrow> pyfloat list list \<Rightarrow> pyfloat list"
  fit_scaler :: "pyfloat list list \<Rightarrow> pyfloat list \<Rightarrow> pyfloat list"
  fit_layers :: "nat \<Rightarrow> (nat \<times> nat) list \<Rightarrow> (nat \<times> nat) list \<Rightarrow> (pyfloat list list \<times> pyfloat list) list \<Rightarrow> layers"

definition mlp_score ::
    "(pyfloat list list \<Rightarrow> pyfloat list) \<Rightarrow> (string, string \<times> string) dict \<Rightarrow> abl_incident \<Rightarrow> (string, pyfloat) dict res" where
  "mlp_score predict links inc =
     bindr (link_row inc links True) (\<lambda>(X, _, lids). zip_strict lids (predict X))"

definition fit_mlp ::
    "trainers \<Rightarrow> (string, string \<times> string) dict \<Rightarrow> abl_incident list \<Rightarrow> (pyfloat list list \<Rightarrow> pyfloat list) res" where
  "fit_mlp tr links fit =
     bindr (map_res (\<lambda>c. link_row c links True) fit) (\<lambda>rows.
       if rows = [] then Inl (ValueError ''need at least one array to concatenate'')
       else Inr (fit_probability tr (concat (map fst rows)) (concat (map (\<lambda>(_, y, _). y) rows))))"

definition node_matrix :: "(pyfloat list \<Rightarrow> pyfloat list) \<Rightarrow> string list \<Rightarrow> abl_incident \<Rightarrow> pyfloat list list res" where
  "node_matrix scale ids inc = bindr (map_res (dict_index (i_node_feat inc)) ids) (\<lambda>X. Inr (map scale X))"

definition pair_indices :: "(string, string \<times> string) dict \<Rightarrow> (nat \<times> nat) list" where
  "pair_indices links =
     (let nidx = node_index (node_ids links) in map (\<lambda>(_, a, b). (the (dict_get nidx a), the (dict_get nidx b))) links)"

definition gnn_score ::
    "(pyfloat list \<Rightarrow> pyfloat list) \<Rightarrow> layers \<Rightarrow> (string, string \<times> string) dict \<Rightarrow> abl_incident \<Rightarrow> (string, pyfloat) dict res" where
  "gnn_score scale net links inc =
     bindr (node_matrix scale (node_ids links) inc) (\<lambda>x.
     bindr (forward net x (edge_index links) (pair_indices links)) (zip_strict (dict_keys links)))"

definition link_target :: "(string, string \<times> string) dict \<Rightarrow> abl_incident \<Rightarrow> pyfloat list" where
  "link_target links inc = map (\<lambda>lid. if lid = i_tlid inc then 1 else 0) (dict_keys links)"

definition fit_gnn ::
    "trainers \<Rightarrow> (string, string \<times> string) dict \<Rightarrow> nat \<Rightarrow> abl_incident list \<Rightarrow> ((pyfloat list \<Rightarrow> pyfloat list) \<times> layers) res" where
  "fit_gnn tr links width fit =
     (if fit = [] then Inl (ValueError ''need at least one array to concatenate'')
      else let scale = fit_scaler tr (concat (map (\<lambda>c. map snd (i_node_feat c)) fit)) in
        bindr (map_res (node_matrix scale (node_ids links)) fit) (\<lambda>xs.
          Inr (scale, fit_layers tr width (edge_index links) (pair_indices links) (zip xs (map (link_target links) fit)))))"

section \<open>The run\<close>

record ablation_report =
  ab_version :: string
  ab_rule :: "(string, class_row) dict"
  ab_mlp :: "(string, class_row) dict"
  ab_gnn :: "(string, class_row) dict"

definition fit_incidents :: "abl_incident list \<Rightarrow> abl_incident list" where
  "fit_incidents incs = filter (\<lambda>c. i_split c \<in> {''train'', ''validation''}) incs"

definition test_incidents :: "abl_incident list \<Rightarrow> abl_incident list" where
  "test_incidents incs = filter (\<lambda>c. i_split c = ''test'') incs"

definition feature_dim :: "abl_incident list \<Rightarrow> nat res" where
  "feature_dim incs =
     (case incs of [] \<Rightarrow> Inl IndexError
      | inc # _ \<Rightarrow> (case i_node_feat inc of [] \<Rightarrow> Inl StopIteration | (_, v) # _ \<Rightarrow> Inr (length v)))"

definition table_of ::
    "(abl_incident \<Rightarrow> (string, pyfloat) dict res) \<Rightarrow> abl_incident list \<Rightarrow> (string, class_row) dict res" where
  "table_of score test = bindr (eval_ranks score test) (\<lambda>rows. per_class rows 2000)"

definition run_models :: "trainers \<Rightarrow> string \<Rightarrow> (string, string \<times> string) dict \<Rightarrow> abl_incident list \<Rightarrow> ablation_report res" where
  "run_models tr version links incs =
     bindr (feature_dim incs) (\<lambda>width.
     bindr (table_of (rule_score links) (test_incidents incs)) (\<lambda>rule_out.
     bindr (fit_mlp tr links (fit_incidents incs)) (\<lambda>predict.
     bindr (table_of (mlp_score predict links) (test_incidents incs)) (\<lambda>mlp_out.
     bindr (fit_gnn tr links width (fit_incidents incs)) (\<lambda>(scale, net).
     bindr (table_of (gnn_score scale net links) (test_incidents incs)) (\<lambda>gnn_out.
       Inr \<lparr>ab_version = version, ab_rule = rule_out, ab_mlp = mlp_out, ab_gnn = gnn_out\<rparr>))))))"

definition run_ablation ::
    "(pyfloat list \<Rightarrow> pyfloat) \<Rightarrow> (pyfloat list \<Rightarrow> pyfloat) \<Rightarrow> trainers \<Rightarrow> string \<Rightarrow> typed_graph \<Rightarrow> corpus_db \<Rightarrow>
     window_file list \<Rightarrow> ablation_report res" where
  "run_ablation std slope tr version g d listing =
     bindr (load_ablation (iface_features std slope version) g d listing) (run_models tr version (link_ends g))"

section \<open>Features\<close>

definition feature_width :: "string \<Rightarrow> nat" where
  "feature_width version = (if version = ''v2'' then 24 else 5)"

lemma temporal_row_width: "temporal_row std slope rates = Inr r \<Longrightarrow> length r = 3"
  by (auto simp: temporal_row_def Let_def split: if_splits)

lemma map_res_widths: "map_res f xs = Inr ys \<Longrightarrow> (\<And>x y. f x = Inr y \<Longrightarrow> length y = k) \<Longrightarrow> length (concat ys) = k * length xs"
proof (induction xs arbitrary: ys)
  case (Cons x xs)
  then show ?case by (auto simp: bindr_Inr_iff)
qed simp

lemma iface_features_width: "iface_features std slope version sm t w = Inr (fs, down) \<Longrightarrow> length fs = feature_width version"
proof -
  have c: "length (concat rows) = 18" if "map_res (\<lambda>m. temporal_row std slope (step_rates win m)) STEP_COUNTERS = Inr rows" for win rows
    using map_res_widths [OF that, of 3] temporal_row_width by (simp add: STEP_COUNTERS_def)
  assume "iface_features std slope version sm t w = Inr (fs, down)"
  then show ?thesis
    unfolding iface_features_def Let_def bindr_Inr_iff
    by (auto simp: feature_width_def v1_row_def bindr_Inr_iff split: if_splits dest!: c)
qed

lemma iface_features_total: "\<exists>fs down. iface_features std slope version sm t w = Inr (fs, down)"
proof -
  have "\<exists>f. causal_features sm t w NOMINAL_CAPACITY_BPS = Inr f"
    by (simp add: causal_features_def Let_def split_def NOMINAL_CAPACITY_BPS_def)
  moreover have "map_res (\<lambda>m. temporal_row std slope (step_rates win m)) ms = Inr (map (\<lambda>m. projr (temporal_row std slope (step_rates win m))) ms)" for win ms
    by (rule map_res_total) (simp add: temporal_row_def Let_def)
  ultimately show ?thesis unfolding iface_features_def by (auto simp: Let_def)
qed

text \<open>The cut-off is the last sample of the window itself: it removes nothing, and the age of the sample,
  one of the five features of the first version, is always zero.\<close>

lemma ablation_window_uncut:
  assumes "sm \<noteq> []"
  shows "filter (in_window (Max (rs_t ` set sm)) (Max (rs_t ` set sm) - Min (rs_t ` set sm))) sm = sm \<and>
    (\<exists>f. causal_features sm (Max (rs_t ` set sm)) (Max (rs_t ` set sm) - Min (rs_t ` set sm)) NOMINAL_CAPACITY_BPS = Inr f \<and>
      sample_age_s f = 0)"
proof -
  have "filter (in_window (Max (rs_t ` set sm)) (Max (rs_t ` set sm) - Min (rs_t ` set sm))) sm = sm"
    by (rule filter_True) (auto simp: in_window_def)
  then show ?thesis using assms by (simp add: causal_features_def Let_def split_def NOMINAL_CAPACITY_BPS_def)
qed

section \<open>Loaded incidents\<close>

definition complete_incident :: "(string, string \<times> string) dict \<Rightarrow> nat \<Rightarrow> abl_incident \<Rightarrow> bool" where
  "complete_incident links k inc \<longleftrightarrow> i_tlid inc \<in> set (dict_keys links) \<and>
     (\<forall>n \<in> set (node_ids links). (\<exists>v. dict_get (i_node_feat inc) n = Some v \<and> length v = k) \<and>
        dict_get (i_node_down inc) n \<noteq> None)"

lemma dict_keys_update: "dict_keys (dict_set k v d) = (if k \<in> set (dict_keys d) then dict_keys d else dict_keys d @ [k])"
  by (rule update_keys)

definition windows_ok :: "string list \<Rightarrow> nat \<Rightarrow> (string, pyfloat list) dict \<times> (string, bool) dict \<Rightarrow> bool" where
  "windows_ok ids k st \<longleftrightarrow> dict_keys (snd st) = dict_keys (fst st) \<and> distinct (dict_keys (fst st)) \<and>
     set (dict_keys (fst st)) \<subseteq> set ids \<and> (\<forall>v \<in> snd ` set (fst st). length v = k)"

lemma add_window_ok:
  assumes "\<And>sm t w fs down. feats sm t w = Inr (fs, down) \<Longrightarrow> length fs = k"
    and "windows_ok ids k st" and "add_window feats ids f st = Inr st'"
  shows "windows_ok ids k st'"
proof -
  from assms(3) obtain iid where "st' = st \<or> iid \<in> set ids \<and> (\<exists>fs down. length fs = k \<and> st' = (dict_set iid fs (fst st), dict_set iid down (snd st)))"
    unfolding add_window_def Let_def bindr_Inr_iff by (auto simp: bindr_Inr_iff split: if_splits dest!: assms(1))
  then show ?thesis
  proof (elim disjE conjE exE)
    fix fs down assume i: "iid \<in> set ids" "length fs = k" "st' = (dict_set iid fs (fst st), dict_set iid down (snd st))"
    have "length v = k" if "(n, v) \<in> set (dict_set iid fs (fst st))" for n v
    proof -
      have "distinct (dict_keys (dict_set iid fs (fst st)))" using assms(2) by (simp add: windows_ok_def)
      from map_of_is_SomeI [OF this that] have "v = fs \<or> dict_get (fst st) n = Some v" by (auto split: if_splits)
      then show ?thesis using assms(2) i(2) by (fastforce simp: windows_ok_def dest: map_of_SomeD)
    qed
    then show ?thesis
      using assms(2) i unfolding windows_ok_def by (auto simp: dict_keys_update)
  qed (use assms(2) in simp)
qed

lemma fold_windows_ok:
  assumes "\<And>sm t w fs down. feats sm t w = Inr (fs, down) \<Longrightarrow> length fs = k"
    and "windows_ok ids k st" and "fold_res (add_window feats ids) fs st = Inr st'"
  shows "windows_ok ids k st'"
  using assms(2,3)
proof (induction fs arbitrary: st)
  case (Cons f fs)
  then obtain st1 where "add_window feats ids f st = Inr st1" "fold_res (add_window feats ids) fs st1 = Inr st'"
    by (auto simp: bindr_Inr_iff)
  moreover have "windows_ok ids k st1"
    by (rule add_window_ok [where feats = feats, OF _ Cons.prems(1)]) (use assms(1) \<open>add_window feats ids f st = Inr st1\<close> in auto)
  ultimately show ?case using Cons.IH by blast
qed simp

lemma node_ids_distinct [simp]: "distinct (node_ids links)"
  by (simp add: node_ids_def)

lemma node_ids_set: "set (node_ids links) = (\<Union>(lid, a, b) \<in> set links. {a, b})"
  by (auto simp: node_ids_def)

lemma load_injection_complete:
  assumes "\<And>sm t w fs down. feats sm t w = Inr (fs, down) \<Longrightarrow> length fs = k"
    and "load_injection feats lmap links files i = Inr incs" and "inc \<in> set incs"
  shows "complete_incident links k inc \<and> dict_get LOCATION_INDUCTIVE_POLICY (i_leaf inc) = Some (i_split inc) \<and>
    i_fc inc = fi_class i \<and> i_leaf inc = fi_shard i"
proof -
  let ?ids = "node_ids links"
  from assms(2) obtain target nf nd where
      f: "fold_res (add_window feats ?ids) (filter (\<lambda>f. incident_of (fst f) = show_nat (fi_id i)) files) ([], []) = Inr (nf, nd)"
    and r: "(case dict_get lmap target of None \<Rightarrow> Inr []
       | Some tlid \<Rightarrow> if length nf \<noteq> length ?ids \<or> tlid \<notin> set (dict_keys links) then Inr []
           else bindr (dict_index LOCATION_INDUCTIVE_POLICY (fi_shard i)) (\<lambda>split.
             Inr [\<lparr>i_fc = fi_class i, i_tlid = tlid, i_leaf = fi_shard i, i_split = split, i_node_feat = nf, i_node_down = nd\<rparr>])) = Inr incs"
    unfolding load_injection_def bindr_Inr_iff by force
  from r assms(3) have n: "length nf = length ?ids" "i_node_feat inc = nf" "i_node_down inc = nd" "i_tlid inc \<in> set (dict_keys links)"
      "dict_get LOCATION_INDUCTIVE_POLICY (i_leaf inc) = Some (i_split inc)" "i_fc inc = fi_class i" "i_leaf inc = fi_shard i"
    by (auto simp: bindr_Inr_iff intro: rev_image_eqI split: option.splits if_splits)
  have ok: "windows_ok ?ids k (nf, nd)"
    by (rule fold_windows_ok [OF assms(1) _ f]) (simp_all add: windows_ok_def)
  then have s: "set (dict_keys nf) \<subseteq> set ?ids" "distinct (dict_keys nf)" "dict_keys nd = dict_keys nf" "\<forall>v \<in> snd ` set nf. length v = k"
    by (simp_all add: windows_ok_def)
  have "card (set (dict_keys nf)) = card (set ?ids)"
    using n(1) distinct_card [OF s(2)] distinct_card [OF node_ids_distinct [of links]] by (simp only: length_map)
  then have e: "set (dict_keys nf) = set ?ids" by (rule card_subset_eq [OF finite_set s(1)])
  have "\<exists>v. dict_get nf m = Some v \<and> length v = k" "dict_get nd m \<noteq> None" if m: "m \<in> set ?ids" for m
  proof -
    from m e obtain v where v: "dict_get nf m = Some v" by (metis map_of_eq_None_iff not_None_eq set_map)
    then show "\<exists>v. dict_get nf m = Some v \<and> length v = k" using s(4) map_of_SomeD by fastforce
    have "m \<in> set (dict_keys nd)" using m unfolding s(3) e .
    then show "dict_get nd m \<noteq> None" by (simp add: map_of_eq_None_iff)
  qed
  then show ?thesis using n by (simp add: complete_incident_def)
qed

lemma load_ablation_complete:
  assumes "load_ablation (iface_features std slope version) g d listing = Inr incs" and "inc \<in> set incs"
  shows "complete_incident (link_ends g) (feature_width version) inc \<and>
    dict_get LOCATION_INDUCTIVE_POLICY (i_leaf inc) = Some (i_split inc) \<and>
    (\<exists>i \<in> set (injections d). fi_status i = ''settled'' \<and> i_fc inc = fi_class i \<and> i_leaf inc = fi_shard i)"
proof -
  from assms(1) obtain c :: campaign and parts where p: "map_res (load_injection (iface_features std slope version) (link_map g) (link_ends g) (filter (incident_name \<circ> fst) listing)) (settled_of (ca_id c) d) = Inr parts"
    and e: "concat parts = incs"
    unfolding load_ablation_def bindr_Inr_iff sum.inject by (elim exE conjE) (rule that)
  from assms(2) e obtain part where part: "part \<in> set parts" "inc \<in> set part" by auto
  from map_res_all [OF p part(1), of "\<lambda>part. \<exists>i \<in> set (settled_of (ca_id c) d). load_injection (iface_features std slope version) (link_map g) (link_ends g) (filter (incident_name \<circ> fst) listing) i = Inr part"]
  obtain i where i: "i \<in> set (settled_of (ca_id c) d)"
    "load_injection (iface_features std slope version) (link_map g) (link_ends g) (filter (incident_name \<circ> fst) listing) i = Inr part"
    by blast
  have "complete_incident (link_ends g) (feature_width version) inc \<and> dict_get LOCATION_INDUCTIVE_POLICY (i_leaf inc) = Some (i_split inc) \<and>
      i_fc inc = fi_class i \<and> i_leaf inc = fi_shard i"
    by (rule load_injection_complete [OF _ i(2) part(2)]) (rule iface_features_width)
  then show ?thesis using i(1) by (auto simp: settled_of_def)
qed

section \<open>The interface graph\<close>

definition adjacent :: "(string, string \<times> string) dict \<Rightarrow> string \<Rightarrow> string \<Rightarrow> bool" where
  "adjacent links m n \<longleftrightarrow> (\<exists>(_, a, b) \<in> set links. (m, n) = (a, b) \<or> (m, n) = (b, a)) \<or> m \<noteq> n \<and> device_of m = device_of n"

definition near :: "(string, string \<times> string) dict \<Rightarrow> string \<Rightarrow> string list" where
  "near links n = n # filter (\<lambda>m. adjacent links m n) (node_ids links)"

definition two_hops :: "(string, string \<times> string) dict \<Rightarrow> string \<Rightarrow> string list" where
  "two_hops links n = concat (map (near links) (near links n))"

lemma node_index_nth: "i < length (node_ids links) \<Longrightarrow> dict_get (node_index (node_ids links)) (node_ids links ! i) = Some i"
  unfolding node_index_def by (intro map_of_is_SomeI) (auto simp: in_set_zip)

lemma node_index_in:
  assumes "n \<in> set (node_ids links)"
  obtains i where "i < length (node_ids links)" "node_ids links ! i = n" "the (dict_get (node_index (node_ids links)) n) = i"
  using assms node_index_nth by (metis in_set_conv_nth option.sel)

lemma node_index_the:
  assumes "n \<in> set (node_ids links)" and "i < length (node_ids links)"
  shows "the (dict_get (node_index (node_ids links)) n) = i \<longleftrightarrow> node_ids links ! i = n"
  using assms node_index_in [OF assms(1)] node_index_nth [OF assms(2)] by (metis option.sel)

lemma links_in_nodes: "(lid, a, b) \<in> set links \<Longrightarrow> a \<in> set (node_ids links) \<and> b \<in> set (node_ids links)"
  unfolding node_ids_set by blast

text \<open>The index pairs of \<open>edge_index\<close> are exactly the adjacent interfaces.\<close>

lemma edge_index_iff:
  assumes "i < length (node_ids links)" and "j < length (node_ids links)"
  shows "(i, j) \<in> set (edge_index links) \<longleftrightarrow> adjacent links (node_ids links ! i) (node_ids links ! j)"
proof -
  let ?ids = "node_ids links" and ?x = "\<lambda>n. the (dict_get (node_index (node_ids links)) n)"
  have "(i, j) \<in> set (cross_edges (node_index ?ids) links) \<longleftrightarrow> (\<exists>(_, a, b) \<in> set links. (i, j) = (?x a, ?x b) \<or> (i, j) = (?x b, ?x a))"
    by (force simp: cross_edges_def Let_def)
  also have "\<dots> \<longleftrightarrow> (\<exists>(_, a, b) \<in> set links. (?ids ! i, ?ids ! j) = (a, b) \<or> (?ids ! i, ?ids ! j) = (b, a))"
  proof (intro bex_cong refl, clarify)
    fix lid a b assume "(lid, a, b) \<in> set links"
    then have m: "a \<in> set ?ids" "b \<in> set ?ids" using links_in_nodes by blast+
    have "(i = ?x a) = (?ids ! i = a)" "(i = ?x b) = (?ids ! i = b)" "(j = ?x a) = (?ids ! j = a)" "(j = ?x b) = (?ids ! j = b)"
      unfolding node_index_the [OF m(1) assms(1), symmetric] node_index_the [OF m(2) assms(1), symmetric]
        node_index_the [OF m(1) assms(2), symmetric] node_index_the [OF m(2) assms(2), symmetric] by (rule eq_commute)+
    then show "((i, j) = (?x a, ?x b) \<or> (i, j) = (?x b, ?x a)) = ((?ids ! i, ?ids ! j) = (a, b) \<or> (?ids ! i, ?ids ! j) = (b, a))"
      by simp
  qed
  finally have c: "(i, j) \<in> set (cross_edges (node_index ?ids) links) \<longleftrightarrow> \<dots>" .
  have "(i, j) \<in> set (device_edges (node_index ?ids) ?ids) \<longleftrightarrow>
      (\<exists>a \<in> set ?ids. \<exists>b \<in> set ?ids. a \<noteq> b \<and> device_of a = device_of b \<and> ?x a = i \<and> ?x b = j)"
    unfolding device_edges_def by auto
  also have "\<dots> \<longleftrightarrow> (\<exists>a \<in> set ?ids. \<exists>b \<in> set ?ids. a \<noteq> b \<and> device_of a = device_of b \<and> ?ids ! i = a \<and> ?ids ! j = b)"
    by (intro bex_cong refl) (simp only: node_index_the assms)
  also have "\<dots> \<longleftrightarrow> ?ids ! i \<noteq> ?ids ! j \<and> device_of (?ids ! i) = device_of (?ids ! j)"
    using assms by auto
  finally show ?thesis using c unfolding adjacent_def edge_index_def Let_def by simp
qed

lemma edge_index_bound:
  assumes "(i, j) \<in> set (edge_index links)"
  shows "i < length (node_ids links) \<and> j < length (node_ids links)"
proof -
  have "the (dict_get (node_index (node_ids links)) n) < length (node_ids links)" if "n \<in> set (node_ids links)" for n
    using that by (rule node_index_in) simp
  then show ?thesis
    using assms links_in_nodes unfolding edge_index_def Let_def cross_edges_def device_edges_def by fastforce
qed

lemma edge_index_sym: "(i, j) \<in> set (edge_index links) \<Longrightarrow> (j, i) \<in> set (edge_index links)"
  using edge_index_bound [of i j links] by (auto simp: edge_index_iff adjacent_def)

section \<open>Message passing reads neighbours\<close>

text \<open>Row \<open>i\<close> of the aggregate is the sum of the rows of its predecessors, in the order of the edges.\<close>

lemma aggregate_nth:
  assumes "i < length x"
  shows "aggregate x es ! i = fold (\<lambda>s v. vadd v (x ! s)) (map fst (filter (\<lambda>(s, d). d = i) es)) (map (\<lambda>_. 0) (x ! i))"
proof -
  have "fold (\<lambda>(s, d) agg. agg[d := vadd (agg ! d) (x ! s)]) es agg ! i =
      fold (\<lambda>s v. vadd v (x ! s)) (map fst (filter (\<lambda>(s, d). d = i) es)) (agg ! i)"
    if "i < length agg" for agg
    using that by (induction es arbitrary: agg) (auto simp: nth_list_update)
  from this [of "map (map (\<lambda>_. 0)) x"] assms show ?thesis by (simp add: aggregate_def)
qed

lemma degrees_nth:
  assumes "i < n"
  shows "degrees n es ! i = of_nat (length (filter (\<lambda>(s, d). d = i) es))"
proof -
  have "fold (\<lambda>(s, d) deg. deg[d := deg ! d + 1]) es deg ! i = deg ! i + of_nat (length (filter (\<lambda>(s, d). d = i) es))"
    if "i < length deg" for deg :: "pyfloat list"
    using that by (induction es arbitrary: deg) (auto simp: nth_list_update)
  from this [of "replicate n 0"] assms show ?thesis by (simp add: degrees_def)
qed

lemma conv_length: "conv x es lin = Inr h \<Longrightarrow> length h = length x"
  by (auto simp: conv_def Let_def split: if_splits)

lemma conv_total: "\<forall>(s, d) \<in> set es. s < length x \<and> d < length x \<Longrightarrow> \<exists>h. conv x es lin = Inr h"
  by (force simp: conv_def Let_def)

lemma conv_local:
  assumes "conv x es lin = Inr h" and "conv x' es lin = Inr h'" and "length x' = length x" and "i < length x"
    and "x' ! i = x ! i" and "\<And>s. (s, i) \<in> set es \<Longrightarrow> x' ! s = x ! s"
  shows "h' ! i = h ! i"
proof -
  have "fold (\<lambda>s v. vadd v (x' ! s)) (map fst (filter (\<lambda>(s, d). d = i) es)) v = fold (\<lambda>s v. vadd v (x ! s)) (map fst (filter (\<lambda>(s, d). d = i) es)) v" for v
    by (rule fold_cong) (use assms(6) in auto)
  then have "aggregate x' es ! i = aggregate x es ! i"
    using assms(3-5) by (simp only: aggregate_nth)
  then show ?thesis
    using assms(1-5) by (auto simp: conv_def Let_def split: if_splits)
qed

lemma forward_total:
  assumes "\<forall>(s, d) \<in> set es. s < length x \<and> d < length x" and "\<forall>(a, b) \<in> set ps. a < length x \<and> b < length x"
  shows "\<exists>out. forward net x es ps = Inr out \<and> length out = length ps"
proof -
  obtain h1 where h1: "conv x es (layer1 net) = Inr h1" using conv_total [OF assms(1)] by blast
  then have l: "length h1 = length x" by (rule conv_length)
  obtain h where h: "conv h1 es (layer2 net) = Inr h" using conv_total [of es h1] assms(1) l by auto
  then have l2: "length h = length x" using l by (simp add: conv_length)
  have "map_res (\<lambda>(a, b). if length h \<le> a \<or> length h \<le> b then Inl IndexError else Inr (head_layer net (h ! a @ h ! b))) ps =
      Inr (map (\<lambda>p. head_layer net (h ! fst p @ h ! snd p)) ps)"
    by (rule map_res_total) (use assms(2) l2 in auto)
  then show ?thesis unfolding forward_def h1 by (simp add: h)
qed

lemma forward_local:
  assumes "forward net x es ps = Inr out" and "forward net x' es ps = Inr out'" and "length x' = length x"
    and "k < length ps" and "ps ! k = (a, b)"
    and "\<And>i j s. i \<in> {a, b} \<Longrightarrow> j = i \<or> (j, i) \<in> set es \<Longrightarrow> s = j \<or> (s, j) \<in> set es \<Longrightarrow> x' ! s = x ! s"
  shows "out' ! k = out ! k"
proof -
  obtain h1 h where h: "conv x es (layer1 net) = Inr h1" "conv h1 es (layer2 net) = Inr h"
    and o: "map_res (\<lambda>(a, b). if length h \<le> a \<or> length h \<le> b then Inl IndexError else Inr (head_layer net (h ! a @ h ! b))) ps = Inr out"
    using assms(1) unfolding forward_def bindr_Inr_iff by blast
  obtain h1' h' where h': "conv x' es (layer1 net) = Inr h1'" "conv h1' es (layer2 net) = Inr h'"
    and o': "map_res (\<lambda>(a, b). if length h' \<le> a \<or> length h' \<le> b then Inl IndexError else Inr (head_layer net (h' ! a @ h' ! b))) ps = Inr out'"
    using assms(2) unfolding forward_def bindr_Inr_iff by blast
  have l: "length h1 = length x" "length h = length x" "length h1' = length x" "length h' = length x"
    using h h' assms(3) by (metis conv_length)+
  have ab: "a < length x" "b < length x"
    using map_res_nth [OF o assms(4)] unfolding assms(5) l by (auto split: if_splits)
  have bound: "(s, d) \<in> set es \<Longrightarrow> s < length x" for s d
    using h(1) by (fastforce simp: conv_def split: if_splits)
  have one: "h1' ! j = h1 ! j" if "i \<in> {a, b}" "j = i \<or> (j, i) \<in> set es" for i j
  proof (rule conv_local [OF h(1) h'(1) assms(3)])
    show "j < length x" using that ab bound by auto
  qed (use assms(6) [OF that] in auto)
  have two: "h' ! i = h ! i" if "i \<in> {a, b}" for i
  proof (rule conv_local [OF h(2) h'(2)])
    show "i < length h1" using that ab l by auto
  qed (use one [OF that] l in auto)
  show ?thesis
    using map_res_nth [OF o assms(4)] map_res_nth [OF o' assms(4)] two unfolding assms(5) by (auto split: if_splits)
qed

section \<open>The models answer\<close>

lemma rule_score_eq:
  assumes "complete_incident links k inc"
  shows "rule_score links inc = Inr (map (\<lambda>(lid, a, b).
    (lid, if the (dict_get (i_node_down inc) a) \<or> the (dict_get (i_node_down inc) b) then 1 else 0)) links)"
  unfolding rule_score_def
proof (rule map_res_total)
  fix l assume l: "l \<in> set links"
  obtain lid a b where e: "l = (lid, a, b)" by (cases l)
  have "dict_get (i_node_down inc) a \<noteq> None" "dict_get (i_node_down inc) b \<noteq> None"
    using assms links_in_nodes [of lid a b links] l unfolding e complete_incident_def by auto
  then show "(case l of (lid, a, b) \<Rightarrow> bindr (dict_index (i_node_down inc) a) (\<lambda>da.
       bindr (if da then Inr True else dict_index (i_node_down inc) b) (\<lambda>d. Inr (lid, if d then 1 else 0)))) =
    Inr (case l of (lid, a, b) \<Rightarrow> (lid, if the (dict_get (i_node_down inc) a) \<or> the (dict_get (i_node_down inc) b) then 1 else 0))"
    unfolding e by (auto simp: dict_index_def)
qed

lemma rule_score_total:
  assumes "complete_incident links k inc"
  shows "\<exists>sc. rule_score links inc = Inr sc \<and> dict_keys sc = dict_keys links"
  unfolding rule_score_eq [OF assms] by (simp add: split_def comp_def)

lemma median_total: "xs \<noteq> [] \<Longrightarrow> \<exists>m. median xs = Inr m"
  unfolding median_def Let_def length_sort by (cases "odd (length xs)") (simp, metis length_0_conv)

lemma column_scale_total: "X \<noteq> [] \<Longrightarrow> \<exists>p. column_scale X k = Inr p"
proof -
  assume X: "X \<noteq> []"
  obtain m where m: "median (map (\<lambda>r. r ! k) X) = Inr m" using median_total X by (metis list.map_disc_iff)
  obtain d where "median (map (\<lambda>r. \<bar>r ! k - m\<bar>) X) = Inr d" using median_total X by (metis list.map_disc_iff)
  then show ?thesis by (simp add: column_scale_def m)
qed

lemma link_row_total:
  assumes "complete_incident links k inc"
  shows "\<exists>X y. link_row inc links True = Inr (X, y, dict_keys links) \<and> length X = length links \<and> length y = length links"
proof -
  have d: "\<exists>v. dict_get (i_node_feat inc) n = Some v \<and> length v = k" if "n \<in> set (node_ids links)" for n
    using assms that by (simp add: complete_incident_def)
  let ?r = "\<lambda>(lid, a, b). the (dict_get (i_node_feat inc) a) @ the (dict_get (i_node_feat inc) b)"
  have m: "map_res (\<lambda>(lid, a, b). bindr (dict_index (i_node_feat inc) a) (\<lambda>x. bindr (dict_index (i_node_feat inc) b) (\<lambda>y. Inr (x @ y)))) links
      = Inr (map ?r links)"
  proof (rule map_res_total)
    fix l assume l: "l \<in> set links"
    obtain lid a b where e: "l = (lid, a, b)" by (cases l)
    obtain v w where "dict_get (i_node_feat inc) a = Some v" "dict_get (i_node_feat inc) b = Some w"
      using links_in_nodes [of lid a b links] l d unfolding e by blast
    then show "(case l of (lid, a, b) \<Rightarrow> bindr (dict_index (i_node_feat inc) a) (\<lambda>x. bindr (dict_index (i_node_feat inc) b) (\<lambda>y. Inr (x @ y)))) = Inr (?r l)"
      unfolding e by (simp add: dict_index_def)
  qed
  have len: "length (?r l) = 2 * k" if "l \<in> set links" for l
  proof -
    obtain lid a b where e: "l = (lid, a, b)" by (cases l)
    then have "a \<in> set (node_ids links)" "b \<in> set (node_ids links)" using links_in_nodes [of lid a b links] that by simp_all
    from d [OF this(1)] d [OF this(2)] show ?thesis unfolding e by auto
  qed
  have ne: "links \<noteq> []" using assms by (auto simp: complete_incident_def)
  then obtain l0 ls where ls: "links = l0 # ls" by (cases links) auto
  then have w: "(case map ?r links of [] \<Rightarrow> 0 | r # _ \<Rightarrow> length r) = 2 * k" using len by simp
  have h: "list_all (\<lambda>r. length r = 2 * k) (map ?r links)" using len by (simp add: list_all_iff del: split_paired_All split_paired_all)
  have "\<forall>i. \<exists>p. column_scale (map ?r links) i = Inr p" using column_scale_total ne by simp
  then obtain f where f: "\<And>i. column_scale (map ?r links) i = Inr (f i)" by metis
  have c: "map_res (column_scale (map ?r links)) [0..<2 * k] = Inr (map f [0..<2 * k])"
    by (rule map_res_total) (rule f)
  show ?thesis
    unfolding link_row_def m bindr_simps Let_def w using h by (simp add: c)
qed

lemma node_matrix_total:
  assumes "complete_incident links k inc"
  shows "node_matrix scale (node_ids links) inc = Inr (map (\<lambda>n. scale (the (dict_get (i_node_feat inc) n))) (node_ids links))"
proof -
  have "map_res (dict_index (i_node_feat inc)) (node_ids links) = Inr (map (\<lambda>n. the (dict_get (i_node_feat inc) n)) (node_ids links))"
    by (rule map_res_total) (use assms in \<open>auto simp: complete_incident_def dict_index_def\<close>)
  then show ?thesis by (simp add: node_matrix_def)
qed

lemma pair_indices_bound: "(a, b) \<in> set (pair_indices links) \<Longrightarrow> a < length (node_ids links) \<and> b < length (node_ids links)"
proof -
  assume "(a, b) \<in> set (pair_indices links)"
  then obtain lid m n where "(lid, m, n) \<in> set links" "a = the (dict_get (node_index (node_ids links)) m)" "b = the (dict_get (node_index (node_ids links)) n)"
    by (auto simp: pair_indices_def Let_def)
  with links_in_nodes show ?thesis by (metis node_index_in)
qed

lemma gnn_score_total:
  assumes "complete_incident links k inc"
  shows "\<exists>sc. gnn_score scale net links inc = Inr sc \<and> dict_keys sc = dict_keys links"
proof -
  let ?x = "map (\<lambda>n. scale (the (dict_get (i_node_feat inc) n))) (node_ids links)"
  have "\<exists>out. forward net ?x (edge_index links) (pair_indices links) = Inr out \<and> length out = length (pair_indices links)"
    by (rule forward_total) (use edge_index_bound pair_indices_bound in fastforce)+
  moreover have "length (pair_indices links) = length links" by (simp add: pair_indices_def Let_def)
  ultimately show ?thesis
    unfolding gnn_score_def node_matrix_total [OF assms] by (auto simp: zip_strict_def)
qed

lemma mlp_score_total:
  assumes "complete_incident links k inc" and "\<And>X. length (predict X) = length X"
  shows "\<exists>sc. mlp_score predict links inc = Inr sc \<and> dict_keys sc = dict_keys links"
  using link_row_total [OF assms(1)] assms(2) by (auto simp: mlp_score_def zip_strict_def)

section \<open>Tables\<close>

lemma eval_rank_total:
  assumes "score inc = Inr sc" and "i_tlid inc \<in> set (dict_keys sc)"
  shows "\<exists>r. eval_rank score inc = Inr r \<and> r_fc r = i_fc inc"
proof -
  obtain v where "dict_get sc (i_tlid inc) = Some v" using assms(2) by (metis map_of_eq_None_iff not_None_eq set_map)
  then show ?thesis using assms(1) by (simp add: eval_rank_def Let_def dict_index_def)
qed

lemma interval_total: "0 < n \<Longrightarrow> length xs = n \<Longrightarrow> \<exists>p. interval xs n = Inr p"
proof -
  assume n: "0 < n" and l: "length xs = n"
  have "nat \<lfloor>q * of_nat n\<rfloor> < n" if "0 \<le> q" "q < 1" for q :: pyfloat
  proof -
    have "q * of_nat n < of_nat n" using n that by simp
    then show ?thesis using that by (simp add: nat_less_iff floor_less_iff)
  qed
  from this [of "25 / 1000"] this [of "975 / 1000"] l show ?thesis by (simp add: interval_def percentile_def)
qed

lemma class_line_total: "0 < n \<Longrightarrow> \<exists>row. class_line rs n = Inr row \<and> cr_n row = length rs"
proof -
  assume n: "0 < n"
  have "length (bootstrap pair_auroc 20260704 (map r_scored rs) n) = n" by (simp add: bootstrap_def)
  from interval_total [OF n this] show ?thesis by (auto simp: class_line_def boot_auroc_def Let_def)
qed

lemma per_class_total:
  assumes "0 < n"
  shows "\<exists>tab. per_class rows n = Inr tab \<and> dict_keys tab = filter (\<lambda>c. \<exists>r \<in> set rows. r_fc r = c) CLASS_ORDER \<and>
    (\<forall>(c, row) \<in> set tab. cr_n row = length (filter (\<lambda>r. r_fc r = c) rows))"
proof -
  let ?step = "\<lambda>c out. let rs = filter (\<lambda>r. r_fc r = c) rows in
         if rs = [] then Inr out else bindr (class_line rs n) (\<lambda>row. Inr (dict_set c row out))"
  let ?ok = "\<lambda>cs out tab. dict_keys tab = dict_keys out @ filter (\<lambda>c. \<exists>r \<in> set rows. r_fc r = c) cs \<and>
      (\<forall>(c, row) \<in> set tab. cr_n row = length (filter (\<lambda>r. r_fc r = c) rows))"
  have "\<exists>tab. fold_res ?step cs out = Inr tab \<and> ?ok cs out tab"
    if "distinct cs" "set cs \<inter> set (dict_keys out) = {}" "\<forall>(c, row) \<in> set out. cr_n row = length (filter (\<lambda>r. r_fc r = c) rows)" for cs out
    using that
  proof (induction cs arbitrary: out)
    case (Cons c cs)
    let ?rs = "filter (\<lambda>r. r_fc r = c) rows"
    show ?case
    proof (cases "?rs = []")
      case True
      then have "\<not> (\<exists>r \<in> set rows. r_fc r = c)" by (simp add: filter_empty_conv)
      with True Cons.IH [of out] Cons.prems show ?thesis by simp
    next
      case False
      then have e: "\<exists>r \<in> set rows. r_fc r = c" by (simp add: filter_empty_conv)
      obtain row where row: "class_line ?rs n = Inr row" "cr_n row = length ?rs" using class_line_total [OF assms] by blast
      have fresh: "dict_set c row out = out @ [(c, row)]" by (rule dict_set_fresh) (use Cons.prems(2) in auto)
      have "\<exists>tab. fold_res ?step cs (out @ [(c, row)]) = Inr tab \<and> ?ok cs (out @ [(c, row)]) tab"
        by (rule Cons.IH) (use Cons.prems row(2) in auto)
      with False e row(1) fresh show ?thesis by (simp add: Let_def)
    qed
  qed auto
  from this [of CLASS_ORDER "[]"] show ?thesis unfolding per_class_def by (simp add: CLASS_ORDER_def)
qed

text \<open>The table of a model that scores every candidate of every test incident has a line for exactly the
  classes with a test incident, in the report's order, each over all test incidents of its class.\<close>

definition table_covers :: "abl_incident list \<Rightarrow> (string, class_row) dict \<Rightarrow> bool" where
  "table_covers test tab \<longleftrightarrow> dict_keys tab = filter (\<lambda>c. \<exists>inc \<in> set test. i_fc inc = c) CLASS_ORDER \<and>
     (\<forall>(c, row) \<in> set tab. cr_n row = length (filter (\<lambda>inc. i_fc inc = c) test))"

lemma table_of_total:
  assumes "\<And>inc. inc \<in> set test \<Longrightarrow> \<exists>sc. score inc = Inr sc \<and> i_tlid inc \<in> set (dict_keys sc)"
  shows "\<exists>tab. table_of score test = Inr tab \<and> table_covers test tab"
proof -
  have "\<forall>inc \<in> set test. \<exists>r. eval_rank score inc = Inr r \<and> r_fc r = i_fc inc"
    using assms eval_rank_total by meson
  then obtain f where f: "\<And>inc. inc \<in> set test \<Longrightarrow> eval_rank score inc = Inr (f inc) \<and> r_fc (f inc) = i_fc inc" by metis
  then have e: "eval_ranks score test = Inr (map f test)" unfolding eval_ranks_def by (intro map_res_total) simp
  obtain tab where t: "per_class (map f test) 2000 = Inr tab"
      "dict_keys tab = filter (\<lambda>c. \<exists>r \<in> set (map f test). r_fc r = c) CLASS_ORDER"
      "\<forall>(c, row) \<in> set tab. cr_n row = length (filter (\<lambda>r. r_fc r = c) (map f test))"
    using per_class_total [of 2000 "map f test"] by auto
  have "(\<exists>r \<in> set (map f test). r_fc r = c) \<longleftrightarrow> (\<exists>inc \<in> set test. i_fc inc = c)" for c using f by auto
  moreover have "length (filter (\<lambda>r. r_fc r = c) (map f test)) = length (filter (\<lambda>inc. i_fc inc = c) test)" for c
    using f by (simp add: filter_map comp_def cong: filter_cong)
  ultimately show ?thesis using t(2,3) unfolding table_of_def e table_covers_def by (simp add: t(1))
qed

section \<open>The run returns\<close>

lemma split_first_contains: "contains s sep \<Longrightarrow> split_first sep s \<noteq> None"
  by (induction s) auto

lemma endpoint_of_total:
  assumes "incident_name (fst f)"
  shows "\<exists>iid. endpoint_of (fst f) = Inr iid"
proof -
  from assms obtain u where u: "fst f = incident_prefix @ u" unfolding incident_name_def by (auto simp: prefix_def)
  have "suffix ''.parquet'' (incident_prefix @ u)" using assms u by (simp add: incident_name_def)
  then obtain w where w: "incident_prefix @ u = w @ ''.parquet''" unfolding suffix_def by blast
  have "suffix ''.parquet'' u"
  proof -
    from w obtain us where us: "incident_prefix = w @ us \<and> us @ u = ''.parquet'' \<or> incident_prefix @ us = w \<and> u = us @ ''.parquet''"
      unfolding append_eq_append_conv2 by blast
    have False if "incident_prefix = w @ us" "us @ u = ''.parquet''" "us \<noteq> []"
    proof -
      have "last us = last incident_prefix" using that(1,3) by (metis last_appendR)
      also have "\<dots> = CHR ''-''" by (simp add: incident_prefix_def)
      finally have "CHR ''-'' \<in> set (us @ u)" using that(3) last_in_set by fastforce
      then show False unfolding that(2) by simp
    qed
    with us show ?thesis by (cases "us = []") (auto simp: suffix_def)
  qed
  then obtain m where m: "u = m @ ''.parquet''" by (auto simp: suffix_def)
  have "take (length (fst f) - 17) (drop (length incident_prefix) (fst f)) = m"
    unfolding u m by (simp add: incident_prefix_def)
  then have "contains m ''--''" using assms by (simp add: incident_name_def)
  then obtain a b where "split_first ''--'' m = Some (a, b)" using split_first_contains by fastforce
  then show ?thesis unfolding endpoint_of_def u m by (simp add: before_last_dot_parquet)
qed

lemma add_window_total:
  assumes "\<And>sm t w. \<exists>fs down. feats sm t w = Inr (fs, down)" and "incident_name (fst f)"
  shows "\<exists>st'. add_window feats ids f st = Inr st'"
proof -
  obtain iid where i: "endpoint_of (fst f) = Inr iid" using endpoint_of_total [OF assms(2)] by blast
  let ?sm = "read_window_samples (snd f)"
  obtain fs down where "feats ?sm (Max (rs_t ` set ?sm)) (Max (rs_t ` set ?sm) - Min (rs_t ` set ?sm)) = Inr (fs, down)"
    using assms(1) by blast
  then show ?thesis by (simp add: add_window_def i Let_def)
qed

lemma fold_windows_total:
  assumes "\<And>sm t w. \<exists>fs down. feats sm t w = Inr (fs, down)" and "\<forall>f \<in> set fs. incident_name (fst f)"
  shows "\<exists>st'. fold_res (add_window feats ids) fs st = Inr st'"
  using assms(2)
proof (induction fs arbitrary: st)
  case (Cons f fs)
  have "incident_name (fst f)" using Cons.prems by simp
  from add_window_total [where feats = feats, OF assms(1) this] obtain st1 where "add_window feats ids f st = Inr st1" by blast
  with Cons.IH [of st1] Cons.prems show ?case by simp
qed simp

lemma load_ablation_total:
  assumes "ablation_campaign d = Inr c"
    and "\<forall>i \<in> set (settled_of (ca_id c) d). dict_get (fi_target i) ''link'' \<noteq> None \<and> dict_get LOCATION_INDUCTIVE_POLICY (fi_shard i) \<noteq> None"
  shows "\<exists>incs. load_ablation (iface_features std slope version) g d listing = Inr incs"
proof -
  let ?load = "load_injection (iface_features std slope version) (link_map g) (link_ends g) (filter (incident_name \<circ> fst) listing)"
  have "\<exists>part. ?load i = Inr part" if i: "i \<in> set (settled_of (ca_id c) d)" for i
  proof -
    obtain target split where t: "dict_get (fi_target i) ''link'' = Some target" "dict_get LOCATION_INDUCTIVE_POLICY (fi_shard i) = Some split"
      using assms(2) i by blast
    obtain st where "fold_res (add_window (iface_features std slope version) (node_ids (link_ends g)))
        (filter (\<lambda>f. incident_of (fst f) = show_nat (fi_id i)) (filter (incident_name \<circ> fst) listing)) ([], []) = Inr st"
      using fold_windows_total [OF iface_features_total] by fastforce
    with t show ?thesis by (simp add: load_injection_def dict_index_def split_def split: option.split)
  qed
  then obtain h where "\<And>i. i \<in> set (settled_of (ca_id c) d) \<Longrightarrow> ?load i = Inr (h i)" by metis
  then have "map_res ?load (settled_of (ca_id c) d) = Inr (map h (settled_of (ca_id c) d))" by (rule map_res_total)
  then show ?thesis unfolding load_ablation_def assms(1) by simp
qed

lemma complete_table_total:
  assumes "\<And>inc. inc \<in> set test \<Longrightarrow> complete_incident links k inc"
    and "\<And>inc. complete_incident links k inc \<Longrightarrow> \<exists>sc. score inc = Inr sc \<and> dict_keys sc = dict_keys links"
  shows "\<exists>tab. table_of score test = Inr tab \<and> table_covers test tab"
proof (rule table_of_total)
  fix inc assume "inc \<in> set test"
  then have c: "complete_incident links k inc" by (rule assms(1))
  then obtain sc where "score inc = Inr sc" "dict_keys sc = dict_keys links" using assms(2) by blast
  with c show "\<exists>sc. score inc = Inr sc \<and> i_tlid inc \<in> set (dict_keys sc)"
    by (intro exI [of _ sc]) (simp only: complete_incident_def simp_thms)
qed

lemma run_models_total:
  assumes "\<And>inc. inc \<in> set incs \<Longrightarrow> complete_incident links k inc" and "fit_incidents incs \<noteq> []"
    and "\<And>X y Z. length (fit_probability tr X y Z) = length Z"
  shows "\<exists>rep. run_models tr version links incs = Inr rep \<and> ab_version rep = version \<and> table_covers (test_incidents incs) (ab_rule rep) \<and>
    table_covers (test_incidents incs) (ab_mlp rep) \<and> table_covers (test_incidents incs) (ab_gnn rep)"
proof -
  let ?test = "test_incidents incs" and ?fit = "fit_incidents incs"
  have ct: "complete_incident links k inc" if "inc \<in> set ?test" for inc
    using assms(1) that by (simp add: test_incidents_def)
  have cf: "complete_incident links k inc" if "inc \<in> set ?fit" for inc
    using assms(1) that by (simp add: fit_incidents_def)
  obtain inc0 rest where i0: "incs = inc0 # rest" using assms(2) by (cases incs) (auto simp: fit_incidents_def)
  have "complete_incident links k inc0" using assms(1) i0 by simp
  then obtain n where "n \<in> set (node_ids links)" "dict_get (i_node_feat inc0) n \<noteq> None"
    unfolding complete_incident_def node_ids_set by fastforce
  then obtain p nf where "i_node_feat inc0 = p # nf" by (cases "i_node_feat inc0") auto
  then obtain width where dim: "feature_dim incs = Inr width" unfolding feature_dim_def i0 by (cases p) simp
  obtain tab1 where t1: "table_of (rule_score links) ?test = Inr tab1" "table_covers ?test tab1"
    using complete_table_total [of ?test links k "rule_score links", OF ct rule_score_total [of links k]] by blast
  have "\<exists>r. link_row c links True = Inr r" if "c \<in> set ?fit" for c using link_row_total [OF cf [OF that]] by blast
  then obtain lr where "\<And>c. c \<in> set ?fit \<Longrightarrow> link_row c links True = Inr (lr c)" by metis
  then have "map_res (\<lambda>c. link_row c links True) ?fit = Inr (map lr ?fit)" by (rule map_res_total)
  then obtain X y where m: "fit_mlp tr links ?fit = Inr (fit_probability tr X y)"
    using assms(2) by (simp add: fit_mlp_def)
  obtain tab2 where t2: "table_of (mlp_score (fit_probability tr X y) links) ?test = Inr tab2" "table_covers ?test tab2"
    using complete_table_total [of ?test links k "mlp_score (fit_probability tr X y) links", OF ct mlp_score_total [of links k, OF _ assms(3)]] by blast
  let ?s = "fit_scaler tr (concat (map (\<lambda>c. map snd (i_node_feat c)) ?fit))"
  have "map_res (node_matrix ?s (node_ids links)) ?fit =
      Inr (map (\<lambda>c. map (\<lambda>n. ?s (the (dict_get (i_node_feat c) n))) (node_ids links)) ?fit)"
    by (rule map_res_total) (rule node_matrix_total [OF cf])
  then obtain scale net where g: "fit_gnn tr links width ?fit = Inr (scale, net)"
    using assms(2) by (simp add: fit_gnn_def Let_def)
  obtain tab3 where t3: "table_of (gnn_score scale net links) ?test = Inr tab3" "table_covers ?test tab3"
    using complete_table_total [of ?test links k "gnn_score scale net links", OF ct gnn_score_total [of links k]] by blast
  show ?thesis unfolding run_models_def dim t1(1) m t2(1) g bindr_simps prod.case t3(1)
    using t1(2) t2(2) t3(2) by simp
qed


section \<open>What the network sees\<close>

text \<open>The score of a link depends only on the interfaces within two hops of its endpoints, where a hop is a
  fabric link or a common device: whatever happens on the other interfaces of the fabric, the network
  gives the link the same score.\<close>

theorem gnn_two_hops:
  assumes "gnn_score scale net links inc = Inr sc" and "gnn_score scale net links inc' = Inr sc'"
    and "dict_get links lid = Some (a, b)"
    and "\<forall>n \<in> set (two_hops links a @ two_hops links b). dict_get (i_node_feat inc') n = dict_get (i_node_feat inc) n"
  shows "\<exists>v. dict_get sc lid = Some v \<and> dict_get sc' lid = Some v"
proof -
  let ?ids = "node_ids links" and ?es = "edge_index links" and ?ps = "pair_indices links" and ?idx = "\<lambda>n. the (dict_get (node_index (node_ids links)) n)"
  obtain x out where x: "node_matrix scale ?ids inc = Inr x" and out: "forward net x ?es ?ps = Inr out" "zip_strict (dict_keys links) out = Inr sc"
    using assms(1) unfolding gnn_score_def bindr_Inr_iff by blast
  obtain x' out' where x': "node_matrix scale ?ids inc' = Inr x'" and out': "forward net x' ?es ?ps = Inr out'" "zip_strict (dict_keys links) out' = Inr sc'"
    using assms(2) unfolding gnn_score_def bindr_Inr_iff by blast
  have len: "length x = length ?ids" "length x' = length ?ids"
    using x x' by (auto simp: node_matrix_def bindr_Inr_iff dest: map_res_length)
  have row: "x' ! s = x ! s" if s: "s < length ?ids" and "?ids ! s \<in> set (two_hops links a @ two_hops links b)" for s
  proof -
    obtain m m' where m: "map_res (dict_index (i_node_feat inc)) ?ids = Inr m" "x = map scale m"
        "map_res (dict_index (i_node_feat inc')) ?ids = Inr m'" "x' = map scale m'"
      using x x' by (auto simp: node_matrix_def bindr_Inr_iff)
    have "dict_get (i_node_feat inc) (?ids ! s) = Some (m ! s)" "dict_get (i_node_feat inc') (?ids ! s) = Some (m' ! s)"
      using map_res_nth [OF m(1) s] map_res_nth [OF m(3) s] by simp_all
    then have "m' ! s = m ! s" using bspec [OF assms(4) that(2)] by simp
    then show ?thesis using m s map_res_length [OF m(1)] map_res_length [OF m(3)] by simp
  qed
  have mem: "(lid, a, b) \<in> set links" using assms(3) by (rule map_of_SomeD)
  define k where "k = length (takeWhile (\<lambda>l. fst l \<noteq> lid) links)"
  have k: "k < length links" "links ! k = (lid, a, b)"
    using assms(3) unfolding k_def by (induction links) auto
  have ab: "a \<in> set ?ids" "b \<in> set ?ids" using links_in_nodes [OF mem] by blast+
  have pk: "?ps ! k = (?idx a, ?idx b)" "length ?ps = length links" using k by (simp_all add: pair_indices_def Let_def)
  have "out' ! k = out ! k"
  proof (rule forward_local [OF out(1) out'(1) _ _ pk(1)])
    show "length x' = length x" "k < length ?ps" using len k(1) pk(2) by simp_all
    fix i j s assume i: "i \<in> {?idx a, ?idx b}" and j: "j = i \<or> (j, i) \<in> set ?es" and s: "s = j \<or> (s, j) \<in> set ?es"
    from i obtain n where n: "n = a \<or> n = b" "?idx n = i" by blast
    then have i': "i < length ?ids" "?ids ! i = n" using ab node_index_in by (metis, metis)
    have j': "j < length ?ids" "?ids ! j \<in> set (near links n)"
      using j i' edge_index_bound [of j i links] edge_index_iff [of j links i] by (auto simp: near_def)
    have s': "s < length ?ids" "?ids ! s \<in> set (near links (?ids ! j))"
      using s j'(1) edge_index_bound [of s j links] edge_index_iff [of s links j] by (auto simp: near_def)
    have "?ids ! s \<in> set (two_hops links n)" using j'(2) s'(2) by (auto simp: two_hops_def)
    then show "x' ! s = x ! s" using n(1) by (intro row [OF s'(1)]) auto
  qed
  moreover have "dict_get (zip (dict_keys links) o') lid = Some (o' ! k)" if "length o' = length links" for o' :: "pyfloat list"
    using that assms(3) unfolding k_def
  proof (induction links arbitrary: o')
    case (Cons l links)
    then show ?case by (cases o') (auto split: if_splits)
  qed simp
  ultimately show ?thesis
    using out(2) out'(2) by (auto simp: zip_strict_def split: if_splits)
qed

section \<open>The rule finds a link that is down\<close>

theorem rule_localises:
  assumes "complete_incident links k inc" and "dict_get links (i_tlid inc) = Some (a, b)"
    and "dict_get (i_node_down inc) a = Some True \<or> dict_get (i_node_down inc) b = Some True"
    and "\<forall>(lid, m, n) \<in> set links. lid \<noteq> i_tlid inc \<longrightarrow> dict_get (i_node_down inc) m = Some False \<and> dict_get (i_node_down inc) n = Some False"
    and "distinct (dict_keys links)"
  shows "\<exists>r. eval_rank (rule_score links) inc = Inr r \<and> r_rank r = 1 \<and> fst (r_scored r) = 1 \<and> (\<forall>p \<in> set (snd (r_scored r)). p = 0)"
proof -
  let ?down = "\<lambda>m. the (dict_get (i_node_down inc) m)"
  let ?f = "\<lambda>(lid, m, n). (lid :: string, if ?down m \<or> ?down n then 1 else 0 :: pyfloat)"
  obtain pre post where l: "links = pre @ (i_tlid inc, a, b) # post"
    using map_of_SomeD [OF assms(2)] by (auto simp: in_set_conv_decomp)
  have z: "map ?f ls = map (\<lambda>l. (fst l, 0)) ls \<and> i_tlid inc \<notin> set (dict_keys ls)" if "ls \<in> {pre, post}" for ls
  proof
    show "i_tlid inc \<notin> set (dict_keys ls)" using that assms(5) unfolding l by auto
    then have "?f q = (fst q, 0)" if "q \<in> set ls" for q
    proof -
      obtain lid m n where q: "q = (lid, m, n)" by (cases q)
      have "(lid, m, n) \<in> set links" using that \<open>ls \<in> {pre, post}\<close> unfolding q l by auto
      moreover have "lid \<noteq> i_tlid inc" using \<open>i_tlid inc \<notin> set (dict_keys ls)\<close> that q by force
      ultimately show ?thesis using assms(4) unfolding q by fastforce
    qed
    then show "map ?f ls = map (\<lambda>l. (fst l, 0)) ls" by (rule map_cong [OF refl])
  qed
  have "?f (i_tlid inc, a, b) = (i_tlid inc, 1)" using assms(3) by auto
  then have sc: "rule_score links inc = Inr (map (\<lambda>l. (fst l, 0)) pre @ (i_tlid inc, 1) # map (\<lambda>l. (fst l, 0)) post)"
    using rule_score_eq [OF assms(1)] z [of pre] z [of post] unfolding l by simp
  have g: "dict_get (map (\<lambda>l. (fst l, 0 :: pyfloat)) pre @ (i_tlid inc, 1) # map (\<lambda>l. (fst l, 0)) post) (i_tlid inc) = Some 1"
  proof -
    have "dict_get (map (\<lambda>l. (fst l, 0 :: pyfloat)) pre) (i_tlid inc) = None"
      using z [of pre] by (simp add: map_of_eq_None_iff comp_def image_image)
    then show ?thesis by (simp add: map_add_def)
  qed
  show ?thesis unfolding eval_rank_def sc bindr_simps dict_index_def g
    by (auto simp: Let_def filter_empty_conv comp_def)
qed

section \<open>The relative channels ignore a common load\<close>

lemma median_shift: "median (map (\<lambda>x. x + c) xs) = map_sum id (\<lambda>m. m + c) (median xs)"
proof -
  have "sort (map (\<lambda>x. x + c) xs) = map (\<lambda>x. x + c) (sort xs)"
    by (rule properties_for_sort) (simp_all add: sorted_map)
  moreover have "map (\<lambda>x. x + c) (sort xs) ! i = sort xs ! i + c" if "i < length xs" for i using that by simp
  moreover have "length xs div 2 < length xs" "length xs div 2 - Suc 0 < length xs" if "xs \<noteq> []" using that by (cases xs; simp)+
  ultimately show ?thesis
    by (cases "xs = []") (simp_all add: median_def Let_def add_divide_distrib del: nth_map)
qed

lemma column_scale_shift:
  assumes "\<forall>r \<in> set X. length r = length w" and "k < length w"
  shows "column_scale (map (\<lambda>r. vadd r w) X) k = map_sum id (\<lambda>(med, mad). (med + w ! k, mad)) (column_scale X k)"
proof -
  have n: "vadd r w ! k = r ! k + w ! k" if "r \<in> set X" for r using assms that by (simp add: vadd_def)
  have "map (\<lambda>r. r ! k) (map (\<lambda>r. vadd r w) X) = map (\<lambda>x. x + w ! k) (map (\<lambda>r. r ! k) X)" using n by simp
  moreover have "map (\<lambda>r. \<bar>r ! k - (m + w ! k)\<bar>) (map (\<lambda>r. vadd r w) X) = map (\<lambda>r. \<bar>r ! k - m\<bar>) X" for m using n by simp
  ultimately show ?thesis
    unfolding column_scale_def by (cases "median (map (\<lambda>r. r ! k) X)") (simp_all add: median_shift del: map_map, simp add: bindr_def split: sum.splits)
qed

theorem relative_shift:
  assumes "link_row inc links True = Inr (X, y, lids)"
    and "\<forall>n \<in> set (node_ids links). \<exists>v. dict_get (i_node_feat inc) n = Some v \<and> length v = length u \<and> dict_get (i_node_feat inc') n = Some (vadd v u)"
    and "i_tlid inc' = i_tlid inc"
  shows "\<exists>X'. link_row inc' links True = Inr (X', y, lids) \<and> map (drop (2 * length u)) X' = map (drop (2 * length u)) X"
proof -
  let ?raw = "\<lambda>i (lid, a, b). bindr (dict_index (i_node_feat i) a) (\<lambda>x. bindr (dict_index (i_node_feat i) b) (\<lambda>y. Inr (x @ y)))"
  let ?r = "\<lambda>(lid :: string, a, b). the (dict_get (i_node_feat inc) a) @ the (dict_get (i_node_feat inc) b)"
  let ?w = "u @ u" and ?L = "2 * length u"
  have one: "?raw inc l = Inr (?r l) \<and> ?raw inc' l = Inr (vadd (?r l) ?w) \<and> length (?r l) = ?L" if l: "l \<in> set links" for l
  proof -
    obtain lid a b where e: "l = (lid, a, b)" by (cases l)
    obtain v v' where "dict_get (i_node_feat inc) a = Some v" "length v = length u" "dict_get (i_node_feat inc') a = Some (vadd v u)"
      "dict_get (i_node_feat inc) b = Some v'" "length v' = length u" "dict_get (i_node_feat inc') b = Some (vadd v' u)"
    proof -
      have "a \<in> set (node_ids links)" "b \<in> set (node_ids links)" using links_in_nodes [of lid a b links] l unfolding e by simp_all
      from bspec [OF assms(2) this(1)] bspec [OF assms(2) this(2)] show ?thesis by (elim exE conjE) (rule that)
    qed
    then show ?thesis unfolding e by (simp add: dict_index_def vadd_def)
  qed
  let ?X0 = "map ?r links" and ?X1 = "map (\<lambda>r. vadd r ?w) (map ?r links)"
  have m: "map_res (?raw inc) links = Inr ?X0" by (rule map_res_total) (use one in blast)
  have m': "map_res (?raw inc') links = Inr ?X1" unfolding map_map comp_def by (rule map_res_total) (use one in blast)
  have len: "\<forall>r \<in> set ?X0. length r = length ?w" using one by (auto simp: mult_2)
  let ?width = "\<lambda>X. case X of [] \<Rightarrow> 0 | r # _ \<Rightarrow> length r"
  have w: "?width ?X0 = (if links = [] then 0 else ?L)" "?width ?X1 = (if links = [] then 0 else ?L)"
    using one by (cases links; simp add: vadd_def mult_2)+
  have h: "list_all (\<lambda>r. length r = ?width ?X0) ?X0" "list_all (\<lambda>r. length r = ?width ?X1) ?X1"
    unfolding w using len by (auto simp: list_all_iff vadd_def mult_2)
  let ?z = "\<lambda>cs r. r @ map (\<lambda>(x, med, mad). (x - med) / (14826 / 10000 * mad + 1 / 10 ^ 9)) (zip r cs)"
  obtain cs where cs: "map_res (column_scale ?X0) [0..<?width ?X0] = Inr cs" and X: "X = map (?z cs) ?X0"
    and y: "y = map (\<lambda>lid. if lid = i_tlid inc then 1 else 0) (dict_keys links)" "lids = dict_keys links"
    using assms(1) h(1) unfolding link_row_def m bindr_simps Let_def bindr_Inr_iff by (auto simp: bindr_Inr_iff)
  define cs' where "cs' = map (\<lambda>(k, med, mad). (med + ?w ! k, mad)) (zip [0..<?width ?X0] cs)"
  have "map_res (column_scale ?X1) [0..<?width ?X1] = Inr cs'"
    unfolding map_res_Inr_iff list_all2_conv_all_nth
  proof (intro conjI allI impI)
    have l: "length cs = ?width ?X0" using map_res_length [OF cs] by simp
    show "length [0..<?width ?X1] = length cs'" unfolding cs'_def w using l w by simp
    fix k assume "k < length [0..<?width ?X1]"
    then have k: "k < ?width ?X0" "k < length ?w" unfolding w by (auto split: if_splits)
    have "column_scale ?X0 k = Inr (cs ! k)" using map_res_nth [OF cs, of k] k(1) by simp
    then show "column_scale ?X1 ([0..<?width ?X1] ! k) = Inr (cs' ! k)"
      using column_scale_shift [OF len k(2)] k l unfolding w cs'_def by (simp add: split_def)
  qed
  then have r: "link_row inc' links True = Inr (map (?z cs') ?X1, y, lids)"
    using h(2) unfolding link_row_def m' bindr_simps Let_def y assms(3) by simp
  have "drop ?L (?z cs' (vadd r ?w)) = drop ?L (?z cs r)" if r: "r \<in> set ?X0" for r
  proof -
    have "links \<noteq> []" using r by auto
    then have c: "length cs = ?L" "?width ?X0 = ?L" using map_res_length [OF cs] w(1) by simp_all
    have "length r = length ?w" using bspec [OF len r] .
    then have l: "length r = ?L" "length cs = ?L" "length cs' = ?L"
      using c unfolding cs'_def by simp_all
    have "zip (vadd r ?w) cs' = map (\<lambda>(k, x, med, mad). (x + ?w ! k, med + ?w ! k, mad)) (zip [0..<?L] (zip r cs))"
      using l w(1) \<open>links \<noteq> []\<close> by (intro nth_equalityI) (auto simp: vadd_def cs'_def split_def mult_2)
    then have "map (\<lambda>(x, med, mad). (x - med) / (14826 / 10000 * mad + 1 / 10 ^ 9)) (zip (vadd r ?w) cs') =
        map (\<lambda>(x, med, mad). (x - med) / (14826 / 10000 * mad + 1 / 10 ^ 9)) (map snd (zip [0..<?L] (zip r cs)))"
      by (simp add: split_def)
    then show ?thesis using l by (simp add: vadd_def mult_2)
  qed
  then have "map (drop ?L) (map (?z cs') ?X1) = map (drop ?L) (map (?z cs) ?X0)"
    unfolding map_map comp_def by (intro map_cong refl) auto
  with r X show ?thesis by blast
qed

section \<open>A small fabric\<close>

definition demo_link :: "string \<Rightarrow> string \<Rightarrow> candidate_link" where
  "demo_link x y = \<lparr>cl_key = x @ '' '' @ y, cl_kind = Fabric_link, cl_endpoints = (x, y)\<rparr>"

definition tiny_graph :: typed_graph where
  "tiny_graph = \<lparr>device_nodes = [], interface_nodes = [], edges = [],
     candidate_links = [demo_link ''leaf1:ethernet-1/1'' ''spine1:ethernet-1/1'',
       demo_link ''leaf3:ethernet-1/1'' ''spine1:ethernet-1/3''], g_hash = []\<rparr>"

definition tiny_row :: raw_row where
  "tiny_row = \<lparr>rr_event_time = 1, rr_received_at = 1, rr_ingested_at = 1, rr_topology_hash = [], rr_node = [], rr_interface = [],
     rr_direction = ''na'', rr_metric = ''oper_state'', rr_value = 1, rr_unit = ''state'', rr_is_counter = False,
     rr_quality_flags = [], rr_source_sequence = 0, rr_schema_version = 1\<rparr>"

definition tiny_listing :: "window_file list" where
  "tiny_listing = (''notes--7.parquet'', []) # concat (map (\<lambda>i. map (\<lambda>iid. (window_name i iid, [tiny_row]))
     [''leaf1:ethernet-1/1'', ''spine1:ethernet-1/1'', ''leaf3:ethernet-1/1'', ''spine1:ethernet-1/3'', ''leaf3:ethernet-1/9''])
     [''7'', ''8''])"

definition tiny_injection :: "nat \<Rightarrow> string \<Rightarrow> injection" where
  "tiny_injection i leaf = \<lparr>fi_id = i, fi_campaign = 1, fi_class = ''impaired_link'', fi_shard = leaf,
     fi_target = [(''link'', leaf @ '':ethernet-1/1'')], fi_parameters = [], fi_traffic_seed = 0, fi_fault_seed = 0,
     fi_status = ''settled'', fi_simulated = True, fi_observed_at = None\<rparr>"

definition tiny_corpus :: corpus_db where
  "tiny_corpus = \<lparr>campaigns = [\<lparr>ca_id = 1, ca_key = ABLATION_CAMPAIGN, ca_revision = [], ca_seed = 0, ca_status = ''running''\<rparr>],
     injections = [tiny_injection 7 ''leaf1'', tiny_injection 8 ''leaf3''], labels = [], artifacts = [], c_next = 9\<rparr>"

definition zero_trainers :: trainers where
  "zero_trainers = \<lparr>fit_probability = (\<lambda>X y Z. map (\<lambda>_. 0) Z), fit_scaler = (\<lambda>X. id),
     fit_layers = (\<lambda>d es ps xs. \<lparr>layer1 = id, layer2 = id, head_layer = sum_list\<rparr>)\<rparr>"

lemma tiny_loaded:
  "map_sum id (map (\<lambda>inc. (i_fc inc, i_split inc))) (load_ablation (iface_features (\<lambda>_. 0) (\<lambda>_. 0) ''v1'') tiny_graph tiny_corpus tiny_listing)
   = Inr [(''impaired_link'', ''train''), (''impaired_link'', ''test'')]"
  by code_simp


definition square_links :: "(string, string \<times> string) dict" where
  "square_links = [(''L1'', ''l1:1'', ''s1:1''), (''L2'', ''l1:2'', ''s2:1''), (''L3'', ''l2:1'', ''s1:2''), (''L4'', ''l2:2'', ''s2:2'')]"

definition square_incident :: "pyfloat \<Rightarrow> abl_incident" where
  "square_incident z = \<lparr>i_fc = ''impaired_link'', i_tlid = ''L4'', i_leaf = ''leaf3'', i_split = ''test'',
     i_node_feat = map (\<lambda>n. (n, if n = ''l2:2'' then [z] else [0])) (node_ids square_links),
     i_node_down = map (\<lambda>n. (n, False)) (node_ids square_links)\<rparr>"

lemma square_complete: "complete_incident square_links 1 (square_incident z)"
  by (simp add: complete_incident_def square_incident_def square_links_def map_of_map_restrict [unfolded comp_def] restrict_map_def)

text \<open>In a square of two leaves and two spines the score of the link between the first leaf and the first
  spine does not change with the far uplink of the second leaf.\<close>

theorem gnn_two_hops_witness:
  "\<exists>sc sc'. gnn_score id net square_links (square_incident 0) = Inr sc \<and> gnn_score id net square_links (square_incident 1) = Inr sc' \<and>
     dict_get sc ''L1'' = dict_get sc' ''L1''"
proof -
  obtain sc sc' where s: "gnn_score id net square_links (square_incident 0) = Inr sc" "gnn_score id net square_links (square_incident 1) = Inr sc'"
    using gnn_score_total [OF square_complete] by blast
  have "''l2:2'' \<notin> set (two_hops square_links ''l1:1'' @ two_hops square_links ''s1:1'')"
    by code_simp
  then have "\<forall>n \<in> set (two_hops square_links ''l1:1'' @ two_hops square_links ''s1:1'').
      dict_get (i_node_feat (square_incident 1)) n = dict_get (i_node_feat (square_incident 0)) n"
    by (auto simp: square_incident_def map_of_map_restrict [unfolded comp_def] restrict_map_def)
  moreover have "dict_get square_links ''L1'' = Some (''l1:1'', ''s1:1'')" by (simp add: square_links_def)
  ultimately show ?thesis using gnn_two_hops [OF s] s by metis
qed

end
