(* ===== verification/ExitCheck.thy ===== *)
theory ExitCheck
  imports Ablation
begin

text \<open>
  The exit-criteria check of the corpus under load as a whole, \<open>scripts/gate12_5_exit_check.py\<close>: the integrity of the files
  and the tables, the signal of every incident, the results per class and the verdict, over the
  features and scores of \<open>Signal\<close> and the intervals of \<open>Stats\<close>. The files are their bytes under their path
  from the repository root; \<open>decode\<close> reads a table from its bytes. The text of the report is left out.
\<close>

section \<open>The files\<close>

definition base_name :: "string \<Rightarrow> string" where
  "base_name path = last (split_on (CHR ''/'') path)"

definition DATA_ROOT :: string where
  "DATA_ROOT = ''data/raw_telemetry/campaign='' @ ABLATION_CAMPAIGN @ ''/''"

definition exit_files :: "(string, string) dict \<Rightarrow> (string \<times> string) list" where
  "exit_files files = filter (\<lambda>f. prefix DATA_ROOT (fst f) \<and> incident_name (base_name (fst f))) files"

definition incident_key :: "string \<times> string \<Rightarrow> string" where
  "incident_key f = incident_of (base_name (fst f))"

definition files_of :: "(string \<times> string) list \<Rightarrow> injection \<Rightarrow> (string \<times> string) list" where
  "files_of files i = filter (\<lambda>f. incident_key f = show_nat (fi_id i)) files"

text \<open>\<open>sorted(files)[::40]\<close>: paths compare by their parts.\<close>

definition every_40th :: "'a list \<Rightarrow> 'a list" where
  "every_40th xs = map (\<lambda>k. xs ! k) (filter (\<lambda>k. k mod 40 = 0) [0..<length xs])"

definition spot_sample :: "(string \<times> string) list \<Rightarrow> (string \<times> string) list" where
  "spot_sample files = every_40th (sort_key (\<lambda>f. split_on (CHR ''/'') (fst f)) files)"

section \<open>Integrity\<close>

definition labelled_ids :: "nat \<Rightarrow> corpus_db \<Rightarrow> nat list" where
  "labelled_ids cid d =
     map gl_injection (filter (\<lambda>l. \<exists>r \<in> set (injections d). fi_id r = gl_injection l \<and> fi_campaign r = cid) (labels d))"

definition window_hashes :: "corpus_db \<Rightarrow> (string, string) dict" where
  "window_hashes d = dict_comp ar_uri ar_sha256
     (filter (\<lambda>a. ar_kind a = ''raw_telemetry_window'' \<and> contains (ar_uri a) (''campaign='' @ ABLATION_CAMPAIGN)) (artifacts d))"

record integrity =
  ig_settled :: nat
  ig_full :: nat
  ig_files :: nat
  ig_unlabelled :: nat
  ig_sha_ok :: nat
  ig_sha_tot :: nat

definition integrity_of :: "tools \<Rightarrow> nat \<Rightarrow> corpus_db \<Rightarrow> (string \<times> string) list \<Rightarrow> integrity" where
  "integrity_of tk cid d files =
     (let injs = settled_of cid d;
          art = window_hashes d;
          checked = filter (\<lambda>f. dict_get art (fst f) \<noteq> None) (spot_sample files)
      in \<lparr>ig_settled = length injs,
          ig_full = length (filter (\<lambda>i. length (files_of files i) = 16) injs),
          ig_files = length files,
          ig_unlabelled = length (filter (\<lambda>i. fi_id i \<notin> set (labelled_ids cid d)) injs),
          ig_sha_ok = length (filter (\<lambda>f. dict_get art (fst f) = Some (t_sha tk (snd f))) checked),
          ig_sha_tot = length checked\<rparr>)"

definition integrity_ok :: "integrity \<Rightarrow> bool" where
  "integrity_ok g \<longleftrightarrow> ig_full g = ig_settled g \<and> ig_files g = ig_settled g * 16 \<and> ig_unlabelled g = 0 \<and>
     ig_sha_ok g = ig_sha_tot g \<and> 0 < ig_sha_tot g"

section \<open>Signal\<close>

record link_case =
  lc_class :: string
  lc_scored :: scored
  lc_naive :: "nat option"
  lc_rank :: nat

definition signal_case ::
    "(string \<Rightarrow> table_row list) \<Rightarrow> (string, string) dict \<Rightarrow> (string \<times> string) list \<Rightarrow> injection \<Rightarrow> link_case list res" where
  "signal_case decode lmap files i =
     bindr (dict_index (fi_target i) ''link'') (\<lambda>target.
       case dict_get lmap target of
         None \<Rightarrow> Inr []
       | Some lid \<Rightarrow>
           bindr (link_features lmap (map (\<lambda>f. (base_name (fst f), decode (snd f))) (files_of files i))) (\<lambda>feats.
             if lid \<notin> set (dict_keys feats) \<or> length feats < 2 then Inr []
             else bindr (degradation_scores feats) (\<lambda>sc.
               bindr (dict_index sc lid) (\<lambda>tv.
               bindr (target_ranks feats lid) (\<lambda>rr.
               bindr (rank_of sc lid) (\<lambda>rk.
                 Inr [\<lparr>lc_class = fi_class i, lc_scored = (tv, map snd (filter (\<lambda>p. fst p \<noteq> lid) sc)),
                       lc_naive = map_option fst rr, lc_rank = rk\<rparr>]))))))"

record exit_line =
  el_auc :: pyfloat
  el_lo :: pyfloat
  el_hi :: pyfloat
  el_top1 :: pyfloat
  el_mean :: pyfloat
  el_naive_top1 :: pyfloat
  el_n :: nat

definition exit_class_line :: "link_case list \<Rightarrow> exit_line res" where
  "exit_class_line cs =
     bindr (auroc_ci (map lc_scored cs) 2000) (\<lambda>(auc, lo, hi).
       let naive = List.map_filter lc_naive cs in
       Inr \<lparr>el_auc = auc, el_lo = lo, el_hi = hi, el_top1 = share (\<lambda>k. k = 1) (map lc_rank cs),
            el_mean = sum_list (map (of_nat \<circ> lc_rank) cs) / of_nat (length cs),
            el_naive_top1 = (if naive = [] then 0 else share (\<lambda>k. k = 1) naive), el_n = length cs\<rparr>)"

definition exit_results :: "link_case list \<Rightarrow> (string, exit_line) dict res" where
  "exit_results cases =
     fold_res (\<lambda>c out.
         let pc = filter (\<lambda>k. lc_class k = c) cases in
         if pc = [] then Inr out else bindr (exit_class_line pc) (\<lambda>l. Inr (dict_set c l out)))
       CLASS_ORDER []"

section \<open>The check\<close>

record exit_report =
  xr_integrity :: integrity
  xr_lines :: "(string, exit_line) dict"
  xr_outcome :: string

definition line_interval :: "exit_line \<Rightarrow> pyfloat \<times> pyfloat" where
  "line_interval l = (el_lo l, el_hi l)"

definition exit_check ::
    "tools \<Rightarrow> (string \<Rightarrow> table_row list) \<Rightarrow> typed_graph \<Rightarrow> corpus_db \<Rightarrow> (string, string) dict \<Rightarrow> exit_report res" where
  "exit_check tk decode g d all_files =
     (let lmap = link_map g; files = exit_files all_files in
      bindr (ablation_campaign d) (\<lambda>c.
        let gr = integrity_of tk (ca_id c) d files in
        if lmap = [] then Inl ZeroDivisionError
        else bindr (map_res (signal_case decode lmap files) (settled_of (ca_id c) d)) (\<lambda>cases.
          bindr (exit_results (concat cases)) (\<lambda>lines.
            Inr \<lparr>xr_integrity = gr, xr_lines = lines,
                 xr_outcome = exit_outcome (integrity_ok gr) (map (\<lambda>(k, l). (k, line_interval l)) lines)\<rparr>))))"

definition exit_status :: "exit_report \<Rightarrow> nat" where
  "exit_status rep = (if xr_outcome rep \<noteq> ''STOP'' then 0 else 1)"

section \<open>Counting\<close>

lemma count_by_key:
  "distinct ks \<Longrightarrow> length (filter (\<lambda>f. key f \<in> set ks) fs) = sum_list (map (\<lambda>k. length (filter (\<lambda>f. key f = k) fs)) ks)"
proof (induction ks)
  case (Cons k ks)
  have "length (filter (\<lambda>f. key f = k \<or> key f \<in> set ks) fs) =
      length (filter (\<lambda>f. key f = k) fs) + length (filter (\<lambda>f. key f \<in> set ks) fs)"
    using Cons.prems by (induction fs) auto
  with Cons show ?case by simp
qed simp

lemma length_filter_full: "length (filter P xs) = length xs \<longleftrightarrow> (\<forall>x \<in> set xs. P x)"
proof
  assume "length (filter P xs) = length xs"
  then show "\<forall>x \<in> set xs. P x" by (metis length_filter_less nat_less_le)
qed simp

lemma every_40th_subset: "set (every_40th xs) \<subseteq> set xs"
  by (auto simp: every_40th_def)

text \<open>When every settled incident has 16 files and the number of files is 16 times the number of incidents,
  no file belongs to anything else.\<close>

lemma no_stray_files:
  assumes "distinct (map fi_id injs)" and "\<forall>i \<in> set injs. length (files_of files i) = 16"
  shows "length files = length injs * 16 \<longleftrightarrow> (\<forall>f \<in> set files. \<exists>i \<in> set injs. incident_key f = show_nat (fi_id i))"
proof -
  let ?ks = "map (\<lambda>i. show_nat (fi_id i)) injs"
  have "distinct ?ks"
    using assms(1) by (simp add: distinct_map inj_on_def show_nat_inj)
  from count_by_key [OF this, of incident_key files]
  have "length (filter (\<lambda>f. incident_key f \<in> set ?ks) files) = sum_list (map (\<lambda>i. length (files_of files i)) injs)"
    by (simp add: files_of_def comp_def)
  also have "\<dots> = length injs * 16"
    using assms(2) by (simp add: sum_list_triv cong: map_cong)
  finally have e: "length (filter (\<lambda>f. incident_key f \<in> set ?ks) files) = length injs * 16" .
  have "length files = length injs * 16 \<longleftrightarrow> (\<forall>f \<in> set files. incident_key f \<in> set ?ks)"
    unfolding e [symmetric] length_filter_full [symmetric] by (rule eq_commute)
  then show ?thesis by auto
qed

section \<open>Every signal has a score\<close>

definition full_feats :: "link_feats \<Rightarrow> bool" where
  "full_feats feats \<longleftrightarrow> distinct (dict_keys feats) \<and> (\<forall>d \<in> snd ` set feats. \<forall>k \<in> set SIGNAL_FEATURES. dict_get d k \<noteq> None)"

lemma full_feats_set:
  assumes "full_feats feats" and "\<forall>k \<in> set SIGNAL_FEATURES. dict_get d k \<noteq> None"
  shows "full_feats (dict_set lid d feats)"
proof -
  have "v = d \<or> v \<in> snd ` set feats" if "(k, v) \<in> set (dict_set lid d feats)" for k v
  proof -
    have "distinct (dict_keys (dict_set lid d feats))" using assms(1) by (simp add: full_feats_def)
    from map_of_is_SomeI [OF this that] show ?thesis by (force split: if_splits dest: map_of_SomeD)
  qed
  then have "\<forall>v \<in> snd ` set (dict_set lid d feats). \<forall>k \<in> set SIGNAL_FEATURES. dict_get v k \<noteq> None"
    using assms unfolding full_feats_def by fastforce
  then show ?thesis using assms(1) by (simp add: full_feats_def)
qed

lemma endpoint_features_total: "k \<in> set SIGNAL_FEATURES \<Longrightarrow> dict_get (endpoint_features rows) k \<noteq> None"
  by (auto simp: endpoint_features_def SIGNAL_FEATURES_def Let_def)

lemma add_endpoint_total:
  assumes "full_feats feats" and "incident_name (fst f)"
  shows "\<exists>feats'. add_endpoint lmap f feats = Inr feats' \<and> full_feats feats'"
proof -
  obtain iid where e: "endpoint_of (fst f) = Inr iid" using endpoint_of_total [OF assms(2)] by blast
  show ?thesis
  proof (cases "dict_get lmap iid")
    case None
    then show ?thesis using assms(1) by (simp add: add_endpoint_def e)
  next
    case (Some lid)
    let ?cur = "case dict_get feats lid of Some d \<Rightarrow> d | None \<Rightarrow> map (\<lambda>k. (k, 0)) SIGNAL_FEATURES"
    let ?fe = "endpoint_features (snd f)"
    let ?d = "map (\<lambda>k. (k, max (the (dict_get ?cur k)) (the (dict_get ?fe k)))) SIGNAL_FEATURES"
    have "dict_get ?cur k \<noteq> None" if "k \<in> set SIGNAL_FEATURES" for k
      using assms(1) that unfolding full_feats_def
      by (cases "dict_get feats lid") (force simp: map_of_map_restrict [unfolded comp_def] restrict_map_def dest: map_of_SomeD)+
    then have "map_res (\<lambda>k. bindr (dict_index ?cur k) (\<lambda>c. bindr (dict_index ?fe k) (\<lambda>x. Inr (k, max c x)))) SIGNAL_FEATURES = Inr ?d"
    proof (intro map_res_total)
      fix k assume k: "k \<in> set SIGNAL_FEATURES"
      obtain c x where "dict_get ?cur k = Some c" "dict_get ?fe k = Some x"
        using \<open>\<And>k. k \<in> set SIGNAL_FEATURES \<Longrightarrow> dict_get ?cur k \<noteq> None\<close> [OF k] endpoint_features_total [OF k, of "snd f"] by blast
      then show "bindr (dict_index ?cur k) (\<lambda>c. bindr (dict_index ?fe k) (\<lambda>x. Inr (k, max c x))) =
          Inr (k, max (the (dict_get ?cur k)) (the (dict_get ?fe k)))"
        by (simp add: dict_index_def)
    qed
    moreover have "\<forall>k \<in> set SIGNAL_FEATURES. dict_get ?d k \<noteq> None"
      by (simp add: map_of_map_restrict [unfolded comp_def] restrict_map_def)
    ultimately show ?thesis
      using full_feats_set [OF assms(1)] by (simp add: add_endpoint_def e Some Let_def)
  qed
qed

lemma link_features_total:
  assumes "\<forall>f \<in> set fs. incident_name (fst f)"
  shows "\<exists>feats. link_features lmap fs = Inr feats \<and> full_feats feats"
proof -
  have "\<exists>feats'. fold_res (add_endpoint lmap) fs feats = Inr feats' \<and> full_feats feats'" if "full_feats feats" for feats
    using assms that
  proof (induction fs arbitrary: feats)
    case (Cons f fs)
    have "incident_name (fst f)" using Cons.prems(1) by simp
    from add_endpoint_total [OF Cons.prems(2) this] obtain feats1 where "add_endpoint lmap f feats = Inr feats1" "full_feats feats1" by blast
    with Cons.IH [of feats1] Cons.prems(1) show ?case by simp
  qed simp
  then show ?thesis unfolding link_features_def by (simp add: full_feats_def)
qed

lemma feat_total: "full_feats feats \<Longrightarrow> lid \<in> set (dict_keys feats) \<Longrightarrow> f \<in> set SIGNAL_FEATURES \<Longrightarrow> \<exists>x. feat feats lid f = Inr x"
proof -
  assume a: "full_feats feats" "lid \<in> set (dict_keys feats)" "f \<in> set SIGNAL_FEATURES"
  then obtain d where d: "dict_get feats lid = Some d" by (metis map_of_eq_None_iff not_None_eq set_map)
  then have "dict_get d f \<noteq> None" using a(1,3) map_of_SomeD [OF d] unfolding full_feats_def by force
  then show ?thesis using d by (auto simp: feat_def dict_index_def)
qed

lemma centre_scale_total: "peers \<noteq> [] \<Longrightarrow> \<exists>med mad. centre_scale peers = Inr (med, mad)"
proof -
  assume p: "peers \<noteq> []"
  obtain med where m: "median peers = Inr med" using median_total [OF p] by blast
  obtain mad where "median (map (\<lambda>q. \<bar>q - med\<bar>) peers) = Inr mad" using median_total p by (metis list.map_disc_iff)
  then show ?thesis by (simp add: centre_scale_def m)
qed

lemma peer_z_total:
  assumes "full_feats feats" and "lid \<in> set (dict_keys feats)" and "f \<in> set SIGNAL_FEATURES"
    and "\<exists>lk \<in> set (dict_keys feats). lk \<noteq> lid"
  shows "\<exists>z. peer_z feats lid f = Inr z"
proof -
  let ?others = "filter (\<lambda>lk. lk \<noteq> lid) (dict_keys feats)"
  have "\<exists>x. feat feats lk f = Inr x" if "lk \<in> set ?others" for lk
    using feat_total [OF assms(1) _ assms(3)] that by simp
  then obtain h where "\<And>lk. lk \<in> set ?others \<Longrightarrow> feat feats lk f = Inr (h lk)" by metis
  then have p: "map_res (\<lambda>lk. feat feats lk f) ?others = Inr (map h ?others)" by (rule map_res_total)
  have "map h ?others \<noteq> []" using assms(4) by (simp only: map_is_Nil_conv filter_empty_conv) blast
  from centre_scale_total [OF this] obtain med mad where "centre_scale (map h ?others) = Inr (med, mad)" by blast
  moreover obtain x where "feat feats lid f = Inr x" using feat_total [OF assms(1-3)] by blast
  ultimately show ?thesis unfolding peer_z_def p by simp
qed

lemma fold_res_total: "(\<And>x s. x \<in> set xs \<Longrightarrow> \<exists>s'. f x s = Inr s') \<Longrightarrow> \<exists>s'. fold_res f xs s = Inr s'"
proof (induction xs arbitrary: s)
  case (Cons x xs)
  obtain s1 where "f x s = Inr s1" using Cons.prems [of x s] by auto
  with Cons.IH [of s1] Cons.prems show ?case by simp
qed simp

lemma score_links_total:
  assumes "\<And>lid. lid \<in> set (dict_keys feats) \<Longrightarrow> \<exists>x. score feats lid = Inr x"
  shows "\<exists>sc. score_links score feats = Inr sc \<and> dict_keys sc = dict_keys feats"
proof -
  from assms obtain h where h: "\<And>lid. lid \<in> set (dict_keys feats) \<Longrightarrow> score feats lid = Inr (h lid)" by metis
  have "score_links score feats = Inr (map (\<lambda>lid. (lid, h lid)) (dict_keys feats))"
    unfolding score_links_def by (rule map_res_total) (simp add: h)
  then show ?thesis by (simp add: comp_def)
qed

lemma rank_of_total: "t \<in> set (dict_keys sc) \<Longrightarrow> \<exists>k. rank_of sc t = Inr k"
  by (simp add: rank_of_def)

lemma other_key:
  assumes "distinct ks" and "2 \<le> length ks"
  shows "\<exists>k \<in> set ks. k \<noteq> l"
proof (rule ccontr)
  assume "\<not> ?thesis"
  then have "card (set ks) \<le> card {l}" by (intro card_mono) auto
  with assms distinct_card [OF assms(1)] show False by simp
qed

lemma signal_case_total:
  assumes "dict_get (fi_target i) ''link'' \<noteq> None" and "\<forall>f \<in> set files. incident_name (base_name (fst f))"
  shows "\<exists>cs. signal_case decode lmap files i = Inr cs"
proof -
  obtain target where t: "dict_get (fi_target i) ''link'' = Some target" using assms(1) by blast
  let ?fs = "map (\<lambda>f. (base_name (fst f), decode (snd f))) (files_of files i)"
  have "\<forall>f \<in> set ?fs. incident_name (fst f)" using assms(2) by (simp add: files_of_def)
  from link_features_total [OF this] obtain feats where f: "link_features lmap ?fs = Inr feats" "full_feats feats" by blast
  show ?thesis
  proof (cases "dict_get lmap target")
    case (Some lid)
    show ?thesis
    proof (cases "lid \<notin> set (dict_keys feats) \<or> length feats < 2")
      case True
      then show ?thesis by (simp add: signal_case_def dict_index_def t Some f(1))
    next
      case False
      then have lid: "lid \<in> set (dict_keys feats)" "2 \<le> length feats" by simp_all
      have other: "\<exists>lk \<in> set (dict_keys feats). lk \<noteq> l" for l
        using f(2) lid(2) by (intro other_key) (simp_all add: full_feats_def)
      note z = peer_z_total [OF f(2) _ _ other]
      have score: "\<exists>sc. score_links sco feats = Inr sc \<and> dict_keys sc = dict_keys feats"
        if "sco = degradation_score \<or> (\<exists>h. sco = largest_z h)" for sco :: "link_feats \<Rightarrow> string \<Rightarrow> pyfloat res"
      proof (rule score_links_total)
        fix l assume l: "l \<in> set (dict_keys feats)"
        have "\<exists>s'. bindr (peer_z feats l ft) g = Inr s'" if "ft \<in> set SIGNAL_FEATURES" "\<And>x. \<exists>y. g x = Inr y" for ft g
          using z [OF l that(1)] that(2) by (auto simp: bindr_Inr_iff)
        then have "\<exists>s'. fold_res (\<lambda>ft s. bindr (peer_z feats l ft) (g ft s)) SIGNAL_FEATURES s0 = Inr s'"
          if "\<And>ft s x. \<exists>y. g ft s x = Inr y" for g and s0 :: pyfloat
          using that by (intro fold_res_total) blast
        then show "\<exists>x. sco feats l = Inr x"
          using that unfolding degradation_score_def largest_z_def by (elim disjE exE) simp_all
      qed
      obtain sc where sc: "degradation_scores feats = Inr sc" "dict_keys sc = dict_keys feats"
        using score unfolding degradation_scores_def by blast
      obtain naive where n: "score_links (largest_z (\<lambda>f z. \<bar>z\<bar>)) feats = Inr naive" "dict_keys naive = dict_keys feats" using score by blast
      obtain dir where d: "score_links (largest_z (\<lambda>f z. max 0 (z * degrading f))) feats = Inr dir" "dict_keys dir = dict_keys feats" using score by blast
      obtain a b k where r: "rank_of naive lid = Inr a" "rank_of dir lid = Inr b" "rank_of sc lid = Inr k"
        using rank_of_total lid(1) sc(2) n(2) d(2) by metis
      have "target_ranks feats lid = Inr (Some (a, b))" using False n(1) d(1) r by (simp add: target_ranks_def)
      moreover obtain tv where "dict_get sc lid = Some tv" using lid(1) sc(2) by (metis map_of_eq_None_iff not_None_eq set_map)
      ultimately show ?thesis using False sc(1) r(3) by (simp add: signal_case_def dict_index_def t Some f(1))
    qed
  qed (simp add: signal_case_def dict_index_def t)
qed

lemma exit_class_line_total: "cs \<noteq> [] \<Longrightarrow> \<exists>l. exit_class_line cs = Inr l \<and> el_n l = length cs"
proof -
  have "length (bootstrap pair_auroc 987654321 (map lc_scored cs) 2000) = 2000" by (simp add: bootstrap_def)
  from interval_total [OF _ this] obtain p where "interval (bootstrap pair_auroc 987654321 (map lc_scored cs) 2000) 2000 = Inr p" by auto
  moreover assume "cs \<noteq> []"
  ultimately show ?thesis by (simp add: exit_class_line_def auroc_ci_def Let_def split_def)
qed

lemma exit_results_total: "\<exists>lines. exit_results cases = Inr lines"
  unfolding exit_results_def
proof (rule fold_res_total)
  fix c s
  show "\<exists>s'. (let pc = filter (\<lambda>k. lc_class k = c) cases in
         if pc = [] then Inr s else bindr (exit_class_line pc) (\<lambda>l. Inr (dict_set c l s))) = Inr s'"
    using exit_class_line_total by (fastforce simp: Let_def)
qed

lemma exit_check_total:
  assumes "ablation_campaign d = Inr c" and "link_map g \<noteq> []"
    and "\<forall>i \<in> set (settled_of (ca_id c) d). dict_get (fi_target i) ''link'' \<noteq> None"
  shows "\<exists>rep. exit_check tk decode g d all_files = Inr rep"
proof -
  let ?files = "exit_files all_files"
  have n: "\<forall>f \<in> set ?files. incident_name (base_name (fst f))" by (simp add: exit_files_def)
  have "\<exists>cs. signal_case decode (link_map g) ?files i = Inr cs" if "i \<in> set (settled_of (ca_id c) d)" for i
    using signal_case_total n assms(3) that by blast
  then obtain h where "\<And>i. i \<in> set (settled_of (ca_id c) d) \<Longrightarrow> signal_case decode (link_map g) ?files i = Inr (h i)" by metis
  then have m: "map_res (signal_case decode (link_map g) ?files) (settled_of (ca_id c) d) = Inr (map h (settled_of (ca_id c) d))" by (rule map_res_total)
  obtain lines where "exit_results (concat (map h (settled_of (ca_id c) d))) = Inr lines" using exit_results_total by blast
  with assms(2) show ?thesis by (simp add: exit_check_def assms(1) Let_def m)
qed

section \<open>What an exit status of zero means\<close>

definition line_above_chance :: "(string, exit_line) dict \<Rightarrow> string \<Rightarrow> bool" where
  "line_above_chance lines k \<longleftrightarrow> (\<exists>l. dict_get lines k = Some l \<and> 1 / 2 < el_lo l)"

lemma separable_lines: "separable (map (\<lambda>(k, l). (k, line_interval l)) lines) = line_above_chance lines"
proof
  fix k
  have "dict_get (map (\<lambda>(k, l). (k, line_interval l)) lines) k = map_option line_interval (dict_get lines k)" by (induction lines) auto
  then show "separable (map (\<lambda>(k, l). (k, line_interval l)) lines) k = line_above_chance lines k"
    by (cases "dict_get lines k") (simp_all add: separable_def line_above_chance_def line_interval_def)
qed

lemma control_lines:
  "control_honest (map (\<lambda>(k, l). (k, line_interval l)) lines) \<longleftrightarrow>
     (\<forall>l. dict_get lines ''healthy_control'' = Some l \<longrightarrow> el_lo l \<le> 1 / 2 \<and> 1 / 2 \<le> el_hi l)"
proof -
  have "dict_get (map (\<lambda>(k, l). (k, line_interval l)) lines) ''healthy_control'' = map_option line_interval (dict_get lines ''healthy_control'')"
    by (induction lines) auto
  then show ?thesis by (cases "dict_get lines ''healthy_control''") (simp_all add: control_honest_def line_interval_def Let_def)
qed

lemma integrity_exact:
  assumes "distinct (map fi_id (injections d))"
  shows "integrity_ok (integrity_of tk cid d files) \<longleftrightarrow>
    (\<forall>i \<in> set (settled_of cid d). length (files_of files i) = 16 \<and> (\<exists>l \<in> set (labels d). gl_injection l = fi_id i)) \<and>
    (\<forall>f \<in> set files. \<exists>i \<in> set (settled_of cid d). incident_key f = show_nat (fi_id i)) \<and>
    (\<forall>f \<in> set (spot_sample files). \<forall>h. dict_get (window_hashes d) (fst f) = Some h \<longrightarrow> h = t_sha tk (snd f)) \<and>
    (\<exists>f \<in> set (spot_sample files). dict_get (window_hashes d) (fst f) \<noteq> None)"
proof -
  let ?injs = "settled_of cid d" and ?art = "window_hashes d"
  have dist: "distinct (map fi_id ?injs)" using assms by (simp add: settled_of_def distinct_map_filter)
  have full: "length (filter (\<lambda>i. length (files_of files i) = 16) ?injs) = length ?injs \<longleftrightarrow> (\<forall>i \<in> set ?injs. length (files_of files i) = 16)"
    by (rule length_filter_full)
  have lab: "(fi_id i \<in> set (labelled_ids cid d)) = (\<exists>l \<in> set (labels d). gl_injection l = fi_id i)" if "i \<in> set ?injs" for i
    using that by (force simp: labelled_ids_def settled_of_def)
  have unl: "length (filter (\<lambda>i. fi_id i \<notin> set (labelled_ids cid d)) ?injs) = 0 \<longleftrightarrow> (\<forall>i \<in> set ?injs. \<exists>l \<in> set (labels d). gl_injection l = fi_id i)"
    using lab by (simp add: filter_empty_conv)
  let ?ch = "filter (\<lambda>f. dict_get ?art (fst f) \<noteq> None) (spot_sample files)"
  have sha: "length (filter (\<lambda>f. dict_get ?art (fst f) = Some (t_sha tk (snd f))) ?ch) = length ?ch \<longleftrightarrow>
      (\<forall>f \<in> set (spot_sample files). \<forall>h. dict_get ?art (fst f) = Some h \<longrightarrow> h = t_sha tk (snd f))"
    unfolding length_filter_full by (auto, metis option.inject)
  have tot: "0 < length ?ch \<longleftrightarrow> (\<exists>f \<in> set (spot_sample files). dict_get ?art (fst f) \<noteq> None)"
    unfolding length_greater_0_conv filter_empty_conv by blast
  show ?thesis
    unfolding integrity_ok_def integrity_of_def Let_def integrity.simps full unl sha tot
    using no_stray_files [OF dist, of files] by blast
qed

lemma two_verdicts:
  "(if (if \<not> (i \<and> h) then ''STOP'' else if f \<and> r then ''QUALIFIED PASS'' else ''STOP'') \<noteq> ''STOP'' then 0 else 1) = (0 :: nat) \<longleftrightarrow>
     i \<and> h \<and> f \<and> r"
  by (cases i; cases h; cases f; cases r; simp)


text \<open>A corpus with one settled incident and none of its files: the check runs and stops.\<close>

definition bare_tools :: tools where
  "bare_tools = \<lparr>t_sha = id, t_fr = (\<lambda>_. []), t_iso = (\<lambda>_. []), t_date = (\<lambda>_. []), t_float = (\<lambda>_. Inr 0),
     t_write = (\<lambda>_. []), t_names = (\<lambda>_. []), t_rows = (\<lambda>_. 0)\<rparr>"

definition bare_corpus :: corpus_db where
  "bare_corpus = tiny_corpus\<lparr>injections := [tiny_injection 7 ''leaf1'']\<rparr>"


end
